(* ===== verification/Prelude.thy ===== *)
theory Prelude
  imports Main "HOL-Library.Word"
begin

text \<open>
  Shared vocabulary of the development: the C integer ranges and their wrap-around, the
  ASCII character classes of \<^verbatim>\<open><ctype.h>\<close>, C strings, results of code that can
  throw, and generic lemmas on lists that several components use.  The facts meant for
  rewriting are declared \<^verbatim>\<open>simp\<close>; the collections below gather the rest.
\<close>

named_theorems avs_defs "definitions a component's proofs unfold together"
named_theorems avs_bounds "range facts of machine integers"


section \<open>Machine integers\<close>

definition INT_MIN :: int where "INT_MIN = - 2147483648"
definition INT_MAX :: int where "INT_MAX = 2147483647"
definition INT64_MIN :: int where "INT64_MIN = - 9223372036854775808"
definition INT64_MAX :: int where "INT64_MAX = 9223372036854775807"

lemmas int_limits = INT_MIN_def INT_MAX_def INT64_MIN_def INT64_MAX_def

text \<open>Two's complement wrap-around: the value a store to \<^verbatim>\<open>int\<close> (32 bit) or
  \<^verbatim>\<open>int64_t\<close> keeps of a mathematical integer.\<close>

definition wrap32 :: "int \<Rightarrow> int" where
  "wrap32 i = (i + 2147483648) mod 4294967296 - 2147483648"

definition wrap64 :: "int \<Rightarrow> int" where
  "wrap64 i = (i + 9223372036854775808) mod 18446744073709551616 - 9223372036854775808"

definition is_int32 :: "int \<Rightarrow> bool" where
  "is_int32 i \<longleftrightarrow> INT_MIN \<le> i \<and> i \<le> INT_MAX"

definition is_int64 :: "int \<Rightarrow> bool" where
  "is_int64 i \<longleftrightarrow> INT64_MIN \<le> i \<and> i \<le> INT64_MAX"

lemma wrap32_range [avs_bounds, simp]: "is_int32 (wrap32 i)"
proof -
  have "0 \<le> (i + 2147483648) mod 4294967296" "(i + 2147483648) mod 4294967296 < 4294967296"
    by simp_all
  then show ?thesis unfolding is_int32_def wrap32_def int_limits by linarith
qed

lemma wrap64_range [avs_bounds, simp]: "is_int64 (wrap64 i)"
proof -
  have "0 \<le> (i + 9223372036854775808) mod 18446744073709551616"
    "(i + 9223372036854775808) mod 18446744073709551616 < 18446744073709551616"
    by simp_all
  then show ?thesis unfolding is_int64_def wrap64_def int_limits by linarith
qed

lemma wrap32_id [simp]: "is_int32 i \<Longrightarrow> wrap32 i = i"
  by (simp add: is_int32_def wrap32_def int_limits)

lemma wrap64_id [simp]: "is_int64 i \<Longrightarrow> wrap64 i = i"
  by (simp add: is_int64_def wrap64_def int_limits)

lemma is_int32_imp_64 [avs_bounds]: "is_int32 i \<Longrightarrow> is_int64 i"
  by (simp add: is_int32_def is_int64_def int_limits)

text \<open>C integer division and remainder truncate towards zero.\<close>

definition cdiv :: "int \<Rightarrow> int \<Rightarrow> int" where
  "cdiv a b = sgn a * sgn b * (\<bar>a\<bar> div \<bar>b\<bar>)"

definition cmod :: "int \<Rightarrow> int \<Rightarrow> int" where
  "cmod a b = a - b * cdiv a b"

lemma cdiv_nonneg [simp]: "0 \<le> a \<Longrightarrow> 0 \<le> b \<Longrightarrow> cdiv a b = a div b"
  by (cases "a = 0"; cases "b = 0") (auto simp: cdiv_def sgn_if)

lemma cmod_nonneg [simp]: "0 \<le> a \<Longrightarrow> 0 < b \<Longrightarrow> cmod a b = a mod b"
  by (simp add: cmod_def minus_mult_div_eq_mod)

lemma int_div_bounds:
  fixes b :: int
  assumes "0 < b"
  shows "a div b * b \<le> a" "a < (a div b + 1) * b"
  using assms pos_mod_bound [of b a] pos_mod_sign [of b a] minus_mod_eq_div_mult [of a b]
  unfolding distrib_right by linarith+

lemma int_div_le:
  fixes b :: int
  assumes "0 < b" "a < (q + 1) * b"
  shows "a div b \<le> q"
proof (rule ccontr)
  assume "\<not> a div b \<le> q"
  with assms(1) have "(q + 1) * b \<le> a div b * b" by (intro mult_right_mono) auto
  with assms int_div_bounds(1) [of b a] show False by linarith
qed

lemma int_le_div:
  fixes b :: int
  assumes "0 < b" "q * b \<le> a"
  shows "q \<le> a div b"
  using assms zdiv_mono1 [of "q * b" a b] by simp

lemma cdiv_cmod_eq: "b * cdiv a b + cmod a b = a"
  by (simp add: cmod_def)


text \<open>\<^verbatim>\<open>clamp\<close> of \<^verbatim>\<open>minmax.h\<close>.\<close>

definition clamp :: "'a::linorder \<Rightarrow> 'a \<Rightarrow> 'a \<Rightarrow> 'a" where
  "clamp n lo hi = (let n' = (if n > hi then hi else n) in if n' < lo then lo else n')"

section \<open>Characters and C strings\<close>

abbreviation NUL :: char where "NUL \<equiv> CHR 0x00"
abbreviation TAB :: char where "TAB \<equiv> CHR 0x09"
abbreviation LF :: char where "LF \<equiv> CHR 0x0A"
abbreviation CR :: char where "CR \<equiv> CHR 0x0D"
abbreviation DQ :: char where "DQ \<equiv> CHR 0x22"
abbreviation BSL :: char where "BSL \<equiv> CHR 0x5C"

definition cc :: "char \<Rightarrow> nat" where "cc c = of_char c"

definition c_isdigit :: "char \<Rightarrow> bool" where
  "c_isdigit c \<longleftrightarrow> 48 \<le> cc c \<and> cc c \<le> 57"

definition c_isalpha :: "char \<Rightarrow> bool" where
  "c_isalpha c \<longleftrightarrow> (65 \<le> cc c \<and> cc c \<le> 90) \<or> (97 \<le> cc c \<and> cc c \<le> 122)"

definition c_isalnum :: "char \<Rightarrow> bool" where
  "c_isalnum c \<longleftrightarrow> c_isalpha c \<or> c_isdigit c"

definition c_isspace :: "char \<Rightarrow> bool" where
  "c_isspace c \<longleftrightarrow> cc c = 32 \<or> (9 \<le> cc c \<and> cc c \<le> 13)"

lemmas c_class_defs = c_isdigit_def c_isalpha_def c_isalnum_def c_isspace_def cc_def

lemma c_class_NUL [simp]:
  "\<not> c_isdigit NUL" "\<not> c_isalpha NUL" "\<not> c_isalnum NUL" "\<not> c_isspace NUL"
  by (simp_all add: c_class_defs)

text \<open>A pointer into a NUL terminated text is the rest of that text.  \<^verbatim>\<open>*pc\<close> is
  \<open>peek\<close>, \<^verbatim>\<open>pc[n]\<close> is \<open>peekn n\<close>: the terminator stands after the last character.\<close>

definition peek :: "string \<Rightarrow> char" where
  "peek s = (case s of [] \<Rightarrow> NUL | c # _ \<Rightarrow> c)"

definition peekn :: "nat \<Rightarrow> string \<Rightarrow> char" where
  "peekn n s = peek (drop n s)"

lemma peek_simps [simp]: "peek [] = NUL" "peek (c # s) = c"
  by (simp_all add: peek_def)

lemma peekn_0 [simp]: "peekn 0 s = peek s"
  by (simp add: peekn_def)

lemma peekn_Cons [simp]: "peekn (Suc n) (c # s) = peekn n s"
  by (simp add: peekn_def)

lemma peekn_numeral [simp]: "peekn (numeral k) (c # s) = peekn (pred_numeral k) s"
  by (simp add: numeral_eq_Suc)

lemma peekn_Nil [simp]: "peekn n [] = NUL"
  by (simp add: peekn_def)

lemma peek_not_NUL: "peek s \<noteq> NUL \<Longrightarrow> \<exists>c r. s = c # r"
  by (cases s) auto

lemma peekn_not_NUL: "peekn n s \<noteq> NUL \<Longrightarrow> n < length s"
  by (auto simp: peekn_def peek_def split: list.splits) (metis drop_all not_le_imp_less list.distinct(1))

text \<open>The characters a C function sees of a buffer: everything before the first NUL.\<close>

definition cstr :: "string \<Rightarrow> string" where
  "cstr s = takeWhile (\<lambda>c. c \<noteq> NUL) s"

lemma cstr_no_NUL [simp]: "NUL \<notin> set (cstr s)"
  by (auto simp: cstr_def dest: set_takeWhileD)

lemma cstr_id: "NUL \<notin> set s \<Longrightarrow> cstr s = s"
  unfolding cstr_def by (rule takeWhile_eq_all_conv [THEN iffD2]) auto


section \<open>Results of code that throws\<close>

text \<open>\<open>Inl e\<close> is a thrown exception, \<open>Inr x\<close> a normal return.\<close>

type_synonym ('e, 'a) result = "'e + 'a"

definition bind_r :: "('e, 'a) result \<Rightarrow> ('a \<Rightarrow> ('e, 'b) result) \<Rightarrow> ('e, 'b) result" where
  "bind_r r f = (case r of Inl e \<Rightarrow> Inl e | Inr x \<Rightarrow> f x)"

lemma bind_r_simps [simp]: "bind_r (Inl e) f = Inl e" "bind_r (Inr x) f = f x"
  by (simp_all add: bind_r_def)

lemma bind_r_Inr: "bind_r r f = Inr y \<longleftrightarrow> (\<exists>x. r = Inr x \<and> f x = Inr y)"
  by (cases r) auto

lemma bind_r_Inl: "bind_r r f = Inl e \<longleftrightarrow> r = Inl e \<or> (\<exists>x. r = Inr x \<and> f x = Inl e)"
  by (cases r) auto


section \<open>Lists\<close>

lemma length_dropWhile_le [simp]: "length (dropWhile P xs) \<le> length xs"
  by (rule length_dropWhile_le)

lemma map_upt_shift: "map f [Suc a..<Suc b] = map (\<lambda>i. f (Suc i)) [a..<b]"
  by (simp add: map_Suc_upt [symmetric] del: upt_Suc)

end
