(* ===== verification/Bounded_Queue.thy ===== *)
theory Bounded_Queue
  imports Prelude
begin

text \<open>
  The bounded queue that feeds the worker threads (\<^verbatim>\<open>core/mpmc_bounded_queue.h\<close>):
  the ring buffer \<^verbatim>\<open>circular_buffer\<close> and, around it, the monitor
  \<^verbatim>\<open>mpmc_bounded_queue\<close> as a step relation over its waiting threads.  The ring
  refines a bounded first-in first-out list; in every interleaving of the monitor the
  items leave in the order they were accepted.
\<close>

section \<open>The ring buffer\<close>

record 'a circular_buffer =
  array :: "'a list"
  max_size :: nat
  head :: nat
  tail :: nat
  count :: nat

definition circular_buffer_new :: "'a \<Rightarrow> nat \<Rightarrow> 'a circular_buffer" where
  "circular_buffer_new dflt capacity =
     \<lparr>array = replicate capacity dflt, max_size = capacity, head = 0, tail = 0, count = 0\<rparr>"

definition cb_empty :: "'a circular_buffer \<Rightarrow> bool" where
  "cb_empty b \<longleftrightarrow> count b = 0"

definition cb_full :: "'a circular_buffer \<Rightarrow> bool" where
  "cb_full b \<longleftrightarrow> count b = max_size b"

definition cb_push_front :: "'a \<Rightarrow> 'a circular_buffer \<Rightarrow> bool \<times> 'a circular_buffer" where
  "cb_push_front item b =
     (if cb_full b then (False, b)
      else (True, b\<lparr>array := (array b)[head b := item],
                    head := (head b + 1) mod max_size b,
                    count := count b + 1\<rparr>))"

definition cb_pop_back :: "'a circular_buffer \<Rightarrow> 'a option \<times> 'a circular_buffer" where
  "cb_pop_back b =
     (if cb_empty b then (None, b)
      else (Some (array b ! tail b),
            b\<lparr>tail := (tail b + 1) mod max_size b, count := count b - 1\<rparr>))"

definition cb_capacity :: "'a circular_buffer \<Rightarrow> nat" where
  "cb_capacity b = max_size b"

lemmas cb_defs = cb_empty_def cb_full_def cb_push_front_def cb_pop_back_def

subsection \<open>The abstract queue and the invariant\<close>

text \<open>The items in the order they will be popped.\<close>

definition cb_list :: "'a circular_buffer \<Rightarrow> 'a list" where
  "cb_list b = map (\<lambda>i. array b ! ((tail b + i) mod max_size b)) [0..<count b]"

definition cb_inv :: "'a circular_buffer \<Rightarrow> bool" where
  "cb_inv b \<longleftrightarrow> length (array b) = max_size b \<and> count b \<le> max_size b
     \<and> (0 < max_size b \<longrightarrow> tail b < max_size b \<and> head b = (tail b + count b) mod max_size b)"

lemma length_cb_list [simp]: "length (cb_list b) = count b"
  by (simp add: cb_list_def)

lemma cb_inv_new: "cb_inv (circular_buffer_new d n)"
  by (auto simp: cb_inv_def circular_buffer_new_def)

lemma cb_list_new: "cb_list (circular_buffer_new d n) = []"
  by (simp add: cb_list_def circular_buffer_new_def)

text \<open>Two offsets below the ring's size name different slots.\<close>

lemma ring_slot_neq:
  assumes "i < j" "j < m"
  shows "(t + i) mod m \<noteq> (t + j) mod (m::nat)"
proof
  assume "(t + i) mod m = (t + j) mod m"
  then have "((t + j) - (t + i)) mod m = 0"
    by (metis mod_eq_dvd_iff_nat add_le_cancel_left assms(1) less_imp_le dvd_imp_mod_0)
  then show False using assms by simp
qed

lemma cb_push_inv:
  assumes "cb_inv b" shows "cb_inv (snd (cb_push_front x b))"
proof (cases "cb_full b")
  case False
  with assms have "0 < max_size b" by (auto simp: cb_inv_def cb_full_def)
  with assms False show ?thesis
    by (auto simp: cb_inv_def cb_push_front_def cb_full_def mod_Suc_eq)
qed (use assms in \<open>simp add: cb_push_front_def\<close>)

lemma cb_push_list:
  assumes "cb_inv b" "\<not> cb_full b"
  shows "cb_list (snd (cb_push_front x b)) = cb_list b @ [x]"
proof -
  let ?m = "max_size b" and ?t = "tail b" and ?n = "count b"
  from assms have m: "?n < ?m" "head b = (?t + ?n) mod ?m" "length (array b) = ?m" "0 < ?m"
    by (auto simp: cb_inv_def cb_full_def)
  have old: "(array b)[head b := x] ! ((?t + i) mod ?m) = array b ! ((?t + i) mod ?m)"
    if "i < ?n" for i
    using ring_slot_neq [OF that m(1), of ?t] m(2) by simp
  have new: "(array b)[head b := x] ! ((?t + ?n) mod ?m) = x"
    using m by simp
  from assms(2) show ?thesis
    by (simp add: cb_list_def cb_push_front_def old new)
qed

lemma cb_pop_inv:
  assumes "cb_inv b" shows "cb_inv (snd (cb_pop_back b))"
proof (cases "cb_empty b")
  case False
  then obtain n where n: "count b = Suc n" by (cases "count b") (auto simp: cb_empty_def)
  with assms have "0 < max_size b" by (auto simp: cb_inv_def)
  with assms n show ?thesis
    by (auto simp: cb_inv_def cb_pop_back_def cb_empty_def mod_add_left_eq)
qed (use assms in \<open>simp add: cb_pop_back_def\<close>)

lemma cb_pop_list:
  assumes "cb_inv b" "\<not> cb_empty b"
  shows "cb_list b = the (fst (cb_pop_back b)) # cb_list (snd (cb_pop_back b))"
proof -
  from assms obtain n where n: "count b = Suc n" by (cases "count b") (auto simp: cb_empty_def)
  with assms have t: "tail b mod max_size b = tail b" by (auto simp: cb_inv_def)
  have "[0..<Suc n] = 0 # map Suc [0..<n]" by (simp add: map_Suc_upt upt_conv_Cons del: upt_Suc)
  then show ?thesis using n t assms(2)
    by (simp add: cb_list_def cb_pop_back_def mod_add_left_eq del: upt_Suc)
qed

text \<open>What a client of a bounded queue relies on, whatever the representation.\<close>

locale bounded_fifo =
  fixes push :: "'a \<Rightarrow> 'q \<Rightarrow> bool \<times> 'q"
    and pop :: "'q \<Rightarrow> 'a option \<times> 'q"
    and capacity :: "'q \<Rightarrow> nat"
    and contents :: "'q \<Rightarrow> 'a list"
    and invar :: "'q \<Rightarrow> bool"
  assumes push_room: "invar q \<Longrightarrow> length (contents q) < capacity q \<Longrightarrow>
      fst (push x q) \<and> contents (snd (push x q)) = contents q @ [x]"
    and push_full: "invar q \<Longrightarrow> \<not> length (contents q) < capacity q \<Longrightarrow> push x q = (False, q)"
    and pop_some: "invar q \<Longrightarrow> contents q = y # ys \<Longrightarrow>
      fst (pop q) = Some y \<and> contents (snd (pop q)) = ys"
    and pop_none: "invar q \<Longrightarrow> contents q = [] \<Longrightarrow> pop q = (None, q)"
    and push_invar: "invar q \<Longrightarrow> invar (snd (push x q))"
    and pop_invar: "invar q \<Longrightarrow> invar (snd (pop q))"
    and push_cap: "capacity (snd (push x q)) = capacity q"
    and pop_cap: "capacity (snd (pop q)) = capacity q"
    and within: "invar q \<Longrightarrow> length (contents q) \<le> capacity q"
begin

text \<open>Pushing a whole list while there is room appends it.\<close>

lemma push_all:
  "invar q \<Longrightarrow> length (contents q) + length xs \<le> capacity q \<Longrightarrow>
     contents (fold (\<lambda>x q. snd (push x q)) xs q) = contents q @ xs
     \<and> invar (fold (\<lambda>x q. snd (push x q)) xs q)"
proof (induction xs arbitrary: q)
  case (Cons x xs)
  then have "invar (snd (push x q))" "contents (snd (push x q)) = contents q @ [x]"
    using push_room push_invar by fastforce+
  with Cons.IH [of "snd (push x q)"] Cons.prems show ?case
    by (simp add: push_cap)
qed simp

end

interpretation ring: bounded_fifo cb_push_front cb_pop_back cb_capacity cb_list cb_inv
proof
  fix q :: "'a circular_buffer" and x :: 'a
  assume q: "cb_inv q"
  show "fst (cb_push_front x q) \<and> cb_list (snd (cb_push_front x q)) = cb_list q @ [x]"
    if "length (cb_list q) < cb_capacity q"
    using that q cb_push_list [OF q] by (auto simp: cb_capacity_def cb_full_def cb_push_front_def)
  show "cb_push_front x q = (False, q)" if "\<not> length (cb_list q) < cb_capacity q"
    using that q by (auto simp: cb_capacity_def cb_full_def cb_push_front_def cb_inv_def)
  show "fst (cb_pop_back q) = Some y \<and> cb_list (snd (cb_pop_back q)) = ys"
    if "cb_list q = y # ys" for y ys
  proof -
    from that have "\<not> cb_empty q"
      by (metis length_cb_list list.distinct(1) list.size(3) length_0_conv cb_empty_def)
    with cb_pop_list [OF q] that show ?thesis by (simp add: cb_pop_back_def)
  qed
  show "cb_pop_back q = (None, q)" if "cb_list q = []"
  proof -
    from that have "count q = 0" by (metis length_cb_list list.size(3))
    then show ?thesis by (simp add: cb_pop_back_def cb_empty_def)
  qed
  show "length (cb_list q) \<le> cb_capacity q" using q by (simp add: cb_capacity_def cb_inv_def)
qed (rule cb_push_inv cb_pop_inv | simp add: cb_capacity_def cb_push_front_def cb_pop_back_def)+


section \<open>The monitor\<close>

text \<open>
  Each thread is outside the queue or inside a \<^verbatim>\<open>wait\<close>; the flag says whether a
  notification has already released it.  \<^verbatim>\<open>notify_one\<close> is called after the mutex is
  released, so it is a step of its own and \<open>pend_not_empty\<close>, \<open>pend_not_full\<close> count the
  calls still to come.  A wait may also return without a notification (a spurious wake-up):
  the re-check of the loop makes no difference between the two.  \<open>accepted\<close> and
  \<open>delivered\<close> record the history of successful calls.
\<close>

datatype 'a thread = Running | WaitPush 'a bool | WaitPop bool

record 'a mpmc_bounded_queue =
  m_container :: "'a circular_buffer"
  finished :: bool
  threads :: "nat \<Rightarrow> 'a thread"
  pend_not_empty :: nat
  pend_not_full :: nat
  accepted :: "'a list"
  delivered :: "'a list"

definition mpmc_new :: "'a \<Rightarrow> nat \<Rightarrow> 'a mpmc_bounded_queue" where
  "mpmc_new dflt capacity =
     \<lparr>m_container = circular_buffer_new dflt capacity, finished = False,
      threads = (\<lambda>_. Running), pend_not_empty = 0, pend_not_full = 0,
      accepted = [], delivered = []\<rparr>"

text \<open>One pass through the body of \<^verbatim>\<open>push_front\<close>, from the lock or from a return of
  \<^verbatim>\<open>wait\<close>: give up when finished, wait when full, store otherwise.\<close>

definition mpmc_push_front :: "nat \<Rightarrow> 'a \<Rightarrow> 'a mpmc_bounded_queue \<Rightarrow> 'a mpmc_bounded_queue" where
  "mpmc_push_front t item q =
     (if finished q then q\<lparr>threads := (threads q)(t := Running)\<rparr>
      else if cb_full (m_container q)
      then q\<lparr>threads := (threads q)(t := WaitPush item False)\<rparr>
      else q\<lparr>m_container := snd (cb_push_front item (m_container q)),
             threads := (threads q)(t := Running),
             pend_not_empty := pend_not_empty q + 1,
             accepted := accepted q @ [item]\<rparr>)"

definition mpmc_pop_back :: "nat \<Rightarrow> 'a mpmc_bounded_queue \<Rightarrow> 'a mpmc_bounded_queue" where
  "mpmc_pop_back t q =
     (if finished q then q\<lparr>threads := (threads q)(t := Running)\<rparr>
      else if cb_empty (m_container q)
      then q\<lparr>threads := (threads q)(t := WaitPop False)\<rparr>
      else q\<lparr>m_container := snd (cb_pop_back (m_container q)),
             threads := (threads q)(t := Running),
             pend_not_full := pend_not_full q + 1,
             delivered := delivered q @ [the (fst (cb_pop_back (m_container q)))]\<rparr>)"

definition mpmc_pop_remain :: "'a mpmc_bounded_queue \<Rightarrow> 'a mpmc_bounded_queue" where
  "mpmc_pop_remain q =
     (if cb_empty (m_container q) then q
      else q\<lparr>m_container := snd (cb_pop_back (m_container q)),
             delivered := delivered q @ [the (fst (cb_pop_back (m_container q)))]\<rparr>)"

fun wake_all :: "'a thread \<Rightarrow> 'a thread" where
  "wake_all Running = Running"
| "wake_all (WaitPush x _) = WaitPush x True"
| "wake_all (WaitPop _) = WaitPop True"

definition mpmc_finish :: "'a mpmc_bounded_queue \<Rightarrow> 'a mpmc_bounded_queue" where
  "mpmc_finish q =
     (if \<not> finished q then q\<lparr>finished := True, threads := wake_all \<circ> threads q\<rparr> else q)"

inductive mpmc_step :: "'a mpmc_bounded_queue \<Rightarrow> 'a mpmc_bounded_queue \<Rightarrow> bool" where
  push_call: "threads q t = Running \<Longrightarrow> mpmc_step q (mpmc_push_front t x q)"
| push_wake: "threads q t = WaitPush x b \<Longrightarrow> mpmc_step q (mpmc_push_front t x q)"
| pop_call: "threads q t = Running \<Longrightarrow> mpmc_step q (mpmc_pop_back t q)"
| pop_wake: "threads q t = WaitPop b \<Longrightarrow> mpmc_step q (mpmc_pop_back t q)"
| pop_rest: "finished q \<Longrightarrow> mpmc_step q (mpmc_pop_remain q)"
| finish: "mpmc_step q (mpmc_finish q)"
| notify_not_empty: "pend_not_empty q = Suc n \<Longrightarrow> threads q t = WaitPop False \<Longrightarrow>
    mpmc_step q (q\<lparr>pend_not_empty := n, threads := (threads q)(t := WaitPop True)\<rparr>)"
| notify_no_popper: "pend_not_empty q = Suc n \<Longrightarrow> \<forall>t. threads q t \<noteq> WaitPop False \<Longrightarrow>
    mpmc_step q (q\<lparr>pend_not_empty := n\<rparr>)"
| notify_not_full: "pend_not_full q = Suc n \<Longrightarrow> threads q t = WaitPush x False \<Longrightarrow>
    mpmc_step q (q\<lparr>pend_not_full := n, threads := (threads q)(t := WaitPush x True)\<rparr>)"
| notify_no_pusher: "pend_not_full q = Suc n \<Longrightarrow> \<forall>t x. threads q t \<noteq> WaitPush x False \<Longrightarrow>
    mpmc_step q (q\<lparr>pend_not_full := n\<rparr>)"

inductive mpmc_reachable :: "'a \<Rightarrow> nat \<Rightarrow> 'a mpmc_bounded_queue \<Rightarrow> bool" for d n where
  start: "mpmc_reachable d n (mpmc_new d n)"
| step: "mpmc_reachable d n q \<Longrightarrow> mpmc_step q q' \<Longrightarrow> mpmc_reachable d n q'"

subsection \<open>First in, first out, within the capacity\<close>

definition fifo_inv :: "nat \<Rightarrow> 'a mpmc_bounded_queue \<Rightarrow> bool" where
  "fifo_inv n q \<longleftrightarrow> cb_inv (m_container q) \<and> max_size (m_container q) = n
     \<and> accepted q = delivered q @ cb_list (m_container q)"

lemma max_size_push [simp]: "max_size (snd (cb_push_front x b)) = max_size b"
  by (simp add: cb_push_front_def)

lemma max_size_pop [simp]: "max_size (snd (cb_pop_back b)) = max_size b"
  by (simp add: cb_pop_back_def)

lemma fifo_push: "fifo_inv n q \<Longrightarrow> fifo_inv n (mpmc_push_front t x q)"
  by (simp add: fifo_inv_def mpmc_push_front_def cb_push_inv cb_push_list)

lemma fifo_pop: "fifo_inv n q \<Longrightarrow> fifo_inv n (mpmc_pop_back t q)"
  using cb_pop_list [of "m_container q"]
  by (simp add: fifo_inv_def mpmc_pop_back_def cb_pop_inv)

lemma fifo_pop_remain: "fifo_inv n q \<Longrightarrow> fifo_inv n (mpmc_pop_remain q)"
  using cb_pop_list [of "m_container q"]
  by (simp add: fifo_inv_def mpmc_pop_remain_def cb_pop_inv)

lemma fifo_step: "mpmc_step q q' \<Longrightarrow> fifo_inv n q \<Longrightarrow> fifo_inv n q'"
  by (induction rule: mpmc_step.induct)
     (simp_all add: fifo_push fifo_pop fifo_pop_remain, simp_all add: fifo_inv_def mpmc_finish_def)

lemma fifo_reachable: "mpmc_reachable d n q \<Longrightarrow> fifo_inv n q"
proof (induction rule: mpmc_reachable.induct)
  case start
  then show ?case
    by (simp add: fifo_inv_def mpmc_new_def cb_inv_new cb_list_new) (simp add: circular_buffer_new_def)
qed (rule fifo_step)

subsection \<open>No wake-up is lost\<close>

text \<open>The waits that a notification has released but that have not run yet.\<close>

definition released_poppers :: "(nat \<Rightarrow> 'a thread) \<Rightarrow> nat set" where
  "released_poppers f = {t. f t = WaitPop True}"

definition released_pushers :: "(nat \<Rightarrow> 'a thread) \<Rightarrow> nat set" where
  "released_pushers f = {t. \<exists>x. f t = WaitPush x True}"

text \<open>Nobody sleeps for good: if some \<^verbatim>\<open>pop_back\<close> sleeps, every stored item is
  matched by a released wait or by a notification still to come; dually for the free slots
  and \<^verbatim>\<open>push_front\<close>.  The arguments: the threads, the finished flag, the number of
  items, the capacity and the two counts of notifications to come.\<close>

definition wake_ok :: "(nat \<Rightarrow> 'a thread) \<Rightarrow> bool \<Rightarrow> nat \<Rightarrow> nat \<Rightarrow> nat \<Rightarrow> nat \<Rightarrow> bool" where
  "wake_ok f fin cnt cap pe pf \<longleftrightarrow>
     finite {t. f t \<noteq> Running}
     \<and> ((\<exists>t. f t = WaitPop False) \<longrightarrow> \<not> fin \<and> cnt \<le> card (released_poppers f) + pe)
     \<and> ((\<exists>t x. f t = WaitPush x False) \<longrightarrow> \<not> fin \<and> cap \<le> cnt + card (released_pushers f) + pf)"

definition wake_inv :: "'a mpmc_bounded_queue \<Rightarrow> bool" where
  "wake_inv q \<longleftrightarrow> wake_ok (threads q) (finished q) (count (m_container q))
     (max_size (m_container q)) (pend_not_empty q) (pend_not_full q)"

lemma wake_ok_finite:
  assumes "wake_ok f fin cnt cap pe pf"
  shows "finite (released_poppers f)" "finite (released_pushers f)"
    and "finite {u. (f(t := v)) u \<noteq> Running}"
proof -
  from assms have f: "finite {t. f t \<noteq> Running}" by (simp add: wake_ok_def)
  then show "finite (released_poppers f)" "finite (released_pushers f)"
    by (auto simp: released_poppers_def released_pushers_def elim!: rev_finite_subset)
  from f show "finite {u. (f(t := v)) u \<noteq> Running}"
    by (auto intro: finite_subset [of _ "insert t {u. f u \<noteq> Running}"])
qed

lemma released_upd:
  "released_poppers (f(t := v)) = (if v = WaitPop True then insert t (released_poppers f) else released_poppers f - {t})"
  "released_pushers (f(t := v)) = (if \<exists>x. v = WaitPush x True then insert t (released_pushers f) else released_pushers f - {t})"
  by (auto simp: released_poppers_def released_pushers_def)

lemma card_drop1: "finite A \<Longrightarrow> card A \<le> card (A - {t}) + 1"
  by (simp add: card_Diff_singleton_if) linarith

lemma wake_finished:
  "wake_ok f True cnt cap pe pf \<Longrightarrow> wake_ok (f(t := Running)) True cnt' cap pe pf"
  using wake_ok_finite(3) [of f True cnt cap pe pf t Running] by (auto simp: wake_ok_def)

lemma wake_push:
  assumes "wake_ok f False cnt cap pe pf" "f t = Running \<or> (\<exists>b. f t = WaitPush x b)"
  shows "wake_ok (f(t := Running)) False (Suc cnt) cap (Suc pe) pf"
proof -
  note fin = wake_ok_finite [OF assms(1)]
  from assms(2) have "released_poppers f - {t} = released_poppers f"
    by (auto simp: released_poppers_def)
  moreover have "card (released_pushers f) \<le> card (released_pushers f - {t}) + 1"
    by (rule card_drop1 [OF fin(2)])
  ultimately show ?thesis using assms(1) fin(3)
    by (auto simp: wake_ok_def released_upd split: if_splits)
qed

lemma wake_push_wait:
  assumes "wake_ok f False cap cap pe pf" "f t = Running \<or> (\<exists>b. f t = WaitPush x b)"
  shows "wake_ok (f(t := WaitPush x False)) False cap cap pe pf"
proof -
  from assms(2) have "released_poppers f - {t} = released_poppers f"
    by (auto simp: released_poppers_def)
  with assms(1) wake_ok_finite(3) [OF assms(1)] show ?thesis
    by (auto simp: wake_ok_def released_upd split: if_splits)
qed

lemma wake_pop:
  assumes "wake_ok f False (Suc cnt) cap pe pf" "f t = Running \<or> (\<exists>b. f t = WaitPop b)"
  shows "wake_ok (f(t := Running)) False cnt cap pe (Suc pf)"
proof -
  note fin = wake_ok_finite [OF assms(1)]
  from assms(2) have "released_pushers f - {t} = released_pushers f"
    by (auto simp: released_pushers_def)
  moreover have "card (released_poppers f) \<le> card (released_poppers f - {t}) + 1"
    by (rule card_drop1 [OF fin(1)])
  ultimately show ?thesis using assms(1) fin(3)
    by (auto simp: wake_ok_def released_upd split: if_splits)
qed

lemma wake_pop_wait:
  assumes "wake_ok f False 0 cap pe pf" "f t = Running \<or> (\<exists>b. f t = WaitPop b)"
  shows "wake_ok (f(t := WaitPop False)) False 0 cap pe pf"
proof -
  from assms(2) have "released_pushers f - {t} = released_pushers f"
    by (auto simp: released_pushers_def)
  with assms(1) wake_ok_finite(3) [OF assms(1)] show ?thesis
    by (auto simp: wake_ok_def released_upd split: if_splits)
qed

lemma wake_notify_pop:
  assumes "wake_ok f fin cnt cap (Suc pe) pf" "f t = WaitPop False"
  shows "wake_ok (f(t := WaitPop True)) fin cnt cap pe pf"
proof -
  from assms(2) have "t \<notin> released_poppers f" "released_pushers f - {t} = released_pushers f"
    by (auto simp: released_poppers_def released_pushers_def)
  with assms wake_ok_finite [OF assms(1)] show ?thesis
    by (auto simp: wake_ok_def released_upd split: if_splits)
qed

lemma wake_notify_push:
  assumes "wake_ok f fin cnt cap pe (Suc pf)" "f t = WaitPush x False"
  shows "wake_ok (f(t := WaitPush x True)) fin cnt cap pe pf"
proof -
  from assms(2) have "t \<notin> released_pushers f" "released_poppers f - {t} = released_poppers f"
    by (auto simp: released_poppers_def released_pushers_def)
  with assms wake_ok_finite [OF assms(1)] show ?thesis
    by (auto simp: wake_ok_def released_upd split: if_splits)
qed

lemma wake_all_not_asleep [simp]: "wake_all v \<noteq> WaitPop False" "wake_all v \<noteq> WaitPush x False"
  "wake_all v = Running \<longleftrightarrow> v = Running"
  by (cases v; simp)+

lemma wake_finish: "wake_ok f fin cnt cap pe pf \<Longrightarrow> wake_ok (wake_all \<circ> f) True cnt cap pe pf"
  by (simp add: wake_ok_def)

lemma wake_step: "mpmc_step q q' \<Longrightarrow> wake_inv q \<Longrightarrow> wake_inv q'"
proof (induction rule: mpmc_step.induct)
  case (push_call q t x)
  then show ?case
    by (cases "finished q")
       (auto simp: wake_inv_def mpmc_push_front_def cb_full_def cb_push_front_def
         intro: wake_finished wake_push wake_push_wait)
next
  case (push_wake q t x b)
  then show ?case
    by (cases "finished q")
       (auto simp: wake_inv_def mpmc_push_front_def cb_full_def cb_push_front_def
         intro: wake_finished wake_push wake_push_wait)
next
  case (pop_call q t)
  then show ?case
    by (cases "finished q"; cases "count (m_container q)")
       (auto simp: wake_inv_def mpmc_pop_back_def cb_empty_def cb_pop_back_def
         intro: wake_finished wake_pop wake_pop_wait)
next
  case (pop_wake q t b)
  then show ?case
    by (cases "finished q"; cases "count (m_container q)")
       (auto simp: wake_inv_def mpmc_pop_back_def cb_empty_def cb_pop_back_def
         intro: wake_finished wake_pop wake_pop_wait)
next
  case (pop_rest q)
  then show ?case by (auto simp: wake_inv_def wake_ok_def mpmc_pop_remain_def)
next
  case (finish q)
  then show ?case by (auto simp: wake_inv_def mpmc_finish_def intro: wake_finish)
next
  case (notify_no_popper q n)
  then show ?case by (auto simp: wake_inv_def wake_ok_def)
next
  case (notify_no_pusher q n)
  then show ?case by (auto simp: wake_inv_def wake_ok_def)
qed (auto simp: wake_inv_def intro: wake_notify_pop wake_notify_push)

lemma wake_reachable: "mpmc_reachable d n q \<Longrightarrow> wake_inv q"
proof (induction rule: mpmc_reachable.induct)
  case start
  then show ?case by (simp add: wake_inv_def wake_ok_def mpmc_new_def)
qed (rule wake_step)

subsection \<open>The properties of the queue\<close>

text \<open>
  C21: in every state that any interleaving of \<^verbatim>\<open>push_front\<close>, \<^verbatim>\<open>pop_back\<close>,
  \<^verbatim>\<open>pop_remain\<close> and \<^verbatim>\<open>finish\<close> calls of any number of threads can reach, the
  items handed out so far followed by the items still stored are exactly the items accepted
  so far, in order, and at most \<open>n\<close> items are stored.
\<close>

theorem mpmc_fifo:
  assumes "mpmc_reachable d n q"
  shows "accepted q = delivered q @ cb_list (m_container q)
    \<and> length (cb_list (m_container q)) \<le> n"
  using fifo_reachable [OF assms] by (auto simp: fifo_inv_def cb_inv_def)

text \<open>The run that accepts one item and hands it out again.\<close>

lemma mpmc_run_example:
  "mpmc_reachable 0 1 (mpmc_pop_back 1 (mpmc_push_front 0 (7::nat) (mpmc_new 0 1)))"
  by (rule mpmc_reachable.step, rule mpmc_reachable.step, rule mpmc_reachable.start,
      rule mpmc_step.push_call, simp add: mpmc_new_def, rule mpmc_step.pop_call,
      simp add: mpmc_new_def mpmc_push_front_def)

theorem mpmc_fifo_witness:
  "accepted (mpmc_pop_back 1 (mpmc_push_front 0 (7::nat) (mpmc_new 0 1))) = [7]
   \<and> delivered (mpmc_pop_back 1 (mpmc_push_front 0 (7::nat) (mpmc_new 0 1))) = [7]"
  using mpmc_fifo [OF mpmc_run_example]
  by (simp add: mpmc_new_def mpmc_push_front_def mpmc_pop_back_def circular_buffer_new_def cb_defs cb_list_def)

text \<open>
  C22: no wake-up is lost.  When no notification is still to come and every released wait has
  run, a thread sleeps in \<^verbatim>\<open>pop_back\<close> only while the queue is empty, and in
  \<^verbatim>\<open>push_front\<close> only while it is full; and nobody sleeps once the queue is finished.
\<close>

theorem mpmc_no_lost_wakeup:
  assumes "mpmc_reachable d n q"
    and "pend_not_empty q = 0" "pend_not_full q = 0"
    and "released_poppers (threads q) = {}" "released_pushers (threads q) = {}"
  shows "(threads q t = WaitPop b \<longrightarrow> \<not> finished q \<and> cb_list (m_container q) = [])
    \<and> (threads q t = WaitPush x b \<longrightarrow> \<not> finished q \<and> length (cb_list (m_container q)) = n)"
proof -
  from fifo_reachable [OF assms(1)] have n: "max_size (m_container q) = n" "count (m_container q) \<le> n"
    by (auto simp: fifo_inv_def cb_inv_def)
  from wake_reachable [OF assms(1)] assms(2-)
  have ok: "(\<exists>t. threads q t = WaitPop False) \<longrightarrow> \<not> finished q \<and> count (m_container q) = 0"
    "(\<exists>t x. threads q t = WaitPush x False) \<longrightarrow> \<not> finished q \<and> n \<le> count (m_container q)"
    using n by (auto simp: wake_inv_def wake_ok_def)
  have asleep: "threads q t = WaitPop b \<Longrightarrow> \<not> b" "threads q t = WaitPush x b \<Longrightarrow> \<not> b"
    using assms(4,5) by (auto simp: released_poppers_def released_pushers_def)
  have "\<not> finished q \<and> cb_list (m_container q) = []" if "threads q t = WaitPop b"
    using that asleep(1) ok(1) by (auto simp: cb_list_def)
  moreover have "\<not> finished q \<and> length (cb_list (m_container q)) = n" if "threads q t = WaitPush x b"
    using that asleep(2) [OF that] ok(2) n by (auto simp: le_antisym)
  ultimately show ?thesis by blast
qed

theorem mpmc_no_lost_wakeup_witness:
  "\<not> finished (mpmc_pop_back 1 (mpmc_new (0::nat) 1))
   \<and> cb_list (m_container (mpmc_pop_back 1 (mpmc_new (0::nat) 1))) = []"
proof -
  let ?q = "mpmc_pop_back 1 (mpmc_new (0::nat) 1)"
  have r: "mpmc_reachable 0 1 ?q"
    by (rule mpmc_reachable.step [OF mpmc_reachable.start mpmc_step.pop_call]) (simp add: mpmc_new_def)
  have t: "threads ?q 1 = WaitPop False"
    by (simp add: mpmc_pop_back_def mpmc_new_def circular_buffer_new_def cb_empty_def)
  have z: "pend_not_empty ?q = 0" "pend_not_full ?q = 0"
    "released_poppers (threads ?q) = {}" "released_pushers (threads ?q) = {}"
    by (simp_all add: mpmc_pop_back_def mpmc_new_def circular_buffer_new_def cb_empty_def
         released_poppers_def released_pushers_def)
  show ?thesis
    using mpmc_no_lost_wakeup [OF r z, of 1 False 0] t by blast
qed

end
