(* ===== verification/Simple_Lru.thy ===== *)
theory Simple_Lru
  imports Prelude "HOL-Library.Sublist"
begin

text \<open>
  The least-recently-used list \<^verbatim>\<open>SimpleLruCache\<close> (\<^verbatim>\<open>core/SimpleLruCache.h\<close>)
  that \<^verbatim>\<open>LruCache\<close> and its ghost list are built on: lookups that move the hit to the
  front, trimming from the back under the control of an eviction callback, and capacity limits.
  With a callback that never refuses, the list is exactly the most recent distinct keys.
\<close>

text \<open>An entry is a key with its value.  The callback sees the entry and the user data and
  answers whether the entry may go; \<open>None\<close> is the null callback.\<close>

type_synonym ('k, 'v) lru_entries = "('k \<times> 'v) list"
type_synonym ('k, 'v, 'u) evict_event = "('k \<times> 'v \<Rightarrow> 'u \<Rightarrow> bool \<times> 'u) option"

record ('k, 'v) simple_lru_cache =
  MinCapacity :: nat
  MaxCapacity :: nat
  RequestedCapacity :: nat
  RealCapacity :: nat
  Cache :: "('k, 'v) lru_entries"
  Pool :: "('k, 'v) lru_entries"

definition SIZE_MAX :: nat where "SIZE_MAX = 2 ^ 64 - 1"

definition SimpleLruCache_new :: "nat \<Rightarrow> ('k, 'v) simple_lru_cache" where
  "SimpleLruCache_new capacity =
     \<lparr>MinCapacity = 0, MaxCapacity = SIZE_MAX, RequestedCapacity = capacity,
      RealCapacity = capacity, Cache = [], Pool = []\<rparr>"

text \<open>The body of \<^verbatim>\<open>trim\<close>: \<open>n\<close> entries are offered to the callback, the least recently
  used first.  The list is given from the back; a refused entry keeps its place.\<close>

fun trim_back :: "('k, 'v, 'u) evict_event \<Rightarrow> nat \<Rightarrow> ('k, 'v) lru_entries \<Rightarrow> ('k, 'v) lru_entries \<Rightarrow> 'u
    \<Rightarrow> ('k, 'v) lru_entries \<times> ('k, 'v) lru_entries \<times> 'u" where
  "trim_back ev 0 es pool u = (es, pool, u)"
| "trim_back ev (Suc n) [] pool u = ([], pool, u)"
| "trim_back ev (Suc n) (e # es) pool u =
     (case ev of
        None \<Rightarrow> trim_back ev n es (e # pool) u
      | Some f \<Rightarrow>
          (case f e u of (evict, u') \<Rightarrow>
             if evict then trim_back ev n es (e # pool) u'
             else (case trim_back ev n es pool u' of (es', pool', u'') \<Rightarrow> (e # es', pool', u''))))"

definition trim :: "('k, 'v, 'u) evict_event \<Rightarrow> ('k, 'v) simple_lru_cache \<Rightarrow> 'u
    \<Rightarrow> ('k, 'v) simple_lru_cache \<times> 'u" where
  "trim ev c u =
     (if length (Cache c) > RealCapacity c
      then (case trim_back ev (length (Cache c) - RealCapacity c) (rev (Cache c)) (Pool c) u of
              (es, pool, u') \<Rightarrow> (c\<lparr>Cache := rev es, Pool := pool\<rparr>, u'))
      else (c, u))"

definition resize :: "('k, 'v, 'u) evict_event \<Rightarrow> nat \<Rightarrow> ('k, 'v) simple_lru_cache \<Rightarrow> 'u
    \<Rightarrow> ('k, 'v) simple_lru_cache \<times> 'u" where
  "resize ev new_cap c u =
     trim ev (c\<lparr>RequestedCapacity := new_cap,
                RealCapacity := clamp new_cap (MinCapacity c) (MaxCapacity c)\<rparr>) u"

definition set_limits :: "('k, 'v, 'u) evict_event \<Rightarrow> nat \<Rightarrow> nat \<Rightarrow> ('k, 'v) simple_lru_cache \<Rightarrow> 'u
    \<Rightarrow> ('k, 'v) simple_lru_cache \<times> 'u" where
  "set_limits ev mn mx c u =
     resize ev (RequestedCapacity c) (c\<lparr>MinCapacity := mn, MaxCapacity := mx\<rparr>) u"

definition limits :: "('k, 'v) simple_lru_cache \<Rightarrow> nat \<times> nat" where
  "limits c = (MinCapacity c, MaxCapacity c)"

text \<open>The first entry with the key, and the list without it.\<close>

fun take_out :: "'k \<Rightarrow> ('k, 'v) lru_entries \<Rightarrow> (('k \<times> 'v) \<times> ('k, 'v) lru_entries) option" where
  "take_out k [] = None"
| "take_out k (e # es) =
     (if fst e = k then Some (e, es)
      else (case take_out k es of None \<Rightarrow> None | Some (x, es') \<Rightarrow> Some (x, e # es')))"

text \<open>\<^verbatim>\<open>lookup\<close> returns the flag \<^verbatim>\<open>found\<close> and whether it returns storage; the
  storage is the value of the front entry.  A reused pool node keeps its old value, a new
  node starts with \<open>dflt\<close>; the caller overwrites either.\<close>

definition lookup :: "('k, 'v, 'u) evict_event \<Rightarrow> 'v \<Rightarrow> 'k \<Rightarrow> bool \<Rightarrow> ('k, 'v) simple_lru_cache \<Rightarrow> 'u
    \<Rightarrow> bool \<times> bool \<times> ('k, 'v) simple_lru_cache \<times> 'u" where
  "lookup ev dflt key lookuponly c u =
     (case take_out key (Cache c) of
        Some (e, es) \<Rightarrow> (True, True, c\<lparr>Cache := e # es\<rparr>, u)
      | None \<Rightarrow>
          if lookuponly then (False, False, c, u)
          else (case trim ev c u of (c', u') \<Rightarrow>
            if RealCapacity c' \<noteq> 0
            then (case Pool c' of
                    n # ns \<Rightarrow> (False, True, c'\<lparr>Cache := (key, snd n) # Cache c', Pool := ns\<rparr>, u')
                  | [] \<Rightarrow> (False, True, c'\<lparr>Cache := (key, dflt) # Cache c'\<rparr>, u'))
            else (False, False, c', u')))"

text \<open>The write through the pointer that \<^verbatim>\<open>lookup\<close> returned.\<close>

definition set_front :: "'v \<Rightarrow> ('k, 'v) simple_lru_cache \<Rightarrow> ('k, 'v) simple_lru_cache" where
  "set_front v c = (case Cache c of [] \<Rightarrow> c | e # es \<Rightarrow> c\<lparr>Cache := (fst e, v) # es\<rparr>)"

definition lru_remove :: "'k \<Rightarrow> ('k, 'v) simple_lru_cache \<Rightarrow> ('k, 'v) simple_lru_cache" where
  "lru_remove key c =
     (case take_out key (Cache c) of
        None \<Rightarrow> c
      | Some (e, es) \<Rightarrow> c\<lparr>Cache := es, Pool := e # Pool c\<rparr>)"

abbreviation keys :: "('k, 'v) simple_lru_cache \<Rightarrow> 'k list" where
  "keys c \<equiv> map fst (Cache c)"


section \<open>The list operations\<close>

lemma take_out_None: "take_out k es = None \<longleftrightarrow> k \<notin> fst ` set es"
  by (induction es) (auto split: option.splits)

lemma take_out_Some:
  "take_out k es = Some (e, es') \<Longrightarrow>
     fst e = k \<and> (\<exists>as bs. es = as @ e # bs \<and> es' = as @ bs \<and> k \<notin> fst ` set as)"
proof (induction es arbitrary: es')
  case (Cons a es)
  show ?case
  proof (cases "fst a = k")
    case True
    with Cons.prems show ?thesis by (auto intro: exI [of _ "[]"])
  next
    case False
    with Cons.prems obtain es1 where es1: "take_out k es = Some (e, es1)" "es' = a # es1"
      by (auto split: option.splits)
    from Cons.IH [OF es1(1)] obtain as bs
      where "fst e = k" "es = as @ e # bs" "es1 = as @ bs" "k \<notin> fst ` set as" by blast
    with False es1(2) show ?thesis by (intro conjI exI [of _ "a # as"] exI [of _ bs]) auto
  qed
qed simp

lemma take_out_keys:
  assumes "take_out k es = Some (e, es')" "distinct (map fst es)"
  shows "map fst es' = filter (\<lambda>x. x \<noteq> k) (map fst es)" "fst e = k" "e \<in> set es"
    "set es = insert e (set es')" "k \<notin> fst ` set es'"
proof -
  from take_out_Some [OF assms(1)] obtain as bs
    where "fst e = k" and es: "es = as @ e # bs" "es' = as @ bs" and as: "k \<notin> fst ` set as" by blast
  moreover from assms(2) es \<open>fst e = k\<close> have "k \<notin> fst ` set bs" by auto
  moreover have "filter (\<lambda>x. x \<noteq> k) (map fst cs) = map fst cs" if "k \<notin> fst ` set cs" for cs :: "('a \<times> 'b) list"
    using that by (metis (mono_tags, lifting) filter_True list.set_map)
  ultimately show "map fst es' = filter (\<lambda>x. x \<noteq> k) (map fst es)" "fst e = k" "e \<in> set es"
    "set es = insert e (set es')" "k \<notin> fst ` set es'" by auto
qed

text \<open>Trimming only drops entries, keeps their order, and never looks past the \<open>n\<close> oldest.\<close>

lemma trim_back_split:
  "trim_back ev n es pool u = (es', pool', u') \<Longrightarrow>
     \<exists>kept. es' = kept @ drop n es \<and> set kept \<subseteq> set (take n es) \<and> length kept \<le> n
       \<and> set pool' \<subseteq> set pool \<union> set (take n es)"
proof (induction ev n es pool u arbitrary: es' pool' u' rule: trim_back.induct)
  case (3 ev n e es pool u)
  show ?case
  proof (cases "\<exists>f u1. ev = Some f \<and> f e u = (False, u1)")
    case True
    then obtain f u1 where f: "ev = Some f" "f e u = (False, u1)" by blast
    with "3.prems" obtain es1 where es1: "trim_back ev n es pool u1 = (es1, pool', u')" "es' = e # es1"
      by (auto split: prod.splits)
    from "3.IH"(3) [OF f(1) f(2) [symmetric] _ es1(1)]
    obtain kept where "es1 = kept @ drop n es" "set kept \<subseteq> set (take n es)" "length kept \<le> n"
      "set pool' \<subseteq> set pool \<union> set (take n es)" by auto
    with es1(2) show ?thesis by (intro exI [of _ "e # kept"]) auto
  next
    case False
    then have "\<exists>u1. trim_back ev n es (e # pool) u1 = (es', pool', u')
        \<and> (ev = None \<longrightarrow> u1 = u) \<and> (\<forall>f. ev = Some f \<longrightarrow> f e u = (True, u1))"
      using "3.prems" by (auto split: option.splits prod.splits if_splits)
    then obtain u1 where u1: "trim_back ev n es (e # pool) u1 = (es', pool', u')"
      "ev = None \<Longrightarrow> u1 = u" "\<And>f. ev = Some f \<Longrightarrow> f e u = (True, u1)" by blast
    have "\<exists>kept. es' = kept @ drop n es \<and> set kept \<subseteq> set (take n es) \<and> length kept \<le> n
       \<and> set pool' \<subseteq> set (e # pool) \<union> set (take n es)"
    proof (cases ev)
      case None
      then show ?thesis using "3.IH"(1) [OF None] u1(1,2) by simp
    next
      case (Some f)
      then show ?thesis using "3.IH"(2) [OF Some u1(3) [OF Some, symmetric]] u1(1) by simp
    qed
    then obtain kept where "es' = kept @ drop n es" "set kept \<subseteq> set (take n es)" "length kept \<le> n"
      "set pool' \<subseteq> set (e # pool) \<union> set (take n es)" by blast
    then show ?thesis by (intro exI [of _ kept]) auto
  qed
qed auto

text \<open>With a callback that never refuses, exactly the \<open>n\<close> oldest go.\<close>

definition always_evicts :: "('k, 'v, 'u) evict_event \<Rightarrow> bool" where
  "always_evicts ev \<longleftrightarrow> (case ev of None \<Rightarrow> True | Some f \<Rightarrow> \<forall>e u. fst (f e u))"

lemma trim_back_always: "always_evicts ev \<Longrightarrow> fst (trim_back ev n es pool u) = drop n es"
  by (induction ev n es pool u rule: trim_back.induct)
     (auto simp: always_evicts_def split: option.splits prod.splits; metis fst_conv)+


text \<open>Whatever the callback answers, the order of the survivors is kept.\<close>

lemma trim_back_subseq: "subseq (fst (trim_back ev n es pool u)) es"
proof (induction ev n es pool u rule: trim_back.induct)
  case (3 ev n e es pool u)
  show ?case
  proof (cases ev)
    case None
    with "3.IH"(1) show ?thesis by (simp add: list_emb_Cons)
  next
    case (Some f)
    obtain b u1 where f: "f e u = (b, u1)" by fastforce
    obtain es1 pool1 u2 where t: "trim_back ev n es pool u1 = (es1, pool1, u2)"
      by (metis prod_cases3)
    show ?thesis
      using "3.IH"(2) [OF Some f [symmetric]] "3.IH"(3) [OF Some f [symmetric]] Some f t
      by (cases b) (auto intro: list_emb_Cons)
  qed
qed auto

lemma trim_frame:
  "trim ev c u = (c', u') \<Longrightarrow> RealCapacity c' = RealCapacity c \<and> RequestedCapacity c' = RequestedCapacity c
     \<and> MinCapacity c' = MinCapacity c \<and> MaxCapacity c' = MaxCapacity c"
  by (auto simp: trim_def split: if_splits prod.splits)

lemma subseq_rev_mono: "subseq xs ys \<Longrightarrow> subseq (rev xs) (rev ys)"
proof (induction rule: list_emb.induct)
  case (list_emb_Cons2 x y xs ys)
  then have "subseq (rev xs @ [x]) (rev ys @ [y])" by (intro list_emb_append_mono) auto
  then show ?case by simp
qed (auto intro: subseq_rev_drop_many)

lemma subseq_distinct: "subseq xs ys \<Longrightarrow> distinct (map f ys) \<Longrightarrow> distinct (map f xs)"
  by (induction rule: list_emb.induct) (auto dest: list_emb_set)

lemma subseq_subset: "subseq xs ys \<Longrightarrow> set xs \<subseteq> set ys"
  by (induction rule: list_emb.induct) auto

lemma trim_subseq: "trim ev c u = (c', u') \<Longrightarrow> subseq (Cache c') (Cache c)"
  using trim_back_subseq [of ev "length (Cache c) - RealCapacity c" "rev (Cache c)" "Pool c" u]
  by (auto simp: trim_def split: if_splits prod.splits) (metis subseq_rev_mono rev_rev_ident)

text \<open>The \<open>RealCapacity\<close> most recent entries are never offered to the callback.\<close>

lemma trim_keeps_recent:
  assumes "trim ev c u = (c', u')"
  shows "take (RealCapacity c) (Cache c') = take (RealCapacity c) (Cache c)"
proof (cases "length (Cache c) > RealCapacity c")
  case True
  let ?n = "length (Cache c) - RealCapacity c"
  obtain es pool where t: "trim_back ev ?n (rev (Cache c)) (Pool c) u = (es, pool, u')"
    "c' = c\<lparr>Cache := rev es, Pool := pool\<rparr>"
    using assms True by (auto simp: trim_def split: prod.splits)
  from trim_back_split [OF t(1)] obtain kept where "es = kept @ drop ?n (rev (Cache c))" by blast
  then have "Cache c' = take (RealCapacity c) (Cache c) @ rev kept"
    using True t(2) by (simp add: rev_drop)
  then show ?thesis using True by simp
qed (use assms in \<open>simp add: trim_def\<close>)

lemma trim_always:
  assumes "always_evicts ev" "trim ev c u = (c', u')"
  shows "Cache c' = take (RealCapacity c) (Cache c)"
proof (cases "length (Cache c) > RealCapacity c")
  case True
  then have "fst (trim_back ev (length (Cache c) - RealCapacity c) (rev (Cache c)) (Pool c) u)
      = drop (length (Cache c) - RealCapacity c) (rev (Cache c))"
    using trim_back_always [OF assms(1)] by blast
  with assms(2) True show ?thesis by (auto simp: trim_def rev_drop split: prod.splits)
qed (use assms in \<open>simp add: trim_def\<close>)


text \<open>The entries that are not offered do not matter to the loop.\<close>

lemma trim_back_append:
  "n \<le> length xs \<Longrightarrow> trim_back ev n (xs @ ys) pool u =
     (case trim_back ev n xs pool u of (es, pool', u') \<Rightarrow> (es @ ys, pool', u'))"
  by (induction ev n xs pool u rule: trim_back.induct)
     (auto split: option.splits prod.splits)


section \<open>What an eviction callback promises\<close>

text \<open>
  The contract between the list and its callback.  \<open>locked u v\<close>: the owner of value \<open>v\<close>
  forbids its eviction; \<open>inv u S\<close>: the user data \<open>u\<close> accounts for the live values \<open>S\<close>;
  \<open>agree S u u'\<close>: \<open>u'\<close> says the same as \<open>u\<close> about the values in \<open>S\<close>.
\<close>

locale eviction =
  fixes event :: "'k \<times> 'v \<Rightarrow> 'u \<Rightarrow> bool \<times> 'u"
    and locked :: "'u \<Rightarrow> 'v \<Rightarrow> bool"
    and inv :: "'u \<Rightarrow> 'v set \<Rightarrow> bool"
    and agree :: "'v set \<Rightarrow> 'u \<Rightarrow> 'u \<Rightarrow> bool"
  assumes refuses: "locked u v \<Longrightarrow> event (k, v) u = (False, u)"
    and accepts: "\<not> locked u v \<Longrightarrow> v \<notin> S \<Longrightarrow> inv u (insert v S) \<Longrightarrow>
      fst (event (k, v) u) \<and> inv (snd (event (k, v) u)) S \<and> agree S u (snd (event (k, v) u))"
    and agree_refl: "agree S u u"
    and agree_trans: "agree S u u' \<Longrightarrow> agree S u' u'' \<Longrightarrow> agree S u u''"
    and agree_mono: "agree S u u' \<Longrightarrow> T \<subseteq> S \<Longrightarrow> agree T u u'"
    and agree_locked: "agree S u u' \<Longrightarrow> v \<in> S \<Longrightarrow> locked u' v = locked u v"
begin

lemma trim_back_keeps:
  assumes "trim_back (Some event) n es pool u = (es', pool', u')"
    and "distinct (map snd es)" "snd ` set es \<inter> S = {}" "inv u (snd ` set es \<union> S)"
  shows "inv u' (snd ` set es' \<union> S) \<and> agree (snd ` set es' \<union> S) u u' \<and> set es' \<subseteq> set es
    \<and> (\<forall>e \<in> set es. locked u (snd e) \<longrightarrow> e \<in> set es')"
  using assms
proof (induction n arbitrary: es pool u S es')
  case 0
  then show ?case by (auto simp: agree_refl)
next
  case (Suc n)
  show ?case
  proof (cases es)
    case Nil
    with Suc.prems show ?thesis by (auto simp: agree_refl)
  next
    case (Cons e es1)
    obtain k v where e: "e = (k, v)" by fastforce
    from Suc.prems(2,3) Cons e
    have d: "distinct (map snd es1)" "v \<notin> snd ` set es1 \<union> S" "snd ` set es1 \<inter> insert v S = {}"
      "snd ` set es1 \<inter> S = {}"
      by auto
    show ?thesis
    proof (cases "locked u v")
      case True
      with Suc.prems(1) Cons e obtain es2 where t: "trim_back (Some event) n es1 pool u = (es2, pool', u')"
        "es' = e # es2"
        by (auto simp: refuses split: prod.splits)
      have "snd ` set es1 \<union> insert v S = snd ` set es \<union> S" using Cons e by auto
      with Suc.prems(4) have "inv u (snd ` set es1 \<union> insert v S)" by simp
      from Suc.IH [OF t(1) d(1) d(3) this] t(2) Cons e show ?thesis by auto
    next
      case False
      have i: "inv u (insert v (snd ` set es1 \<union> S))" using Suc.prems(4) Cons e by simp
      obtain u1 where u1: "event (k, v) u = (True, u1)"
        "inv u1 (snd ` set es1 \<union> S)" "agree (snd ` set es1 \<union> S) u u1"
        using accepts [OF False d(2) i, of k] by (cases "event (k, v) u") auto
      with Suc.prems(1) Cons e have t: "trim_back (Some event) n es1 (e # pool) u1 = (es', pool', u')"
        by simp
      note IH = Suc.IH [OF t d(1) d(4) u1(2)]
      then have "agree (snd ` set es' \<union> S) u u1"
        using u1(3) by (blast intro: agree_mono)
      with IH False Cons e u1(3) show ?thesis
        by (auto intro: agree_trans simp: agree_locked [OF u1(3)])
    qed
  qed
qed

text \<open>A trimmed list keeps every locked entry, and the user data still accounts for exactly
  the values that are left.  \<open>T\<close> stands for entries that the trimming does not see.\<close>

lemma trim_keeps:
  assumes "trim (Some event) c u = (c', u')"
    and "Cache c = T @ es" "length T \<le> RealCapacity c"
    and "distinct (map snd es)" "inv u (snd ` set es)"
  shows "\<exists>es'. Cache c' = T @ es' \<and> subseq es' es \<and> inv u' (snd ` set es') \<and> agree (snd ` set es') u u'
    \<and> (\<forall>e \<in> set es. locked u (snd e) \<longrightarrow> e \<in> set es')"
proof (cases "length (Cache c) > RealCapacity c")
  case True
  let ?n = "length (Cache c) - RealCapacity c"
  have n: "?n \<le> length (rev es)" using assms(2,3) by simp
  obtain es1 pool1 where t: "trim_back (Some event) ?n (rev es) (Pool c) u = (es1, pool1, u')"
    and c': "Cache c' = T @ rev es1"
    using assms(1,2) True trim_back_append [OF n, of "Some event" "rev T" "Pool c" u]
    by (auto simp: trim_def split: prod.splits)
  from trim_back_keeps [OF t, of "{}"] assms(4,5)
  have k: "inv u' (snd ` set es1)" "agree (snd ` set es1) u u'"
    "\<forall>e \<in> set es. locked u (snd e) \<longrightarrow> e \<in> set es1"
    by (auto simp: rev_map [symmetric])
  have "subseq (rev es1) es"
    using trim_back_subseq [of "Some event" ?n "rev es" "Pool c" u] t subseq_rev_mono by force
  with k c' show ?thesis by (intro exI [of _ "rev es1"]) auto
qed (use assms in \<open>auto simp: trim_def agree_refl intro!: exI [of _ es]\<close>)

end


section \<open>The least recently used entry goes first\<close>

text \<open>The specification: after a history of lookups, the distinct keys, most recent first.\<close>

definition touch :: "'k \<Rightarrow> 'k list \<Rightarrow> 'k list" where
  "touch k r = k # filter (\<lambda>x. x \<noteq> k) r"

definition recency :: "'k list \<Rightarrow> 'k list" where
  "recency ks = fold touch ks []"

definition lookup_all :: "('k, 'v, 'u) evict_event \<Rightarrow> 'v \<Rightarrow> 'k list
    \<Rightarrow> ('k, 'v) simple_lru_cache \<times> 'u \<Rightarrow> ('k, 'v) simple_lru_cache \<times> 'u" where
  "lookup_all ev dflt ks s =
     fold (\<lambda>k (c, u). case lookup ev dflt k False c u of (_, _, c', u') \<Rightarrow> (c', u')) ks s"

lemma lookup_keys:
  assumes ev: "always_evicts ev" and cap: "0 < RealCapacity c" and dist: "distinct (keys c)"
    and len: "length (Cache c) \<le> Suc (RealCapacity c)"
    and l: "lookup ev d k False c u = (found, storage, c', u')"
  shows "keys c' = take (Suc (RealCapacity c)) (touch k (keys c)) \<and> RealCapacity c' = RealCapacity c"
proof (cases "take_out k (Cache c)")
  case (Some p)
  obtain e es where p: "p = (e, es)" by fastforce
  note out = take_out_keys [OF Some [unfolded p] dist]
  have "keys c' = touch k (keys c)" "RealCapacity c' = RealCapacity c"
    using l Some p out(1,2) by (auto simp: lookup_def touch_def)
  moreover have "length (keys c') = length (keys c)"
    using take_out_Some [OF Some [unfolded p]] l Some p by (auto simp: lookup_def)
  ultimately show ?thesis using len by (metis length_map take_all)
next
  case None
  then have k: "k \<notin> set (keys c)" by (simp add: take_out_None)
  obtain c1 u1 where t: "trim ev c u = (c1, u1)" by fastforce
  with trim_always [OF ev t] trim_frame [OF t] cap l None
  have "keys c' = k # take (RealCapacity c) (keys c)" "RealCapacity c' = RealCapacity c"
    by (auto simp: lookup_def take_map split: list.splits)
  moreover have "filter (\<lambda>x. x \<noteq> k) (keys c) = keys c"
    using k by (auto intro: filter_True)
  ultimately show ?thesis by (simp add: touch_def)
qed

lemma touch_take:
  assumes "distinct r"
  shows "take (Suc n) (touch k (take (Suc n) r)) = take (Suc n) (touch k r)"
proof -
  have "take n (filter (\<lambda>x. x \<noteq> k) (take (Suc n) r)) = take n (filter (\<lambda>x. x \<noteq> k) r)"
    using assms
  proof (induction r arbitrary: n)
    case (Cons x r)
    show ?case
    proof (cases "x = k")
      case True
      with Cons.prems have "k \<notin> set r" by simp
      then have "filter (\<lambda>x. x \<noteq> k) r = r" "filter (\<lambda>x. x \<noteq> k) (take n r) = take n r"
        by (auto intro!: filter_True dest: in_set_takeD)
      with True show ?thesis by simp
    next
      case False
      with Cons show ?thesis by (cases n) auto
    qed
  qed simp
  then show ?thesis by (simp add: touch_def)
qed

lemma distinct_touch: "distinct r \<Longrightarrow> distinct (touch k r)"
  by (simp add: touch_def)

lemma distinct_recency: "distinct r \<Longrightarrow> distinct (fold touch ks r)"
  by (induction ks arbitrary: r) (auto simp: distinct_touch)

lemma lookup_all_keys:
  assumes "always_evicts ev" "0 < RealCapacity c" "distinct r" "keys c = take (Suc (RealCapacity c)) r"
  shows "keys (fst (lookup_all ev d ks (c, u))) = take (Suc (RealCapacity c)) (fold touch ks r)"
  using assms
proof (induction ks arbitrary: c u r)
  case (Cons k ks)
  obtain f st c1 u1 where l: "lookup ev d k False c u = (f, st, c1, u1)" by (metis prod_cases4)
  have "distinct (keys c)" "length (keys c) \<le> Suc (RealCapacity c)"
    using Cons.prems by simp_all
  then have k1: "keys c1 = take (Suc (RealCapacity c)) (touch k (keys c))" "RealCapacity c1 = RealCapacity c"
    using lookup_keys [OF Cons.prems(1,2) _ _ l] by auto
  with touch_take [OF Cons.prems(3)] Cons.prems(4)
  have "keys c1 = take (Suc (RealCapacity c1)) (touch k r)" by simp
  from Cons.IH [OF Cons.prems(1) _ distinct_touch [OF Cons.prems(3)] this, of u1] k1(2) Cons.prems(2) l
  show ?case by (simp add: lookup_all_def)
qed (simp add: lookup_all_def)

text \<open>
  Starting from an empty list of capacity \<open>n > 0\<close> whose callback never refuses, any
  sequence of lookups leaves exactly the \<open>n + 1\<close> most recently used distinct keys, most
  recent first: the list trims before it inserts, so it holds one entry more than its
  capacity, and it is always the least recently used key that goes.
\<close>

theorem lru_most_recent:
  assumes "always_evicts ev" "0 < n"
  shows "keys (fst (lookup_all ev d ks (SimpleLruCache_new n, u))) = take (Suc n) (recency ks)"
  using lookup_all_keys [of ev "SimpleLruCache_new n" "[]" d ks u] assms
  by (simp add: SimpleLruCache_new_def recency_def)

theorem lru_most_recent_witness:
  "keys (fst (lookup_all (None :: (nat, unit, unit) evict_event) () [1, 2, 3, 1, 4] (SimpleLruCache_new 2, ())))
     = [4, 1, 3]"
  using lru_most_recent [of "None :: (nat, unit, unit) evict_event" 2 "()" "[1, 2, 3, 1, 4]" "()"]
  by (simp add: always_evicts_def recency_def touch_def)

end
