(* ===== verification/Lru_Cache.thy ===== *)
theory Lru_Cache
  imports Simple_Lru
begin

text \<open>
  The frame cache \<^verbatim>\<open>LruCache<size_t, PVideoFrame>\<close> (\<^verbatim>\<open>core/LruCache.h\<close>) with
  its entry pool (\<^verbatim>\<open>core/ObjectPool.h\<close>): lookups that reserve an entry for the thread
  that will produce the frame, threads that wait for it, commit, rollback, the ghost list that
  grows the capacity, and eviction.  The threads that use one cache form a step relation; its
  invariant ties the lock counts to the threads and shows that a frame in use is never evicted
  and never produced twice at the same time.
\<close>

section \<open>Data\<close>

datatype LruLookupResult =
  LRU_LOOKUP_NOT_FOUND | LRU_LOOKUP_FOUND_AND_READY | LRU_LOOKUP_FOUND_BUT_NOTAVAIL | LRU_LOOKUP_NO_CACHE

datatype LruEntryState = LRU_ENTRY_EMPTY | LRU_ENTRY_AVAILABLE | LRU_ENTRY_ROLLED_BACK

datatype CacheMode = CACHE_FAST_START | CACHE_OPTIMAL_SIZE | CACHE_NO_RESIZE

text \<open>\<open>None\<close> is the null frame.\<close>

record 'v lru_entry =
  ekey :: nat
  evalue :: "'v option"
  locks :: nat
  ghosted :: nat
  estate :: LruEntryState

text \<open>\<^verbatim>\<open>LruEntry::reset\<close>; the constructor is the same with an empty value.\<close>

definition entry_reset :: "nat \<Rightarrow> 'v option \<Rightarrow> 'v lru_entry" where
  "entry_reset k v = \<lparr>ekey = k, evalue = v, locks = 0, ghosted = 0, estate = LRU_ENTRY_EMPTY\<rparr>"

record object_pool =
  UseList :: "nat list"
  FreeList :: "nat list"
  Top :: nat

text \<open>Addresses are numbers; a fresh allocation takes the next one.\<close>

definition Alloc :: "object_pool \<Rightarrow> nat \<times> object_pool" where
  "Alloc pl = (case FreeList pl of
      p # ps \<Rightarrow> (p, pl\<lparr>UseList := p # UseList pl, FreeList := ps\<rparr>)
    | [] \<Rightarrow> (Top pl, pl\<lparr>UseList := Top pl # UseList pl, Top := Suc (Top pl)\<rparr>))"

definition Free_obj :: "nat \<Rightarrow> object_pool \<Rightarrow> object_pool" where
  "Free_obj p pl = pl\<lparr>UseList := remove1 p (UseList pl), FreeList := p # FreeList pl\<rparr>"

text \<open>A ghost is a key with the number of times it became one.\<close>

record 'v lru_data =
  Ghosts :: "(nat, nat \<times> nat) simple_lru_cache"
  entries :: "nat \<Rightarrow> 'v lru_entry"
  EntryPool :: object_pool

record 'v lru_cache =
  mode :: CacheMode
  MainCache :: "(nat, nat) simple_lru_cache"
  data :: "'v lru_data"

definition GHOSTS_MIN_CAPACITY :: nat where "GHOSTS_MIN_CAPACITY = 50"

definition LruCache_new :: "nat \<Rightarrow> CacheMode \<Rightarrow> 'v lru_cache" where
  "LruCache_new capacity m =
     \<lparr>mode = m, MainCache = SimpleLruCache_new capacity,
      data = \<lparr>Ghosts = SimpleLruCache_new GHOSTS_MIN_CAPACITY, entries = (\<lambda>_. entry_reset 0 None),
               EntryPool = \<lparr>UseList = [], FreeList = [], Top = 0\<rparr>\<rparr>\<rparr>"

section \<open>Operations\<close>

text \<open>\<^verbatim>\<open>Ghosts.lookup\<close> has no callback; its storage is the front ghost.\<close>

definition ghost_lookup :: "nat \<Rightarrow> 'v lru_data \<Rightarrow> bool \<times> 'v lru_data" where
  "ghost_lookup key d =
     (case lookup (None :: (nat, nat \<times> nat, unit) evict_event) (0, 0) key False (Ghosts d) () of
        (found, _, g, _) \<Rightarrow> (found, d\<lparr>Ghosts := g\<rparr>))"

definition ghost_count :: "'v lru_data \<Rightarrow> nat" where
  "ghost_count d = (case Cache (Ghosts d) of [] \<Rightarrow> 0 | g # _ \<Rightarrow> snd (snd g))"

definition set_ghost :: "nat \<times> nat \<Rightarrow> 'v lru_data \<Rightarrow> 'v lru_data" where
  "set_ghost g d = d\<lparr>Ghosts := set_front g (Ghosts d)\<rparr>"

text \<open>The write \<^verbatim>\<open>g->ghosted++\<close> after other ghosts may have moved in front of it.\<close>

definition bump_ghost :: "nat \<Rightarrow> 'v lru_data \<Rightarrow> 'v lru_data" where
  "bump_ghost key d = d\<lparr>Ghosts := (Ghosts d)\<lparr>Cache :=
     map (\<lambda>(k, g). if k = key then (k, fst g, Suc (snd g)) else (k, g)) (Cache (Ghosts d))\<rparr>\<rparr>"

definition MainEvictEvent :: "nat \<times> nat \<Rightarrow> 'v lru_data \<Rightarrow> bool \<times> 'v lru_data" where
  "MainEvictEvent e d =
     (if locks (entries d (snd e)) > 0 then (False, d)
      else
        let (ghost_found, d1) = ghost_lookup (fst e) d;
            d2 = (if \<not> ghost_found then set_ghost (fst e, ghosted (entries d (snd e)) + 1) d1
                  else set_ghost (fst e, ghost_count d1 + 1) d1)
        in (True, d2\<lparr>entries := (entries d2)(snd e := entry_reset 0 None),
                     EntryPool := Free_obj (snd e) (EntryPool d2)\<rparr>))"

definition lru_resize :: "nat \<Rightarrow> 'v lru_cache \<Rightarrow> 'v lru_cache" where
  "lru_resize n c = (case resize (Some MainEvictEvent) n (MainCache c) (data c) of
     (m, d) \<Rightarrow> c\<lparr>MainCache := m, data := d\<rparr>)"

definition lru_set_limits :: "nat \<Rightarrow> nat \<Rightarrow> 'v lru_cache \<Rightarrow> 'v lru_cache" where
  "lru_set_limits mn mx c = (case set_limits (Some MainEvictEvent) mn mx (MainCache c) (data c) of
     (m, d) \<Rightarrow> c\<lparr>MainCache := m, data := d\<rparr>)"

text \<open>How a call ends: it returns a result with the found item and the handle, or it waits
  on the condition variable of an entry.\<close>

datatype 'v outcome = Returned LruLookupResult "'v option" "nat option" | Blocked nat

definition upd_entry :: "nat \<Rightarrow> ('v lru_entry \<Rightarrow> 'v lru_entry) \<Rightarrow> 'v lru_cache \<Rightarrow> 'v lru_cache" where
  "upd_entry p f c = c\<lparr>data := (data c)\<lparr>entries := (entries (data c))(p := f (entries (data c) p))\<rparr>\<rparr>"

text \<open>The end of the waiting loop: the item is copied and the entry unlocked.\<close>

definition lru_take :: "nat \<Rightarrow> 'v lru_cache \<Rightarrow> 'v outcome \<times> 'v lru_cache" where
  "lru_take p c = (Returned LRU_LOOKUP_FOUND_AND_READY (evalue (entries (data c) p)) None,
     upd_entry p (\<lambda>e. e\<lparr>locks := locks e - 1\<rparr>) c)"

definition lru_hit :: "nat \<Rightarrow> bool \<Rightarrow> 'v lru_cache \<Rightarrow> 'v outcome \<times> 'v lru_cache" where
  "lru_hit p block_for_completion c =
     (if \<not> block_for_completion \<and> estate (entries (data c) p) \<noteq> LRU_ENTRY_AVAILABLE
      then (Returned LRU_LOOKUP_FOUND_BUT_NOTAVAIL None None, c)
      else
        let c1 = upd_entry p (\<lambda>e. e\<lparr>locks := locks e + 1\<rparr>) c
        in if estate (entries (data c1) p) = LRU_ENTRY_EMPTY then (Blocked p, c1) else lru_take p c1)"

text \<open>A return of \<^verbatim>\<open>ready_cond.wait\<close>, notified or spurious.\<close>

definition lru_wake :: "nat \<Rightarrow> 'v lru_cache \<Rightarrow> 'v outcome \<times> 'v lru_cache" where
  "lru_wake p c = (case estate (entries (data c) p) of
      LRU_ENTRY_EMPTY \<Rightarrow> (Blocked p, c)
    | LRU_ENTRY_AVAILABLE \<Rightarrow> lru_take p c
    | LRU_ENTRY_ROLLED_BACK \<Rightarrow>
        (Returned LRU_LOOKUP_NOT_FOUND None (Some p), upd_entry p (\<lambda>e. e\<lparr>estate := LRU_ENTRY_EMPTY\<rparr>) c))"

text \<open>The self-tuning part of a miss: the ghost of the key, the growth of the capacity, and
  the answer to the caller whether filters below should stop growing theirs.\<close>

definition lru_ghost :: "nat \<Rightarrow> bool option \<Rightarrow> 'v lru_cache \<Rightarrow> nat \<times> bool option \<times> 'v lru_cache" where
  "lru_ghost key suppressCaching c =
     (let (ghost_found, d1) = ghost_lookup key (data c)
      in if \<not> ghost_found then (0, suppressCaching, c\<lparr>data := set_ghost (key, 0) d1\<rparr>)
         else if ghost_count d1 > 1 then
           (let c1 = c\<lparr>data := d1\<rparr>;
                c2 = (if mode c1 \<noteq> CACHE_NO_RESIZE
                      then let c' = lru_resize (RealCapacity (MainCache c1) + 1) c1
                           in c'\<lparr>data := (data c')\<lparr>Ghosts :=
                                fst (resize (None :: (nat, nat \<times> nat, unit) evict_event)
                                       (GHOSTS_MIN_CAPACITY + RealCapacity (MainCache c') * 2)
                                       (Ghosts (data c')) ())\<rparr>\<rparr>
                      else c1)
            in (ghost_count d1,
                if mode c1 = CACHE_OPTIMAL_SIZE \<and> suppressCaching \<noteq> None then Some True else suppressCaching,
                c2))
         else (ghost_count d1, suppressCaching, c\<lparr>data := d1\<rparr>))"

text \<open>\<^verbatim>\<open>EntryPool.Construct(key)\<close> and the reservation for the calling thread.\<close>

definition lru_reserve :: "nat \<Rightarrow> nat \<Rightarrow> 'v lru_cache \<Rightarrow> 'v outcome \<times> 'v lru_cache" where
  "lru_reserve key g c =
     (let (p, pl) = Alloc (EntryPool (data c))
      in (Returned LRU_LOOKUP_NOT_FOUND None (Some p),
          c\<lparr>MainCache := set_front p (MainCache c),
            data := (data c)\<lparr>EntryPool := pl,
              entries := (entries (data c))(p := (entry_reset key None)\<lparr>locks := 1, ghosted := g\<rparr>)\<rparr>\<rparr>))"

definition lru_lookup :: "nat \<Rightarrow> bool \<Rightarrow> bool option \<Rightarrow> 'v lru_cache
    \<Rightarrow> 'v outcome \<times> bool option \<times> 'v lru_cache" where
  "lru_lookup key block_for_completion suppressCaching c =
     (let suppress = (suppressCaching = Some True)
      in case lookup (Some MainEvictEvent) 0 key suppress (MainCache c) (data c) of
        (found, storage, m, d) \<Rightarrow>
          let c1 = c\<lparr>MainCache := m, data := d\<rparr>
          in if found then
               (case lru_hit (snd (hd (Cache m))) block_for_completion c1 of
                  (out, c2) \<Rightarrow> (out, suppressCaching, c2))
             else if \<not> suppress then
               (case lru_ghost key suppressCaching c1 of
                  (g, supp, c2) \<Rightarrow>
                    if storage then (case lru_reserve key g c2 of (out, c3) \<Rightarrow> (out, supp, c3))
                    else (Returned LRU_LOOKUP_NO_CACHE None None, supp, c2\<lparr>data := bump_ghost key (data c2)\<rparr>))
             else (Returned LRU_LOOKUP_NO_CACHE None None, suppressCaching, c1))"

text \<open>The producer stores its frame (\<^verbatim>\<open>cache_handle.first->value = result\<close> in
  \<^verbatim>\<open>AvsCache::GetFrame\<close>) and commits, or rolls back.\<close>

definition set_value :: "nat \<Rightarrow> 'v \<Rightarrow> 'v lru_cache \<Rightarrow> 'v lru_cache" where
  "set_value p v = upd_entry p (\<lambda>e. e\<lparr>evalue := Some v\<rparr>)"

definition commit_value :: "nat \<Rightarrow> 'v lru_cache \<Rightarrow> 'v lru_cache" where
  "commit_value p = upd_entry p (\<lambda>e. e\<lparr>estate := LRU_ENTRY_AVAILABLE, locks := locks e - 1\<rparr>)"

definition rollback :: "nat \<Rightarrow> 'v lru_cache \<Rightarrow> 'v lru_cache" where
  "rollback p c =
     (if locks (entries (data c) p) = 1
      then c\<lparr>MainCache := lru_remove (ekey (entries (data c) p)) (MainCache c)\<rparr>
      else upd_entry p (\<lambda>e. e\<lparr>locks := locks e - 1, estate := LRU_ENTRY_ROLLED_BACK\<rparr>) c)"

section \<open>The threads of one cache\<close>

datatype lru_user = Idle | Waiting nat | Holding nat

record 'v lru_sys =
  cache :: "'v lru_cache"
  users :: "nat \<Rightarrow> lru_user"

fun outcome_user :: "'v outcome \<Rightarrow> lru_user" where
  "outcome_user (Returned _ _ (Some p)) = Holding p"
| "outcome_user (Returned _ _ None) = Idle"
| "outcome_user (Blocked p) = Waiting p"

inductive lru_step :: "'v lru_sys \<Rightarrow> 'v lru_sys \<Rightarrow> bool" where
  lookup_call: "users s t = Idle \<Longrightarrow> lru_lookup key block supp (cache s) = (out, supp', c') \<Longrightarrow>
     lru_step s \<lparr>cache = c', users = (users s)(t := outcome_user out)\<rparr>"
| wake: "users s t = Waiting p \<Longrightarrow> lru_wake p (cache s) = (out, c') \<Longrightarrow>
     lru_step s \<lparr>cache = c', users = (users s)(t := outcome_user out)\<rparr>"
| commit: "users s t = Holding p \<Longrightarrow>
     lru_step s \<lparr>cache = commit_value p (set_value p v (cache s)), users = (users s)(t := Idle)\<rparr>"
| roll_back: "users s t = Holding p \<Longrightarrow>
     lru_step s \<lparr>cache = rollback p (cache s), users = (users s)(t := Idle)\<rparr>"
| change_limits: "lru_step s (s\<lparr>cache := lru_set_limits mn mx (cache s)\<rparr>)"

inductive lru_reachable :: "'v lru_sys \<Rightarrow> bool" where
  start: "capacity \<le> SIZE_MAX \<Longrightarrow> lru_reachable \<lparr>cache = LruCache_new capacity m, users = (\<lambda>_. Idle)\<rparr>"
| step: "lru_reachable s \<Longrightarrow> lru_step s s' \<Longrightarrow> lru_reachable s'"


section \<open>The invariant\<close>

text \<open>The pool accounts for the live addresses \<open>S\<close>.\<close>

definition pool_ok :: "'v lru_data \<Rightarrow> nat set \<Rightarrow> bool" where
  "pool_ok d S \<longleftrightarrow> S \<subseteq> set (UseList (EntryPool d))
     \<and> distinct (UseList (EntryPool d) @ FreeList (EntryPool d))
     \<and> (\<forall>p \<in> set (UseList (EntryPool d) @ FreeList (EntryPool d)). p < Top (EntryPool d))"

definition same_entries :: "nat set \<Rightarrow> 'v lru_data \<Rightarrow> 'v lru_data \<Rightarrow> bool" where
  "same_entries S d d' \<longleftrightarrow> (\<forall>p \<in> S. entries d' p = entries d p)"

lemma ghost_frame [simp]:
  "entries (snd (ghost_lookup k d)) = entries d" "EntryPool (snd (ghost_lookup k d)) = EntryPool d"
  "entries (set_ghost g d) = entries d" "EntryPool (set_ghost g d) = EntryPool d"
  "entries (bump_ghost k d) = entries d" "EntryPool (bump_ghost k d) = EntryPool d"
  by (simp_all add: ghost_lookup_def set_ghost_def bump_ghost_def split: prod.splits)

text \<open>The callback of the main list keeps its part of the contract.\<close>

interpretation main: eviction MainEvictEvent "\<lambda>d p. locks (entries d p) > 0" pool_ok same_entries
proof
  fix d :: "'v lru_data" and p k :: nat and S
  show "MainEvictEvent (k, p) d = (False, d)" if "locks (entries d p) > 0"
    using that by (simp add: MainEvictEvent_def)
  assume p: "\<not> locks (entries d p) > 0" "p \<notin> S" "pool_ok d (insert p S)"
  then have "p \<in> set (UseList (EntryPool d))" by (simp add: pool_ok_def)
  obtain gf d1 where g: "ghost_lookup k d = (gf, d1)" by fastforce
  then have d1: "entries d1 = entries d" "EntryPool d1 = EntryPool d"
    using ghost_frame(1,2) [of k d] by simp_all
  show "fst (MainEvictEvent (k, p) d) \<and> pool_ok (snd (MainEvictEvent (k, p) d)) S
      \<and> same_entries S d (snd (MainEvictEvent (k, p) d))"
    using p g d1
    by (auto simp: MainEvictEvent_def pool_ok_def same_entries_def Free_obj_def Let_def
        dest: notin_set_remove1)
qed (auto simp: same_entries_def)

text \<open>What an entry's lock count and state say about the threads that use it.\<close>

definition waiters :: "(nat \<Rightarrow> lru_user) \<Rightarrow> nat \<Rightarrow> nat" where
  "waiters U p = card {t. U t = Waiting p}"

definition holders :: "(nat \<Rightarrow> lru_user) \<Rightarrow> nat \<Rightarrow> nat" where
  "holders U p = card {t. U t = Holding p}"

definition entry_ok :: "(nat \<Rightarrow> lru_user) \<Rightarrow> nat \<Rightarrow> 'v lru_entry \<Rightarrow> bool" where
  "entry_ok U p e \<longleftrightarrow>
     locks e = waiters U p + holders U p
     \<and> (case estate e of
          LRU_ENTRY_EMPTY \<Rightarrow> holders U p = 1
        | LRU_ENTRY_AVAILABLE \<Rightarrow> holders U p = 0 \<and> evalue e \<noteq> None
        | LRU_ENTRY_ROLLED_BACK \<Rightarrow> holders U p = 0 \<and> 0 < waiters U p)"

lemma entry_ok_cong:
  "waiters U' p = waiters U p \<Longrightarrow> holders U' p = holders U p \<Longrightarrow> entry_ok U' p e = entry_ok U p e"
  by (simp add: entry_ok_def cong: LruEntryState.case_cong)

definition cache_inv :: "(nat \<times> nat) list \<Rightarrow> 'v lru_data \<Rightarrow> (nat \<Rightarrow> lru_user) \<Rightarrow> bool" where
  "cache_inv es d U \<longleftrightarrow>
     distinct (map fst es) \<and> distinct (map snd es) \<and> pool_ok d (snd ` set es)
     \<and> (\<forall>(k, p) \<in> set es. ekey (entries d p) = k)
     \<and> finite {t. U t \<noteq> Idle}
     \<and> (\<forall>t p. U t = Waiting p \<or> U t = Holding p \<longrightarrow> p \<in> snd ` set es)
     \<and> (\<forall>p \<in> snd ` set es. entry_ok U p (entries d p))"

lemma cache_invI:
  assumes "distinct (map fst es)" "distinct (map snd es)" "pool_ok d (snd ` set es)"
    "\<And>k p. (k, p) \<in> set es \<Longrightarrow> ekey (entries d p) = k" "finite {t. U t \<noteq> Idle}"
    "\<And>t p. U t = Waiting p \<or> U t = Holding p \<Longrightarrow> p \<in> snd ` set es"
    "\<And>p. p \<in> snd ` set es \<Longrightarrow> entry_ok U p (entries d p)"
  shows "cache_inv es d U"
  using assms by (auto simp: cache_inv_def)

lemma cache_invD:
  assumes "cache_inv es d U"
  shows "distinct (map fst es)" "distinct (map snd es)" "pool_ok d (snd ` set es)"
    "(k, p) \<in> set es \<Longrightarrow> ekey (entries d p) = k" "finite {t. U t \<noteq> Idle}"
    "U t = Waiting p \<Longrightarrow> p \<in> snd ` set es" "U t = Holding p \<Longrightarrow> p \<in> snd ` set es"
    "p \<in> snd ` set es \<Longrightarrow> entry_ok U p (entries d p)"
    "finite {t. U t = Waiting p}" "finite {t. U t = Holding p}"
proof -
  from assms show fin: "finite {t. U t \<noteq> Idle}" by (simp add: cache_inv_def)
  show "finite {t. U t = Waiting p}" "finite {t. U t = Holding p}"
    by (rule finite_subset [OF _ fin], auto)+
qed (use assms in \<open>auto simp: cache_inv_def\<close>)

text \<open>A thread that waits for or holds an entry keeps it locked.\<close>

lemma used_locked:
  assumes "cache_inv es d U" "U t = Waiting p \<or> U t = Holding p"
  shows "0 < locks (entries d p)"
proof -
  from assms have p: "p \<in> snd ` set es" using cache_invD(6,7) by blast
  have "{t. U t = Waiting p} \<noteq> {} \<or> {t. U t = Holding p} \<noteq> {}" using assms(2) by blast
  then have "0 < waiters U p + holders U p"
    using cache_invD(9,10) [OF assms(1), of p] by (auto simp: waiters_def holders_def card_gt_0_iff)
  with cache_invD(8) [OF assms(1) p] show ?thesis by (simp add: entry_ok_def)
qed

text \<open>Eviction: whatever went was unlocked, whatever stayed is unchanged.\<close>

lemma cache_inv_evict:
  assumes inv: "cache_inv es d U" and sub: "subseq es' es"
    and pool: "pool_ok d' (snd ` set es')" and same: "same_entries (snd ` set es') d d'"
    and keep: "\<forall>e \<in> set es. 0 < locks (entries d (snd e)) \<longrightarrow> e \<in> set es'"
  shows "cache_inv es' d' U"
proof -
  have set: "set es' \<subseteq> set es" by (rule subseq_subset [OF sub])
  have used: "p \<in> snd ` set es'" if u: "U t = Waiting p \<or> U t = Holding p" for t p
  proof -
    from u inv have "p \<in> snd ` set es" by (auto dest: cache_invD(6,7))
    with keep used_locked [OF inv u] show ?thesis by force
  qed
  have "entry_ok U p (entries d' p)" if p: "p \<in> snd ` set es'" for p
  proof -
    from p set have "p \<in> snd ` set es" by auto
    moreover from same p have "entries d' p = entries d p" by (auto simp: same_entries_def)
    ultimately show ?thesis using cache_invD(8) [OF inv] by simp
  qed
  moreover have "ekey (entries d' p) = k" if "(k, p) \<in> set es'" for k p
  proof -
    from that have "p \<in> snd ` set es'" by force
    with same have "entries d' p = entries d p" by (auto simp: same_entries_def)
    with that set cache_invD(4) [OF inv] show ?thesis by auto
  qed
  ultimately show ?thesis
    using used pool cache_invD(1,2,5) [OF inv] subseq_distinct [OF sub]
    by (auto simp: cache_inv_def)
qed

text \<open>Moving the hit to the front changes nothing but the order.\<close>

lemma cache_inv_reorder:
  "cache_inv es d U \<Longrightarrow> set es' = set es \<Longrightarrow> distinct (map fst es') \<Longrightarrow> distinct (map snd es') \<Longrightarrow>
     cache_inv es' d U"
  by (simp add: cache_inv_def)

lemma cache_inv_frame:
  "cache_inv es d U \<Longrightarrow> entries d' = entries d \<Longrightarrow> EntryPool d' = EntryPool d \<Longrightarrow> cache_inv es d' U"
  by (simp add: cache_inv_def pool_ok_def)

text \<open>One thread changes what it does with one entry.\<close>

lemma cache_inv_update:
  assumes inv: "cache_inv es d U" and p: "p \<in> snd ` set es"
    and key: "ekey e' = ekey (entries d p)"
    and U: "U t \<in> {Idle, Waiting p, Holding p}" "u' \<in> {Idle, Waiting p, Holding p}"
    and ok: "entry_ok (U(t := u')) p e'"
  shows "cache_inv es (d\<lparr>entries := (entries d)(p := e')\<rparr>) (U(t := u'))"
proof -
  let ?U = "U(t := u')"
  have other: "waiters ?U q = waiters U q" "holders ?U q = holders U q" if "q \<noteq> p" for q
  proof -
    have "{s. ?U s = Waiting q} = {s. U s = Waiting q}" "{s. ?U s = Holding q} = {s. U s = Holding q}"
      using U that by auto
    then show "waiters ?U q = waiters U q" "holders ?U q = holders U q"
      by (simp_all add: waiters_def holders_def)
  qed
  have fin: "finite {s. ?U s \<noteq> Idle}"
    using cache_invD(5) [OF inv] by (auto intro: finite_subset [of _ "insert t {s. U s \<noteq> Idle}"])
  have ent: "entry_ok ?U q (((entries d)(p := e')) q)" if "q \<in> snd ` set es" for q
    using cache_invD(8) [OF inv that] ok entry_ok_cong [OF other, of q] by (cases "q = p") auto
  have mem: "q \<in> snd ` set es" if "?U s = Waiting q \<or> ?U s = Holding q" for s q
    using that U(2) p cache_invD(6,7) [OF inv] by (cases "s = t") auto
  have keys: "ekey (((entries d)(p := e')) q) = k" if "(k, q) \<in> set es" for k q
    using that key cache_invD(4) [OF inv that] by (cases "q = p") auto
  have "pool_ok (d\<lparr>entries := (entries d)(p := e')\<rparr>) (snd ` set es)"
    using cache_invD(3) [OF inv] by (simp add: pool_ok_def)
  then show ?thesis
  proof (rule cache_invI [OF cache_invD(1,2) [OF inv]])
    show "ekey (entries (d\<lparr>entries := (entries d)(p := e')\<rparr>) q) = k" if "(k, q) \<in> set es" for k q
      using keys [OF that] by simp
    show "entry_ok ?U q (entries (d\<lparr>entries := (entries d)(p := e')\<rparr>) q)" if "q \<in> snd ` set es" for q
      using ent [OF that] by simp
  qed (rule fin mem; assumption?)+
qed


lemma card_user_upd:
  assumes "finite {s. U s = v}"
  shows "card {s. (U(t := u')) s = v} = card {s. U s = v} - (if U t = v then 1 else 0) + (if u' = v then 1 else 0)"
proof -
  have "{s. (U(t := u')) s = v} = (if u' = v then insert t {s. U s = v} else {s. U s = v} - {t})"
    by auto
  with assms show ?thesis
    by (auto simp: card_insert_if card_Diff_singleton_if) (metis (mono_tags) card_gt_0_iff empty_iff mem_Collect_eq Suc_pred)
qed

lemma users_upd:
  assumes "cache_inv es d U"
  shows "waiters (U(t := u')) p = waiters U p - (if U t = Waiting p then 1 else 0) + (if u' = Waiting p then 1 else 0)"
    "holders (U(t := u')) p = holders U p - (if U t = Holding p then 1 else 0) + (if u' = Holding p then 1 else 0)"
  using card_user_upd [OF cache_invD(9) [OF assms, of p], of t u'] card_user_upd [OF cache_invD(10) [OF assms, of p], of t u']
  by (simp_all only: waiters_def holders_def)

lemma waiting_card: "cache_inv es d U \<Longrightarrow> U t = Waiting p \<Longrightarrow> 0 < waiters U p"
  using cache_invD(9) [of es d U p] by (auto simp: waiters_def card_gt_0_iff)

lemma holding_card: "cache_inv es d U \<Longrightarrow> U t = Holding p \<Longrightarrow> 0 < holders U p"
  using cache_invD(10) [of es d U p] by (auto simp: holders_def card_gt_0_iff)

lemma holder_unique:
  assumes "holders U p = 1" "U s = Holding p" "U t = Holding p"
  shows "s = t"
proof -
  from assms(1) obtain x where x: "{t. U t = Holding p} = {x}"
    unfolding holders_def by (rule card_1_singletonE)
  from assms(2,3) have "s \<in> {t. U t = Holding p}" "t \<in> {t. U t = Holding p}" by simp_all
  then show ?thesis unfolding x by simp
qed

lemma holding_state:
  assumes inv: "cache_inv es d U" and t: "U t = Holding p"
  shows "estate (entries d p) = LRU_ENTRY_EMPTY" "holders U p = 1"
  using cache_invD(8) [OF inv cache_invD(7) [OF inv t]] holding_card [OF inv t]
  by (auto simp: entry_ok_def split: LruEntryState.splits)

definition caps_ok :: "(nat, nat) simple_lru_cache \<Rightarrow> bool" where
  "caps_ok m \<longleftrightarrow> RealCapacity m \<le> MaxCapacity m \<or> RealCapacity m \<le> MinCapacity m"

definition sys_inv :: "'v lru_sys \<Rightarrow> bool" where
  "sys_inv s \<longleftrightarrow> cache_inv (Cache (MainCache (cache s))) (data (cache s)) (users s)
     \<and> caps_ok (MainCache (cache s))"

lemma upd_entry_simps [simp]:
  "MainCache (upd_entry p f c) = MainCache c"
  "data (upd_entry p f c) = (data c)\<lparr>entries := (entries (data c))(p := f (entries (data c) p))\<rparr>"
  by (simp_all add: upd_entry_def)

text \<open>The steps that touch one entry.\<close>

lemma inv_wake:
  assumes inv: "cache_inv es (data c) U" and t: "U t = Waiting p" and w: "lru_wake p c = (out, c')"
  shows "cache_inv es (data c') (U(t := outcome_user out)) \<and> MainCache c' = MainCache c"
proof -
  let ?e = "entries (data c) p"
  note p = cache_invD(6) [OF inv t]
  note ok = cache_invD(8) [OF inv p]
  note cards = users_upd [OF inv, of t _ p]
  show ?thesis
  proof (cases "estate ?e")
    case LRU_ENTRY_EMPTY
    with w t have "out = Blocked p" "c' = c" by (simp_all add: lru_wake_def)
    moreover have "U(t := Waiting p) = U" using t by auto
    ultimately show ?thesis using inv by simp
  next
    case LRU_ENTRY_AVAILABLE
    with ok waiting_card [OF inv t] t have "entry_ok (U(t := Idle)) p (?e\<lparr>locks := locks ?e - 1\<rparr>)"
      by (simp add: entry_ok_def cards)
    with LRU_ENTRY_AVAILABLE w cache_inv_update [OF inv p, of "?e\<lparr>locks := locks ?e - 1\<rparr>" t Idle] t
    show ?thesis by (auto simp: lru_wake_def lru_take_def)
  next
    case LRU_ENTRY_ROLLED_BACK
    with ok waiting_card [OF inv t] t have "entry_ok (U(t := Holding p)) p (?e\<lparr>estate := LRU_ENTRY_EMPTY\<rparr>)"
      by (simp add: entry_ok_def cards)
    with LRU_ENTRY_ROLLED_BACK w cache_inv_update [OF inv p, of "?e\<lparr>estate := LRU_ENTRY_EMPTY\<rparr>" t "Holding p"] t
    show ?thesis by (auto simp: lru_wake_def)
  qed
qed

lemma inv_hit:
  assumes inv: "cache_inv es (data c) U" and t: "U t = Idle" and p: "p \<in> snd ` set es"
    and h: "lru_hit p b c = (out, c')"
  shows "cache_inv es (data c') (U(t := outcome_user out)) \<and> MainCache c' = MainCache c"
proof -
  let ?e = "entries (data c) p"
  note ok = cache_invD(8) [OF inv p]
  note cards = users_upd [OF inv, of t _ p]
  have same: "U(t := Idle) = U" using t by auto
  consider (notavail) "\<not> b" "estate ?e \<noteq> LRU_ENTRY_AVAILABLE" | (wait) "b" "estate ?e = LRU_ENTRY_EMPTY"
    | (ready) "estate ?e \<noteq> LRU_ENTRY_EMPTY" "b \<or> estate ?e = LRU_ENTRY_AVAILABLE"
    by (cases b; cases "estate ?e") auto
  then show ?thesis
  proof cases
    case notavail
    with h inv same show ?thesis by (auto simp: lru_hit_def)
  next
    case wait
    with ok t have "entry_ok (U(t := Waiting p)) p (?e\<lparr>locks := locks ?e + 1\<rparr>)"
      by (simp add: entry_ok_def cards)
    with wait h cache_inv_update [OF inv p, of "?e\<lparr>locks := locks ?e + 1\<rparr>" t "Waiting p"] t
    show ?thesis by (auto simp: lru_hit_def)
  next
    case ready
    then have "out = Returned LRU_LOOKUP_FOUND_AND_READY (evalue ?e) None \<and> MainCache c' = MainCache c
      \<and> data c' = data c"
      using h by (auto simp: lru_hit_def lru_take_def)
    with inv same show ?thesis by simp
  qed
qed

lemma inv_commit:
  assumes inv: "cache_inv es (data c) U" and t: "U t = Holding p"
  shows "cache_inv es (data (commit_value p (set_value p v c))) (U(t := Idle))"
proof -
  let ?e = "entries (data c) p"
  let ?e' = "?e\<lparr>evalue := Some v, estate := LRU_ENTRY_AVAILABLE, locks := locks ?e - 1\<rparr>"
  note p = cache_invD(7) [OF inv t]
  note cards = users_upd [OF inv, of t _ p]
  from cache_invD(8) [OF inv p] holding_state [OF inv t] t have "entry_ok (U(t := Idle)) p ?e'"
    by (simp add: entry_ok_def cards)
  from cache_inv_update [OF inv p _ _ _ this] t show ?thesis
    by (simp add: commit_value_def set_value_def)
qed


text \<open>A rollback by the only user removes the entry; otherwise a waiting thread is left.\<close>

lemma take_out_key:
  assumes "distinct (map fst es)" "(k, p) \<in> set es"
  shows "\<exists>es'. take_out k es = Some ((k, p), es')"
proof (cases "take_out k es")
  case None
  with assms(2) show ?thesis by (force simp: take_out_None)
next
  case (Some x)
  obtain e es' where x: "x = (e, es')" by fastforce
  from take_out_keys [OF Some [unfolded x] assms(1)] have e: "fst e = k" "e \<in> set es" by blast+
  with assms have "e = (k, p)" by (metis eq_key_imp_eq_value prod.collapse)
  with Some x show ?thesis by auto
qed

lemma inv_remove:
  assumes inv: "cache_inv es d U" and kp: "(k, p) \<in> set es" and out: "take_out k es = Some ((k, p), es')"
    and U: "\<And>s. U s \<noteq> Waiting p \<and> (U s = Holding p \<longrightarrow> s = t)" and t: "U t = Holding p \<or> U t = Idle"
  shows "cache_inv es' d (U(t := Idle))"
proof -
  note keys = take_out_keys [OF out cache_invD(1) [OF inv]]
  from take_out_Some [OF out] have sub: "subseq es' es" by (auto simp: subseq_append')
  have p: "snd ` set es' = snd ` set es - {p}"
  proof -
    from take_out_Some [OF out] obtain as bs where e: "es = as @ (k, p) # bs" "es' = as @ bs" by blast
    from cache_invD(2) [OF inv] have "p \<notin> snd ` set as" "p \<notin> snd ` set bs" unfolding e by simp_all
    then show ?thesis unfolding e by auto
  qed
  have users: "waiters (U(t := Idle)) q = waiters U q" "holders (U(t := Idle)) q = holders U q"
    if "q \<noteq> p" for q
    using t that unfolding users_upd [OF inv] by auto
  show ?thesis
  proof (rule cache_invI)
    show "distinct (map fst es')" "distinct (map snd es')"
      using subseq_distinct [OF sub] cache_invD(1,2) [OF inv] by blast+
    show "pool_ok d (snd ` set es')" using cache_invD(3) [OF inv] p by (auto simp: pool_ok_def)
    show "ekey (entries d q) = k'" if "(k', q) \<in> set es'" for k' q
      by (rule cache_invD(4) [OF inv]) (simp add: keys(4) that)
    show "finite {s. (U(t := Idle)) s \<noteq> Idle}"
      by (rule finite_subset [OF _ cache_invD(5) [OF inv]]) auto
    show "q \<in> snd ` set es'" if "(U(t := Idle)) s = Waiting q \<or> (U(t := Idle)) s = Holding q" for s q
    proof -
      from that have s: "s \<noteq> t" "U s = Waiting q \<or> U s = Holding q" by (cases "s = t"; simp)+
      with U [of s] have "q \<noteq> p" by auto
      moreover from s(2) have "q \<in> snd ` set es"
        by (rule disjE) (rule cache_invD(6) [OF inv] cache_invD(7) [OF inv]; assumption)+
      ultimately show ?thesis by (simp add: p)
    qed
    show "entry_ok (U(t := Idle)) q (entries d q)" if "q \<in> snd ` set es'" for q
    proof -
      from that p have q: "q \<in> snd ` set es" "q \<noteq> p" by simp_all
      show ?thesis by (subst entry_ok_cong [OF users [OF q(2)]]) (rule cache_invD(8) [OF inv q(1)])
    qed
  qed
qed

lemma inv_rollback:
  assumes inv: "cache_inv (Cache (MainCache c)) (data c) U" and t: "U t = Holding p"
  shows "cache_inv (Cache (MainCache (rollback p c))) (data (rollback p c)) (U(t := Idle))"
proof -
  let ?e = "entries (data c) p" and ?es = "Cache (MainCache c)"
  note p = cache_invD(7) [OF inv t]
  note ok = cache_invD(8) [OF inv p]
  note hold = holding_state [OF inv t]
  show ?thesis
  proof (cases "locks ?e = 1")
    case True
    from p obtain k where kp: "(k, p) \<in> set ?es" by auto
    have k: "ekey ?e = k" by (rule cache_invD(4) [OF inv kp])
    obtain es' where out: "take_out k ?es = Some ((k, p), es')"
      using take_out_key [OF cache_invD(1) [OF inv] kp] by blast
    have "waiters U p = 0" using ok True hold by (simp add: entry_ok_def)
    then have w: "U s \<noteq> Waiting p" for s using waiting_card [OF inv, of s p] by auto
    have h: "s = t" if "U s = Holding p" for s
      by (rule holder_unique [OF hold(2) that t])
    have "cache_inv es' (data c) (U(t := Idle))"
      by (rule inv_remove [OF inv kp out]) (use w h t in \<open>blast+\<close>)
    with True k out show ?thesis by (simp add: rollback_def lru_remove_def)
  next
    case False
    with ok hold have "0 < waiters U p" "locks ?e = waiters U p + 1" by (auto simp: entry_ok_def)
    then have "entry_ok (U(t := Idle)) p (?e\<lparr>locks := locks ?e - 1, estate := LRU_ENTRY_ROLLED_BACK\<rparr>)"
      using hold t by (simp add: entry_ok_def users_upd [OF inv])
    from cache_inv_update [OF inv p _ _ _ this] t False show ?thesis
      by (simp add: rollback_def)
  qed
qed


text \<open>Trimming, resizing and looking up the main list.\<close>

lemma inv_trim:
  assumes tr: "trim (Some MainEvictEvent) m d = (m', d')"
    and m: "Cache m = T @ es" "length T \<le> RealCapacity m" and inv: "cache_inv es d U"
  shows "\<exists>es'. Cache m' = T @ es' \<and> set es' \<subseteq> set es \<and> cache_inv es' d' U"
proof -
  obtain es' where es': "Cache m' = T @ es'" "subseq es' es" "pool_ok d' (snd ` set es')"
    "same_entries (snd ` set es') d d'" "\<forall>e \<in> set es. 0 < locks (entries d (snd e)) \<longrightarrow> e \<in> set es'"
    using main.trim_keeps [OF tr m cache_invD(2,3) [OF inv]] by blast
  have "cache_inv es' d' U" by (rule cache_inv_evict [OF inv es'(2-5)])
  with es'(1,2) subseq_subset show ?thesis by blast
qed

lemma caps_clamp: "caps_ok (m\<lparr>RequestedCapacity := r, RealCapacity := clamp n (MinCapacity m) (MaxCapacity m)\<rparr>)"
  by (simp add: caps_ok_def clamp_def Let_def)

lemma clamp_grow: "caps_ok m \<Longrightarrow> RealCapacity m \<noteq> 0 \<Longrightarrow> clamp (RealCapacity m + 1) (MinCapacity m) (MaxCapacity m) \<noteq> 0"
  by (auto simp: caps_ok_def clamp_def Let_def)

lemma caps_cong:
  "RealCapacity m' = RealCapacity m \<Longrightarrow> MinCapacity m' = MinCapacity m \<Longrightarrow> MaxCapacity m' = MaxCapacity m
     \<Longrightarrow> caps_ok m' = caps_ok m"
  by (simp add: caps_ok_def)

lemma inv_resize:
  assumes r: "resize (Some MainEvictEvent) n m d = (m', d')"
    and m: "Cache m = T @ es" "length T \<le> clamp n (MinCapacity m) (MaxCapacity m)" and inv: "cache_inv es d U"
  shows "caps_ok m' \<and> (\<exists>es'. Cache m' = T @ es' \<and> set es' \<subseteq> set es \<and> cache_inv es' d' U)"
proof -
  let ?m = "m\<lparr>RequestedCapacity := n, RealCapacity := clamp n (MinCapacity m) (MaxCapacity m)\<rparr>"
  from r have tr: "trim (Some MainEvictEvent) ?m d = (m', d')" by (simp add: resize_def)
  have "caps_ok m'" using caps_cong [of m' ?m] trim_frame [OF tr] caps_clamp [where m = m and n = n and r = n] by simp
  moreover have "\<exists>es'. Cache m' = T @ es' \<and> set es' \<subseteq> set es \<and> cache_inv es' d' U"
    by (rule inv_trim [OF tr _ _ inv]) (use m in simp_all)
  ultimately show ?thesis by blast
qed

lemma inv_set_limits:
  assumes inv: "cache_inv (Cache (MainCache c)) (data c) U"
  shows "cache_inv (Cache (MainCache (lru_set_limits mn mx c))) (data (lru_set_limits mn mx c)) U
    \<and> caps_ok (MainCache (lru_set_limits mn mx c))"
proof -
  let ?m = "(MainCache c)\<lparr>MinCapacity := mn, MaxCapacity := mx\<rparr>"
  obtain m' d' where r: "resize (Some MainEvictEvent) (RequestedCapacity (MainCache c)) ?m (data c) = (m', d')"
    by fastforce
  have "Cache ?m = [] @ Cache (MainCache c)" by simp
  from inv_resize [OF r this _ inv] r show ?thesis
    by (auto simp: lru_set_limits_def set_limits_def)
qed

text \<open>A fresh entry for a key that is not in the list.\<close>

lemma inv_reserve:
  assumes inv: "cache_inv es (data c) U" and t: "U t = Idle" and k: "k \<notin> fst ` set es"
    and m: "Cache (MainCache c) = (k, junk) # es" and r: "lru_reserve k g c = (out, c')"
  shows "cache_inv (Cache (MainCache c')) (data c') (U(t := outcome_user out))"
proof -
  obtain p pl where al: "Alloc (EntryPool (data c)) = (p, pl)" by fastforce
  note pool = cache_invD(3) [OF inv]
  have p: "p \<notin> snd ` set es" "p \<in> set (UseList pl)" and pl: "pool_ok (data c') (insert p (snd ` set es))"
    using al pool r by (auto simp: Alloc_def pool_ok_def lru_reserve_def less_Suc_eq split: list.splits)
  have out: "out = Returned LRU_LOOKUP_NOT_FOUND None (Some p)"
    and es: "Cache (MainCache c') = (k, p) # es"
    and ent: "entries (data c') = (entries (data c))(p := (entry_reset k None)\<lparr>locks := 1, ghosted := g\<rparr>)"
    using r al m by (auto simp: lru_reserve_def set_front_def)
  let ?U = "U(t := Holding p)"
  have none: "U s \<noteq> Waiting p" "U s \<noteq> Holding p" for s
    using p(1) cache_invD(6,7) [OF inv, of s p] by auto
  then have zero: "waiters U p = 0" "holders U p = 0" by (simp_all add: waiters_def holders_def)
  have users: "waiters ?U q = waiters U q" "holders ?U q = holders U q" if "q \<noteq> p" for q
    using t that unfolding users_upd [OF inv] by auto
  have "cache_inv ((k, p) # es) (data c') ?U"
  proof (rule cache_invI)
    show "pool_ok (data c') (snd ` set ((k, p) # es))" using pl by simp
    show "ekey (entries (data c') q) = k'" if "(k', q) \<in> set ((k, p) # es)" for k' q
    proof (cases "q = p")
      case True
      with that p(1) have "k' = k" by force
      with True ent show ?thesis by (simp add: entry_reset_def)
    next
      case False
      with that have "(k', q) \<in> set es" by simp
      from cache_invD(4) [OF inv this] False ent show ?thesis by simp
    qed
    show "finite {s. ?U s \<noteq> Idle}"
      using cache_invD(5) [OF inv] by (auto intro: finite_subset [of _ "insert t {s. U s \<noteq> Idle}"])
    show "q \<in> snd ` set ((k, p) # es)" if "?U s = Waiting q \<or> ?U s = Holding q" for s q
      using that cache_invD(6,7) [OF inv, of s q] by (cases "s = t") auto
    show "entry_ok ?U q (entries (data c') q)" if "q \<in> snd ` set ((k, p) # es)" for q
    proof (cases "q = p")
      case True
      with zero t ent show ?thesis
        by (simp add: entry_ok_def users_upd [OF inv] entry_reset_def)
    next
      case False
      with that have "q \<in> snd ` set es" by simp
      from cache_invD(8) [OF inv this] False ent show ?thesis
        by (simp add: entry_ok_cong [OF users [OF False]])
    qed
  qed (use cache_invD(1,2) [OF inv] p(1) k in simp_all)
  with out es show ?thesis by simp
qed


lemma ghost_lookup_frame:
  assumes "ghost_lookup k d = (f, d1)" shows "entries d1 = entries d" "EntryPool d1 = EntryPool d"
  using ghost_frame(1,2) [of k d] assms by simp_all

lemma inv_ghost:
  assumes inv: "cache_inv es (data c) U" and m: "Cache (MainCache c) = T @ es" "caps_ok (MainCache c)"
    and T: "T = [] \<or> (length T = 1 \<and> RealCapacity (MainCache c) \<noteq> 0)"
    and g: "lru_ghost key supp c = (n, supp', c')"
  shows "caps_ok (MainCache c') \<and> (\<exists>es'. Cache (MainCache c') = T @ es' \<and> set es' \<subseteq> set es \<and> cache_inv es' (data c') U)"
proof -
  obtain gf d1 where gl: "ghost_lookup key (data c) = (gf, d1)" by fastforce
  note d1 = ghost_lookup_frame [OF gl]
  have inv1: "cache_inv es d1 U" by (rule cache_inv_frame [OF inv d1])
  let ?n = "RealCapacity (MainCache c) + 1"
  obtain m' d' where r: "resize (Some MainEvictEvent) ?n (MainCache c) d1 = (m', d')" by fastforce
  have len: "length T \<le> clamp ?n (MinCapacity (MainCache c)) (MaxCapacity (MainCache c))"
    using T clamp_grow [OF m(2)] by auto
  obtain es' where es': "caps_ok m'" "Cache m' = T @ es'" "set es' \<subseteq> set es" "cache_inv es' d' U"
    using inv_resize [OF r m(1) len inv1] by blast
  then have ghosts: "cache_inv es' (d'\<lparr>Ghosts := G\<rparr>) U" for G
    by (rule_tac cache_inv_frame) simp_all
  show ?thesis
  proof (cases "gf \<and> ghost_count d1 > 1 \<and> mode c \<noteq> CACHE_NO_RESIZE")
    case True
    then have "MainCache c' = m'" "\<exists>G. data c' = d'\<lparr>Ghosts := G\<rparr>"
      using g gl r by (auto simp: lru_ghost_def lru_resize_def Let_def)
    with es' ghosts show ?thesis by auto
  next
    case False
    then have "MainCache c' = MainCache c" "entries (data c') = entries (data c)"
      "EntryPool (data c') = EntryPool (data c)"
      using g gl d1 by (auto simp: lru_ghost_def Let_def split: if_splits)
    with m inv cache_inv_frame [OF inv] show ?thesis by auto
  qed
qed

lemma inv_lookup_miss:
  assumes inv: "cache_inv (Cache m) d U" and caps: "caps_ok m" and k: "take_out key (Cache m) = None"
    and l: "lookup (Some MainEvictEvent) 0 key False m d = (found, storage, m1, d1)"
  shows "\<not> found \<and> caps_ok m1 \<and> (\<exists>es. cache_inv es d1 U \<and> key \<notin> fst ` set es
    \<and> (if storage then (\<exists>junk. Cache m1 = (key, junk) # es) \<and> RealCapacity m1 \<noteq> 0 else Cache m1 = es))"
proof -
  obtain m0 d0 where tr: "trim (Some MainEvictEvent) m d = (m0, d0)" by fastforce
  obtain es where es: "Cache m0 = es" "set es \<subseteq> set (Cache m)" "cache_inv es d0 U"
    using inv_trim [OF tr, of "[]" "Cache m" U] inv by auto
  from k es(2) have key: "key \<notin> fst ` set es" by (auto simp: take_out_None)
  have "caps_ok m0" using caps_cong [of m0 m] trim_frame [OF tr] caps by simp
  with l k tr es key show ?thesis
    by (cases "RealCapacity m0 = 0") (auto simp: lookup_def caps_ok_def intro!: exI [of _ es] split: list.splits)
qed


lemma inv_lookup:
  assumes inv: "cache_inv (Cache (MainCache c)) (data c) U" and caps: "caps_ok (MainCache c)" and t: "U t = Idle"
    and l: "lru_lookup key b supp c = (out, supp', c')"
  shows "cache_inv (Cache (MainCache c')) (data c') (U(t := outcome_user out)) \<and> caps_ok (MainCache c')"
proof -
  have idle: "U(t := Idle) = U" using t by auto
  show ?thesis
  proof (cases "take_out key (Cache (MainCache c))")
    case (Some x)
    obtain e es where x: "x = (e, es)" by fastforce
    let ?c = "c\<lparr>MainCache := (MainCache c)\<lparr>Cache := e # es\<rparr>\<rparr>"
    note out = take_out_Some [OF Some [unfolded x]]
    have inv1: "cache_inv (e # es) (data ?c) U"
      using cache_inv_reorder [OF inv, of "e # es"] cache_invD(1,2) [OF inv] out by (auto simp: image_Un)
    obtain out1 c1 where h: "lru_hit (snd e) b ?c = (out1, c1)" by fastforce
    have "out = out1" "c' = c1"
      using l h Some x by (auto simp: lru_lookup_def lookup_def)
    with inv_hit [OF inv1 t _ h] caps show ?thesis by (simp add: caps_ok_def)
  next
    case None
    obtain found storage m1 d1 where lk:
      "lookup (Some MainEvictEvent) 0 key (supp = Some True) (MainCache c) (data c) = (found, storage, m1, d1)"
      by (metis prod_cases4)
    show ?thesis
    proof (cases "supp = Some True")
      case True
      with lk None l have "out = Returned LRU_LOOKUP_NO_CACHE None None" "MainCache c' = MainCache c" "data c' = data c"
        by (auto simp: lru_lookup_def lookup_def)
      with inv idle caps show ?thesis by simp
    next
      case False
      with lk have lk': "lookup (Some MainEvictEvent) 0 key False (MainCache c) (data c) = (found, storage, m1, d1)"
        by simp
      let ?c1 = "c\<lparr>MainCache := m1, data := d1\<rparr>"
      obtain es where es: "\<not> found" "caps_ok m1" "cache_inv es d1 U" "key \<notin> fst ` set es"
        "if storage then (\<exists>junk. Cache m1 = (key, junk) # es) \<and> RealCapacity m1 \<noteq> 0 else Cache m1 = es"
        using inv_lookup_miss [OF inv caps None lk'] by blast
      obtain g s2 c2 where gh: "lru_ghost key supp ?c1 = (g, s2, c2)" by (metis prod_cases3)
      obtain T where T: "Cache m1 = T @ es" "T = [] \<or> (length T = 1 \<and> RealCapacity m1 \<noteq> 0)"
        "if storage then (\<exists>junk. T = [(key, junk)]) else T = []"
        using es(5) by (cases storage) auto
      obtain es' where es': "caps_ok (MainCache c2)" "Cache (MainCache c2) = T @ es'" "set es' \<subseteq> set es"
        "cache_inv es' (data c2) U"
        using inv_ghost [of es ?c1 U T key supp g s2 c2] es(2,3) T(1,2) gh by auto
      show ?thesis
      proof (cases storage)
        case True
        obtain out3 c3 where r: "lru_reserve key g c2 = (out3, c3)" by fastforce
        have "out = out3" "c' = c3"
          using l lk' False es(1) gh True r by (auto simp: lru_lookup_def Let_def)
        moreover obtain junk where "Cache (MainCache c2) = (key, junk) # es'" using es'(2) T(3) True by auto
        moreover have "key \<notin> fst ` set es'" using es(4) es'(3) by auto
        moreover have "caps_ok (MainCache c3)"
          using r es'(1) by (auto simp: lru_reserve_def set_front_def caps_ok_def Let_def split: list.splits prod.splits)
        ultimately show ?thesis using inv_reserve [OF es'(4) t _ _ r] by blast
      next
        case False
        have "out = Returned LRU_LOOKUP_NO_CACHE None None" "MainCache c' = MainCache c2"
          "data c' = bump_ghost key (data c2)"
          using l lk' \<open>supp \<noteq> Some True\<close> es(1) gh False by (auto simp: lru_lookup_def Let_def)
        with es' T(3) False idle cache_inv_frame [OF es'(4), of "bump_ghost key (data c2)"] show ?thesis by simp
      qed
    qed
  qed
qed

lemma sys_inv_step: "lru_step s s' \<Longrightarrow> sys_inv s \<Longrightarrow> sys_inv s'"
proof (induction rule: lru_step.induct)
  case (lookup_call s t key block supp out supp' c')
  then show ?case using inv_lookup by (fastforce simp: sys_inv_def)
next
  case (wake s t p out c')
  then show ?case using inv_wake by (fastforce simp: sys_inv_def)
next
  case (commit s t p v)
  then show ?case using inv_commit [of _ "cache s" "users s" t p v]
    by (simp add: sys_inv_def commit_value_def set_value_def)
next
  case (roll_back s t p)
  then show ?case using inv_rollback [of "cache s" "users s" t p]
    by (auto simp: sys_inv_def rollback_def lru_remove_def caps_ok_def split: option.splits)
next
  case (change_limits s mn mx)
  then show ?case using inv_set_limits [of "cache s" "users s"] by (auto simp: sys_inv_def)
qed

lemma sys_inv_reachable: "lru_reachable s \<Longrightarrow> sys_inv s"
proof (induction rule: lru_reachable.induct)
  case (start capacity m)
  then show ?case
    by (simp add: sys_inv_def caps_ok_def LruCache_new_def SimpleLruCache_new_def cache_inv_def pool_ok_def)
qed (rule sys_inv_step)


section \<open>The properties of the cache\<close>

text \<open>
  C23: in every reachable state, whatever the threads interleave, two different threads never
  hold the reservation of the same frame number (so no frame is produced twice at a time),
  and the entry a thread waits for or holds is still in the cache under its frame number:
  eviction, resizing and limit changes never take it away.
\<close>

theorem lru_single_producer:
  assumes "lru_reachable s"
  shows "(users s t = Holding p \<and> users s t' = Holding p' \<and> t \<noteq> t' \<longrightarrow>
      ekey (entries (data (cache s)) p) \<noteq> ekey (entries (data (cache s)) p'))
    \<and> (users s t = Waiting p \<or> users s t = Holding p \<longrightarrow>
      (ekey (entries (data (cache s)) p), p) \<in> set (Cache (MainCache (cache s))))"
proof -
  let ?es = "Cache (MainCache (cache s))" and ?d = "data (cache s)"
  from sys_inv_reachable [OF assms] have inv: "cache_inv ?es ?d (users s)" by (simp add: sys_inv_def)
  have mem: "(ekey (entries ?d q), q) \<in> set ?es"
    if "users s u = Waiting q \<or> users s u = Holding q" for u q
  proof -
    from that cache_invD(6,7) [OF inv, of u q] have "q \<in> snd ` set ?es" by blast
    then obtain k where "(k, q) \<in> set ?es" by auto
    with cache_invD(4) [OF inv this] show ?thesis by simp
  qed
  have "ekey (entries ?d p) \<noteq> ekey (entries ?d p')"
    if h: "users s t = Holding p" "users s t' = Holding p'" "t \<noteq> t'"
  proof
    assume "ekey (entries ?d p) = ekey (entries ?d p')"
    with mem [of t p] mem [of t' p'] h have "p = p'"
      by (metis cache_invD(1) [OF inv] eq_key_imp_eq_value)
    with h holder_unique [OF holding_state(2) [OF inv h(1)], of t' t] show False by simp
  qed
  with mem show ?thesis by blast
qed

text \<open>Two threads ask a fresh cache for frame 5: the second waits for the first.\<close>

definition demo_lookup :: "nat \<Rightarrow> nat lru_sys \<Rightarrow> nat lru_sys" where
  "demo_lookup t s = (case lru_lookup 5 True None (cache s) of
     (out, _, c) \<Rightarrow> \<lparr>cache = c, users = (users s)(t := outcome_user out)\<rparr>)"

definition demo_start :: "nat lru_sys" where
  "demo_start = \<lparr>cache = LruCache_new 2 CACHE_NO_RESIZE, users = (\<lambda>_. Idle)\<rparr>"

definition demo_roll_back :: "nat \<Rightarrow> nat \<Rightarrow> nat lru_sys \<Rightarrow> nat lru_sys" where
  "demo_roll_back t p s = \<lparr>cache = rollback p (cache s), users = (users s)(t := Idle)\<rparr>"

lemma demo_lookup_reachable: "lru_reachable s \<Longrightarrow> users s t = Idle \<Longrightarrow> lru_reachable (demo_lookup t s)"
  unfolding demo_lookup_def
  by (cases "lru_lookup 5 True None (cache s)") (auto intro: lru_reachable.step lru_step.lookup_call)

lemma demo_start_reachable: "lru_reachable demo_start"
  unfolding demo_start_def by (rule lru_reachable.start) (simp add: SIZE_MAX_def)

lemmas lru_eval = demo_lookup_def demo_start_def demo_roll_back_def lru_lookup_def lookup_def LruCache_new_def
  SimpleLruCache_new_def trim_def lru_ghost_def ghost_lookup_def set_ghost_def set_front_def
  GHOSTS_MIN_CAPACITY_def lru_reserve_def Alloc_def lru_hit_def lru_take_def upd_entry_def
  entry_reset_def rollback_def lru_remove_def Let_def

theorem lru_single_producer_witness:
  "users (demo_lookup 1 (demo_lookup 0 demo_start)) 0 = Holding 0
   \<and> users (demo_lookup 1 (demo_lookup 0 demo_start)) 1 = Waiting 0
   \<and> (5, 0) \<in> set (Cache (MainCache (cache (demo_lookup 1 (demo_lookup 0 demo_start)))))"
proof -
  let ?s = "demo_lookup 1 (demo_lookup 0 demo_start)"
  have i: "users demo_start 0 = Idle" "users (demo_lookup 0 demo_start) 1 = Idle"
    by (simp_all add: lru_eval)
  have r: "lru_reachable ?s"
    by (intro demo_lookup_reachable demo_start_reachable i)
  have u: "users ?s 0 = Holding 0" "users ?s 1 = Waiting 0" "ekey (entries (data (cache ?s)) 0) = 5"
    by (simp_all add: lru_eval)
  show ?thesis
    using lru_single_producer [OF r, of 1 0 0 0] u by simp
qed



text \<open>
  The exception of the previous property does occur.  Thread 0 reserves frame 5, thread 1
  waits for it, thread 0 fails and rolls back; before thread 1 runs again, thread 2 asks for
  frame 5 with a blocking lookup and is told "found and ready" with a null frame.
\<close>

theorem lru_rolled_back_race:
  "\<exists>s supp' c'. lru_reachable s \<and> users s 2 = Idle
     \<and> lru_lookup 5 True None (cache (s :: nat lru_sys))
         = (Returned LRU_LOOKUP_FOUND_AND_READY None None, supp', c')"
proof -
  let ?s2 = "demo_lookup 1 (demo_lookup 0 demo_start)"
  let ?s = "demo_roll_back 0 0 ?s2"
  have i: "users demo_start 0 = Idle" "users (demo_lookup 0 demo_start) 1 = Idle"
    by (simp_all add: lru_eval)
  have r2: "lru_reachable ?s2" by (intro demo_lookup_reachable demo_start_reachable i)
  have "users ?s2 0 = Holding 0" by (simp add: lru_eval)
  then have r: "lru_reachable ?s"
    unfolding demo_roll_back_def by (rule lru_reachable.step [OF r2 lru_step.roll_back])
  obtain out s' c' where l: "lru_lookup 5 True None (cache ?s) = (out, s', c')" by (metis prod_cases3)
  have "users ?s 2 = Idle" by (simp add: lru_eval)
  moreover have "out = Returned LRU_LOOKUP_FOUND_AND_READY None None"
    using l by (auto simp: lru_eval)
  ultimately show ?thesis using r l by blast
qed

end
