(* ===== verification/Fp_Arith.thy ===== *)
theory Fp_Arith
  imports Prelude
begin

text \<open>
  IEEE 754 binary arithmetic, as far as the scripting language uses it: \<^verbatim>\<open>float\<close>
  and \<^verbatim>\<open>double\<close> values with signed zeros, infinities and NaN, and the correctly rounded
  (to nearest, ties to even) operations, conversions and comparisons.  A finite non-zero value
  is a sign, a mantissa and an exponent, \<open>m * 2 ^ e\<close>, kept in the format's normal form.
\<close>

section \<open>Formats and values\<close>

text \<open>\<open>prec\<close> mantissa bits; \<open>emin\<close> and \<open>emax\<close> bound the exponent of the last mantissa bit.\<close>

record format =
  prec :: int
  emin :: int
  emax :: int

definition binary32 :: format where "binary32 = \<lparr>prec = 24, emin = - 149, emax = 104\<rparr>"
definition binary64 :: format where "binary64 = \<lparr>prec = 53, emin = - 1074, emax = 971\<rparr>"

datatype fp = NaN | Inf bool | Zero bool | Fin bool int int

text \<open>Number of bits of a natural number.\<close>

function bitlen :: "int \<Rightarrow> int" where
  "bitlen n = (if n \<le> 0 then 0 else 1 + bitlen (n div 2))"
  by auto
termination by (relation "measure nat") auto

declare bitlen.simps [simp del]

lemma bitlen_0 [simp]: "bitlen 0 = 0"
  by (simp add: bitlen.simps)

lemma bitlen_pos: "0 < n \<Longrightarrow> bitlen n = 1 + bitlen (n div 2)"
  by (subst bitlen.simps) simp

lemma bitlen_le: "n < 2 ^ k \<Longrightarrow> bitlen n \<le> int k"
proof (induction k arbitrary: n)
  case 0
  then have "n \<le> 0" by simp
  then show ?case by (simp add: bitlen.simps)
next
  case (Suc k)
  show ?case
  proof (cases "n \<le> 0")
    case False
    from Suc.prems have "n div 2 < 2 ^ k" by simp
    with Suc.IH have "bitlen (n div 2) \<le> int k" by blast
    with False show ?thesis by (simp add: bitlen_pos)
  qed (simp add: bitlen.simps)
qed

section \<open>Rounding\<close>

text \<open>Round the positive number \<open>m * 2 ^ e\<close>, plus something below the last bit when
  \<open>sticky\<close>, to nearest, ties to even.\<close>

definition round_fp :: "format \<Rightarrow> bool \<Rightarrow> int \<Rightarrow> int \<Rightarrow> bool \<Rightarrow> fp" where
  "round_fp f s m e sticky =
     (let e' = max (emin f) (e + bitlen m - prec f)
      in if m = 0 then Zero s
         else if e' \<le> e then
           (if e' > emax f then Inf s else Fin s (m * 2 ^ nat (e - e')) e')
         else
           let sh = nat (e' - e); q = m div 2 ^ sh; r = m mod 2 ^ sh; half = 2 ^ (sh - 1);
               q' = (if r > half \<or> (r = half \<and> (sticky \<or> odd q)) then q + 1 else q);
               (q'', e'') = (if q' = 2 ^ nat (prec f) then (2 ^ nat (prec f - 1), e' + 1) else (q', e'))
           in if q'' = 0 then Zero s else if e'' > emax f then Inf s else Fin s q'' e'')"

definition fp_of_int :: "format \<Rightarrow> int \<Rightarrow> fp" where
  "fp_of_int f i = round_fp f (i < 0) \<bar>i\<bar> 0 False"

fun fp_neg :: "fp \<Rightarrow> fp" where
  "fp_neg NaN = NaN"
| "fp_neg (Inf s) = Inf (\<not> s)"
| "fp_neg (Zero s) = Zero (\<not> s)"
| "fp_neg (Fin s m e) = Fin (\<not> s) m e"

definition with_sign :: "bool \<Rightarrow> int \<Rightarrow> int" where
  "with_sign s m = (if s then - m else m)"

text \<open>The mantissa of \<open>m * 2 ^ e\<close> at the smaller exponent \<open>e0\<close>.\<close>

definition at_exp :: "int \<Rightarrow> int \<Rightarrow> int \<Rightarrow> int" where
  "at_exp e0 m e = m * 2 ^ nat (e - e0)"

fun fp_add :: "format \<Rightarrow> fp \<Rightarrow> fp \<Rightarrow> fp" where
  "fp_add f (Fin s m e) (Fin t n d) =
     (let e0 = min e d; z = with_sign s (at_exp e0 m e) + with_sign t (at_exp e0 n d)
      in if z = 0 then Zero False else round_fp f (z < 0) \<bar>z\<bar> e0 False)"
| "fp_add f NaN y = NaN"
| "fp_add f x NaN = NaN"
| "fp_add f (Inf s) (Inf t) = (if s = t then Inf s else NaN)"
| "fp_add f (Inf s) y = Inf s"
| "fp_add f x (Inf t) = Inf t"
| "fp_add f (Zero s) (Zero t) = Zero (s \<and> t)"
| "fp_add f (Zero s) y = y"
| "fp_add f x (Zero t) = x"

definition fp_sub :: "format \<Rightarrow> fp \<Rightarrow> fp \<Rightarrow> fp" where
  "fp_sub f x y = fp_add f x (fp_neg y)"

fun fp_mul :: "format \<Rightarrow> fp \<Rightarrow> fp \<Rightarrow> fp" where
  "fp_mul f (Fin s m e) (Fin t n d) = round_fp f (s \<noteq> t) (m * n) (e + d) False"
| "fp_mul f NaN y = NaN"
| "fp_mul f x NaN = NaN"
| "fp_mul f (Inf s) (Zero t) = NaN"
| "fp_mul f (Zero s) (Inf t) = NaN"
| "fp_mul f (Inf s) (Inf t) = Inf (s \<noteq> t)"
| "fp_mul f (Inf s) (Fin t n d) = Inf (s \<noteq> t)"
| "fp_mul f (Fin s m e) (Inf t) = Inf (s \<noteq> t)"
| "fp_mul f (Zero s) (Zero t) = Zero (s \<noteq> t)"
| "fp_mul f (Zero s) (Fin t n d) = Zero (s \<noteq> t)"
| "fp_mul f (Fin s m e) (Zero t) = Zero (s \<noteq> t)"

text \<open>A quotient is computed with two bits more than the format keeps; the remainder is sticky.\<close>

fun fp_div :: "format \<Rightarrow> fp \<Rightarrow> fp \<Rightarrow> fp" where
  "fp_div f (Fin s m e) (Fin t n d) =
     (let k = prec f + 2 + bitlen n; a = m * 2 ^ nat k
      in round_fp f (s \<noteq> t) (a div n) (e - d - k) (a mod n \<noteq> 0))"
| "fp_div f NaN y = NaN"
| "fp_div f x NaN = NaN"
| "fp_div f (Inf s) (Inf t) = NaN"
| "fp_div f (Zero s) (Zero t) = NaN"
| "fp_div f (Inf s) (Zero t) = Inf (s \<noteq> t)"
| "fp_div f (Inf s) (Fin t n d) = Inf (s \<noteq> t)"
| "fp_div f (Zero s) (Inf t) = Zero (s \<noteq> t)"
| "fp_div f (Zero s) (Fin t n d) = Zero (s \<noteq> t)"
| "fp_div f (Fin s m e) (Inf t) = Zero (s \<noteq> t)"
| "fp_div f (Fin s m e) (Zero t) = Inf (s \<noteq> t)"

text \<open>Conversion between formats, and the integer that a cast truncates to.\<close>

fun fp_convert :: "format \<Rightarrow> fp \<Rightarrow> fp" where
  "fp_convert f (Fin s m e) = round_fp f s m e False"
| "fp_convert f x = x"

fun fp_trunc :: "fp \<Rightarrow> int option" where
  "fp_trunc (Fin s m e) = Some (with_sign s (if 0 \<le> e then m * 2 ^ nat e else m div 2 ^ nat (- e)))"
| "fp_trunc (Zero s) = Some 0"
| "fp_trunc x = None"

section \<open>Comparisons\<close>

text \<open>The exact comparison of two numbers, \<open>None\<close> when one is NaN.\<close>

fun fp_cmp :: "fp \<Rightarrow> fp \<Rightarrow> int option" where
  "fp_cmp NaN y = None"
| "fp_cmp x NaN = None"
| "fp_cmp (Inf s) (Inf t) = Some (if s = t then 0 else if s then -1 else 1)"
| "fp_cmp (Inf s) y = Some (if s then -1 else 1)"
| "fp_cmp x (Inf t) = Some (if t then 1 else -1)"
| "fp_cmp (Zero s) (Zero t) = Some 0"
| "fp_cmp (Zero s) (Fin t n d) = Some (if t then 1 else -1)"
| "fp_cmp (Fin s m e) (Zero t) = Some (if s then -1 else 1)"
| "fp_cmp (Fin s m e) (Fin t n d) =
     (let e0 = min e d in Some (sgn (with_sign s (at_exp e0 m e) - with_sign t (at_exp e0 n d))))"

definition fp_less :: "fp \<Rightarrow> fp \<Rightarrow> bool" where "fp_less x y \<longleftrightarrow> fp_cmp x y = Some (-1)"
definition fp_eq :: "fp \<Rightarrow> fp \<Rightarrow> bool" where "fp_eq x y \<longleftrightarrow> fp_cmp x y = Some 0"
definition fp_le :: "fp \<Rightarrow> fp \<Rightarrow> bool" where "fp_le x y \<longleftrightarrow> fp_less x y \<or> fp_eq x y"

definition DBL_MAX :: fp where "DBL_MAX = Fin False (2 ^ 53 - 1) 971"

lemmas fp_defs = round_fp_def fp_of_int_def with_sign_def at_exp_def binary64_def binary32_def
  fp_less_def fp_eq_def fp_le_def

section \<open>Exactness\<close>

text \<open>The value of a number in units of \<open>2 ^ e0\<close>, for an \<open>e0\<close> at or below its exponent.\<close>

fun fp_units :: "int \<Rightarrow> fp \<Rightarrow> int" where
  "fp_units e0 (Fin s m e) = with_sign s (at_exp e0 m e)"
| "fp_units e0 x = 0"

text \<open>A number with no more significant bits than the format keeps is not changed.\<close>

lemma round_fp_exact:
  assumes "0 < m" "bitlen m \<le> prec f" "emin f \<le> e" "e + bitlen m - prec f \<le> emax f" "emin f \<le> emax f"
  shows "\<exists>k. round_fp f s m e False = Fin s (m * 2 ^ k) (e - int k)"
proof -
  let ?e' = "max (emin f) (e + bitlen m - prec f)"
  have le: "?e' \<le> e" using assms by simp
  then have "round_fp f s m e False = Fin s (m * 2 ^ nat (e - ?e')) ?e'"
    using assms by (simp add: round_fp_def Let_def)
  then show ?thesis using le by (intro exI [of _ "nat (e - ?e')"]) simp
qed

lemma fp_of_int_exact:
  assumes "\<bar>i\<bar> < 2 ^ 53" "i \<noteq> 0"
  shows "\<exists>k. fp_of_int binary64 i = Fin (i < 0) (\<bar>i\<bar> * 2 ^ k) (- int k)"
proof -
  from assms have p: "0 < \<bar>i\<bar>" by simp
  have b: "bitlen \<bar>i\<bar> \<le> 53" using bitlen_le [OF assms(1)] by simp
  show ?thesis
    using round_fp_exact [OF p, of binary64 0 "i < 0"] b by (simp add: fp_of_int_def binary64_def)
qed

lemma fp_trunc_of_int:
  assumes "\<bar>i\<bar> < 2 ^ 53"
  shows "fp_trunc (fp_of_int binary64 i) = Some i"
proof (cases "i = 0")
  case True
  then show ?thesis by (simp add: fp_of_int_def round_fp_def Let_def)
next
  case False
  then obtain k where "fp_of_int binary64 i = Fin (i < 0) (\<bar>i\<bar> * 2 ^ k) (- int k)"
    using fp_of_int_exact assms by blast
  then have "fp_trunc (fp_of_int binary64 i) = Some (with_sign (i < 0) (\<bar>i\<bar> * 2 ^ k div 2 ^ k))"
    by (cases "k = 0") simp_all
  also have "\<bar>i\<bar> * 2 ^ k div 2 ^ k = \<bar>i\<bar>" by (rule nonzero_mult_div_cancel_right) simp
  finally show ?thesis by (simp add: with_sign_def)
qed

lemma bitlen_double: "0 < n \<Longrightarrow> bitlen (n * 2 ^ k) = bitlen n + int k"
proof (induction k)
  case (Suc k)
  have "bitlen (n * 2 ^ Suc k) = 1 + bitlen (n * 2 ^ Suc k div 2)" using Suc.prems by (intro bitlen_pos) simp
  also have "n * 2 ^ Suc k div 2 = n * 2 ^ k" by simp
  finally show ?case using Suc by simp
qed simp

lemma bitlen_nonneg: "0 \<le> bitlen n"
proof (induction n rule: bitlen.induct)
  case (1 n)
  then show ?case by (subst bitlen.simps) simp
qed

lemma lt_2_bitlen: "0 < n \<Longrightarrow> n < 2 ^ nat (bitlen n)"
proof (induction n rule: bitlen.induct)
  case (1 n)
  show ?case
  proof (cases "n div 2 \<le> 0")
    case True
    with 1(2) have "n = 1" by simp
    then show ?thesis by (simp add: bitlen_pos)
  next
    case False
    then have "n div 2 < 2 ^ nat (bitlen (n div 2))" using 1 by simp
    then show ?thesis using 1(2) bitlen_nonneg [of "n div 2"] by (simp add: bitlen_pos nat_add_distrib)
  qed
qed

lemma round_fp_dropped:
  assumes "max (emin f) (e + bitlen m - prec f) = d" "e < d" "m \<noteq> 0" "m div 2 ^ nat (d - e) = q" "m mod 2 ^ nat (d - e) = 0"
    "q \<noteq> 2 ^ nat (prec f)" "q \<noteq> 0" "d \<le> emax f"
  shows "round_fp f s m e False = Fin s q d"
proof -
  have "\<not> (0::int) > 2 ^ (nat (d - e) - 1)" "(0::int) \<noteq> 2 ^ (nat (d - e) - 1)" "\<not> d \<le> e" "\<not> d > emax f" using assms(2,8) by auto
  then show ?thesis
    unfolding round_fp_def Let_def assms(1) assms(4,5)
    by (simp only: assms(3,6,7) if_False if_True simp_thms case_prod_conv)
qed

text \<open>An exact number has one representation, whatever mantissa and exponent it is given by.\<close>

lemma round_fp_shift:
  assumes "0 < m" "bitlen m \<le> prec f" "emin f \<le> e" "e + bitlen m - prec f \<le> emax f" "emin f \<le> emax f"
  shows "round_fp f s (m * 2 ^ k) (e - int k) False = round_fp f s m e False"
proof -
  obtain d where d: "max (emin f) (e + bitlen m - prec f) = d" by blast
  have le: "d \<le> e" "d \<le> emax f" "e + bitlen m - prec f \<le> d" using assms d by auto
  have rhs: "round_fp f s m e False = Fin s (m * 2 ^ nat (e - d)) d"
    using assms(1) le by (simp add: round_fp_def d)
  have e': "max (emin f) (e - int k + bitlen (m * 2 ^ k) - prec f) = d"
    using assms(1) d by (simp add: bitlen_double)
  show ?thesis
  proof (cases "d \<le> e - int k")
    case True
    have "m * 2 ^ k * 2 ^ nat (e - int k - d) = m * 2 ^ (k + nat (e - int k - d))" by (simp add: power_add)
    also have "k + nat (e - int k - d) = nat (e - d)" using True by linarith
    finally show ?thesis unfolding rhs using assms(1) True le(2) by (simp add: round_fp_def e')
  next
    case False
    define sh where "sh = nat (d - (e - int k))"
    have sh: "k = sh + nat (e - d)" "0 < sh" using False le by (auto simp: sh_def)
    have m: "m * 2 ^ k = m * 2 ^ nat (e - d) * 2 ^ sh" by (simp add: sh(1) power_add)
    have q: "m * 2 ^ k div 2 ^ sh = m * 2 ^ nat (e - d)" "m * 2 ^ k mod 2 ^ sh = 0" unfolding m by simp_all
    have "m * 2 ^ nat (e - d) < 2 ^ nat (bitlen m) * 2 ^ nat (e - d)"
      using lt_2_bitlen [OF assms(1)] by simp
    also have "\<dots> = 2 ^ (nat (bitlen m) + nat (e - d))" by (simp add: power_add)
    also have "\<dots> \<le> 2 ^ nat (prec f)"
      using assms(2) le(1,3) bitlen_nonneg [of m] by (intro power_increasing) linarith+
    finally have ne: "m * 2 ^ nat (e - d) \<noteq> 2 ^ nat (prec f)" by simp
    have pos: "m * 2 ^ nat (e - d) \<noteq> 0" "m * 2 ^ k \<noteq> 0" using assms(1) by simp_all
    show ?thesis unfolding rhs
      by (rule round_fp_dropped [OF e' _ pos(2) q [unfolded sh_def] ne pos(1) le(2)]) (use False in simp)
  qed
qed

lemma fp_of_int_scaled:
  assumes "\<bar>i\<bar> < 2 ^ 53" "i \<noteq> 0"
  shows "round_fp binary64 (i < 0) (\<bar>i\<bar> * 2 ^ k) (- int k) False = fp_of_int binary64 i"
proof -
  have "bitlen \<bar>i\<bar> \<le> 53" using bitlen_le [OF assms(1)] by simp
  with round_fp_shift [of "\<bar>i\<bar>" binary64 0 "i < 0" k] assms(2) show ?thesis
    by (simp add: fp_of_int_def binary64_def)
qed

lemma fp_of_int_0 [simp]: "fp_of_int f 0 = Zero False"
  by (simp add: fp_of_int_def round_fp_def Let_def)

text \<open>Arithmetic on integers below \<open>2 ^ 53\<close> is exact.\<close>

lemma fp_mul_int:
  assumes "0 \<le> a" "0 \<le> b" "a < 2 ^ 53" "b < 2 ^ 53" "a * b < 2 ^ 53"
  shows "fp_mul binary64 (fp_of_int binary64 a) (fp_of_int binary64 b) = fp_of_int binary64 (a * b)"
proof (cases "a = 0 \<or> b = 0")
  case True
  have "fp_of_int binary64 c = Zero False \<or> (\<exists>m e. fp_of_int binary64 c = Fin False m e)" if "0 \<le> c" "c < 2 ^ 53" for c
    using fp_of_int_exact [of c] that by (cases "c = 0") auto
  from this [of a] this [of b] True assms show ?thesis by auto
next
  case False
  then obtain k j where "fp_of_int binary64 a = Fin False (a * 2 ^ k) (- int k)"
    "fp_of_int binary64 b = Fin False (b * 2 ^ j) (- int j)"
    using fp_of_int_exact [of a] fp_of_int_exact [of b] assms by auto
  then have "fp_mul binary64 (fp_of_int binary64 a) (fp_of_int binary64 b)
      = round_fp binary64 False (a * b * 2 ^ (k + j)) (- int (k + j)) False"
    by (simp add: power_add mult_ac)
  with fp_of_int_scaled [of "a * b" "k + j"] assms False show ?thesis by (simp add: mult_less_0_iff)
qed

lemma fp_add_int:
  assumes "0 \<le> a" "0 \<le> b" "a + b < 2 ^ 53"
  shows "fp_add binary64 (fp_of_int binary64 a) (fp_of_int binary64 b) = fp_of_int binary64 (a + b)"
proof (cases "a = 0 \<or> b = 0")
  case True
  have "fp_of_int binary64 c = Zero False \<or> (\<exists>m e. fp_of_int binary64 c = Fin False m e)" if "0 \<le> c" "c < 2 ^ 53" for c
    using fp_of_int_exact [of c] that by (cases "c = 0") auto
  from this [of a] this [of b] True assms show ?thesis by auto
next
  case False
  then obtain k j where e: "fp_of_int binary64 a = Fin False (a * 2 ^ k) (- int k)"
    "fp_of_int binary64 b = Fin False (b * 2 ^ j) (- int j)"
    using fp_of_int_exact [of a] fp_of_int_exact [of b] assms by auto
  let ?K = "max k j"
  have m: "min (- int k) (- int j) = - int ?K" by simp
  have a: "at_exp (- int ?K) (c * 2 ^ i) (- int i) = c * 2 ^ ?K" if "i \<le> ?K" for c i
  proof -
    have "at_exp (- int ?K) (c * 2 ^ i) (- int i) = c * 2 ^ (i + nat (int ?K - int i))"
      by (simp add: at_exp_def power_add)
    also have "i + nat (int ?K - int i) = ?K" using that by simp
    finally show ?thesis .
  qed
  have "fp_add binary64 (fp_of_int binary64 a) (fp_of_int binary64 b)
      = round_fp binary64 False ((a + b) * 2 ^ ?K) (- int ?K) False"
    unfolding e fp_add.simps Let_def m a [OF max.cobounded1] a [OF max.cobounded2]
    using False assms by (simp add: with_sign_def distrib_right [symmetric] abs_mult mult_less_0_iff)
  with fp_of_int_scaled [of "a + b" ?K] assms False show ?thesis by simp
qed

lemma fp_of_int_1: "fp_of_int binary64 1 = Fin False 4503599627370496 (- 52)"
  by code_simp

lemma fp_div_1:
  assumes "0 \<le> a" "a < 2 ^ 53"
  shows "fp_div binary64 (fp_of_int binary64 a) (fp_of_int binary64 1) = fp_of_int binary64 a"
proof (cases "a = 0")
  case True
  then show ?thesis by (simp add: fp_of_int_1)
next
  case False
  then obtain k where e: "fp_of_int binary64 a = Fin False (a * 2 ^ k) (- int k)"
    using fp_of_int_exact [of a] assms by auto
  have b: "bitlen 4503599627370496 = 53" by code_simp
  have s: "- 56 - int k = - int (k + 56)" "72057594037927936 * (a * 2 ^ k) = a * 2 ^ (k + 56)"
    by (simp_all add: power_add)
  have "fp_div binary64 (fp_of_int binary64 a) (fp_of_int binary64 1)
      = round_fp binary64 False (72057594037927936 * (a * 2 ^ k)) (- 56 - int k) False"
    unfolding e fp_of_int_1 fp_div.simps Let_def b by (simp add: binary64_def)
  also have "\<dots> = fp_of_int binary64 a"
    unfolding s using fp_of_int_scaled [of a "k + 56"] assms False by simp
  finally show ?thesis .
qed

lemma fp_not_huge:
  assumes "0 \<le> a" "a < 2 ^ 53"
  shows "\<not> fp_le DBL_MAX (fp_of_int binary64 a)"
proof (cases "a = 0")
  case True
  then show ?thesis by (simp add: fp_le_def fp_less_def fp_eq_def DBL_MAX_def)
next
  case False
  then obtain k where e: "fp_of_int binary64 a = Fin False (a * 2 ^ k) (- int k)"
    using fp_of_int_exact [of a] assms by auto
  have "a * 2 ^ k < 2 ^ 53 * 2 ^ k" using assms(2) by simp
  also have "\<dots> \<le> (2 ^ 53 - 1) * 2 ^ (971 + k)" by (simp add: power_add)
  also have "971 + k = nat (971 + int k)" by simp
  finally have "a * 2 ^ k < (2 ^ 53 - 1) * 2 ^ nat (971 + int k)" .
  then have "fp_cmp DBL_MAX (fp_of_int binary64 a) = Some 1"
    unfolding e DBL_MAX_def by (simp add: Let_def with_sign_def at_exp_def sgn_if)
  then show ?thesis by (simp add: fp_le_def fp_less_def fp_eq_def)
qed

end
