(* ===== verification/Avs_Value.thy ===== *)
theory Avs_Value
  imports Fp_Arith
begin

text \<open>
  The values of scripts: class \<^verbatim>\<open>AVSValue\<close> of \<^verbatim>\<open>core/interface.cpp\<close>.  Clips and
  function objects are references, named by numbers.  An accessor whose assertion fails is
  \<open>None\<close>; the accessors with a default return it for every value of another type.
\<close>

datatype AVSValue =
  VUndefined | VClip nat | VBool bool | VInt int | VLong int | VFloat fp | VDouble fp
  | VString string | VArray "AVSValue list" | VFunction nat

fun Defined :: "AVSValue \<Rightarrow> bool" where
  "Defined VUndefined = False"
| "Defined _ = True"

fun IsClip :: "AVSValue \<Rightarrow> bool" where
  "IsClip (VClip _) = True"
| "IsClip _ = False"

fun IsBool :: "AVSValue \<Rightarrow> bool" where
  "IsBool (VBool _) = True"
| "IsBool _ = False"

fun IsInt :: "AVSValue \<Rightarrow> bool" where
  "IsInt (VInt _) = True"
| "IsInt (VLong _) = True"
| "IsInt _ = False"

fun IsLongStrict :: "AVSValue \<Rightarrow> bool" where
  "IsLongStrict (VLong _) = True"
| "IsLongStrict _ = False"

fun IsFloat :: "AVSValue \<Rightarrow> bool" where
  "IsFloat (VDouble _) = True"
| "IsFloat (VFloat _) = True"
| "IsFloat (VInt _) = True"
| "IsFloat (VLong _) = True"
| "IsFloat _ = False"

fun IsFloatfStrict :: "AVSValue \<Rightarrow> bool" where
  "IsFloatfStrict (VFloat _) = True"
| "IsFloatfStrict _ = False"

fun IsString :: "AVSValue \<Rightarrow> bool" where
  "IsString (VString _) = True"
| "IsString _ = False"

fun IsArray :: "AVSValue \<Rightarrow> bool" where
  "IsArray (VArray _) = True"
| "IsArray _ = False"

fun IsFunction :: "AVSValue \<Rightarrow> bool" where
  "IsFunction (VFunction _) = True"
| "IsFunction _ = False"

fun AsBool :: "AVSValue \<Rightarrow> bool option" where
  "AsBool (VBool b) = Some b"
| "AsBool _ = None"

text \<open>\<^verbatim>\<open>(int)longlong\<close> keeps the low 32 bits.\<close>

fun AsInt :: "AVSValue \<Rightarrow> int option" where
  "AsInt (VInt i) = Some i"
| "AsInt (VLong l) = Some (wrap32 l)"
| "AsInt _ = None"

fun AsLong :: "AVSValue \<Rightarrow> int option" where
  "AsLong (VInt i) = Some i"
| "AsLong (VLong l) = Some l"
| "AsLong _ = None"

fun AsFloat :: "AVSValue \<Rightarrow> fp option" where
  "AsFloat (VInt i) = Some (fp_of_int binary64 i)"
| "AsFloat (VLong l) = Some (fp_of_int binary64 l)"
| "AsFloat (VFloat f) = Some (fp_convert binary64 f)"
| "AsFloat (VDouble d) = Some d"
| "AsFloat _ = None"

fun AsFloatf :: "AVSValue \<Rightarrow> fp option" where
  "AsFloatf (VInt i) = Some (fp_of_int binary32 i)"
| "AsFloatf (VLong l) = Some (fp_of_int binary32 l)"
| "AsFloatf (VFloat f) = Some f"
| "AsFloatf (VDouble d) = Some (fp_convert binary32 d)"
| "AsFloatf _ = None"

fun AsString :: "AVSValue \<Rightarrow> string option" where
  "AsString (VString s) = Some s"
| "AsString _ = None"

definition AsBool2 :: "AVSValue \<Rightarrow> bool \<Rightarrow> bool" where
  "AsBool2 v d = (case AsBool v of Some b \<Rightarrow> b | None \<Rightarrow> d)"

definition AsInt2 :: "AVSValue \<Rightarrow> int \<Rightarrow> int" where
  "AsInt2 v d = (case AsInt v of Some i \<Rightarrow> i | None \<Rightarrow> d)"

definition AsLong2 :: "AVSValue \<Rightarrow> int \<Rightarrow> int" where
  "AsLong2 v d = (case AsLong v of Some i \<Rightarrow> i | None \<Rightarrow> d)"

definition AsDblDef :: "AVSValue \<Rightarrow> fp \<Rightarrow> fp" where
  "AsDblDef v d = (case AsFloat v of Some f \<Rightarrow> f | None \<Rightarrow> d)"

definition AsString2 :: "AVSValue \<Rightarrow> string \<Rightarrow> string" where
  "AsString2 v d = (case AsString v of Some s \<Rightarrow> s | None \<Rightarrow> d)"

text \<open>The size of an array is stored in a \<^verbatim>\<open>short\<close>.\<close>

definition wrap16 :: "int \<Rightarrow> int" where
  "wrap16 i = (i + 32768) mod 65536 - 32768"

fun ArraySize :: "AVSValue \<Rightarrow> int" where
  "ArraySize (VArray vs) = wrap16 (int (length vs))"
| "ArraySize _ = 1"

fun operator_index :: "AVSValue \<Rightarrow> int \<Rightarrow> AVSValue" where
  "operator_index (VArray vs) i =
     (if 0 \<le> i \<and> i < ArraySize (VArray vs) then vs ! nat i else VArray vs)"
| "operator_index v i = v"

lemma IsInt_AsLong: "IsInt v \<longleftrightarrow> (\<exists>i. AsLong v = Some i)"
  by (cases v) auto

lemma IsFloat_AsFloat: "IsFloat v \<longleftrightarrow> (\<exists>d. AsFloat v = Some d)"
  by (cases v) auto

lemma operator_index_in_array: "VArray vs = v \<Longrightarrow> 0 \<le> i \<Longrightarrow> i < ArraySize v \<Longrightarrow> operator_index v i \<in> set vs"
proof -
  assume a: "VArray vs = v" "0 \<le> i" "i < ArraySize v"
  have "wrap16 (int n) \<le> int n" for n
  proof -
    have "(int n + 32768) mod 65536 \<le> int n + 32768" by (rule zmod_le_nonneg_dividend) simp
    then show ?thesis by (simp add: wrap16_def)
  qed
  from this [of "length vs"] a have "nat i < length vs" by auto
  with a show ?thesis by auto
qed

section \<open>Values of their types\<close>

text \<open>Integers in the range of their type; function values below \<open>n\<close>.\<close>

fun wf_val :: "nat \<Rightarrow> AVSValue \<Rightarrow> bool" where
  "wf_val n (VInt i) = is_int32 i"
| "wf_val n (VLong i) = is_int64 i"
| "wf_val n (VFunction k) = (k < n)"
| "wf_val n (VArray vs) = list_all (wf_val n) vs"
| "wf_val n _ = True"

lemma wf_val_mono: "wf_val n v \<Longrightarrow> n \<le> m \<Longrightarrow> wf_val m v"
  by (induction n v rule: wf_val.induct) (auto simp: list_all_iff)

definition const_ok :: "AVSValue \<Rightarrow> bool" where
  "const_ok v = wf_val 0 v"

end
