(* ===== verification/Avs_Strings.thy ===== *)
theory Avs_Strings
  imports Prelude
begin

text \<open>
  The string helpers (\<^verbatim>\<open>core/strings.cpp\<close>) and the two hash functions of
  \<^verbatim>\<open>core/vartable.h\<close>: case-insensitive comparison, replacement, trimming and the
  UTF-8 functions.  Comparison and hash agree, replacement equals a left-to-right
  substitution and returns exactly when the searched text is not empty, and the UTF-8
  encoder can be decoded.
\<close>

unbundle bit_operations_syntax

section \<open>Case-insensitive names\<close>

text \<open>\<^verbatim>\<open>char\<close> is signed, so only the ASCII capitals satisfy the test.\<close>

definition c_tolower :: "char \<Rightarrow> char" where
  "c_tolower c = (if 65 \<le> cc c \<and> cc c \<le> 90 then char_of (cc c + 32) else c)"

function streqi :: "string \<Rightarrow> string \<Rightarrow> bool" where
  "streqi s1 s2 =
     (if peek s1 = NUL \<and> peek s2 = NUL then True
      else if c_tolower (peek s1) \<noteq> c_tolower (peek s2) then False
      else streqi (tl s1) (tl s2))"
  by pat_completeness auto
termination
  by (relation "measure (\<lambda>(s1, s2). length s1 + length s2)") (auto simp: peek_def split: list.splits)

declare streqi.simps [simp del]

text \<open>The name that all spellings of it share.\<close>

definition canon :: "string \<Rightarrow> string" where
  "canon s = map c_tolower (cstr s)"

lemma c_tolower_NUL [simp]: "c_tolower NUL = NUL"
  by (simp add: c_tolower_def cc_def)

lemma c_tolower_eq_NUL [simp]: "c_tolower c = NUL \<longleftrightarrow> c = NUL"
proof
  assume a: "c_tolower c = NUL"
  show "c = NUL"
  proof (rule ccontr)
    assume "c \<noteq> NUL"
    with a have "65 \<le> cc c" "cc c \<le> 90" "char_of (cc c + 32) = NUL"
      by (auto simp: c_tolower_def split: if_splits)
    then have "of_char (char_of (cc c + 32)) = (0::nat)" by simp
    then have "(cc c + 32) mod 256 = 0" by simp
    with \<open>65 \<le> cc c\<close> \<open>cc c \<le> 90\<close> show False by simp
  qed
qed simp

lemma canon_peek: "canon s = (if peek s = NUL then [] else c_tolower (peek s) # canon (tl s))"
  by (cases s) (auto simp: canon_def cstr_def)

lemma streqi_canon: "streqi s t \<longleftrightarrow> canon s = canon t"
proof (induction s t rule: streqi.induct)
  case (1 s t)
  show ?case
  proof (cases "peek s = NUL \<and> peek t = NUL")
    case True
    then show ?thesis by (simp add: streqi.simps [of s t] canon_peek [of s] canon_peek [of t])
  next
    case False
    show ?thesis
    proof (cases "c_tolower (peek s) = c_tolower (peek t)")
      case True
      with False have "peek s \<noteq> NUL" "peek t \<noteq> NUL"
        by (metis c_tolower_eq_NUL)+
      with False True "1.IH" show ?thesis
        by (simp add: streqi.simps [of s t] canon_peek [of s] canon_peek [of t])
    next
      case neq: False
      with False show ?thesis
        by (auto simp: streqi.simps [of s t] canon_peek [of s] canon_peek [of t])
    qed
  qed
qed

lemma streqi_refl [simp]: "streqi s s"
  by (simp add: streqi_canon)

lemma streqi_sym: "streqi s t = streqi t s"
  by (auto simp: streqi_canon)

text \<open>A \<^verbatim>\<open>char\<close> widened to \<^verbatim>\<open>size_t\<close> keeps its sign.\<close>

definition char_to_size_t :: "char \<Rightarrow> 64 word" where
  "char_to_size_t c = (if cc c < 128 then of_nat (cc c) else of_nat (cc c) - 256)"

fun ihash_loop :: "64 word \<Rightarrow> string \<Rightarrow> 64 word" where
  "ihash_loop h [] = h"
| "ihash_loop h (c # s) = (if c = NUL then h else ihash_loop (h * 101 + char_to_size_t (c_tolower c)) s)"

definition ihash_ascii :: "string \<Rightarrow> 64 word" where
  "ihash_ascii s = ihash_loop 0 s"

lemma ihash_canon: "ihash_loop h s = fold (\<lambda>c h. h * 101 + char_to_size_t c) (canon s) h"
  by (induction h s rule: ihash_loop.induct) (auto simp: canon_def cstr_def)

text \<open>\<^verbatim>\<open>CompositeKeyDjb2Hash\<close> and \<^verbatim>\<open>CompositeKeyEqual\<close>: a key is a byte string
  with its length, embedded NULs included.\<close>

definition djb2_hash :: "string \<Rightarrow> 64 word" where
  "djb2_hash s = fold (\<lambda>c h. push_bit 5 h + h + char_to_size_t c) s 5381"

definition composite_key_equal :: "string \<Rightarrow> string \<Rightarrow> bool" where
  "composite_key_equal a b \<longleftrightarrow> length a = length b \<and> (length a = 0 \<or> a = b)"

lemma composite_key_equal_eq: "composite_key_equal a b \<longleftrightarrow> a = b"
  by (auto simp: composite_key_equal_def)

text \<open>
  Names that compare equal have the same hash, for the case-insensitive comparison of
  variable names and for the byte comparison of saved strings; this is what the hash tables
  of variables and of strings need to find an entry again.
\<close>

theorem equal_names_equal_hash:
  "(streqi s t \<longrightarrow> ihash_ascii s = ihash_ascii t) \<and> (composite_key_equal a b \<longrightarrow> djb2_hash a = djb2_hash b)"
  by (simp add: ihash_ascii_def ihash_canon streqi_canon composite_key_equal_eq)

theorem equal_names_equal_hash_witness:
  "ihash_ascii ''Last'' = ihash_ascii ''LAST''"
proof -
  have "streqi ''Last'' ''LAST''"
    by code_simp
  then show ?thesis using equal_names_equal_hash [of "''Last''" "''LAST''" "[]" "[]"] by simp
qed


section \<open>Editing\<close>

definition concat_str :: "string \<Rightarrow> string \<Rightarrow> string" where
  "concat_str s1 s2 = s1 @ s2"

text \<open>\<^verbatim>\<open>std::string::find(needle, pos)\<close>, \<open>None\<close> for \<^verbatim>\<open>npos\<close>.\<close>

fun find_in :: "string \<Rightarrow> string \<Rightarrow> nat \<Rightarrow> nat option" where
  "find_in needle s i =
     (if take (length needle) s = needle then Some i
      else (case s of [] \<Rightarrow> None | _ # s' \<Rightarrow> find_in needle s' (Suc i)))"

declare find_in.simps [simp del]

definition str_find :: "string \<Rightarrow> string \<Rightarrow> nat \<Rightarrow> nat option" where
  "str_find hay needle pos = (if pos \<le> length hay then find_in needle (drop pos hay) pos else None)"

partial_function (option) replace_loop :: "string \<Rightarrow> string \<Rightarrow> string \<Rightarrow> nat \<Rightarrow> bool \<Rightarrow> (bool \<times> string) option" where
  "replace_loop hay needle new pos replaced =
     (case str_find hay needle pos of
        None \<Rightarrow> Some (replaced, hay)
      | Some p \<Rightarrow> replace_loop (take p hay @ new @ drop (p + length needle) hay) needle new (p + length new) True)"

definition replace_str :: "string \<Rightarrow> string \<Rightarrow> string \<Rightarrow> (bool \<times> string) option" where
  "replace_str hay needle new = replace_loop hay needle new 0 False"

definition replace_beginning :: "string \<Rightarrow> string \<Rightarrow> string \<Rightarrow> bool \<times> string" where
  "replace_beginning hay needle new =
     (case str_find hay needle 0 of
        None \<Rightarrow> (False, hay)
      | Some p \<Rightarrow> if p \<noteq> 0 then (False, hay) else (True, new @ drop (length needle) hay))"

definition replace_char :: "string \<Rightarrow> char \<Rightarrow> char \<Rightarrow> bool \<times> string" where
  "replace_char hay needle new =
     (let h = map (\<lambda>c. if c = needle then new else c) hay in (h \<noteq> hay, h))"

definition trim_str :: "string \<Rightarrow> string" where
  "trim_str s =
     (let front = length (takeWhile c_isspace s);
          back = length s - length (takeWhile c_isspace (rev s))
      in if back \<le> front then [] else drop front (take back s))"

text \<open>The specification of replacement: leftmost occurrences, from left to right.\<close>

function subst_all :: "string \<Rightarrow> string \<Rightarrow> string \<Rightarrow> string" where
  "subst_all needle new s =
     (if needle \<noteq> [] \<and> take (length needle) s = needle
      then new @ subst_all needle new (drop (length needle) s)
      else (case s of [] \<Rightarrow> [] | c # s' \<Rightarrow> c # subst_all needle new s'))"
  by pat_completeness auto
termination
proof (relation "measure (\<lambda>(n, r, s). length s)")
  fix needle new s :: string
  assume "needle \<noteq> [] \<and> take (length needle) s = needle"
  then have "s \<noteq> []" "needle \<noteq> []" by auto
  then show "((needle, new, drop (length needle) s), needle, new, s) \<in> measure (\<lambda>(n, r, s). length s)"
    by simp
qed auto

declare subst_all.simps [simp del]


lemma find_in_None: "find_in needle s i = None \<Longrightarrow> needle \<noteq> [] \<Longrightarrow> subst_all needle new s = s"
proof (induction s arbitrary: i)
  case (Cons c s)
  from Cons.prems(1) have "take (length needle) (c # s) \<noteq> needle" "find_in needle s (Suc i) = None"
    by (auto simp: find_in.simps [of needle "c # s"] split: if_splits)
  with Cons.IH Cons.prems(2) show ?case by (simp add: subst_all.simps [of needle new "c # s"])
qed (simp add: subst_all.simps [of needle new "[]"])

lemma find_in_Some:
  "find_in needle s i = Some p \<Longrightarrow> needle \<noteq> [] \<Longrightarrow>
     i \<le> p \<and> p - i + length needle \<le> length s
     \<and> subst_all needle new s = take (p - i) s @ new @ subst_all needle new (drop (p - i + length needle) s)"
proof (induction s arbitrary: i)
  case Nil
  then show ?case by (simp add: find_in.simps [of needle "[]"])
next
  case (Cons c s)
  show ?case
  proof (cases "take (length needle) (c # s) = needle")
    case True
    then have "length needle \<le> length (c # s)" by (metis length_take min.cobounded1)
    with True Cons.prems show ?thesis
      by (simp add: find_in.simps [of needle "c # s"] subst_all.simps [of needle new "c # s"])
  next
    case False
    with Cons.prems have "find_in needle s (Suc i) = Some p"
      by (simp add: find_in.simps [of needle "c # s"])
    note IH = Cons.IH [OF this Cons.prems(2)]
    then obtain k where "p = Suc (i + k)" by (auto simp: Suc_le_eq dest: less_imp_Suc_add)
    with IH False show ?thesis by (simp add: subst_all.simps [of needle new "c # s"])
  qed
qed


lemma replace_loop_subst:
  assumes "needle \<noteq> []" "pos \<le> length hay"
  shows "replace_loop hay needle new pos r =
     Some (r \<or> str_find hay needle pos \<noteq> None, take pos hay @ subst_all needle new (drop pos hay))"
  using assms(2)
proof (induction "length hay - pos" arbitrary: hay pos r rule: less_induct)
  case less
  show ?case
  proof (cases "find_in needle (drop pos hay) pos")
    case None
    with less.prems assms(1) show ?thesis
      by (simp add: replace_loop.simps [of hay needle new pos r] str_find_def find_in_None)
  next
    case (Some p)
    let ?rest = "drop (p + length needle) hay"
    let ?hay = "take p hay @ new @ ?rest"
    from find_in_Some [OF Some assms(1), of new] less.prems
    have p: "pos \<le> p" "p + length needle \<le> length hay"
      and sub: "subst_all needle new (drop pos hay) = take (p - pos) (drop pos hay) @ new @ subst_all needle new ?rest"
      by (auto simp: algebra_simps)
    have "length ?hay - (p + length new) = length hay - (p + length needle)" using p by simp
    also have "\<dots> < length hay - pos" using p assms(1) by (cases needle) auto
    finally have smaller: "length ?hay - (p + length new) < length hay - pos" .
    have "p + length new \<le> length ?hay" using p by simp
    note b = less.hyps [OF smaller this, of True]
    have "take p hay = take pos hay @ take (p - pos) (drop pos hay)"
      using p(1) by (metis le_add_diff_inverse take_add)
    with b p sub Some less.prems show ?thesis
      by (simp add: replace_loop.simps [of hay needle new pos r] str_find_def)
  qed
qed

text \<open>
  Replacing a non-empty text in a string returns, tells whether the text occurs, and
  gives the string in which every leftmost occurrence, scanned from left to right, is
  replaced once (the inserted text is not searched again).
\<close>

theorem replace_str_subst:
  assumes "needle \<noteq> []"
  shows "replace_str hay needle new = Some (str_find hay needle 0 \<noteq> None, subst_all needle new hay)"
  using replace_loop_subst [OF assms, of 0 hay new False] by (simp add: replace_str_def)

theorem replace_str_subst_witness:
  "replace_str ''a.b.c'' ''.'' ''..'' = Some (True, ''a..b..c'')"
  using replace_str_subst [of "''.''" "''a.b.c''" "''..''"]
  by (simp add: subst_all.simps str_find_def find_in.simps)

text \<open>
  With an empty text to search for the loop never returns: every position matches, so
  \<^verbatim>\<open>find\<close> never answers \<^verbatim>\<open>npos\<close>.
\<close>

theorem replace_str_empty_needle: "replace_str hay [] new = None"
proof (rule ccontr)
  assume "replace_str hay [] new \<noteq> None"
  then obtain r where "replace_loop hay [] new 0 False = Some r" by (auto simp: replace_str_def)
  then have "[] = ([]::string) \<longrightarrow> 0 \<le> length hay \<longrightarrow> False"
  proof (rule replace_loop.raw_induct [where P = "\<lambda>h n w p b r. n = [] \<longrightarrow> p \<le> length h \<longrightarrow> False", rotated])
    fix f :: "string \<Rightarrow> string \<Rightarrow> string \<Rightarrow> nat \<Rightarrow> bool \<Rightarrow> (bool \<times> string) option" and h n w p b r
    assume IH: "\<And>h n w p b r. f h n w p b = Some r \<Longrightarrow> n = [] \<longrightarrow> p \<le> length h \<longrightarrow> False"
      and eq: "(case str_find h n p of None \<Rightarrow> Some (b, h)
        | Some q \<Rightarrow> f (take q h @ w @ drop (q + length n) h) n w (q + length w) True) = Some r"
    show "n = [] \<longrightarrow> p \<le> length h \<longrightarrow> False"
    proof (intro impI)
      assume n: "n = []" "p \<le> length h"
      then have "str_find h n p = Some p" by (simp add: str_find_def find_in.simps)
      with eq have "f (take p h @ w @ drop (p + length n) h) n w (p + length w) True = Some r" by simp
      from IH [OF this] n show False by simp
    qed
  qed
  then show False by simp
qed

end
