(* ===== verification/Arg_Match.thy ===== *)
theory Arg_Match
  imports Avs_Value Avs_Strings
begin

text \<open>
  Function signatures and the arguments of calls: the parameter strings of
  \<^verbatim>\<open>core/PluginManager.cpp\<close> (\<^verbatim>\<open>IsValidParameterString\<close>,
  \<^verbatim>\<open>AVSFunction::TypeMatch\<close>, \<^verbatim>\<open>ArgNameMatch\<close>) and steps 1, 3 and 4 of
  \<^verbatim>\<open>ScriptEnvironment::Invoke_\<close> (\<^verbatim>\<open>core/avisynth.cpp\<close>), which put the
  arguments of a call into one value per parameter.

  A pointer into a parameter string is the rest of the string; \<^verbatim>\<open>param_types[-1]\<close> is
  the character before it, carried along.  Each pointer access the code does without a check
  and which leaves the string is the error \<open>OutOfBounds\<close>.  Below the code's definitions stands
  its specification: a signature is a list of parameters, and the pointer walks over the
  string are functions on that list.
\<close>


section \<open>Parameter strings\<close>

definition IsParameterTypeSpecifier :: "char \<Rightarrow> bool" where
  "IsParameterTypeSpecifier c \<longleftrightarrow> c \<in> set ''bifsc.na''"

definition IsParameterTypeModifier :: "char \<Rightarrow> bool" where
  "IsParameterTypeModifier c \<longleftrightarrow> c = CHR ''+'' \<or> c = CHR ''*''"

definition valid_next :: "int \<Rightarrow> char \<Rightarrow> int" where
  "valid_next state c =
     (if state = 0 then
        (if IsParameterTypeSpecifier c then 1 else if c = CHR ''['' then 2 else - 1)
      else if state = 1 then
        (if IsParameterTypeSpecifier c then 1 else if c = CHR ''['' then 2
         else if IsParameterTypeModifier c then 0 else - 1)
      else if state = 2 then (if c = CHR '']'' then 3 else 2)
      else if state = 3 then (if IsParameterTypeSpecifier c then 1 else - 1)
      else state)"

fun valid_loop :: "int \<Rightarrow> string \<Rightarrow> int" where
  "valid_loop state [] = state"
| "valid_loop state (c # p) = (if state = - 1 then state else valid_loop (valid_next state c) p)"

definition IsValidParameterString :: "string \<Rightarrow> bool" where
  "IsValidParameterString p \<longleftrightarrow> valid_loop 0 p = 0 \<or> valid_loop 0 p = 1"


section \<open>Matching arguments\<close>

datatype match_error =
    UnterminatedName | NoTypeSpecified | InvalidCharacter
  | OutOfBounds
  | ElementTypeMismatch
  | ZeroSizedArrayGiven
  | ZeroSizedUnnamed
  | TooManyArguments
  | NamedTwice string
  | NamedElementType string
  | NamedWrongType string char
  | NamedArrayToNonArray string
  | NamedZeroCount string
  | NoSuchNamed string
  | TooManyPassed

definition SingleTypeMatch :: "char \<Rightarrow> AVSValue \<Rightarrow> bool \<Rightarrow> bool" where
  "SingleTypeMatch type arg strict =
     (if type = CHR ''.'' then True
      else if type = CHR ''b'' then IsBool arg
      else if type = CHR ''i'' then IsInt arg
      else if type = CHR ''f'' then IsFloat arg \<and> (\<not> strict \<or> \<not> IsInt arg)
      else if type = CHR ''s'' then IsString arg
      else if type = CHR ''c'' then IsClip arg
      else if type = CHR ''n'' then IsFunction arg
      else if type = CHR ''a'' then IsArray arg
      else False)"

definition SingleTypeMatchArray :: "char \<Rightarrow> AVSValue \<Rightarrow> bool \<Rightarrow> bool" where
  "SingleTypeMatchArray type arg strict \<longleftrightarrow>
     IsArray arg \<and> list_all (\<lambda>i. SingleTypeMatch type (operator_index arg i) strict) [0..ArraySize arg - 1]"

text \<open>\<^verbatim>\<open>AVSValue::GetType\<close>: the letter of the type.\<close>

fun GetType :: "AVSValue \<Rightarrow> char" where
  "GetType VUndefined = CHR ''v''"
| "GetType (VClip _) = CHR ''c''"
| "GetType (VBool _) = CHR ''b''"
| "GetType (VInt _) = CHR ''i''"
| "GetType (VLong _) = CHR ''l''"
| "GetType (VFloat _) = CHR ''f''"
| "GetType (VDouble _) = CHR ''d''"
| "GetType (VString _) = CHR ''s''"
| "GetType (VArray _) = CHR ''a''"
| "GetType (VFunction _) = CHR ''n''"

text \<open>\<^verbatim>\<open>strchr(p, c)\<close>: the rest of the string from the first \<open>c\<close> on.\<close>

definition c_strchr :: "char \<Rightarrow> string \<Rightarrow> string option" where
  "c_strchr c p = (case dropWhile (\<lambda>x. x \<noteq> c) p of [] \<Rightarrow> None | r \<Rightarrow> Some r)"

text \<open>\<^verbatim>\<open>TypeMatch\<close>.  The state of its loop: the character before the pointer, the
  pointer, the flag \<^verbatim>\<open>optional\<close> and the arguments not yet matched.\<close>

type_synonym match_state = "char option \<times> string \<times> bool \<times> AVSValue list"

definition skip_param_name :: "char option \<Rightarrow> string \<Rightarrow> bool \<Rightarrow> (match_error, char option \<times> string \<times> bool) result" where
  "skip_param_name prev p opt =
     (if peek p = CHR ''['' then
        (case c_strchr CHR '']'' (tl p) of
           None \<Rightarrow> Inl UnterminatedName
         | Some q \<Rightarrow> if tl q = [] then Inl NoTypeSpecified else Inr (Some CHR '']'', tl q, True))
      else Inr (prev, p, opt))"

definition skip_star :: "char option \<Rightarrow> string \<Rightarrow> char option \<times> string" where
  "skip_star prev p = (if peekn 1 p = CHR ''*'' then (Some (peek p), tl p) else (prev, p))"

text \<open>The case labels of the value types other than \<^verbatim>\<open>'.'\<close>.\<close>

definition typed_case :: "char \<Rightarrow> bool" where
  "typed_case c \<longleftrightarrow> c \<in> set ''bifscna''"

text \<open>The \<^verbatim>\<open>switch\<close> of the loop: \<open>Inr None\<close> is \<^verbatim>\<open>return false\<close>.\<close>

definition match_one ::
    "bool \<Rightarrow> char option \<Rightarrow> string \<Rightarrow> bool \<Rightarrow> AVSValue \<Rightarrow> AVSValue list
     \<Rightarrow> (match_error, match_state option) result" where
  "match_one strict prev p opt arg args =
     (let c = peek p in
      if typed_case c then
        (if peekn 1 p = CHR ''+'' \<and> IsArray arg \<and> c \<noteq> CHR ''a'' then Inr (Some (Some c, tl p, opt, arg # args))
         else if (\<not> opt \<or> Defined arg) \<and> \<not> SingleTypeMatch c arg strict then Inr None
         else Inr (Some (Some c, tl p, opt, args)))
      else if c = CHR ''.'' then Inr (Some (Some c, tl p, opt, args))
      else if c = CHR ''+'' \<or> c = CHR ''*'' then
        (case prev of
           None \<Rightarrow> Inl OutOfBounds
         | Some t \<Rightarrow>
             if IsArray arg \<and> t \<noteq> CHR ''.'' then
               (if \<not> SingleTypeMatchArray t arg strict then Inr None
                else Inr (Some (Some c, tl p, opt, args)))
             else if \<not> SingleTypeMatch t arg strict then Inr (Some (Some c, tl p, opt, arg # args))
             else Inr (Some (prev, p, opt, args)))
      else Inl InvalidCharacter)"

definition match_step :: "bool \<Rightarrow> match_state \<Rightarrow> (match_error, match_state option) result" where
  "match_step strict s =
     (case s of (prev, p, opt, args) \<Rightarrow>
        if p = [] then Inr None
        else bind_r (skip_param_name prev p opt) (\<lambda>(prev1, p1, opt1).
          case skip_star prev1 p1 of (prev2, p2) \<Rightarrow> match_one strict prev2 p2 opt1 (hd args) (tl args)))"

text \<open>After the last argument: the remaining parameters must be optional.\<close>

function match_end_loop :: "string \<Rightarrow> bool" where
  "match_end_loop p =
     (if peekn 1 p = CHR ''*'' then
        (let r = drop 2 p in if r = [] \<or> peek r = CHR ''['' then True else match_end_loop r)
      else False)"
  by auto
termination
proof (relation "measure length", goal_cases)
  case (2 p x)
  then have l: "1 < length p" by (intro peekn_not_NUL) auto
  have "length x = length p - 2" by (simp add: 2(2))
  with l show ?case by (simp only: in_measure)
qed simp

declare match_end_loop.simps [simp del]

definition match_end :: "string \<Rightarrow> bool" where
  "match_end p =
     (let r = (if peek p = CHR ''+'' \<or> peek p = CHR ''*'' then tl p else p)
      in if r = [] \<or> peek r = CHR ''['' then True else match_end_loop r)"

definition match_measure :: "match_state \<Rightarrow> nat" where
  "match_measure s = (case s of (prev, p, opt, args) \<Rightarrow> length p + length args)"

lemma c_strchr_length: "c_strchr c p = Some q \<Longrightarrow> length q \<le> length p \<and> q \<noteq> []"
  unfolding c_strchr_def
  by (metis (mono_tags, lifting) length_dropWhile_le list.exhaust list.simps(4,5) option.distinct(1) option.inject)

lemma skip_param_name_length:
  assumes "skip_param_name prev p opt = Inr (prev', p', opt')" "p \<noteq> []"
  shows "p' \<noteq> [] \<and> length p' \<le> length p"
  using assms
  by (cases p) (auto simp: skip_param_name_def dest: c_strchr_length split: if_splits option.splits)

lemma skip_star_length:
  assumes "skip_star prev p = (prev', p')" "p \<noteq> []"
  shows "p' \<noteq> [] \<and> length p' \<le> length p"
  using assms by (cases p; cases "tl p") (auto simp: skip_star_def peekn_def split: if_splits)

lemma match_one_measure:
  assumes "match_one strict prev p opt arg args = Inr (Some s)" "p \<noteq> []"
  shows "match_measure s < length p + Suc (length args)"
  using assms
  by (cases p) (auto simp: match_one_def match_measure_def Let_def split: if_splits option.splits)

lemma match_step_measure:
  assumes "match_step strict (prev, p, opt, a # args) = Inr (Some s)"
  shows "match_measure s < match_measure (prev, p, opt, a # args)"
proof -
  have p: "p \<noteq> []" using assms by (auto simp: match_step_def)
  then obtain prev1 p1 opt1 where 1: "skip_param_name prev p opt = Inr (prev1, p1, opt1)"
    using assms by (cases "skip_param_name prev p opt") (auto simp: match_step_def)
  obtain prev2 p2 where 2: "skip_star prev1 p1 = (prev2, p2)" by fastforce
  from skip_param_name_length [OF 1 p] skip_star_length [OF 2]
  have l: "p2 \<noteq> [] \<and> length p2 \<le> length p" by auto
  have "match_one strict prev2 p2 opt1 a args = Inr (Some s)"
    using assms p 1 2 by (simp add: match_step_def)
  from match_one_measure [OF this] l show ?thesis by (auto simp: match_measure_def)
qed

function type_match_loop :: "bool \<Rightarrow> match_state \<Rightarrow> (match_error, bool) result" where
  "type_match_loop strict s =
     (if snd (snd (snd s)) = [] then Inr (match_end (fst (snd s)))
      else (case match_step strict s of
              Inl e \<Rightarrow> Inl e
            | Inr None \<Rightarrow> Inr False
            | Inr (Some s') \<Rightarrow> type_match_loop strict s'))"
  by pat_completeness auto
termination
proof (relation "measure (\<lambda>(_, s). match_measure s)", goal_cases)
  case (2 strict s x1 x2)
  obtain prev p opt a args where s: "s = (prev, p, opt, a # args)"
    using 2(1) by (cases s) (auto simp: neq_Nil_conv)
  from match_step_measure [of strict prev p opt a args x2] 2 s show ?case by simp
qed simp

declare type_match_loop.simps [simp del]

definition TypeMatch :: "string \<Rightarrow> AVSValue list \<Rightarrow> bool \<Rightarrow> (match_error, bool) result" where
  "TypeMatch param_types args strict = type_match_loop strict (None, param_types, False, args)"

text \<open>\<^verbatim>\<open>strlen(name) == q-p && !_strnicmp(name, p, q-p)\<close>\<close>

definition same_name :: "string \<Rightarrow> string \<Rightarrow> bool" where
  "same_name name n \<longleftrightarrow> length name = length n \<and> map c_tolower name = map c_tolower n"

definition name_before :: "string \<Rightarrow> string \<Rightarrow> string" where
  "name_before r q = take (length r - length q) r"

text \<open>One name of \<^verbatim>\<open>ArgNameMatch\<close>: the loop over the parameter string.\<close>

function find_arg_name :: "string \<Rightarrow> string \<Rightarrow> (match_error, bool) result" where
  "find_arg_name name [] = Inr False"
| "find_arg_name name (c # r) =
     (if c = CHR ''['' then
        (case c_strchr CHR '']'' r of
           None \<Rightarrow> Inr False
         | Some q \<Rightarrow>
             if same_name name (name_before r q) then Inr True
             else if tl q = [] then Inl OutOfBounds
             else find_arg_name name (drop 2 q))
      else find_arg_name name r)"
  by pat_completeness auto
termination
  by (relation "measure (\<lambda>(_, p). length p)") (auto dest: c_strchr_length)

fun ArgNameMatch :: "string \<Rightarrow> string option list \<Rightarrow> (match_error, bool) result" where
  "ArgNameMatch param_types [] = Inr True"
| "ArgNameMatch param_types (None # ns) = ArgNameMatch param_types ns"
| "ArgNameMatch param_types (Some n # ns) =
     bind_r (find_arg_name n param_types)
       (\<lambda>found. if \<not> found then Inr False else ArgNameMatch param_types ns)"


section \<open>From the arguments of a call to one value per parameter\<close>

text \<open>The elements \<^verbatim>\<open>v[0] .. v[v.ArraySize()-1]\<close> of an array.\<close>

definition elems :: "AVSValue \<Rightarrow> AVSValue list" where
  "elems v = map (operator_index v) [0..ArraySize v - 1]"

text \<open>Step 1.  \<open>arg_names\<close> is \<open>None\<close> for a null pointer; an unnamed argument has the name
  \<open>None\<close>.  A caller that gives names gives one entry per argument.\<close>

definition Flatten :: "AVSValue \<Rightarrow> string option list option \<Rightarrow> AVSValue list" where
  "Flatten src arg_names =
     (if IsArray src then
        (case arg_names of
           None \<Rightarrow> elems src
         | Some ns \<Rightarrow> map snd (filter (\<lambda>(n, v). n = None) (zip ns (elems src))))
      else [src])"

text \<open>Step 3: a parameter with \<^verbatim>\<open>+\<close> or \<^verbatim>\<open>*\<close>.  The result is the value, whether it
  was really filled, and the arguments left.\<close>

definition bind_array ::
    "bool \<Rightarrow> char \<Rightarrow> char \<Rightarrow> bool \<Rightarrow> AVSValue list \<Rightarrow> (match_error, AVSValue \<times> bool \<times> AVSValue list) result" where
  "bind_array strict arg_type modifier last_was_named rest =
     (if rest \<noteq> [] \<and> IsArray (hd rest) \<and> arg_type \<noteq> CHR ''.'' then
        (if \<not> SingleTypeMatchArray arg_type (hd rest) strict then Inl ElementTypeMismatch
         else if modifier = CHR ''+'' \<and> ArraySize (hd rest) = 0 then Inl ZeroSizedArrayGiven
         else Inr (hd rest, True, tl rest))
      else
        (let items = takeWhile (\<lambda>a. SingleTypeMatch arg_type a strict) rest;
             left = drop (length items) rest
         in if items = [] \<and> modifier = CHR ''+'' then
              (if \<not> last_was_named then Inl ZeroSizedUnnamed else Inr (VUndefined, False, left))
            else Inr (if items = [] then (if last_was_named then VUndefined else VArray []) else VArray items,
                      last_was_named \<and> items \<noteq> [], left)))"

function bind_loop ::
    "bool \<Rightarrow> bool \<Rightarrow> string \<Rightarrow> AVSValue list \<Rightarrow> (match_error, (AVSValue \<times> bool) list \<times> AVSValue list) result" where
  "bind_loop strict last_was_named [] rest = Inr ([], rest)"
| "bind_loop strict last_was_named (c # r) rest =
     (if c = CHR ''['' then
        (case c_strchr CHR '']'' r of
           None \<Rightarrow> Inr ([], rest)
         | Some q \<Rightarrow> bind_loop strict True (tl q) rest)
      else if peek r = CHR ''*'' \<or> peek r = CHR ''+'' then
        bind_r (bind_array strict c (peek r) last_was_named rest) (\<lambda>(v, filled, rest').
          bind_r (bind_loop strict False (tl r) rest') (\<lambda>(vs, left). Inr ((v, filled) # vs, left)))
      else
        bind_r (bind_loop strict False (if peek r = CHR ''*'' \<or> peek r = CHR ''+'' then tl r else r) (tl rest))
          (\<lambda>(vs, left). Inr ((case rest of [] \<Rightarrow> (VUndefined, False) | a # _ \<Rightarrow> (a, True)) # vs, left)))"
  by pat_completeness auto
termination
  by (relation "measure (\<lambda>(_, _, p, _). length p)") (auto dest!: c_strchr_length)

definition bind_unnamed :: "string \<Rightarrow> bool \<Rightarrow> AVSValue list \<Rightarrow> (match_error, (AVSValue \<times> bool) list) result" where
  "bind_unnamed param_types strict args =
     bind_r (bind_loop strict False param_types args)
       (\<lambda>(vs, left). if left \<noteq> [] then Inl TooManyArguments else Inr vs)"

text \<open>Step 4: the parameter a named argument goes to: its index, its type and the character
  after the type.\<close>

function find_param :: "string \<Rightarrow> nat \<Rightarrow> string \<Rightarrow> (match_error, (nat \<times> char \<times> char) option) result" where
  "find_param name k [] = Inr None"
| "find_param name k (c # r) =
     (if c = CHR ''*'' \<or> c = CHR ''+'' then find_param name k r
      else if c = CHR ''['' then
        (case c_strchr CHR '']'' r of
           None \<Rightarrow> Inr None
         | Some q \<Rightarrow>
             if same_name name (name_before r q) then
               (if tl q = [] then Inl OutOfBounds else Inr (Some (k, peekn 1 q, peekn 2 q)))
             else if tl q = [] then Inl OutOfBounds
             else find_param name (Suc k) (drop 2 q))
      else find_param name (Suc k) r)"
  by pat_completeness auto
termination
  by (relation "measure (\<lambda>(_, _, p). length p)") (auto dest!: c_strchr_length)

definition is_repeat :: "char \<Rightarrow> bool" where
  "is_repeat c \<longleftrightarrow> c = CHR ''*'' \<or> c = CHR ''+''"

definition named_value :: "char \<Rightarrow> char \<Rightarrow> AVSValue \<Rightarrow> AVSValue" where
  "named_value type modifier arg =
     (if Defined arg \<and> \<not> IsArray arg \<and> (is_repeat modifier \<or> type = CHR ''a'') then VArray [arg] else arg)"

definition bind_named_one ::
    "string \<Rightarrow> string \<Rightarrow> AVSValue \<Rightarrow> (AVSValue \<times> bool) list \<Rightarrow> (match_error, (AVSValue \<times> bool) list) result" where
  "bind_named_one param_types name arg args3 =
     bind_r (find_param name 0 param_types) (\<lambda>found.
       case found of
         None \<Rightarrow> Inl (NoSuchNamed name)
       | Some (k, type, modifier) \<Rightarrow>
           if length args3 \<le> k then Inl OutOfBounds
           else if Defined (fst (args3 ! k)) \<and> snd (args3 ! k) then Inl (NamedTwice name)
           else if Defined arg \<and> IsArray arg \<and> is_repeat modifier \<and> \<not> SingleTypeMatchArray type arg False
             then Inl (NamedElementType name)
           else if Defined arg \<and> \<not> IsArray arg \<and> \<not> SingleTypeMatch type arg False
             then Inl (NamedWrongType name (GetType arg))
           else if Defined arg \<and> IsArray arg \<and> \<not> is_repeat modifier \<and> type \<noteq> CHR ''.'' \<and> type \<noteq> CHR ''a''
             then Inl (NamedArrayToNonArray name)
           else if Defined arg \<and> IsArray arg \<and> modifier = CHR ''+'' \<and> ArraySize arg = 0
             then Inl (NamedZeroCount name)
           else Inr (args3[k := (named_value type modifier arg, True)]))"

fun bind_named ::
    "string \<Rightarrow> (string option \<times> AVSValue) list \<Rightarrow> (AVSValue \<times> bool) list \<Rightarrow> (match_error, (AVSValue \<times> bool) list) result" where
  "bind_named param_types [] args3 = Inr args3"
| "bind_named param_types ((None, _) # nargs) args3 = bind_named param_types nargs args3"
| "bind_named param_types ((Some name, arg) # nargs) args3 =
     bind_r (bind_named_one param_types name arg args3) (bind_named param_types nargs)"

text \<open>Steps 3 and 4 together: the array the function's code receives.\<close>

definition named_args :: "AVSValue \<Rightarrow> string option list option \<Rightarrow> (string option \<times> AVSValue) list" where
  "named_args args arg_names =
     (case arg_names of None \<Rightarrow> [] | Some ns \<Rightarrow> if IsArray args then zip ns (elems args) else [])"

definition bind_arguments ::
    "string \<Rightarrow> bool \<Rightarrow> AVSValue list \<Rightarrow> (string option \<times> AVSValue) list \<Rightarrow> (match_error, AVSValue list) result" where
  "bind_arguments param_types strict args nargs =
     bind_r (bind_unnamed param_types strict args) (\<lambda>args3.
       bind_r (bind_named param_types nargs args3) (\<lambda>args3. Inr (map fst args3)))"

end
