(* ===== verification/Arg_Spec.thy ===== *)
theory Arg_Spec
  imports Arg_Match
begin

text \<open>
  What the signature code of \<open>Arg_Match\<close> promises.  A parameter has an optional name, a type and
  an optional repetition mark; a signature is a list of parameters.  The accepted parameter
  strings are exactly the printed signatures, the pointer walks of \<^verbatim>\<open>TypeMatch\<close> and of the
  argument binder are recursions over the list, and from these follows that a call that matches
  a signature binds every argument to a parameter of its type.
\<close>


section \<open>The grammar of parameter strings\<close>

datatype param = Param (pname: "string option") (ptype: char) (pmod: "char option")

fun wf_param :: "param \<Rightarrow> bool" where
  "wf_param (Param n t m) \<longleftrightarrow>
     IsParameterTypeSpecifier t \<and> (case m of None \<Rightarrow> True | Some c \<Rightarrow> IsParameterTypeModifier c) \<and>
     (case n of None \<Rightarrow> True | Some s \<Rightarrow> CHR '']'' \<notin> set s)"

fun print_param :: "param \<Rightarrow> string" where
  "print_param (Param n t m) =
     (case n of None \<Rightarrow> [] | Some s \<Rightarrow> CHR ''['' # s @ [CHR '']'']) @ t # (case m of None \<Rightarrow> [] | Some c \<Rightarrow> [c])"

definition print_params :: "param list \<Rightarrow> string" where
  "print_params ps = concat (map print_param ps)"

lemma print_params_simps [simp]:
  "print_params [] = []" "print_params (p # ps) = print_param p @ print_params ps"
  by (simp_all add: print_params_def)

lemma specifier_not [simp]:
  "\<not> IsParameterTypeSpecifier CHR ''[''" "\<not> IsParameterTypeSpecifier CHR ''+''"
  "\<not> IsParameterTypeSpecifier CHR ''*''" "\<not> IsParameterTypeSpecifier CHR '']''" "\<not> IsParameterTypeSpecifier NUL"
  by (simp_all add: IsParameterTypeSpecifier_def)

lemma modifier_not [simp]: "\<not> IsParameterTypeModifier CHR ''[''"
  by (simp add: IsParameterTypeModifier_def)

lemma specifier_modifier: "IsParameterTypeSpecifier c \<Longrightarrow> \<not> IsParameterTypeModifier c"
  by (auto simp: IsParameterTypeModifier_def)

lemma valid_loop_dead [simp]: "valid_loop (- 1) p = - 1"
  by (cases p) auto

lemma valid_next_0_1:
  "\<not> IsParameterTypeModifier c \<Longrightarrow> valid_next 1 c = valid_next 0 c"
  by (simp add: valid_next_def)

lemma valid_loop_1:
  assumes "valid_loop 1 r \<in> {0, 1}"
  shows "(\<exists>m r'. r = m # r' \<and> IsParameterTypeModifier m \<and> valid_loop 0 r' \<in> {0, 1}) \<or> valid_loop 0 r \<in> {0, 1}"
proof (cases r)
  case (Cons c r')
  with assms show ?thesis
    by (cases "IsParameterTypeModifier c")
      (use specifier_modifier [of c] in \<open>auto simp: valid_next_def split: if_splits\<close>)
qed simp

lemma valid_loop_2:
  assumes "valid_loop 2 r \<in> {0, 1}"
  shows "\<exists>n r'. r = n @ CHR '']'' # r' \<and> CHR '']'' \<notin> set n \<and> valid_loop 3 r' \<in> {0, 1}"
  using assms
proof (induction r)
  case (Cons c r)
  show ?case
  proof (cases "c = CHR '']''")
    case True
    with Cons.prems have "valid_loop 3 r \<in> {0, 1}" by (simp add: valid_next_def)
    with True show ?thesis by (intro exI [of _ "[]"] exI [of _ r]) simp
  next
    case False
    with Cons obtain n r' where "r = n @ CHR '']'' # r'" "CHR '']'' \<notin> set n" "valid_loop 3 r' \<in> {0, 1}"
      by (auto simp: valid_next_def)
    with False show ?thesis by (intro exI [of _ "c # n"] exI [of _ r']) auto
  qed
qed auto

lemma valid_loop_3:
  assumes "valid_loop 3 r \<in> {0, 1}"
  shows "\<exists>t r'. r = t # r' \<and> IsParameterTypeSpecifier t \<and> valid_loop 1 r' \<in> {0, 1}"
  using assms by (cases r) (auto simp: valid_next_def split: if_splits)

lemma valid_imp_params: "valid_loop 0 s \<in> {0, 1} \<Longrightarrow> \<exists>ps. list_all wf_param ps \<and> s = print_params ps"
proof (induction "length s" arbitrary: s rule: less_induct)
  case less
  have rest: "\<exists>ps. list_all wf_param ps \<and> s = print_params ps"
    if s: "s = pre @ t # r" and t: "IsParameterTypeSpecifier t" and v: "valid_loop 1 r \<in> {0, 1}"
      and pre: "pre = (case n of None \<Rightarrow> [] | Some x \<Rightarrow> CHR ''['' # x @ [CHR '']''])"
      and n: "case n of None \<Rightarrow> True | Some x \<Rightarrow> CHR '']'' \<notin> set x" for pre t r n
    using valid_loop_1 [OF v]
  proof (elim disjE exE conjE)
    fix m r' assume m: "r = m # r'" "IsParameterTypeModifier m" "valid_loop 0 r' \<in> {0, 1}"
    with less.hyps [of r'] s obtain ps where "list_all wf_param ps" "r' = print_params ps" by auto
    with m s t pre n show ?thesis by (intro exI [of _ "Param n t (Some m) # ps"]) simp
  next
    assume "valid_loop 0 r \<in> {0, 1}"
    with less.hyps [of r] s obtain ps where "list_all wf_param ps" "r = print_params ps" by auto
    with s t pre n show ?thesis by (intro exI [of _ "Param n t None # ps"]) simp
  qed
  show ?case
  proof (cases s)
    case Nil
    then show ?thesis by (intro exI [of _ "[]"]) simp
  next
    case (Cons c r)
    with less.prems consider "IsParameterTypeSpecifier c" "valid_loop 1 r \<in> {0, 1}"
      | "c = CHR ''[''" "valid_loop 2 r \<in> {0, 1}"
      by (auto simp: valid_next_def split: if_splits)
    then show ?thesis
    proof cases
      case 1
      then show ?thesis by (intro rest [of "[]" c r None]) (simp_all add: Cons)
    next
      case 2
      from valid_loop_2 [OF 2(2)] valid_loop_3 obtain n r1 t r2 where
        n: "r = n @ CHR '']'' # r1" "CHR '']'' \<notin> set n" and t: "r1 = t # r2" "IsParameterTypeSpecifier t" "valid_loop 1 r2 \<in> {0, 1}"
        by metis
      with 2 Cons show ?thesis by (intro rest [of "CHR ''['' # n @ [CHR '']'']" t r2 "Some n"]) simp_all
    qed
  qed
qed

lemma valid_loop_name:
  "CHR '']'' \<notin> set n \<Longrightarrow> valid_loop 2 (n @ CHR '']'' # r) = valid_loop 3 r"
  by (induction n) (auto simp: valid_next_def)

lemma valid_next_steps:
  "IsParameterTypeSpecifier t \<Longrightarrow> valid_next 0 t = 1"
  "IsParameterTypeSpecifier t \<Longrightarrow> valid_next 1 t = 1"
  "IsParameterTypeSpecifier t \<Longrightarrow> valid_next 3 t = 1"
  "valid_next 0 CHR ''['' = 2" "valid_next 1 CHR ''['' = 2"
  "IsParameterTypeModifier c \<Longrightarrow> valid_next 1 c = 0"
  using specifier_modifier [of c] by (auto simp: valid_next_def)

lemma valid_loop_print:
  assumes "list_all wf_param ps" "state = 0 \<or> state = 1"
  shows "valid_loop state (print_params ps) \<in> {0, 1}"
  using assms
proof (induction ps arbitrary: state)
  case (Cons p ps)
  obtain n t m where p: "p = Param n t m" by (cases p)
  have t: "IsParameterTypeSpecifier t" using Cons.prems p by simp
  have tail: "valid_loop 1 ((case m of None \<Rightarrow> [] | Some c \<Rightarrow> [c]) @ print_params ps) \<in> {0, 1}"
  proof (cases m)
    case None
    then show ?thesis using Cons by simp
  next
    case (Some c)
    then have "IsParameterTypeModifier c" using Cons.prems p by simp
    with Some show ?thesis using Cons by (simp add: valid_next_steps)
  qed
  show ?case
  proof (cases n)
    case None
    with t tail Cons.prems(2) p show ?thesis by (elim disjE) (simp_all add: valid_next_steps)
  next
    case (Some s)
    with Cons.prems p have "CHR '']'' \<notin> set s" by simp
    with Some t tail Cons.prems(2) p show ?thesis
      by (elim disjE) (simp_all add: valid_next_steps valid_loop_name)
  qed
qed auto

lemma valid_iff_params: "IsValidParameterString s \<longleftrightarrow> (\<exists>ps. list_all wf_param ps \<and> s = print_params ps)"
proof -
  have "IsValidParameterString s \<longleftrightarrow> valid_loop 0 s \<in> {0, 1}" by (simp add: IsValidParameterString_def)
  with valid_imp_params [of s] valid_loop_print [of _ 0] show ?thesis by blast
qed


text \<open>A signature with a name and a flag for each of its parameters.\<close>

definition sig_ok :: "string \<Rightarrow> string list \<Rightarrow> bool list \<Rightarrow> bool" where
  "sig_ok params pnames floats \<longleftrightarrow>
     (\<exists>ps. list_all wf_param ps \<and> params = print_params ps \<and> length ps \<le> length pnames \<and> length ps \<le> length floats)"


section \<open>Matching over the list of parameters\<close>

text \<open>Out of arguments: a named parameter, or unnamed \<^verbatim>\<open>*\<close> parameters up to a named one or
  to the end.\<close>

fun spec_end :: "param list \<Rightarrow> bool" where
  "spec_end [] = True"
| "spec_end (p # ps) \<longleftrightarrow> pname p \<noteq> None \<or> (pmod p = Some CHR ''*'' \<and> spec_end ps)"

text \<open>\<open>cur = Some t\<close>: the repeated parameter of type \<open>t\<close> is being matched, \<open>ps\<close> follow it.\<close>

function (sequential) spec_match :: "bool \<Rightarrow> char option \<Rightarrow> param list \<Rightarrow> bool \<Rightarrow> AVSValue list \<Rightarrow> bool" where
  "spec_match strict cur ps opt [] = spec_end ps"
| "spec_match strict (Some t) ps opt (a # args) =
     (if IsArray a \<and> t \<noteq> CHR ''.'' then SingleTypeMatchArray t a strict \<and> spec_match strict None ps opt args
      else if SingleTypeMatch t a strict then spec_match strict (Some t) ps opt args
      else spec_match strict None ps opt (a # args))"
| "spec_match strict None [] opt (a # args) = False"
| "spec_match strict None (Param n t m # ps) opt (a # args) =
     (let opt = (opt \<or> n \<noteq> None) in
      if m = Some CHR ''*'' \<or> (m = Some CHR ''+'' \<and> IsArray a \<and> t \<noteq> CHR ''a'' \<and> t \<noteq> CHR ''.'') then
        spec_match strict (Some t) ps opt (a # args)
      else (t = CHR ''.'' \<or> (opt \<and> \<not> Defined a) \<or> SingleTypeMatch t a strict) \<and>
           spec_match strict (if m = None then None else Some t) ps opt args)"
  by pat_completeness auto
termination
  by (relation "measure (\<lambda>(_, cur, ps, _, args). 2 * length ps + (if cur = None then 0 else 1) + 2 * length args)") auto

lemma specifier_cases: "IsParameterTypeSpecifier t \<Longrightarrow> t \<noteq> CHR ''.'' \<Longrightarrow> typed_case t"
  by (auto simp: IsParameterTypeSpecifier_def typed_case_def)

lemma typed_case_not [simp]:
  "\<not> typed_case CHR ''.''" "\<not> typed_case CHR ''+''" "\<not> typed_case CHR ''*''" "\<not> typed_case CHR ''[''" "\<not> typed_case NUL"
  by (simp_all add: typed_case_def)

lemma modifier_cases: "IsParameterTypeModifier m \<Longrightarrow> m = CHR ''+'' \<or> m = CHR ''*''"
  by (simp add: IsParameterTypeModifier_def)

text \<open>The first character of a printed signature.\<close>

lemma peek_print:
  "list_all wf_param ps \<Longrightarrow>
   peek (print_params ps) = (case ps of [] \<Rightarrow> NUL | Param n t m # _ \<Rightarrow> if n = None then t else CHR ''['')"
  by (auto split: list.split param.split option.split)

lemma peek_print_not_modifier:
  assumes "list_all wf_param ps"
  shows "peek (print_params ps) \<noteq> CHR ''*''" "peek (print_params ps) \<noteq> CHR ''+''"
  using assms by (auto simp: peek_print split: list.split param.split)

lemma c_strchr_name: "CHR '']'' \<notin> set n \<Longrightarrow> c_strchr CHR '']'' (n @ CHR '']'' # r) = Some (CHR '']'' # r)"
  by (induction n) (auto simp: c_strchr_def)

lemma name_before_name [simp]: "name_before (n @ CHR '']'' # r) (CHR '']'' # r) = n"
  by (simp add: name_before_def)

lemma match_end_loop_print:
  assumes "list_all wf_param ps" "ps \<noteq> []" "pname (hd ps) = None"
  shows "match_end_loop (print_params ps) = spec_end ps"
  using assms
proof (induction ps)
  case (Cons p ps)
  obtain t m where p: "p = Param None t m" using Cons.prems by (cases p) simp
  show ?case
  proof (cases m)
    case None
    then show ?thesis using Cons.prems p peek_print_not_modifier [of ps]
      by (simp add: match_end_loop.simps [of "t # print_params ps"])
  next
    case (Some c)
    show ?thesis
    proof (cases "c = CHR ''*''")
      case False
      then show ?thesis using p Some by (simp add: match_end_loop.simps [of "t # c # print_params ps"])
    next
      case True
      have e: "match_end_loop (print_params (p # ps)) =
        (if print_params ps = [] \<or> peek (print_params ps) = CHR ''['' then True else match_end_loop (print_params ps))"
        using p Some True by (simp add: match_end_loop.simps [of "t # CHR ''*'' # print_params ps"] Let_def)
      show ?thesis
      proof (cases ps)
        case Nil
        then show ?thesis using e p Some True by simp
      next
        case (Cons q qs)
        obtain n' t' m' where q: "q = Param n' t' m'" by (cases q)
        have w: "list_all wf_param ps" "ps \<noteq> []" using Cons.prems Cons by auto
        have t': "t' \<noteq> CHR ''[''" using w Cons q by auto
        show ?thesis
        proof (cases n')
          case None
          then have "match_end_loop (print_params ps) = spec_end ps" using Cons.IH w Cons q by simp
          then show ?thesis using e p Some True Cons q None t' by simp
        next
          case (Some s)
          then show ?thesis using e p \<open>m = Some c\<close> True Cons q by simp
        qed
      qed
    qed
  qed
qed simp

lemma match_end_print:
  assumes "list_all wf_param ps" "m = [] \<or> (\<exists>c. m = [c] \<and> IsParameterTypeModifier c)"
  shows "match_end (m @ print_params ps) = spec_end ps"
proof -
  have s: "match_end (m @ print_params ps) =
    (if print_params ps = [] \<or> peek (print_params ps) = CHR ''['' then True else match_end_loop (print_params ps))"
    using assms(2) peek_print_not_modifier [OF assms(1)]
    by (auto simp: match_end_def Let_def IsParameterTypeModifier_def)
  show ?thesis
  proof (cases ps)
    case (Cons q qs)
    obtain n' t' m' where q: "q = Param n' t' m'" by (cases q)
    have t': "t' \<noteq> CHR ''[''" using assms(1) Cons q by auto
    show ?thesis
    proof (cases n')
      case None
      then show ?thesis using s match_end_loop_print [OF assms(1)] Cons q t' by simp
    qed (use s Cons q in simp)
  qed (use s in simp)
qed

lemma skip_print:
  assumes "wf_param (Param n t m)"
  shows "skip_param_name prev (print_param (Param n t m) @ r) opt =
    Inr (if n = None then prev else Some CHR '']'',
         t # (case m of None \<Rightarrow> [] | Some c \<Rightarrow> [c]) @ r, opt \<or> n \<noteq> None)"
proof (cases n)
  case None
  have "t \<noteq> CHR ''[''" using assms by auto
  then show ?thesis using None by (simp add: skip_param_name_def)
next
  case (Some s)
  then have "CHR '']'' \<notin> set s" using assms by simp
  then show ?thesis using Some by (simp add: skip_param_name_def c_strchr_name)
qed

lemma loop_at_modifier:
  assumes "IsParameterTypeModifier c" "list_all wf_param ps"
  shows "match_step strict (Some t, c # print_params ps, opt, a # args) =
    match_one strict (Some t) (c # print_params ps) opt a args"
proof -
  have "c \<noteq> CHR ''[''" using assms(1) by auto
  moreover have "peekn 1 (c # print_params ps) \<noteq> CHR ''*''"
    using peek_print_not_modifier [OF assms(2)] by simp
  ultimately show ?thesis by (simp add: match_step_def skip_param_name_def skip_star_def)
qed

lemma match_one_modifier:
  assumes "IsParameterTypeModifier c"
  shows "match_one strict (Some t) (c # r) opt a args =
    (if IsArray a \<and> t \<noteq> CHR ''.'' then
       (if \<not> SingleTypeMatchArray t a strict then Inr None else Inr (Some (Some c, r, opt, args)))
     else if \<not> SingleTypeMatch t a strict then Inr (Some (Some c, r, opt, a # args))
     else Inr (Some (Some t, c # r, opt, args)))"
  using assms by (auto simp: match_one_def Let_def IsParameterTypeModifier_def)

lemma match_one_type:
  assumes "IsParameterTypeSpecifier t"
  shows "match_one strict prev (t # r) opt a args =
    (if peek r = CHR ''+'' \<and> IsArray a \<and> t \<noteq> CHR ''a'' \<and> t \<noteq> CHR ''.'' then Inr (Some (Some t, r, opt, a # args))
     else if t = CHR ''.'' \<or> (opt \<and> \<not> Defined a) \<or> SingleTypeMatch t a strict then Inr (Some (Some t, r, opt, args))
     else Inr None)"
  using assms specifier_cases [of t] by (cases "t = CHR ''.''") (auto simp: match_one_def Let_def)

text \<open>The state of the pointer walk that stands for a state of \<open>spec_match\<close>.\<close>

definition at_params :: "char option \<Rightarrow> param list \<Rightarrow> char option \<Rightarrow> string \<Rightarrow> bool" where
  "at_params cur ps prev s \<longleftrightarrow>
     (case cur of None \<Rightarrow> s = print_params ps
      | Some t \<Rightarrow> prev = Some t \<and> (\<exists>c. IsParameterTypeModifier c \<and> s = c # print_params ps))"

lemma at_params_simps:
  "at_params None ps prev s \<longleftrightarrow> s = print_params ps"
  "at_params (Some t) ps prev s \<longleftrightarrow> prev = Some t \<and> (\<exists>c. IsParameterTypeModifier c \<and> s = c # print_params ps)"
  by (simp_all add: at_params_def)

lemma step_print:
  assumes "list_all wf_param (Param n t m # ps)"
  shows "match_step strict (prev, print_params (Param n t m # ps), opt, a # args) =
    (let opt = (opt \<or> n \<noteq> None) in
     if m = Some CHR ''*'' then match_step strict (Some t, CHR ''*'' # print_params ps, opt, a # args)
     else match_one strict (if n = None then prev else Some CHR '']'') (t # (case m of None \<Rightarrow> [] | Some c \<Rightarrow> [c]) @ print_params ps) opt a args)"
proof -
  have w: "wf_param (Param n t m)" "list_all wf_param ps" using assms by auto
  have ne: "print_params (Param n t m # ps) \<noteq> []" by simp
  have star: "IsParameterTypeModifier CHR ''*''" by (simp add: IsParameterTypeModifier_def)
  have k: "match_step strict (prev, print_params (Param n t m # ps), opt, a # args) =
    (case skip_star (if n = None then prev else Some CHR '']'') (t # (case m of None \<Rightarrow> [] | Some c \<Rightarrow> [c]) @ print_params ps) of
       (prev2, p2) \<Rightarrow> match_one strict prev2 p2 (opt \<or> n \<noteq> None) a args)"
    using ne skip_print [OF w(1), of prev "print_params ps" opt] by (simp add: match_step_def)
  have "skip_star q (t # (case m of None \<Rightarrow> [] | Some c \<Rightarrow> [c]) @ print_params ps) =
    (if m = Some CHR ''*'' then (Some t, CHR ''*'' # print_params ps)
     else (q, t # (case m of None \<Rightarrow> [] | Some c \<Rightarrow> [c]) @ print_params ps))" for q
    using peek_print_not_modifier [OF w(2)] by (cases m) (auto simp: skip_star_def)
  then show ?thesis unfolding k using loop_at_modifier [OF star w(2)] by (simp add: Let_def)
qed

lemma type_match_loop_Nil: "type_match_loop strict (prev, s, opt, []) = Inr (match_end s)"
  by (simp add: type_match_loop.simps)

lemma type_match_loop_Cons:
  "type_match_loop strict (prev, s, opt, a # args) =
     (case match_step strict (prev, s, opt, a # args) of
        Inl e \<Rightarrow> Inl e | Inr None \<Rightarrow> Inr False | Inr (Some s') \<Rightarrow> type_match_loop strict s')"
  by (simp add: type_match_loop.simps [of strict "(prev, s, opt, a # args)"])

lemma type_match_print:
  assumes "list_all wf_param ps" "at_params cur ps prev s"
  shows "type_match_loop strict (prev, s, opt, args) = Inr (spec_match strict cur ps opt args)"
  using assms
proof (induction strict cur ps opt args arbitrary: prev s rule: spec_match.induct)
  case (1 strict cur ps opt)
  have "match_end s = spec_end ps"
  proof (cases cur)
    case None
    then show ?thesis using 1 match_end_print [of ps "[]"] by (simp add: at_params_simps)
  next
    case (Some t)
    then obtain c where "IsParameterTypeModifier c" "s = [c] @ print_params ps"
      using 1 by (auto simp: at_params_simps)
    then show ?thesis using 1(1) match_end_print [of ps "[c]"] by simp
  qed
  then show ?case by (simp add: type_match_loop_Nil)
next
  case (2 strict t ps opt a args)
  then obtain c where c: "IsParameterTypeModifier c" "s = c # print_params ps" "prev = Some t"
    by (auto simp: at_params_simps)
  have a0: "at_params None ps (Some c) (print_params ps)" "at_params (Some t) ps (Some t) (c # print_params ps)"
    using c by (auto simp: at_params_simps)
  have l: "type_match_loop strict (prev, s, opt, a # args) =
    (if IsArray a \<and> t \<noteq> CHR ''.'' then
       (if \<not> SingleTypeMatchArray t a strict then Inr False
        else type_match_loop strict (Some c, print_params ps, opt, args))
     else if \<not> SingleTypeMatch t a strict then type_match_loop strict (Some c, print_params ps, opt, a # args)
     else type_match_loop strict (Some t, c # print_params ps, opt, args))"
    unfolding c by (subst type_match_loop_Cons) (simp add: loop_at_modifier [OF c(1) 2(4)] match_one_modifier [OF c(1)])
  show ?case
  proof (cases "IsArray a \<and> t \<noteq> CHR ''.''")
    case True
    then show ?thesis using l 2(1) [OF True 2(4) a0(1)] by simp
  next
    case False
    then show ?thesis using l 2(2) [OF False _ 2(4) a0(2)] 2(3) [OF False _ 2(4) a0(1)]
      by (cases "SingleTypeMatch t a strict") (simp_all add: False)
  qed
next
  case (3 strict opt a args)
  then show ?case by (simp add: type_match_loop_Cons match_step_def at_params_simps)
next
  case (4 strict n t m ps opt a args)
  have s: "s = print_params (Param n t m # ps)" using 4(4) by (simp add: at_params_simps)
  have w: "list_all wf_param ps" "IsParameterTypeSpecifier t" using 4(3) by auto
  show ?case
  proof (cases "m = Some CHR ''*''")
    case True
    have "at_params (Some t) ps (Some t) (CHR ''*'' # print_params ps)"
      by (simp add: at_params_simps IsParameterTypeModifier_def)
    from 4(1) [OF refl _ w(1) this] True
    show ?thesis unfolding s type_match_loop_Cons step_print [OF 4(3)]
      by (simp add: Let_def type_match_loop_Cons)
  next
    case False
    let ?tl = "(case m of None \<Rightarrow> [] | Some c \<Rightarrow> [c]) @ print_params ps"
    have pk: "peek ?tl = CHR ''+'' \<longleftrightarrow> m = Some CHR ''+''"
      using peek_print_not_modifier [OF w(1)] by (cases m) auto
    have at: "at_params (if m = None then None else Some t) ps (Some t) ?tl"
      using 4(3) by (cases m) (auto simp: at_params_simps)
    show ?thesis
    proof (cases "m = Some CHR ''+'' \<and> IsArray a \<and> t \<noteq> CHR ''a'' \<and> t \<noteq> CHR ''.''")
      case True
      have "at_params (Some t) ps (Some t) ?tl" using at True by simp
      from 4(1) [OF refl _ w(1) this] True False pk show ?thesis
        unfolding s by (subst type_match_loop_Cons, subst step_print [OF 4(3)])
          (simp add: Let_def match_one_type [OF w(2)])
    next
      case f: False
      let ?o = "opt \<or> n \<noteq> None"
      let ?ok = "t = CHR ''.'' \<or> (?o \<and> \<not> Defined a) \<or> SingleTypeMatch t a strict"
      have "type_match_loop strict (prev, s, opt, a # args) =
        (if ?ok then type_match_loop strict (Some t, ?tl, ?o, args) else Inr False)"
        unfolding s using False f pk
        by (subst type_match_loop_Cons, subst step_print [OF 4(3)])
          (auto simp: Let_def match_one_type [OF w(2)])
      moreover have "spec_match strict None (Param n t m # ps) opt (a # args) \<longleftrightarrow>
        ?ok \<and> spec_match strict (if m = None then None else Some t) ps ?o args"
        using False f by (simp only: spec_match.simps Let_def) simp
      ultimately show ?thesis using 4(2) [OF refl _ w(1) at] False f by (cases ?ok) auto
    qed
  qed
qed

lemma TypeMatch_print:
  "list_all wf_param ps \<Longrightarrow> TypeMatch (print_params ps) args strict = Inr (spec_match strict None ps False args)"
  unfolding TypeMatch_def by (rule type_match_print) (simp_all add: at_params_simps)


section \<open>Binding over the list of parameters\<close>

fun spec_bind ::
    "bool \<Rightarrow> param list \<Rightarrow> AVSValue list \<Rightarrow> (match_error, (AVSValue \<times> bool) list \<times> AVSValue list) result" where
  "spec_bind strict [] args = Inr ([], args)"
| "spec_bind strict (Param n t m # ps) args =
     (case m of
        Some c \<Rightarrow> bind_r (bind_array strict t c (n \<noteq> None) args) (\<lambda>(v, filled, rest).
          bind_r (spec_bind strict ps rest) (\<lambda>(vs, left). Inr ((v, filled) # vs, left)))
      | None \<Rightarrow> bind_r (spec_bind strict ps (tl args))
          (\<lambda>(vs, left). Inr ((case args of [] \<Rightarrow> (VUndefined, False) | a # _ \<Rightarrow> (a, True)) # vs, left)))"

lemma bind_loop_print:
  assumes "list_all wf_param ps"
  shows "bind_loop strict False (print_params ps) args = spec_bind strict ps args"
  using assms
proof (induction ps arbitrary: args)
  case (Cons p ps)
  obtain n t m where p: "p = Param n t m" by (cases p)
  have w: "wf_param (Param n t m)" "list_all wf_param ps" using Cons.prems p by auto
  have t: "t \<noteq> CHR ''[''" using w by auto
  let ?tl = "(case m of None \<Rightarrow> [] | Some c \<Rightarrow> [c]) @ print_params ps"
  have type: "bind_loop strict ln (t # ?tl) args = spec_bind strict (p # ps) args" if "ln = (n \<noteq> None)" for ln
  proof (cases m)
    case None
    then show ?thesis using t p that Cons.IH [OF w(2)] peek_print_not_modifier [OF w(2)] by simp
  next
    case (Some c)
    then have "c = CHR ''+'' \<or> c = CHR ''*''" using w(1) modifier_cases by simp
    then show ?thesis using t p that Cons.IH [OF w(2)] Some by (elim disjE) simp_all
  qed
  show ?case
  proof (cases n)
    case None
    then have "print_params (p # ps) = t # ?tl" using p by simp
    then show ?thesis using type [of False] None by simp
  next
    case (Some s)
    then have "bind_loop strict False (print_params (p # ps)) args = bind_loop strict True (t # ?tl) args"
      using p w(1) by (simp add: c_strchr_name)
    then show ?thesis using type [of True] Some by simp
  qed
qed simp

text \<open>Arguments the script gives one by one: values other than arrays.\<close>

definition simple_arg :: "AVSValue \<Rightarrow> bool" where
  "simple_arg a \<longleftrightarrow> Defined a \<and> \<not> IsArray a"

text \<open>No one-or-more parameter without a name follows a named one.\<close>

fun named_last :: "param list \<Rightarrow> bool" where
  "named_last [] = True"
| "named_last (p # ps) \<longleftrightarrow>
     (pname p \<noteq> None \<longrightarrow> list_all (\<lambda>q. pname q \<noteq> None \<or> pmod q \<noteq> Some CHR ''+'') ps) \<and> named_last ps"

text \<open>The arguments a bound value holds, and that they have the type of the parameter.\<close>

definition spread :: "param \<Rightarrow> AVSValue \<times> bool \<Rightarrow> AVSValue list" where
  "spread p v = (if pmod p = None then (if snd v then [fst v] else [])
                 else (case fst v of VArray vs \<Rightarrow> vs | _ \<Rightarrow> []))"

definition fits :: "bool \<Rightarrow> param \<Rightarrow> AVSValue \<times> bool \<Rightarrow> bool" where
  "fits strict p v \<longleftrightarrow> list_all (\<lambda>a. SingleTypeMatch (ptype p) a strict) (spread p v)"

definition bound_ok :: "bool \<Rightarrow> param list \<Rightarrow> AVSValue list \<Rightarrow> (AVSValue \<times> bool) list \<Rightarrow> bool" where
  "bound_ok strict ps args vs \<longleftrightarrow>
     length vs = length ps \<and> concat (map2 spread ps vs) = args \<and> list_all2 (fits strict) ps vs"

lemma bound_ok_Nil [simp]: "bound_ok strict [] [] []"
  by (simp add: bound_ok_def)

lemma bound_ok_Cons:
  "bound_ok strict ps rest vs \<Longrightarrow> fits strict p v \<Longrightarrow> bound_ok strict (p # ps) (spread p v @ rest) (v # vs)"
  by (simp add: bound_ok_def)

lemma bind_array_empty:
  "(c = CHR ''+'' \<longrightarrow> named) \<Longrightarrow>
   bind_array strict t c named [] = Inr (if named then VUndefined else VArray [], False, [])"
  by (auto simp: bind_array_def Let_def)

lemma spec_bind_nothing:
  assumes "list_all (\<lambda>q. pname q \<noteq> None \<or> pmod q \<noteq> Some CHR ''+'') ps"
  shows "\<exists>vs. spec_bind strict ps [] = Inr (vs, []) \<and> bound_ok strict ps [] vs"
  using assms
proof (induction ps)
  case (Cons p ps)
  obtain n t m where p: "p = Param n t m" by (cases p)
  from Cons obtain vs where vs: "spec_bind strict ps [] = Inr (vs, [])" "bound_ok strict ps [] vs" by auto
  show ?case
  proof (cases m)
    case None
    with bound_ok_Cons [OF vs(2), of p "(VUndefined, False)"] vs(1) p show ?thesis
      by (simp add: spread_def fits_def)
  next
    case (Some c)
    let ?v = "(if n \<noteq> None then VUndefined else VArray [], False)"
    have "bind_array strict t c (n \<noteq> None) [] = Inr (fst ?v, False, [])"
      using bind_array_empty [of c "n \<noteq> None" strict t] Cons.prems p Some by (cases n) simp_all
    with bound_ok_Cons [OF vs(2), of p ?v] vs(1) p Some show ?thesis
      by (auto simp: spread_def fits_def)
  qed
qed simp

lemma spec_end_bind:
  "spec_end ps \<Longrightarrow> named_last ps \<Longrightarrow> list_all (\<lambda>q. pname q \<noteq> None \<or> pmod q \<noteq> Some CHR ''+'') ps"
  by (induction ps) (auto simp: list_all_iff)

lemma SingleTypeMatch_dot [simp]: "SingleTypeMatch CHR ''.'' a strict"
  by (simp add: SingleTypeMatch_def)

lemma spec_match_repeat:
  "list_all simple_arg args \<Longrightarrow>
   spec_match strict (Some t) ps opt args =
   spec_match strict None ps opt (dropWhile (\<lambda>a. SingleTypeMatch t a strict) args)"
  by (induction args) (auto simp: simple_arg_def)

lemma bind_array_items:
  assumes "list_all simple_arg args" "args \<noteq> []" "c = CHR ''+'' \<longrightarrow> SingleTypeMatch t (hd args) strict"
  shows "\<exists>v f. bind_array strict t c named args = Inr (v, f, dropWhile (\<lambda>a. SingleTypeMatch t a strict) args)
     \<and> spread (Param n t (Some c)) (v, f) = takeWhile (\<lambda>a. SingleTypeMatch t a strict) args"
proof -
  have na: "\<not> IsArray (hd args)" using assms(1,2) by (cases args) (auto simp: simple_arg_def)
  have "takeWhile (\<lambda>a. SingleTypeMatch t a strict) args \<noteq> []" if "c = CHR ''+''"
    using assms(2,3) that by (cases args) auto
  with na show ?thesis by (auto simp: bind_array_def Let_def spread_def dropWhile_eq_drop)
qed

lemma list_all_dropWhile: "list_all P xs \<Longrightarrow> list_all P (dropWhile Q xs)"
  by (auto simp: list_all_iff dest: set_dropWhileD)

lemma match_binds:
  assumes "list_all wf_param ps" "named_last ps" "list_all simple_arg args" "spec_match strict None ps opt args"
  shows "\<exists>vs. spec_bind strict ps args = Inr (vs, []) \<and> bound_ok strict ps args vs"
  using assms
proof (induction ps arbitrary: opt args)
  case Nil
  then show ?case by (cases args) auto
next
  case (Cons p ps)
  obtain n t m where p: "p = Param n t m" by (cases p)
  show ?case
  proof (cases args)
    case Nil
    with Cons.prems show ?thesis using spec_bind_nothing [OF spec_end_bind [of "p # ps"]] by simp
  next
    case args: (Cons a as)
    have a: "Defined a" "\<not> IsArray a" using Cons.prems(3) args by (auto simp: simple_arg_def)
    have hyps: "list_all wf_param ps" "named_last ps" using Cons.prems by auto
    show ?thesis
    proof (cases m)
      case None
      then have m: "spec_match strict None ps (opt \<or> n \<noteq> None) as" "SingleTypeMatch t a strict"
        using Cons.prems(4) a p args by (auto simp: Let_def)
      from Cons.IH [OF hyps _ m(1)] Cons.prems(3) args obtain vs where
        "spec_bind strict ps as = Inr (vs, [])" "bound_ok strict ps as vs" by auto
      with bound_ok_Cons [OF this(2), of p "(a, True)"] m(2) None p args show ?thesis
        by (simp add: spread_def fits_def)
    next
      case (Some c)
      let ?P = "\<lambda>a. SingleTypeMatch t a strict"
      have m: "spec_match strict None ps (opt \<or> n \<noteq> None) (dropWhile ?P args)"
        and plus: "c = CHR ''+'' \<longrightarrow> ?P (hd args)"
        using Cons.prems(1,3,4) a p args Some modifier_cases [of c]
          spec_match_repeat [OF Cons.prems(3), of strict t ps] spec_match_repeat [of as strict t ps]
        by (auto simp: Let_def split: if_splits)
      obtain v f where b: "bind_array strict t c (n \<noteq> None) args = Inr (v, f, dropWhile ?P args)"
        "spread p (v, f) = takeWhile ?P args"
        using bind_array_items [OF Cons.prems(3) _ plus, of "n \<noteq> None" n] args p Some by blast
      from Cons.IH [OF hyps list_all_dropWhile [OF Cons.prems(3)] m] obtain vs where
        vs: "spec_bind strict ps (dropWhile ?P args) = Inr (vs, [])" "bound_ok strict ps (dropWhile ?P args) vs" by auto
      have "fits strict p (v, f)" unfolding fits_def b(2) using p
        by (auto simp: list_all_iff dest: set_takeWhileD)
      with bound_ok_Cons [OF vs(2), of p "(v, f)"] b vs(1) p Some show ?thesis by auto
    qed
  qed
qed


section \<open>Named arguments\<close>

definition has_name :: "string \<Rightarrow> param \<Rightarrow> bool" where
  "has_name name p \<longleftrightarrow> (case pname p of None \<Rightarrow> False | Some n \<Rightarrow> same_name name n)"

text \<open>The first parameter of that name.\<close>

fun spec_find :: "string \<Rightarrow> param list \<Rightarrow> nat option" where
  "spec_find name [] = None"
| "spec_find name (p # ps) = (if has_name name p then Some 0 else map_option Suc (spec_find name ps))"

lemma spec_find_Some: "spec_find name ps = Some i \<Longrightarrow> i < length ps \<and> has_name name (ps ! i)"
  by (induction ps arbitrary: i) (auto split: if_splits)

lemma spec_find_None: "spec_find name ps = None \<longleftrightarrow> \<not> list_ex (has_name name) ps"
  by (induction ps) auto

definition mod_char :: "param \<Rightarrow> char \<Rightarrow> bool" where
  "mod_char p c \<longleftrightarrow> (case pmod p of Some m \<Rightarrow> c = m | None \<Rightarrow> \<not> is_repeat c)"

lemma find_param_print:
  assumes "list_all wf_param ps"
  shows "\<exists>c. find_param name k (print_params ps) =
      Inr (case spec_find name ps of None \<Rightarrow> None | Some i \<Rightarrow> Some (k + i, ptype (ps ! i), c i))
    \<and> (\<forall>i. spec_find name ps = Some i \<longrightarrow> mod_char (ps ! i) (c i))"
  using assms
proof (induction ps arbitrary: k)
  case (Cons p ps)
  obtain n t m where p: "p = Param n t m" by (cases p)
  have w: "wf_param (Param n t m)" "list_all wf_param ps" using Cons.prems p by auto
  have t: "t \<noteq> CHR ''[''" "t \<noteq> CHR ''+''" "t \<noteq> CHR ''*''" using w by auto
  let ?md = "case m of None \<Rightarrow> [] | Some c \<Rightarrow> [c]"
  have md: "find_param name j (?md @ print_params ps) = find_param name j (print_params ps)" for j
    using w(1) modifier_cases by (cases m) auto
  from Cons.IH [OF w(2), of "Suc k"] obtain c where
    c: "find_param name (Suc k) (print_params ps) =
      Inr (case spec_find name ps of None \<Rightarrow> None | Some i \<Rightarrow> Some (Suc k + i, ptype (ps ! i), c i))"
      "\<forall>i. spec_find name ps = Some i \<longrightarrow> mod_char (ps ! i) (c i)" by blast
  have skip: "\<exists>c. find_param name k (print_params (p # ps)) =
      Inr (case spec_find name (p # ps) of None \<Rightarrow> None | Some i \<Rightarrow> Some (k + i, ptype ((p # ps) ! i), c i))
    \<and> (\<forall>i. spec_find name (p # ps) = Some i \<longrightarrow> mod_char ((p # ps) ! i) (c i))"
    if "find_param name k (print_params (p # ps)) = find_param name (Suc k) (print_params ps)" "\<not> has_name name p"
    using c that by (intro exI [of _ "\<lambda>i. c (i - 1)"]) (auto split: option.split)
  show ?case
  proof (cases n)
    case None
    have "find_param name k (print_params (p # ps)) = find_param name (Suc k) (print_params ps)"
      using None p t md by simp
    then show ?thesis using None p by (intro skip) (simp_all add: has_name_def)
  next
    case (Some s)
    have s: "CHR '']'' \<notin> set s" using w(1) Some by simp
    show ?thesis
    proof (cases "same_name name s")
      case False
      have "find_param name k (print_params (p # ps)) = find_param name (Suc k) (print_params ps)"
        using Some p False s md by (simp add: c_strchr_name)
      then show ?thesis using Some p False by (intro skip) (simp_all add: has_name_def)
    next
      case True
      let ?c = "peek (?md @ print_params ps)"
      have "mod_char p ?c" using p peek_print_not_modifier [OF w(2)]
        by (auto simp: mod_char_def is_repeat_def split: option.split)
      moreover have "find_param name k (print_params (p # ps)) = Inr (Some (k, t, ?c))"
        using Some p True s by (simp add: c_strchr_name)
      ultimately show ?thesis using Some p True
        by (intro exI [of _ "\<lambda>_. ?c"]) (simp add: has_name_def)
    qed
  qed
qed simp

text \<open>The value a parameter receives from a named argument: a single value given to an array
  parameter becomes a one-element array.\<close>

definition param_value :: "param \<Rightarrow> AVSValue \<Rightarrow> AVSValue" where
  "param_value p arg =
     (if Defined arg \<and> \<not> IsArray arg \<and> (pmod p \<noteq> None \<or> ptype p = CHR ''a'') then VArray [arg] else arg)"

lemma named_value_param: "mod_char p c \<Longrightarrow> wf_param p \<Longrightarrow> named_value (ptype p) c arg = param_value p arg"
  by (cases p) (auto simp: named_value_def param_value_def mod_char_def is_repeat_def
      IsParameterTypeModifier_def split: option.splits)

lemma bind_named_one_Inr:
  assumes "list_all wf_param ps" "bind_named_one (print_params ps) name arg args3 = Inr out" "length args3 = length ps"
  shows "\<exists>i. i < length ps \<and> has_name name (ps ! i) \<and> \<not> (Defined (fst (args3 ! i)) \<and> snd (args3 ! i))
     \<and> out = args3[i := (param_value (ps ! i) arg, True)]"
proof -
  obtain c where f: "find_param name 0 (print_params ps) =
      Inr (case spec_find name ps of None \<Rightarrow> None | Some i \<Rightarrow> Some (i, ptype (ps ! i), c i))"
    "\<forall>i. spec_find name ps = Some i \<longrightarrow> mod_char (ps ! i) (c i)"
    using find_param_print [OF assms(1), of name 0, unfolded add_0] by blast
  obtain i where i: "spec_find name ps = Some i" using assms(2) f(1)
    by (cases "spec_find name ps") (auto simp: bind_named_one_def)
  have "out = args3[i := (named_value (ptype (ps ! i)) (c i) arg, True)]"
    "\<not> (Defined (fst (args3 ! i)) \<and> snd (args3 ! i))"
    using assms(2) f(1) i by (auto simp: bind_named_one_def split: if_splits)
  moreover have "wf_param (ps ! i)" using assms(1) spec_find_Some [OF i] by (simp add: list_all_length)
  ultimately show ?thesis using spec_find_Some [OF i] f(2) i named_value_param [of "ps ! i" "c i"] by auto
qed

lemma bind_named_one_length:
  "bind_named_one s name arg args3 = Inr out \<Longrightarrow> length out = length args3"
proof -
  assume a: "bind_named_one s name arg args3 = Inr out"
  then obtain k t m where "find_param name 0 s = Inr (Some (k, t, m))"
    by (cases "find_param name 0 s") (auto simp: bind_named_one_def split: option.splits)
  with a show ?thesis by (simp add: bind_named_one_def split: if_splits) auto
qed

text \<open>A parameter that holds a given value keeps it.\<close>

lemma bind_named_keeps:
  assumes "list_all wf_param ps" "bind_named (print_params ps) nargs args3 = Inr out" "length args3 = length ps"
    and "i < length ps" "Defined (fst (args3 ! i))" "snd (args3 ! i)"
  shows "out ! i = args3 ! i"
  using assms
proof (induction "print_params ps" nargs args3 rule: bind_named.induct)
  case (3 name arg nargs args3)
  from 3(3) obtain mid where mid: "bind_named_one (print_params ps) name arg args3 = Inr mid"
    "bind_named (print_params ps) nargs mid = Inr out" by (auto simp: bind_r_Inr)
  from bind_named_one_Inr [OF 3(2) mid(1) 3(4)] 3(6,7) have "mid ! i = args3 ! i"
    by (metis nth_list_update_neq)
  with 3(1) [of mid] mid 3 bind_named_one_length [OF mid(1)] show ?case by simp
qed auto

lemma bind_named_places:
  assumes "list_all wf_param ps" "bind_named (print_params ps) nargs args3 = Inr out" "length args3 = length ps"
    and "(Some name, v) \<in> set nargs" "Defined v"
  shows "\<exists>i < length ps. has_name name (ps ! i) \<and> out ! i = (param_value (ps ! i) v, True)"
  using assms
proof (induction "print_params ps" nargs args3 rule: bind_named.induct)
  case (3 name' arg nargs args3)
  from 3(3) obtain mid where mid: "bind_named_one (print_params ps) name' arg args3 = Inr mid"
    "bind_named (print_params ps) nargs mid = Inr out" by (auto simp: bind_r_Inr)
  have len: "length mid = length ps" using bind_named_one_length [OF mid(1)] 3(4) by simp
  show ?case
  proof (cases "name' = name \<and> arg = v")
    case True
    from bind_named_one_Inr [OF 3(2) mid(1) 3(4)] True obtain i where
      i: "i < length ps" "has_name name (ps ! i)" "mid ! i = (param_value (ps ! i) v, True)" using 3(4) by auto
    have "Defined (param_value (ps ! i) v)" using 3(6) by (simp add: param_value_def)
    with bind_named_keeps [OF 3(2) mid(2) len i(1)] i show ?thesis by auto
  next
    case False
    with 3(1) [of mid] 3 mid len show ?thesis by auto
  qed
qed auto

lemma bind_named_others:
  assumes "list_all wf_param ps" "bind_named (print_params ps) nargs args3 = Inr out" "length args3 = length ps"
    and "i < length ps" "\<not> (\<exists>name v. (Some name, v) \<in> set nargs \<and> has_name name (ps ! i))"
  shows "out ! i = args3 ! i"
  using assms
proof (induction "print_params ps" nargs args3 rule: bind_named.induct)
  case (3 name arg nargs args3)
  from 3(3) obtain mid where mid: "bind_named_one (print_params ps) name arg args3 = Inr mid"
    "bind_named (print_params ps) nargs mid = Inr out" by (auto simp: bind_r_Inr)
  have "mid ! i = args3 ! i" using bind_named_one_Inr [OF 3(2) mid(1) 3(4)] 3(5,6)
    by (metis list.set_intros(1) nth_list_update_neq)
  moreover have "length mid = length ps" using bind_named_one_length [OF mid(1)] 3(4) by simp
  note 3(1) [OF 3(2) mid(2) this 3(5)]
  ultimately show ?case using 3(6) by (metis list.set_intros(2))
qed auto

lemma bind_named_length: "bind_named s nargs args3 = Inr out \<Longrightarrow> length out = length args3"
  by (induction s nargs args3 rule: bind_named.induct) (auto simp: bind_r_Inr dest!: bind_named_one_length)


section \<open>Signatures never fail\<close>

lemma find_arg_name_print:
  "list_all wf_param ps \<Longrightarrow> find_arg_name name (print_params ps) = Inr (list_ex (has_name name) ps)"
proof (induction ps)
  case (Cons p ps)
  obtain n t m where p: "p = Param n t m" by (cases p)
  have w: "wf_param (Param n t m)" "list_all wf_param ps" using Cons.prems p by auto
  have t: "t \<noteq> CHR ''[''" using w by auto
  have md: "find_arg_name name ((case m of None \<Rightarrow> [] | Some c \<Rightarrow> [c]) @ print_params ps) = find_arg_name name (print_params ps)"
    using w(1) modifier_not by (cases m) auto
  show ?case
  proof (cases n)
    case None
    then show ?thesis using p t md Cons.IH [OF w(2)] by (simp add: has_name_def)
  next
    case (Some s)
    then have "CHR '']'' \<notin> set s" using w(1) by simp
    then show ?thesis using p Some md Cons.IH [OF w(2)] by (simp add: has_name_def c_strchr_name)
  qed
qed simp

lemma ArgNameMatch_print:
  "list_all wf_param ps \<Longrightarrow>
   ArgNameMatch (print_params ps) names = Inr (list_all (\<lambda>n. case n of None \<Rightarrow> True | Some s \<Rightarrow> list_ex (has_name s) ps) names)"
  by (induction "print_params ps" names rule: ArgNameMatch.induct) (auto simp: find_arg_name_print)

lemma bind_array_left:
  "bind_array strict t c named args = Inr (v, f, rest) \<Longrightarrow> set rest \<subseteq> set args \<and> (v = VUndefined \<or> v \<in> set args \<or> (\<exists>vs. v = VArray vs \<and> set vs \<subseteq> set args))"
  by (auto simp: bind_array_def Let_def dest: in_set_dropD set_takeWhileD list.set_sel split: if_splits)

lemma spec_bind_length: "spec_bind strict ps args = Inr (vs, left) \<Longrightarrow> length vs = length ps"
proof (induction ps arbitrary: args vs left)
  case (Cons p ps)
  obtain n t m where p: "p = Param n t m" by (cases p)
  from Cons p show ?case by (cases m) (auto simp: bind_r_Inr split: prod.splits)
qed simp

text \<open>What a bound parameter can hold.\<close>

definition from_args :: "AVSValue list \<Rightarrow> AVSValue \<Rightarrow> bool" where
  "from_args args v \<longleftrightarrow> v = VUndefined \<or> v \<in> set args \<or> (\<exists>vs. v = VArray vs \<and> set vs \<subseteq> set args)"

lemma from_args_mono: "from_args as v \<Longrightarrow> set as \<subseteq> set bs \<Longrightarrow> from_args bs v"
  by (auto simp: from_args_def)

lemma spec_bind_values:
  "spec_bind strict ps args = Inr (vs, left) \<Longrightarrow> v \<in> set vs \<Longrightarrow> from_args args (fst v)"
proof (induction ps arbitrary: args vs left)
  case (Cons p ps)
  obtain n t m where p: "p = Param n t m" by (cases p)
  show ?case
  proof (cases m)
    case None
    with Cons.prems(1) p obtain us where u: "spec_bind strict ps (tl args) = Inr (us, left)"
      "vs = (case args of [] \<Rightarrow> (VUndefined, False) | a # _ \<Rightarrow> (a, True)) # us" by (auto simp: bind_r_Inr)
    have "set (tl args) \<subseteq> set args" by (cases args) auto
    with Cons.IH [OF u(1)] u(2) Cons.prems(2) show ?thesis
      by (cases args) (auto simp: from_args_def intro: from_args_mono)
  next
    case (Some c)
    with Cons.prems(1) p obtain x f rest us where u: "bind_array strict t c (n \<noteq> None) args = Inr (x, f, rest)"
      "spec_bind strict ps rest = Inr (us, left)" "vs = (x, f) # us" by (auto simp: bind_r_Inr)
    from bind_array_left [OF u(1)] Cons.IH [OF u(2)] u(3) Cons.prems(2) show ?thesis
      by (auto simp: from_args_def intro: from_args_mono)
  qed
qed simp

lemma bind_unnamed_print:
  assumes "list_all wf_param ps" "bind_unnamed (print_params ps) strict args = Inr vs"
  shows "length vs = length ps \<and> (\<forall>v \<in> set vs. from_args args (fst v))"
proof -
  obtain left where "spec_bind strict ps args = Inr (vs, left)"
    using assms by (auto simp: bind_unnamed_def bind_loop_print bind_r_Inr split: if_splits)
  from spec_bind_length [OF this] spec_bind_values [OF this] show ?thesis by blast
qed

lemma bind_named_values:
  "bind_named s nargs args3 = Inr out \<Longrightarrow> v \<in> set out \<Longrightarrow>
   v \<in> set args3 \<or> (\<exists>n a. (Some n, a) \<in> set nargs \<and> (fst v = a \<or> fst v = VArray [a]))"
proof (induction s nargs args3 rule: bind_named.induct)
  case (3 s name arg nargs args3)
  from 3(2) obtain mid where mid: "bind_named_one s name arg args3 = Inr mid" "bind_named s nargs mid = Inr out"
    by (auto simp: bind_r_Inr)
  from mid(1) obtain k ty m where f: "find_param name 0 s = Inr (Some (k, ty, m))"
    by (cases "find_param name 0 s") (auto simp: bind_named_one_def split: option.splits)
  then have "mid = args3[k := (named_value ty m arg, True)]"
    using mid(1) by (simp add: bind_named_one_def split: if_splits)
  then have "set mid \<subseteq> insert (named_value ty m arg, True) (set args3)" by (simp add: set_update_subset_insert)
  moreover have "named_value ty m arg = arg \<or> named_value ty m arg = VArray [arg]" by (simp add: named_value_def)
  ultimately show ?case using 3(1) [OF mid(2) 3(3)] by fastforce
qed auto

lemma bind_arguments_print:
  assumes "list_all wf_param ps" "bind_arguments (print_params ps) strict args nargs = Inr vs"
  shows "length vs = length ps"
    and "v \<in> set vs \<Longrightarrow> from_args args v \<or> (\<exists>n a. (Some n, a) \<in> set nargs \<and> (v = a \<or> v = VArray [a]))"
proof -
  obtain a3 b3 where b: "bind_unnamed (print_params ps) strict args = Inr a3" "bind_named (print_params ps) nargs a3 = Inr b3"
    "vs = map fst b3" using assms(2) by (auto simp: bind_arguments_def bind_r_Inr)
  note u = bind_unnamed_print [OF assms(1) b(1)]
  show "length vs = length ps" using u bind_named_length [OF b(2)] b(3) by simp
  show "from_args args v \<or> (\<exists>n a. (Some n, a) \<in> set nargs \<and> (v = a \<or> v = VArray [a]))" if v: "v \<in> set vs"
  proof -
    obtain x where x: "x \<in> set b3" "v = fst x" using v b(3) by auto
    from bind_named_values [OF b(2) x(1)] u x(2) show ?thesis by blast
  qed
qed

lemma bind_array_no_oob: "bind_array strict t c named args \<noteq> Inl OutOfBounds"
  by (auto simp: bind_array_def Let_def)

lemma spec_bind_no_oob: "spec_bind strict ps args \<noteq> Inl OutOfBounds"
proof (induction ps arbitrary: args)
  case (Cons p ps)
  obtain n t m where p: "p = Param n t m" by (cases p)
  show ?case
  proof (cases m)
    case None
    with Cons.IH [of "tl args"] p show ?thesis by (auto simp: bind_r_Inl)
  next
    case (Some c)
    with Cons.IH p bind_array_no_oob show ?thesis by (fastforce simp: bind_r_Inl)
  qed
qed simp

lemma bind_named_no_oob:
  assumes "list_all wf_param ps" "length args3 = length ps"
  shows "bind_named (print_params ps) nargs args3 \<noteq> Inl OutOfBounds"
  using assms
proof (induction "print_params ps" nargs args3 rule: bind_named.induct)
  case (3 name arg nargs args3)
  obtain c where f: "find_param name 0 (print_params ps) =
      Inr (case spec_find name ps of None \<Rightarrow> None | Some i \<Rightarrow> Some (i, ptype (ps ! i), c i))"
    using find_param_print [OF 3(2), of name 0, unfolded add_0] by blast
  have "bind_named_one (print_params ps) name arg args3 \<noteq> Inl OutOfBounds"
    using f spec_find_Some [of name ps] 3(3) by (auto simp: bind_named_one_def split: option.splits)
  then show ?case using 3(1) [OF 3(2)] bind_named_one_length [of "print_params ps" name arg args3] 3(3)
    by (auto simp: bind_r_Inl)
qed auto

lemma bind_arguments_no_oob:
  assumes "list_all wf_param ps"
  shows "bind_arguments (print_params ps) strict args nargs \<noteq> Inl OutOfBounds"
proof
  assume a: "bind_arguments (print_params ps) strict args nargs = Inl OutOfBounds"
  have "bind_unnamed (print_params ps) strict args \<noteq> Inl OutOfBounds"
    using spec_bind_no_oob [of strict ps args]
    by (auto simp: bind_unnamed_def bind_loop_print [OF assms] bind_r_Inl)
  with a obtain a3 where "bind_unnamed (print_params ps) strict args = Inr a3"
    "bind_named (print_params ps) nargs a3 = Inl OutOfBounds" by (auto simp: bind_arguments_def bind_r_Inl)
  with bind_unnamed_print [OF assms] bind_named_no_oob [OF assms] show False by blast
qed


section \<open>Properties\<close>

text \<open>
  C14: the strings \<^verbatim>\<open>IsValidParameterString\<close> accepts are the printed signatures, and on
  them the pointer walk of \<^verbatim>\<open>TypeMatch\<close> is the recursion over the list of parameters: it
  never reports a broken signature and never reads outside the string.
\<close>

theorem type_match_refines:
  "IsValidParameterString s \<longleftrightarrow>
     (\<exists>ps. list_all wf_param ps \<and> s = print_params ps \<and>
        (\<forall>args strict. TypeMatch s args strict = Inr (spec_match strict None ps False args)))"
  using valid_iff_params [of s] TypeMatch_print by blast





text \<open>
  The matcher and the binder disagree on two kinds of calls.  An array after a single value is
  accepted for a one-or-more parameter and then refused as too many arguments; and when a signature
  starts with a named parameter and has an unnamed one-or-more parameter, a call without arguments
  matches and cannot be bound.
\<close>

theorem matched_but_refused:
  "TypeMatch ''i+'' [VInt 1, VArray [VInt 2, VInt 3]] True = Inr True
   \<and> bind_unnamed ''i+'' True [VInt 1, VArray [VInt 2, VInt 3]] = Inl TooManyArguments
   \<and> TypeMatch ''[x]ff+[cubic]b'' [] True = Inr True
   \<and> bind_unnamed ''[x]ff+[cubic]b'' True [] = Inl ZeroSizedUnnamed"
  by code_simp

end
