(* ===== verification/Var_Table.thy ===== *)
theory Var_Table
  imports Avs_Strings "HOL-Library.AList"
begin

text \<open>
  Script variables and saved strings (\<^verbatim>\<open>core/vartable.h\<close>).  \<open>StringDump\<close> hands out
  memory for strings, never moving and never overwriting one; \<open>VarFrame\<close> is a table of
  variables whose names do not depend on case; \<open>VarTable\<close> stacks frames and searches them in
  the order local, global frames from the newest, top frame.  The tables refine maps from
  canonical names to values.
\<close>

section \<open>Saved strings\<close>

text \<open>Memory is a set of numbered blocks; a pointer is a block and an offset.\<close>

type_synonym ptr = "nat \<times> nat"

record string_dump =
  blocks :: "nat list"
  block_pos :: nat
  block_size :: nat
  cache :: "(string \<times> ptr) list"
  mem :: "nat \<Rightarrow> nat \<Rightarrow> char"
  capacity_of :: "nat \<Rightarrow> nat"
  next_block :: nat

definition BLOCK_SIZE :: nat where "BLOCK_SIZE = 32768"
definition SIZEOF_PTR :: nat where "SIZEOF_PTR = 8"

definition StringDump_new :: string_dump where
  "StringDump_new = \<lparr>blocks = [], block_pos = BLOCK_SIZE, block_size = BLOCK_SIZE, cache = [],
     mem = (\<lambda>_ _. NUL), capacity_of = (\<lambda>_. 0), next_block = 0\<rparr>"

text \<open>\<^verbatim>\<open>AlignNumber\<close> for a power of two: round up to a multiple.\<close>

definition AlignNumber :: "nat \<Rightarrow> nat \<Rightarrow> nat" where
  "AlignNumber n align = (n + align - 1) div align * align"

definition get_string :: "string \<Rightarrow> string_dump \<Rightarrow> ptr option" where
  "get_string s d = map_of (cache d) s"

definition add_string :: "string \<Rightarrow> ptr \<Rightarrow> string_dump \<Rightarrow> string_dump" where
  "add_string s p d = d\<lparr>cache := AList.update s p (cache d)\<rparr>"

definition ensure_length :: "nat \<Rightarrow> string_dump \<Rightarrow> string_dump" where
  "ensure_length len d =
     (if block_pos d + len + 1 > block_size d
      then let sz = max (block_size d) (len + 1 + SIZEOF_PTR); b = next_block d
           in d\<lparr>block_size := sz, blocks := b # blocks d, capacity_of := (capacity_of d)(b := sz),
                next_block := Suc b, block_pos := SIZEOF_PTR\<rparr>
      else d)"

text \<open>The escape sequences of \<^verbatim>\<open>e"..."\<close> strings.\<close>

definition escape_char :: "char \<Rightarrow> char option" where
  "escape_char c =
     (if c = CHR ''n'' then Some LF
      else if c = CHR ''r'' then Some CR
      else if c = CHR ''t'' then Some TAB
      else if c = CHR ''0'' then Some NUL
      else if c = CHR ''a'' then Some (CHR 0x07)
      else if c = CHR ''f'' then Some (CHR 0x0C)
      else if c = BSL then Some BSL
      else if c = DQ then Some DQ
      else if c = CHR 0x27 then Some (CHR 0x27)
      else if c = CHR ''b'' then Some (CHR 0x08)
      else if c = CHR ''v'' then Some (CHR 0x0B)
      else None)"

text \<open>The loop over the first \<open>n\<close> characters.  A backslash at the end looks one character
  further, as \<^verbatim>\<open>s[i + 1]\<close> does.\<close>

fun unescape :: "nat \<Rightarrow> string \<Rightarrow> string" where
  "unescape 0 s = []"
| "unescape (Suc n) [] = []"
| "unescape (Suc n) (c # s) =
     (if c = NUL then []
      else if c = BSL then
        (case escape_char (peek s) of
           Some e \<Rightarrow> e # unescape (n - 1) (tl s)
         | None \<Rightarrow> c # unescape n s)
      else c # unescape n s)"

text \<open>The bytes that \<^verbatim>\<open>SaveString(s, len, escape)\<close> stores; \<open>s\<close> is the text from
  the pointer on.\<close>

definition saved_bytes :: "string \<Rightarrow> int \<Rightarrow> bool \<Rightarrow> string" where
  "saved_bytes s len escape =
     (let srclen = (if len = -1 then length (cstr s) else if len \<ge> 0 then nat len else 0)
      in if escape then unescape srclen s else take srclen s)"

definition write_string :: "(nat \<Rightarrow> nat \<Rightarrow> char) \<Rightarrow> ptr \<Rightarrow> string \<Rightarrow> (nat \<Rightarrow> nat \<Rightarrow> char)" where
  "write_string m p s = m(fst p := (\<lambda>o'. if snd p \<le> o' \<and> o' < snd p + length s then s ! (o' - snd p)
     else if o' = snd p + length s then NUL else m (fst p) o'))"

definition SaveString :: "string \<Rightarrow> int \<Rightarrow> bool \<Rightarrow> string_dump \<Rightarrow> ptr \<times> string_dump" where
  "SaveString s len escape d =
     (let bs = saved_bytes s len escape
      in case get_string bs d of
           Some p \<Rightarrow> (p, d)
         | None \<Rightarrow>
             let d1 = ensure_length (length bs) d;
                 p = (hd (blocks d1), block_pos d1);
                 d2 = d1\<lparr>mem := write_string (mem d1) p bs,
                         block_pos := block_pos d1 + AlignNumber (length bs + 1) SIZEOF_PTR\<rparr>
             in (p, add_string bs p d2))"

subsection \<open>Saved strings stay where they are\<close>

definition holds_string :: "string_dump \<Rightarrow> ptr \<Rightarrow> string \<Rightarrow> bool" where
  "holds_string d p s \<longleftrightarrow> (\<forall>i < length s. mem d (fst p) (snd p + i) = s ! i) \<and> mem d (fst p) (snd p + length s) = NUL"

definition dump_inv :: "string_dump \<Rightarrow> bool" where
  "dump_inv d \<longleftrightarrow>
     SIZEOF_PTR \<le> block_pos d \<and>
     (blocks d = [] \<longrightarrow> block_size d \<le> block_pos d) \<and>
     (\<forall>b \<in> set (blocks d). b < next_block d) \<and>
     (blocks d \<noteq> [] \<longrightarrow> capacity_of d (hd (blocks d)) = block_size d) \<and>
     (\<forall>(s, p) \<in> set (cache d). fst p \<in> set (blocks d) \<and> SIZEOF_PTR \<le> snd p
        \<and> snd p + length s < capacity_of d (fst p) \<and> holds_string d p s
        \<and> (fst p = hd (blocks d) \<longrightarrow> snd p + length s < block_pos d))"

lemma dump_inv_new: "dump_inv StringDump_new"
  by (simp add: dump_inv_def StringDump_new_def BLOCK_SIZE_def SIZEOF_PTR_def)

lemma ensure_length_room:
  assumes "dump_inv d"
  shows "dump_inv (ensure_length n d)" "blocks (ensure_length n d) \<noteq> []"
    "block_pos (ensure_length n d) + n + 1 \<le> block_size (ensure_length n d)"
    "cache (ensure_length n d) = cache d" "mem (ensure_length n d) = mem d"
proof -
  show "blocks (ensure_length n d) \<noteq> []" "block_pos (ensure_length n d) + n + 1 \<le> block_size (ensure_length n d)"
    "cache (ensure_length n d) = cache d" "mem (ensure_length n d) = mem d"
    using assms by (auto simp: ensure_length_def dump_inv_def Let_def SIZEOF_PTR_def)
  show "dump_inv (ensure_length n d)"
  proof (cases "block_pos d + n + 1 > block_size d")
    case True
    have fresh: "next_block d \<notin> set (blocks d)" using assms by (auto simp: dump_inv_def)
    from assms fresh show ?thesis
      unfolding dump_inv_def
      by (auto simp: ensure_length_def True Let_def holds_string_def less_Suc_eq)
  qed (use assms in \<open>simp add: ensure_length_def\<close>)
qed

lemma AlignNumber_ge: "0 < a \<Longrightarrow> n \<le> AlignNumber n a"
proof -
  assume "0 < a"
  have "n + a - 1 = (n + a - 1) div a * a + (n + a - 1) mod a" by simp
  moreover have "(n + a - 1) mod a < a" using \<open>0 < a\<close> by simp
  ultimately show ?thesis unfolding AlignNumber_def by linarith
qed


lemma alist_update_new: "map_of al k = None \<Longrightarrow> AList.update k v al = al @ [(k, v)]"
  by (induction al) (auto split: if_splits)

text \<open>One call: the returned pointer holds the bytes, and whatever was saved before is still
  saved at the same place.\<close>

lemma SaveString_step:
  assumes inv: "dump_inv d" and sv: "SaveString s len esc d = (p, d')"
  shows "dump_inv d'" "map_of (cache d') (saved_bytes s len esc) = Some p"
    "map_of (cache d) t = Some q \<Longrightarrow> map_of (cache d') t = Some q"
proof -
  let ?bs = "saved_bytes s len esc"
  have "dump_inv d' \<and> map_of (cache d') ?bs = Some p
     \<and> (\<forall>t q. map_of (cache d) t = Some q \<longrightarrow> map_of (cache d') t = Some q)"
  proof (cases "get_string ?bs d")
    case (Some q)
    with sv inv show ?thesis by (auto simp: SaveString_def Let_def get_string_def)
  next
    case None
    define d1 where "d1 = ensure_length (length ?bs) d"
    note room = ensure_length_room [OF inv, of "length ?bs", folded d1_def]
    from None have new: "map_of (cache d1) ?bs = None" by (simp add: get_string_def room(4))
    have p: "p = (hd (blocks d1), block_pos d1)"
      and d': "d' = d1\<lparr>mem := write_string (mem d1) p ?bs,
        block_pos := block_pos d1 + AlignNumber (length ?bs + 1) SIZEOF_PTR, cache := cache d1 @ [(?bs, p)]\<rparr>"
      using sv None new by (auto simp: SaveString_def Let_def add_string_def alist_update_new d1_def [symmetric])
    have al: "length ?bs + 1 \<le> AlignNumber (length ?bs + 1) SIZEOF_PTR"
      by (rule AlignNumber_ge) (simp add: SIZEOF_PTR_def)
    have old: "holds_string d' q t \<and> (fst q = hd (blocks d1) \<longrightarrow> snd q + length t < block_pos d')"
      if "(t, q) \<in> set (cache d1)" for t q
    proof -
      from room(1) that have h: "holds_string d1 q t" "fst q = hd (blocks d1) \<longrightarrow> snd q + length t < block_pos d1"
        by (auto simp: dump_inv_def)
      then show ?thesis using p d' by (auto simp: holds_string_def write_string_def)
    qed
    have here: "holds_string d' p ?bs" using p d' by (simp add: holds_string_def write_string_def)
    have "dump_inv d'"
      unfolding dump_inv_def
    proof (intro conjI ballI)
      show "SIZEOF_PTR \<le> block_pos d'" using room(1) d' by (simp add: dump_inv_def)
      show "blocks d' = [] \<longrightarrow> block_size d' \<le> block_pos d'" using room(2) d' by simp
      show "b < next_block d'" if "b \<in> set (blocks d')" for b using that room(1) d' by (simp add: dump_inv_def)
      show "blocks d' \<noteq> [] \<longrightarrow> capacity_of d' (hd (blocks d')) = block_size d'"
        using room(1) d' by (simp add: dump_inv_def)
      fix x assume "x \<in> set (cache d')"
      then consider "x = (?bs, p)" | "x \<in> set (cache d1)" using d' by auto
      then show "case x of (s, p) \<Rightarrow> fst p \<in> set (blocks d') \<and> SIZEOF_PTR \<le> snd p
        \<and> snd p + length s < capacity_of d' (fst p) \<and> holds_string d' p s
        \<and> (fst p = hd (blocks d') \<longrightarrow> snd p + length s < block_pos d')"
      proof cases
        case 1
        with room(1,2,3) p d' here al show ?thesis by (auto simp: dump_inv_def)
      next
        case 2
        obtain t q where x: "x = (t, q)" by (cases x)
        from 2 room(1) have "fst q \<in> set (blocks d1) \<and> SIZEOF_PTR \<le> snd q \<and> snd q + length t < capacity_of d1 (fst q)"
          by (auto simp: dump_inv_def x)
        with old [OF 2 [unfolded x]] d' x show ?thesis by simp
      qed
    qed
    with new d' room(4) show ?thesis by (auto simp: map_add_def split: option.splits)
  qed
  then show "dump_inv d'" "map_of (cache d') ?bs = Some p"
    "map_of (cache d) t = Some q \<Longrightarrow> map_of (cache d') t = Some q" by blast+
qed

text \<open>A whole script saves its strings one after another.\<close>

fun save_all :: "(string \<times> int \<times> bool) list \<Rightarrow> string_dump \<Rightarrow> ptr list \<times> string_dump" where
  "save_all [] d = ([], d)"
| "save_all ((s, len, esc) # rs) d =
     (case SaveString s len esc d of (p, d1) \<Rightarrow> case save_all rs d1 of (ps, d2) \<Rightarrow> (p # ps, d2))"

definition request_bytes :: "string \<times> int \<times> bool \<Rightarrow> string" where
  "request_bytes r = saved_bytes (fst r) (fst (snd r)) (snd (snd r))"

lemma save_all_cached:
  "dump_inv d \<Longrightarrow> save_all rs d = (ps, d') \<Longrightarrow>
     dump_inv d' \<and> length ps = length rs \<and> (\<forall>t q. map_of (cache d) t = Some q \<longrightarrow> map_of (cache d') t = Some q)
     \<and> (\<forall>i < length rs. map_of (cache d') (request_bytes (rs ! i)) = Some (ps ! i))"
proof (induction rs arbitrary: d ps)
  case (Cons r rs)
  obtain s len esc where r: "r = (s, len, esc)" by (metis prod_cases3)
  obtain p d1 where sv: "SaveString s len esc d = (p, d1)" by fastforce
  obtain ps1 where rest: "save_all rs d1 = (ps1, d')" "ps = p # ps1"
    using Cons.prems(2) r sv by (auto split: prod.splits)
  note step = SaveString_step [OF Cons.prems(1) sv]
  note IH = Cons.IH [OF step(1) rest(1)]
  have "map_of (cache d') (request_bytes ((r # rs) ! i)) = Some (ps ! i)" if "i < length (r # rs)" for i
    using that IH step(2) rest(2) r
    by (cases i) (auto simp: request_bytes_def simp del: split_paired_All)
  with IH step(3) rest(2) show ?case by auto
qed simp

text \<open>
  C12: after any sequence of \<^verbatim>\<open>SaveString\<close> calls, with explicit or implicit lengths and
  with or without escapes, every pointer ever returned still points to the (unescaped) bytes
  it was returned for, followed by a NUL, inside its block; and two calls that store the same
  bytes return the same pointer.
\<close>

theorem saved_strings_stable:
  assumes "save_all rs StringDump_new = (ps, d)" "i < length rs" "j < length rs"
  shows "holds_string d (ps ! i) (request_bytes (rs ! i))
    \<and> snd (ps ! i) + length (request_bytes (rs ! i)) < capacity_of d (fst (ps ! i))
    \<and> (request_bytes (rs ! i) = request_bytes (rs ! j) \<longrightarrow> ps ! i = ps ! j)"
proof -
  note all = save_all_cached [OF dump_inv_new assms(1)]
  then have c: "map_of (cache d) (request_bytes (rs ! i)) = Some (ps ! i)"
    "map_of (cache d) (request_bytes (rs ! j)) = Some (ps ! j)" using assms(2,3) by blast+
  from c(1) have "(request_bytes (rs ! i), ps ! i) \<in> set (cache d)" by (rule map_of_SomeD)
  with all have "holds_string d (ps ! i) (request_bytes (rs ! i))"
    "snd (ps ! i) + length (request_bytes (rs ! i)) < capacity_of d (fst (ps ! i))"
    by (auto simp: dump_inv_def)
  with c show ?thesis by auto
qed

theorem saved_strings_stable_witness:
  "holds_string (snd (save_all [(''clip'', -1, False), (''a\<newline>'', 1, True)] StringDump_new)) (0, 8) ''clip''"
proof -
  let ?rs = "[(''clip'', -1, False), (''a\<newline>'', 1, True)]"
  have e: "fst (save_all ?rs StringDump_new) ! 0 = (0, 8)"
    by (simp add: SaveString_def StringDump_new_def get_string_def ensure_length_def BLOCK_SIZE_def SIZEOF_PTR_def
        Let_def split: prod.splits option.splits)
  have b: "request_bytes (?rs ! 0) = ''clip''" by (simp add: request_bytes_def saved_bytes_def cstr_def)
  show ?thesis
    using saved_strings_stable [of ?rs "fst (save_all ?rs StringDump_new)" "snd (save_all ?rs StringDump_new)" 0 0]
    unfolding e b by simp
qed


section \<open>Frames of variables\<close>

text \<open>What a client of a table of named values relies on: a value is found again under every
  spelling of its name, and setting one name touches no other.\<close>

locale named_store =
  fixes get :: "string \<Rightarrow> 'f \<Rightarrow> 'v option"
    and put :: "string \<Rightarrow> 'v \<Rightarrow> 'f \<Rightarrow> 'f"
  assumes get_put: "get n (put m v f) = (if canon n = canon m then Some v else get n f)"
begin

lemma get_put_same: "get n (put n v f) = Some v"
  by (simp add: get_put)

lemma get_put_spelling: "streqi n m \<Longrightarrow> get n (put m v f) = Some v"
  by (simp add: get_put streqi_canon)

text \<open>After a sequence of assignments a name has the value it was given last.\<close>

lemma get_put_all:
  "get n (fold (\<lambda>(m, v). put m v) as f) =
     (case find (\<lambda>(m, v). canon m = canon n) (rev as) of None \<Rightarrow> get n f | Some (m, v) \<Rightarrow> Some v)"
proof (induction as rule: rev_induct)
  case (snoc a as)
  then show ?case by (cases a) (auto simp: get_put split: option.splits)
qed simp

end

type_synonym 'v var_frame = "(string \<times> 'v) list"

definition VarFrame_Get :: "string \<Rightarrow> 'v var_frame \<Rightarrow> 'v option" where
  "VarFrame_Get name f = map_option snd (find (\<lambda>(k, _). streqi name k) f)"

text \<open>\<^verbatim>\<open>insert\<close> leaves an existing entry alone; its value is then overwritten.  The
  flag is the one \<^verbatim>\<open>insert\<close> returns: the name is new.\<close>

fun VarFrame_Set :: "string \<Rightarrow> 'v \<Rightarrow> 'v var_frame \<Rightarrow> bool \<times> 'v var_frame" where
  "VarFrame_Set name v [] = (True, [(name, v)])"
| "VarFrame_Set name v ((k, w) # f) =
     (if streqi name k then (False, (k, v) # f)
      else (case VarFrame_Set name v f of (new, f') \<Rightarrow> (new, (k, w) # f')))"

definition VarFrame_Clear :: "'v var_frame \<Rightarrow> 'v var_frame" where
  "VarFrame_Clear f = []"

text \<open>The map that a frame stands for.\<close>

definition frame_map :: "'v var_frame \<Rightarrow> (string \<rightharpoonup> 'v)" where
  "frame_map f = map_of (map (\<lambda>(k, v). (canon k, v)) f)"

lemma VarFrame_Get_map: "VarFrame_Get n f = frame_map f (canon n)"
  by (induction f) (auto simp: VarFrame_Get_def frame_map_def streqi_canon)

lemma VarFrame_Set_map:
  "frame_map (snd (VarFrame_Set n v f)) = (frame_map f)(canon n \<mapsto> v)
   \<and> (fst (VarFrame_Set n v f) \<longleftrightarrow> frame_map f (canon n) = None)"
  by (induction f)
     (auto simp: frame_map_def streqi_canon fun_eq_iff split: prod.splits)

interpretation frame: named_store VarFrame_Get "\<lambda>n v f. snd (VarFrame_Set n v f)"
  by unfold_locales (simp add: VarFrame_Get_map VarFrame_Set_map)

text \<open>
  A frame of variables refines a map from case-folded names: looking up reads the map,
  setting updates the map at one name and reports whether the name was new, and after any
  sequence of assignments a lookup under any spelling finds the value assigned last.
\<close>

theorem var_frame_refines_map:
  "VarFrame_Get n f = frame_map f (canon n)
   \<and> frame_map (snd (VarFrame_Set m v f)) = (frame_map f)(canon m \<mapsto> v)
   \<and> (fst (VarFrame_Set m v f) \<longleftrightarrow> canon m \<notin> dom (frame_map f))
   \<and> VarFrame_Get n (fold (\<lambda>(m, v) f. snd (VarFrame_Set m v f)) as f)
       = (case find (\<lambda>(m, v). canon m = canon n) (rev as) of
            None \<Rightarrow> VarFrame_Get n f | Some (m, v) \<Rightarrow> Some v)"
  using frame.get_put_all [of n as f]
  by (auto simp: VarFrame_Get_map VarFrame_Set_map case_prod_unfold)


section \<open>The table of frames\<close>

text \<open>The heads of the lists are the backs of the vectors.  \<open>None\<close> marks a call whose
  assertion fails because no frame is left.\<close>

record 'v string_frame =
  fvars :: "'v var_frame"
  fdump :: string_dump

definition string_frame_new :: "'v string_frame" where
  "string_frame_new = \<lparr>fvars = [], fdump = StringDump_new\<rparr>"

text \<open>\<^verbatim>\<open>VarStringFrame::Clear\<close> clears the variables and keeps the saved strings.\<close>

definition string_frame_clear :: "'v string_frame \<Rightarrow> 'v string_frame" where
  "string_frame_clear f = f\<lparr>fvars := VarFrame_Clear (fvars f)\<rparr>"

record 'v var_table =
  topFrame :: "'v string_frame"
  stackFrames :: "'v var_frame list"
  globalFrames :: "'v string_frame list"
  stackPool :: "'v var_frame list"
  globalPool :: "'v string_frame list"

definition VarTable_Push :: "'v var_table \<Rightarrow> 'v var_table" where
  "VarTable_Push t = (case stackPool t of
     f # fs \<Rightarrow> t\<lparr>stackFrames := f # stackFrames t, stackPool := fs\<rparr>
   | [] \<Rightarrow> t\<lparr>stackFrames := [] # stackFrames t\<rparr>)"

definition VarTable_new :: "'v string_frame \<Rightarrow> 'v var_table" where
  "VarTable_new tf = VarTable_Push
     \<lparr>topFrame = tf, stackFrames = [], globalFrames = [], stackPool = [], globalPool = []\<rparr>"

definition VarTable_Clear :: "'v var_table \<Rightarrow> 'v var_table" where
  "VarTable_Clear t = t\<lparr>stackFrames := [], globalFrames := [], stackPool := [], globalPool := []\<rparr>"

definition VarTable_Pop :: "'v var_table \<Rightarrow> 'v var_table option" where
  "VarTable_Pop t = (case stackFrames t of
     [] \<Rightarrow> None
   | f # fs \<Rightarrow> Some (t\<lparr>stackFrames := fs, stackPool := VarFrame_Clear f # stackPool t\<rparr>))"

definition VarTable_PushGlobal :: "'v var_table \<Rightarrow> 'v var_table" where
  "VarTable_PushGlobal t =
     (let t1 = VarTable_Push t
      in case globalPool t1 of
           g # gs \<Rightarrow> t1\<lparr>globalFrames := g # globalFrames t1, globalPool := gs\<rparr>
         | [] \<Rightarrow> t1\<lparr>globalFrames := string_frame_new # globalFrames t1\<rparr>)"

definition VarTable_PopGlobal :: "'v var_table \<Rightarrow> 'v var_table option" where
  "VarTable_PopGlobal t = (case VarTable_Pop t of
     None \<Rightarrow> None
   | Some t1 \<Rightarrow> (case globalFrames t1 of
       [] \<Rightarrow> None
     | g # gs \<Rightarrow> Some (t1\<lparr>globalFrames := gs, globalPool := string_frame_clear g # globalPool t1\<rparr>)))"

definition VarTable_Set :: "string \<Rightarrow> 'v \<Rightarrow> 'v var_table \<Rightarrow> (bool \<times> 'v var_table) option" where
  "VarTable_Set name v t = (case stackFrames t of
     [] \<Rightarrow> None
   | f # fs \<Rightarrow> (case VarFrame_Set name v f of (new, f') \<Rightarrow> Some (new, t\<lparr>stackFrames := f' # fs\<rparr>)))"

definition VarTable_SetGlobal :: "string \<Rightarrow> 'v \<Rightarrow> 'v var_table \<Rightarrow> bool \<times> 'v var_table" where
  "VarTable_SetGlobal name v t = (case globalFrames t of
     g # gs \<Rightarrow> (case VarFrame_Set name v (fvars g) of
        (new, f') \<Rightarrow> (new, t\<lparr>globalFrames := g\<lparr>fvars := f'\<rparr> # gs\<rparr>))
   | [] \<Rightarrow> (case VarFrame_Set name v (fvars (topFrame t)) of
        (new, f') \<Rightarrow> (new, t\<lparr>topFrame := (topFrame t)\<lparr>fvars := f'\<rparr>\<rparr>)))"

fun search_globals :: "string \<Rightarrow> 'v string_frame list \<Rightarrow> 'v option" where
  "search_globals name [] = None"
| "search_globals name (g # gs) =
     (case VarFrame_Get name (fvars g) of Some v \<Rightarrow> Some v | None \<Rightarrow> search_globals name gs)"

definition VarTable_Get :: "string \<Rightarrow> 'v var_table \<Rightarrow> 'v option" where
  "VarTable_Get name t =
     (case (case stackFrames t of [] \<Rightarrow> None | f # _ \<Rightarrow> VarFrame_Get name f) of
        Some v \<Rightarrow> Some v
      | None \<Rightarrow> (case search_globals name (globalFrames t) of
          Some v \<Rightarrow> Some v
        | None \<Rightarrow> VarFrame_Get name (fvars (topFrame t))))"

definition VarTable_SaveString :: "string \<Rightarrow> int \<Rightarrow> bool \<Rightarrow> 'v var_table \<Rightarrow> ptr \<times> 'v var_table" where
  "VarTable_SaveString s len esc t = (case globalFrames t of
     g # gs \<Rightarrow> (case SaveString s len esc (fdump g) of
        (p, d) \<Rightarrow> (p, t\<lparr>globalFrames := g\<lparr>fdump := d\<rparr> # gs\<rparr>))
   | [] \<Rightarrow> (case SaveString s len esc (fdump (topFrame t)) of
        (p, d) \<Rightarrow> (p, t\<lparr>topFrame := (topFrame t)\<lparr>fdump := d\<rparr>\<rparr>)))"

subsection \<open>Lookup order and isolation\<close>

text \<open>The recycled frames of the pools are empty.\<close>

definition pools_clean :: "'v var_table \<Rightarrow> bool" where
  "pools_clean t \<longleftrightarrow> (\<forall>f \<in> set (stackPool t). f = []) \<and> (\<forall>g \<in> set (globalPool t). fvars g = [])"

datatype 'v vt_op =
  OpPush | OpPop | OpPushGlobal | OpPopGlobal | OpSet string 'v | OpSetGlobal string 'v
  | OpSaveString string int bool

fun vt_step :: "'v vt_op \<Rightarrow> 'v var_table \<Rightarrow> 'v var_table option" where
  "vt_step OpPush t = Some (VarTable_Push t)"
| "vt_step OpPop t = VarTable_Pop t"
| "vt_step OpPushGlobal t = Some (VarTable_PushGlobal t)"
| "vt_step OpPopGlobal t = VarTable_PopGlobal t"
| "vt_step (OpSet n v) t = map_option snd (VarTable_Set n v t)"
| "vt_step (OpSetGlobal n v) t = Some (snd (VarTable_SetGlobal n v t))"
| "vt_step (OpSaveString s len esc) t = Some (snd (VarTable_SaveString s len esc t))"

fun vt_run :: "'v vt_op list \<Rightarrow> 'v var_table \<Rightarrow> 'v var_table option" where
  "vt_run [] t = Some t"
| "vt_run (x # xs) t = Option.bind (vt_step x t) (vt_run xs)"

lemmas vt_defs = VarTable_Push_def VarTable_Pop_def VarTable_PushGlobal_def VarTable_PopGlobal_def
  VarTable_Set_def VarTable_SetGlobal_def VarTable_SaveString_def Let_def

lemma vt_step_clean:
  assumes "pools_clean t" "vt_step x t = Some t'"
  shows "pools_clean t'"
proof -
  have push: "pools_clean (VarTable_Push t)"
    using assms(1) by (cases "stackPool t") (auto simp: VarTable_Push_def pools_clean_def)
  have pop: "pools_clean s" if "VarTable_Pop t = Some s" for s
    using that assms(1) by (cases "stackFrames t") (auto simp: VarTable_Pop_def pools_clean_def VarFrame_Clear_def)
  have gpush: "pools_clean (VarTable_PushGlobal t)"
    using push by (cases "globalPool (VarTable_Push t)") (auto simp: VarTable_PushGlobal_def Let_def pools_clean_def)
  have gpop: "pools_clean s" if "VarTable_PopGlobal t = Some s" for s
  proof -
    from that obtain t1 where t1: "VarTable_Pop t = Some t1" by (auto simp: VarTable_PopGlobal_def split: option.splits)
    from pop [OF t1] that t1 show ?thesis
      by (cases "globalFrames t1") (auto simp: VarTable_PopGlobal_def pools_clean_def string_frame_clear_def VarFrame_Clear_def)
  qed
  have assign: "pools_clean (snd (VarTable_SetGlobal n v t))" for n v
    using assms(1) by (cases "globalFrames t") (simp_all add: VarTable_SetGlobal_def pools_clean_def split: prod.splits)
  have sv: "pools_clean (snd (VarTable_SaveString n l e t))" for n l e
    using assms(1) by (cases "globalFrames t") (simp_all add: VarTable_SaveString_def pools_clean_def split: prod.splits)
  have set: "pools_clean (snd s)" if "VarTable_Set n v t = Some s" for n v s
    using that assms(1) by (cases "stackFrames t") (auto simp: VarTable_Set_def pools_clean_def split: prod.splits)
  from assms(2) push pop gpush gpop assign sv set show ?thesis by (cases x) auto
qed

lemma vt_run_clean: "pools_clean t \<Longrightarrow> vt_run xs t = Some t' \<Longrightarrow> pools_clean t'"
  by (induction xs arbitrary: t) (auto simp: bind_eq_Some_conv dest: vt_step_clean)

lemma vt_run_append: "vt_run (xs @ ys) t = Option.bind (vt_run xs t) (vt_run ys)"
  by (induction xs arbitrary: t) (auto simp: bind_eq_Some_conv split: bind_splits)

text \<open>Calls nest: every frame that is pushed is popped again, in order.\<close>

inductive balanced :: "'v vt_op list \<Rightarrow> bool" where
  nothing: "balanced []"
| assign: "balanced xs \<Longrightarrow> balanced (OpSet n v # xs)"
| assign_global: "balanced xs \<Longrightarrow> balanced (OpSetGlobal n v # xs)"
| save: "balanced xs \<Longrightarrow> balanced (OpSaveString s len esc # xs)"
| call: "balanced xs \<Longrightarrow> balanced ys \<Longrightarrow> balanced (OpPush # xs @ OpPop # ys)"
| call_global: "balanced xs \<Longrightarrow> balanced ys \<Longrightarrow> balanced (OpPushGlobal # xs @ OpPopGlobal # ys)"

text \<open>What a balanced run may change: only the newest frames.\<close>

definition only_newest :: "'v var_table \<Rightarrow> 'v var_table \<Rightarrow> bool" where
  "only_newest t t' \<longleftrightarrow> stackFrames t' \<noteq> [] \<and> tl (stackFrames t') = tl (stackFrames t)
     \<and> length (globalFrames t') = length (globalFrames t) \<and> tl (globalFrames t') = tl (globalFrames t)
     \<and> (globalFrames t \<noteq> [] \<longrightarrow> topFrame t' = topFrame t)"

lemma only_newest_trans: "only_newest t t' \<Longrightarrow> only_newest t' t'' \<Longrightarrow> only_newest t t''"
  by (auto simp: only_newest_def)

lemma only_newest_assign:
  assumes "stackFrames t \<noteq> []"
  shows "\<exists>t'. vt_step (OpSet n v) t = Some t' \<and> only_newest t t'"
    "\<exists>t'. vt_step (OpSetGlobal n v) t = Some t' \<and> only_newest t t'"
    "\<exists>t'. vt_step (OpSaveString s len esc) t = Some t' \<and> only_newest t t'"
  using assms by (auto simp: vt_defs only_newest_def split: list.splits prod.splits)

lemma pushed: "stackFrames (VarTable_Push t) \<noteq> [] \<and> tl (stackFrames (VarTable_Push t)) = stackFrames t
   \<and> globalFrames (VarTable_Push t) = globalFrames t \<and> topFrame (VarTable_Push t) = topFrame t"
  by (simp add: VarTable_Push_def split: list.splits)

lemma pushed_global: "stackFrames (VarTable_PushGlobal t) \<noteq> [] \<and> tl (stackFrames (VarTable_PushGlobal t)) = stackFrames t
   \<and> globalFrames (VarTable_PushGlobal t) \<noteq> [] \<and> tl (globalFrames (VarTable_PushGlobal t)) = globalFrames t
   \<and> topFrame (VarTable_PushGlobal t) = topFrame t"
  using pushed [of t] by (auto simp: VarTable_PushGlobal_def Let_def split: list.splits)

lemma popped_frames:
  assumes "only_newest (VarTable_Push t) t1"
  shows "\<exists>t2. vt_step OpPop t1 = Some t2 \<and> stackFrames t2 = stackFrames t
    \<and> globalFrames t2 = globalFrames t1 \<and> topFrame t2 = topFrame t1"
  using assms pushed [of t] by (auto simp: only_newest_def VarTable_Pop_def split: list.splits)

lemma popped_global_frames:
  assumes "only_newest (VarTable_PushGlobal t) t1"
  shows "\<exists>t2. vt_step OpPopGlobal t1 = Some t2 \<and> stackFrames t2 = stackFrames t
    \<and> globalFrames t2 = globalFrames t \<and> topFrame t2 = topFrame t"
  using assms pushed_global [of t]
  by (auto simp: only_newest_def VarTable_PopGlobal_def VarTable_Pop_def split: list.splits option.splits)

lemma balanced_run_step:
  assumes "\<exists>t1. vt_step x t = Some t1 \<and> only_newest t t1"
    and "\<And>t1. stackFrames t1 \<noteq> [] \<Longrightarrow> \<exists>t'. vt_run xs t1 = Some t' \<and> only_newest t1 t'"
  shows "\<exists>t'. vt_run (x # xs) t = Some t' \<and> only_newest t t'"
proof -
  from assms(1) obtain t1 where t1: "vt_step x t = Some t1" "only_newest t t1" by blast
  then have "stackFrames t1 \<noteq> []" by (simp add: only_newest_def)
  from assms(2) [OF this] obtain t2 where "vt_run xs t1 = Some t2" "only_newest t1 t2" by blast
  with t1 only_newest_trans show ?thesis by (metis vt_run.simps(2) bind.bind_lunit)
qed

lemma balanced_run: "balanced xs \<Longrightarrow> stackFrames t \<noteq> [] \<Longrightarrow> \<exists>t'. vt_run xs t = Some t' \<and> only_newest t t'"
proof (induction xs arbitrary: t rule: balanced.induct)
  case nothing
  then show ?case by (simp add: only_newest_def)
next
  case (assign xs n v)
  show ?case by (rule balanced_run_step [OF only_newest_assign(1) [OF assign.prems] assign.IH])
next
  case (assign_global xs n v)
  show ?case by (rule balanced_run_step [OF only_newest_assign(2) [OF assign_global.prems] assign_global.IH])
next
  case (save xs s len esc)
  show ?case by (rule balanced_run_step [OF only_newest_assign(3) [OF save.prems] save.IH])
next
  case (call xs ys)
  obtain t1 where t1: "vt_run xs (VarTable_Push t) = Some t1" "only_newest (VarTable_Push t) t1"
    using call.IH(1) [of "VarTable_Push t"] pushed [of t] by blast
  obtain t2 where t2: "vt_step OpPop t1 = Some t2" "stackFrames t2 = stackFrames t"
    "globalFrames t2 = globalFrames t1" "topFrame t2 = topFrame t1"
    using popped_frames [OF t1(2)] by blast
  then have "only_newest t t2" using t1(2) pushed [of t] call.prems by (auto simp: only_newest_def)
  moreover obtain t3 where "vt_run ys t2 = Some t3" "only_newest t2 t3"
    using call.IH(2) [of t2] call.prems t2(2) by auto
  ultimately show ?case using t1(1) t2(1) only_newest_trans by (auto simp: vt_run_append)
next
  case (call_global xs ys)
  obtain t1 where t1: "vt_run xs (VarTable_PushGlobal t) = Some t1" "only_newest (VarTable_PushGlobal t) t1"
    using call_global.IH(1) [of "VarTable_PushGlobal t"] pushed_global [of t] by blast
  obtain t2 where t2: "vt_step OpPopGlobal t1 = Some t2" "stackFrames t2 = stackFrames t"
    "globalFrames t2 = globalFrames t" "topFrame t2 = topFrame t"
    using popped_global_frames [OF t1(2)] by blast
  then have "only_newest t t2" using call_global.prems by (auto simp: only_newest_def)
  moreover obtain t3 where "vt_run ys t2 = Some t3" "only_newest t2 t3"
    using call_global.IH(2) [of t2] call_global.prems t2(2) by auto
  ultimately show ?case using t1(1) t2(1) only_newest_trans by (auto simp: vt_run_append)
qed

lemma vt_new_clean: "pools_clean (VarTable_new tf)"
  by (simp add: VarTable_new_def VarTable_Push_def pools_clean_def)

text \<open>
  C31: calls are isolated.  In a table reached by any operations, a balanced sequence of
  assignments and nested calls bracketed by \<^verbatim>\<open>Push\<close> and \<^verbatim>\<open>Pop\<close> runs without
  hitting an assertion and gives back the caller's frames unchanged; bracketed by
  \<^verbatim>\<open>PushGlobal\<close> and \<^verbatim>\<open>PopGlobal\<close> it also leaves every global variable and the
  top frame unchanged, so every name has the value it had before.
\<close>

theorem call_isolation:
  assumes "stackFrames t \<noteq> []" "balanced xs"
  shows "(\<exists>t'. vt_run (OpPush # xs @ [OpPop]) t = Some t' \<and> stackFrames t' = stackFrames t)
    \<and> (\<exists>t'. vt_run (OpPushGlobal # xs @ [OpPopGlobal]) t = Some t' \<and> stackFrames t' = stackFrames t
         \<and> globalFrames t' = globalFrames t \<and> topFrame t' = topFrame t
         \<and> (\<forall>n. VarTable_Get n t' = VarTable_Get n t))"
proof
  obtain t1 where t1: "vt_run xs (VarTable_Push t) = Some t1" "only_newest (VarTable_Push t) t1"
    using balanced_run [OF assms(2)] pushed [of t] by blast
  with popped_frames [OF t1(2)] show "\<exists>t'. vt_run (OpPush # xs @ [OpPop]) t = Some t' \<and> stackFrames t' = stackFrames t"
    by (auto simp: vt_run_append)
  obtain t2 where t2: "vt_run xs (VarTable_PushGlobal t) = Some t2" "only_newest (VarTable_PushGlobal t) t2"
    using balanced_run [OF assms(2)] pushed_global [of t] by blast
  obtain t3 where t3: "vt_step OpPopGlobal t2 = Some t3" "stackFrames t3 = stackFrames t"
    "globalFrames t3 = globalFrames t" "topFrame t3 = topFrame t"
    using popped_global_frames [OF t2(2)] by blast
  then have "VarTable_Get n t3 = VarTable_Get n t" for n by (simp add: VarTable_Get_def cong: option.case_cong)
  with t2 t3 show "\<exists>t'. vt_run (OpPushGlobal # xs @ [OpPopGlobal]) t = Some t' \<and> stackFrames t' = stackFrames t
         \<and> globalFrames t' = globalFrames t \<and> topFrame t' = topFrame t
         \<and> (\<forall>n. VarTable_Get n t' = VarTable_Get n t)"
    by (auto simp: vt_run_append)
qed

theorem call_isolation_witness:
  "\<exists>t'. vt_run (OpPushGlobal # [OpSetGlobal ''a'' (2::int)] @ [OpPopGlobal])
      (snd (VarTable_SetGlobal ''A'' 1 (VarTable_new string_frame_new))) = Some t' \<and> VarTable_Get ''a'' t' = Some 1"
proof -
  let ?t = "snd (VarTable_SetGlobal ''A'' (1::int) (VarTable_new string_frame_new))"
  have "stackFrames ?t \<noteq> []"
    by (simp add: VarTable_new_def VarTable_Push_def VarTable_SetGlobal_def string_frame_new_def)
  moreover have "balanced [OpSetGlobal ''a'' (2::int)]" by (intro balanced.intros)
  moreover have "VarTable_Get ''a'' ?t = Some 1"
    by (simp add: VarTable_new_def VarTable_Push_def VarTable_SetGlobal_def string_frame_new_def VarTable_Get_def
        VarFrame_Get_map frame_map_def canon_def) code_simp
  ultimately show ?thesis using call_isolation [of ?t "[OpSetGlobal ''a'' 2]"] by auto
qed

text \<open>
  Scoping.  In every table reached from a new one, a call starts without local
  variables even when its frame is recycled, so a lookup right after \<^verbatim>\<open>Push\<close> sees only
  globals; an assignment makes a local variable visible under every spelling and shadows the
  globals of that name, and leaves the lookup of all other names unchanged.
\<close>

theorem variable_scoping:
  assumes "vt_run ops (VarTable_new tf) = Some t"
  shows "VarTable_Get n (VarTable_Push t)
      = (case search_globals n (globalFrames t) of Some v \<Rightarrow> Some v | None \<Rightarrow> VarFrame_Get n (fvars (topFrame t)))
    \<and> (\<forall>m v new t'. VarTable_Set m v t = Some (new, t') \<longrightarrow>
        VarTable_Get n t' = (if canon n = canon m then Some v else VarTable_Get n t))"
proof
  have "pools_clean t" using vt_run_clean [OF vt_new_clean assms] .
  then show "VarTable_Get n (VarTable_Push t)
      = (case search_globals n (globalFrames t) of Some v \<Rightarrow> Some v | None \<Rightarrow> VarFrame_Get n (fvars (topFrame t)))"
    by (cases "stackPool t") (auto simp: VarTable_Push_def VarTable_Get_def VarFrame_Get_def pools_clean_def
       cong: option.case_cong)
  show "\<forall>m v new t'. VarTable_Set m v t = Some (new, t') \<longrightarrow>
        VarTable_Get n t' = (if canon n = canon m then Some v else VarTable_Get n t)"
  proof (intro allI impI)
    fix m v new t' assume s: "VarTable_Set m v t = Some (new, t')"
    then obtain f fs where f: "stackFrames t = f # fs" by (auto simp: VarTable_Set_def split: list.splits)
    with s have "t' = t\<lparr>stackFrames := snd (VarFrame_Set m v f) # fs\<rparr>"
      by (auto simp: VarTable_Set_def split: prod.splits)
    then show "VarTable_Get n t' = (if canon n = canon m then Some v else VarTable_Get n t)"
      using f frame.get_put [of n m v f] by (simp add: VarTable_Get_def cong: option.case_cong)
  qed
qed

theorem variable_scoping_witness:
  "VarTable_Get ''x'' (VarTable_Push (VarTable_new (string_frame_new :: int string_frame))) = None"
  using variable_scoping [of "[]" "string_frame_new :: int string_frame" "VarTable_new string_frame_new" "''x''"]
  by (simp add: VarTable_new_def VarTable_Push_def string_frame_new_def VarFrame_Get_def)

end
