(* ===== verification/Tokenizer.thy ===== *)
theory Tokenizer
  imports Var_Table Fp_Arith
begin

text \<open>
  The tokenizer of the script language (\<^verbatim>\<open>core/parser/tokenizer.cpp\<close>).  The state is
  the rest of the NUL terminated text, the current line and the current token.  \<open>NextToken\<close>
  skips blanks, comments and continued lines, then reads one token; an error carries its
  message and the position and line at which it was raised.  Identifiers and strings are held
  by value; the memory that \<^verbatim>\<open>SaveString\<close> gives them is the subject of
  \<^verbatim>\<open>Var_Table\<close>.
\<close>

section \<open>Tokens and state\<close>

datatype token =
  TEOF | TIdent string | TOp int | TInt int | TLong int | TFloat fp | TString string | TNewline

record tokenizer =
  pc :: string
  line :: int
  tok :: token

record tok_error =
  emsg :: string
  epc :: string
  eline :: int

definition tok_err :: "string \<Rightarrow> string \<Rightarrow> int \<Rightarrow> (tok_error, 'a) result" where
  "tok_err msg p l = Inl \<lparr>emsg = msg, epc = p, eline = l\<rparr>"

definition is_nl :: "char \<Rightarrow> bool" where "is_nl c \<longleftrightarrow> c = LF \<or> c = CR"
definition is_blank :: "char \<Rightarrow> bool" where "is_blank c \<longleftrightarrow> c = CHR '' '' \<or> c = TAB"

lemma is_nl_NUL [simp]: "\<not> is_nl NUL" and is_blank_NUL [simp]: "\<not> is_blank NUL"
  by (simp_all add: is_nl_def is_blank_def)

definition SkipWhitespace :: "string \<Rightarrow> string" where
  "SkipWhitespace p = dropWhile is_blank p"

definition SkipNewline :: "string \<Rightarrow> int \<Rightarrow> string \<times> int" where
  "SkipNewline p l =
     (if is_nl (peek p)
      then (let q = tl p in (if is_nl (peek q) \<and> peek q \<noteq> peek p then tl q else q, l + 1))
      else (p, l))"

text \<open>\<^verbatim>\<open>strstr\<close> and \<^verbatim>\<open>strchr\<close>: the text from the first match on.\<close>

fun starts_with :: "string \<Rightarrow> string \<Rightarrow> bool" where
  "starts_with [] s = True"
| "starts_with (c # n) [] = False"
| "starts_with (c # n) (d # s) = (c = d \<and> starts_with n s)"

fun strstr :: "string \<Rightarrow> string \<Rightarrow> string option" where
  "strstr n [] = (if n = [] then Some [] else None)"
| "strstr n (c # s) = (if starts_with n (c # s) then Some (c # s) else strstr n s)"

lemma length_SkipWhitespace [simp]: "length (SkipWhitespace p) \<le> length p"
  by (simp add: SkipWhitespace_def)

lemma length_SkipNewline: "length (fst (SkipNewline p l)) \<le> length p"
  by (auto simp: SkipNewline_def Let_def)

lemma length_SkipNewline_less: "is_nl (peek p) \<Longrightarrow> length (fst (SkipNewline p l)) < length p"
  by (cases p) (auto simp: SkipNewline_def Let_def)

lemma length_strstr: "strstr n s = Some r \<Longrightarrow> length r \<le> length s"
  by (induction s) (auto split: if_splits)

text \<open>The text between two positions: what \<^verbatim>\<open>for (cp = a; cp < b; cp++)\<close> visits.\<close>

definition between :: "string \<Rightarrow> string \<Rightarrow> string" where
  "between a b = take (length a - length b) a"

definition count_lf :: "string \<Rightarrow> int" where
  "count_lf s = int (length (filter (\<lambda>c. c = LF) s))"

section \<open>Blanks and comments\<close>

text \<open>The \<^verbatim>\<open>do\<close> loop over consecutive newlines.\<close>

function skip_newlines :: "string \<Rightarrow> int \<Rightarrow> string \<times> int" where
  "skip_newlines p l =
     (let (q, l') = SkipNewline p l; q' = SkipWhitespace q
      in if is_nl (peek q') \<and> is_nl (peek p) then skip_newlines q' l' else (q', l'))"
  by auto
termination
proof (relation "measure (\<lambda>(p, l). length p)")
  fix p :: string and l :: int and x q l' q'
  assume "x = SkipNewline p l" "(q, l') = x" "q' = SkipWhitespace q" "is_nl (peek q') \<and> is_nl (peek p)"
  then show "((q', l'), (p, l)) \<in> measure (\<lambda>(p, l). length p)"
    using length_SkipNewline_less [of p l] length_SkipWhitespace [of q] by (metis fst_conv in_measure
      le_less_trans case_prod_conv)
qed simp

declare skip_newlines.simps [simp del]

text \<open>The end of a nestable comment: \<open>e\<close> walks over the closers while \<open>n\<close> walks over the
  openers in front of them.\<close>

function close_comment :: "string option \<Rightarrow> string option \<Rightarrow> string option" where
  "close_comment (Some e) (Some n) =
     (if length e + 1 < length n
      then close_comment (strstr ''*]'' (drop 2 e)) (strstr ''[*'' (drop 2 n))
      else Some e)"
| "close_comment (Some e) None = Some e"
| "close_comment None n = None"
  by pat_completeness auto

lemma strstr_drop_less:
  assumes "length e + 1 < length n" "strstr k (drop 2 n) = Some r"
  shows "length r < length n"
  using length_strstr [OF assms(2)] assms(1) by simp

termination close_comment
  by (relation "measure (\<lambda>(e, n). case n of None \<Rightarrow> 0 | Some n' \<Rightarrow> Suc (length n'))")
     (auto split: option.splits intro: strstr_drop_less [simplified])

lemma close_comment_length:
  "close_comment e n = Some r \<Longrightarrow> (\<And>e'. e = Some e' \<Longrightarrow> length e' \<le> k) \<Longrightarrow> length r \<le> k"
proof (induction e n rule: close_comment.induct)
  case (1 e n)
  have "length x \<le> k" if "strstr ''*]'' (drop 2 e) = Some x" for x
    using length_strstr [OF that] 1(3) [OF refl] by simp
  with 1 show ?case by (auto split: if_splits)
qed auto

definition comment_end :: "string \<Rightarrow> string option" where
  "comment_end p = close_comment (strstr ''*]'' (drop 2 p)) (strstr ''[*'' (drop 2 p))"

lemma comment_end_length: "comment_end p = Some r \<Longrightarrow> length r \<le> length (drop 2 p)"
  unfolding comment_end_def by (erule close_comment_length) (rule length_strstr)

section \<open>Positions and line numbers\<close>

text \<open>From position \<open>p\<close> on line \<open>l\<close> to the later position \<open>q\<close>, where the line is \<open>l'\<close>: the
  line grows by the line feeds in between.\<close>

definition adv :: "string \<Rightarrow> int \<Rightarrow> string \<Rightarrow> int \<Rightarrow> bool" where
  "adv p l q l' \<longleftrightarrow> (\<exists>u. p = u @ q \<and> l' = l + count_lf u)"

lemma count_lf_simps [simp]:
  "count_lf [] = 0" "count_lf (c # s) = (if c = LF then 1 else 0) + count_lf s"
  "count_lf (s @ t) = count_lf s + count_lf t"
  by (simp_all add: count_lf_def)

lemma count_lf_0: "LF \<notin> set s \<Longrightarrow> count_lf s = 0"
  by (induction s) auto

lemma adv_refl [simp]: "adv p l p l"
  by (auto simp: adv_def)

lemma adv_trans: "adv p l q l' \<Longrightarrow> adv q l' r l'' \<Longrightarrow> adv p l r l''"
  by (fastforce simp: adv_def)

lemma adv_intro: "p = u @ q \<Longrightarrow> l' = l + count_lf u \<Longrightarrow> adv p l q l'"
  by (auto simp: adv_def)

lemma adv_drop: "LF \<notin> set (take n p) \<Longrightarrow> adv p l (drop n p) l"
  by (rule adv_intro [of _ "take n p"]) (simp_all add: count_lf_0)

lemma adv_tl: "peek p \<noteq> LF \<Longrightarrow> adv p l (tl p) l"
  by (cases p) (auto intro: adv_intro [of _ "[_]"])

lemma adv_length: "adv p l q l' \<Longrightarrow> length q \<le> length p"
  by (auto simp: adv_def)

lemma adv_no_CR: "adv p l q l' \<Longrightarrow> CR \<notin> set p \<Longrightarrow> CR \<notin> set q"
  by (auto simp: adv_def)

lemma adv_dropWhile:
  assumes "\<And>c. P c \<Longrightarrow> c \<noteq> LF"
  shows "adv p l (dropWhile P p) l"
proof (rule adv_intro)
  show "p = takeWhile P p @ dropWhile P p" by simp
  have "LF \<notin> set (takeWhile P p)" using assms set_takeWhileD by fastforce
  then show "l = l + count_lf (takeWhile P p)" by (simp add: count_lf_0)
qed

lemma adv_SkipWhitespace: "adv p l (SkipWhitespace p) l"
  unfolding SkipWhitespace_def by (rule adv_dropWhile) (auto simp: is_blank_def)

lemma adv_SkipNewline:
  assumes "CR \<notin> set p" "SkipNewline p l = (q, l')"
  shows "adv p l q l'"
proof (cases "is_nl (peek p)")
  case True
  then obtain s where p: "p = LF # s" using assms(1) by (cases p) (auto simp: is_nl_def)
  then have "peek s \<noteq> CR" using assms(1) by (cases s) auto
  then have "q = s \<and> l' = l + 1" using assms(2) p by (auto simp: SkipNewline_def is_nl_def Let_def)
  then show ?thesis using p by (intro adv_intro [of _ "[LF]"]) auto
qed (use assms in \<open>auto simp: SkipNewline_def\<close>)

lemma adv_skip_newlines: "CR \<notin> set p \<Longrightarrow> skip_newlines p l = (q, l') \<Longrightarrow> adv p l q l'"
proof (induction p l arbitrary: q l' rule: skip_newlines.induct)
  case (1 p l)
  obtain r k where r: "SkipNewline p l = (r, k)" by fastforce
  have a: "adv p l (SkipWhitespace r) k"
    by (rule adv_trans [OF adv_SkipNewline [OF 1(2) r] adv_SkipWhitespace])
  show ?case
  proof (cases "is_nl (peek (SkipWhitespace r)) \<and> is_nl (peek p)")
    case True
    with 1(3) r have "skip_newlines (SkipWhitespace r) k = (q, l')" by (simp add: skip_newlines.simps [of p])
    from 1(1) [OF r [symmetric] refl refl True adv_no_CR [OF a 1(2)] this] a show ?thesis by (blast intro: adv_trans)
  next
    case False
    with 1(3) r a show ?thesis by (auto simp: skip_newlines.simps [of p])
  qed
qed

lemma starts_with_prefix: "starts_with n s \<Longrightarrow> s = n @ drop (length n) s"
  by (induction n s rule: starts_with.induct) auto

lemma strstr_split: "strstr n s = Some r \<Longrightarrow> s = between s r @ r \<and> r = n @ drop (length n) r"
proof (induction s)
  case (Cons c s)
  show ?case
  proof (cases "starts_with n (c # s)")
    case True
    with Cons.prems have "r = c # s" by simp
    with starts_with_prefix [OF True] show ?thesis by (simp add: between_def)
  next
    case False
    with Cons.prems have r: "strstr n s = Some r" by simp
    note IH = Cons.IH [OF r]
    have "between (c # s) r = c # between s r"
      using length_strstr [OF r] by (simp add: between_def Suc_diff_le)
    with IH show ?thesis by simp
  qed
qed (auto simp: between_def split: if_splits)

lemma between_append [simp]: "between (u @ r) r = u"
  by (simp add: between_def)

lemma adv_between: "p = u @ e \<Longrightarrow> adv p l e (l + count_lf (between p e))"
  by (rule adv_intro [of _ u]) simp_all

lemma strstr_suffix: "strstr n s = Some r \<Longrightarrow> \<exists>u. s = u @ r"
  using strstr_split by blast

lemma strstr_starts: "strstr n s = Some r \<Longrightarrow> starts_with n r"
  by (induction s) (auto split: if_splits)

lemma starts_with_no_LF:
  "starts_with n s \<Longrightarrow> LF \<notin> set n \<Longrightarrow> length n = 2 \<Longrightarrow> LF \<notin> set (take 2 s)"
  using starts_with_prefix by (metis append_eq_conv_conj)

lemma close_comment_suffix:
  "close_comment e n = Some r \<Longrightarrow> (\<And>e'. e = Some e' \<Longrightarrow> \<exists>u. s = u @ e' \<and> starts_with ''*]'' e') \<Longrightarrow>
     \<exists>u. s = u @ r \<and> starts_with ''*]'' r"
proof (induction e n rule: close_comment.induct)
  case (1 e n)
  show ?case
  proof (cases "length e + 1 < length n")
    case True
    have "\<exists>u. s = u @ x \<and> starts_with ''*]'' x" if x: "strstr ''*]'' (drop 2 e) = Some x" for x
    proof -
      obtain v where "drop 2 e = v @ x" using strstr_suffix [OF x] by blast
      then have "e = take 2 e @ v @ x" by (metis append_take_drop_id)
      moreover obtain u where "s = u @ e" using 1(3) by blast
      moreover have "starts_with ''*]'' x" by (rule strstr_starts [OF x])
      ultimately show ?thesis by (metis append.assoc)
    qed
    with 1 True show ?thesis by simp
  qed (use 1 in auto)
qed auto

lemma comment_end_split: "comment_end p = Some e \<Longrightarrow> \<exists>u. drop 2 p = u @ e \<and> starts_with ''*]'' e"
  unfolding comment_end_def
  by (erule close_comment_suffix) (intro exI conjI, rule strstr_split [THEN conjunct1], assumption, rule strstr_starts)

lemma adv_comment:
  assumes "peek p \<noteq> LF" "peekn 1 p \<noteq> LF" "drop 2 p = u @ e" "LF \<notin> set (take 2 e)"
  shows "adv p l (drop 2 e) (l + count_lf (between (drop 2 p) e))"
proof -
  have "LF \<notin> set (take 2 p)"
    using assms(1,2) by (cases p; cases "tl p") (auto simp: peekn_def)
  then have "adv p l (drop 2 p) l" by (rule adv_drop)
  moreover have "adv (drop 2 p) l e (l + count_lf (between (drop 2 p) e))" by (rule adv_between [OF assms(3)])
  ultimately show ?thesis using adv_drop [OF assms(4)] adv_trans by blast
qed

text \<open>The loop of \<^verbatim>\<open>NextToken\<close> that skips blanks, comments and continued lines.  One
  round of its body either continues, leaves the loop or throws.\<close>

datatype blank = Continue string int | Break string int | Throw tok_error

definition throw_at :: "string \<Rightarrow> string \<Rightarrow> int \<Rightarrow> blank" where
  "throw_at msg p l = Throw \<lparr>emsg = msg, epc = p, eline = l\<rparr>"

definition blank_step :: "string \<Rightarrow> int \<Rightarrow> blank" where
  "blank_step p0 l =
     (let p = SkipWhitespace p0 in
      if peek p = BSL then
        (let q = SkipWhitespace (tl p) in
         if is_nl (peek q) then (case SkipNewline q l of (q', l') \<Rightarrow> Continue q' l')
         else throw_at (''Script error: `'' @ [BSL, CHR 0x27] @ '' can only appear at the beginning or end of a line'') q l)
      else if is_nl (peek p) then
        (case skip_newlines p l of (q, l') \<Rightarrow>
           if peek q = BSL then Continue (tl q) l'
           else if peek q = CHR ''{'' then Break q l'
           else Break p l)
      else if peek p = CHR ''#'' then Break (dropWhile (\<lambda>c. \<not> is_nl c) p) l
      else if peek p = CHR ''/'' \<and> peekn 1 p = CHR ''*'' then
        (case strstr ''*/'' (drop 2 p) of
           None \<Rightarrow> throw_at ''Parse error: block comment missing closing */'' p l
         | Some e \<Rightarrow> Continue (drop 2 e) (l + count_lf (between (drop 2 p) e)))
      else if peek p = CHR ''*'' \<and> peekn 1 p = CHR ''/'' then
        throw_at ''Parse error: orphan block comment closing */'' p l
      else if peek p = CHR ''['' \<and> peekn 1 p = CHR ''*'' then
        (case comment_end p of
           None \<Rightarrow> throw_at ''Parse error: nestable block comment missing closing *]'' p l
         | Some e \<Rightarrow> Continue (drop 2 e) (l + count_lf (between (drop 2 p) e)))
      else if peek p = CHR ''*'' \<and> peekn 1 p = CHR '']'' then
        throw_at ''Parse error: orphan nestable block comment closing *]'' p l
      else Break p l)"

lemma skip_newlines_length: "is_nl (peek p) \<Longrightarrow> length (fst (skip_newlines p l)) < length p"
proof (induction p l rule: skip_newlines.induct)
  case (1 p l)
  obtain q l' where q: "SkipNewline p l = (q, l')" by fastforce
  have s: "length (SkipWhitespace q) < length p"
    using le_less_trans [OF length_SkipWhitespace length_SkipNewline_less [OF 1(2), of l]] q by simp
  show ?case
  proof (cases "is_nl (peek (SkipWhitespace q))")
    case True
    from 1(1) [OF q [symmetric] refl refl] True 1(2)
    have "length (fst (skip_newlines (SkipWhitespace q) l')) < length (SkipWhitespace q)" by simp
    then show ?thesis using s q True 1(2) by (simp add: skip_newlines.simps [of p])
  next
    case False
    then show ?thesis using s q by (simp add: skip_newlines.simps [of p])
  qed
qed

lemma drop2_less:
  assumes "peek p \<noteq> NUL" "length r \<le> length (drop 2 p)"
  shows "length (drop 2 r) < length p"
  using assms peek_not_NUL [OF assms(1)] by auto

lemma less_SkipWhitespace: "n < length (SkipWhitespace p) \<Longrightarrow> n < length p"
  by (rule less_le_trans [OF _ length_SkipWhitespace])

text \<open>The ways in which the loop continues.\<close>

lemma blank_step_Continue:
  assumes "blank_step p0 l = Continue q' l'"
  defines "p \<equiv> SkipWhitespace p0"
  obtains (escaped) q where "peek p = BSL" "q = SkipWhitespace (tl p)" "is_nl (peek q)" "SkipNewline q l = (q', l')"
  | (joined) q where "is_nl (peek p)" "skip_newlines p l = (q, l')" "peek q = BSL" "q' = tl q"
  | (comment) u e where "peek p \<noteq> NUL" "peek p \<noteq> LF" "peekn 1 p = CHR ''*''" "drop 2 p = u @ e"
      "LF \<notin> set (take 2 e)" "q' = drop 2 e" "l' = l + count_lf (between (drop 2 p) e)"
  proof (cases "peek p = BSL \<or> is_nl (peek p)")
  case True
  show thesis
  proof (cases "peek p = BSL")
    case b: True
    with assms(1) have "is_nl (peek (SkipWhitespace (tl p)))" "SkipNewline (SkipWhitespace (tl p)) l = (q', l')"
      by (auto simp: blank_step_def Let_def p_def throw_at_def split: if_splits prod.splits)
    then show thesis by (rule escaped [OF b refl])
  next
    case False
    with True have nl: "is_nl (peek p)" by simp
    obtain q k where q: "skip_newlines p l = (q, k)" by fastforce
    with assms(1) False nl have "peek q = BSL \<and> q' = tl q \<and> l' = k"
      by (auto simp: blank_step_def Let_def p_def [symmetric] split: if_splits)
    then show thesis using joined [OF nl] q by simp
  qed
next
  case False
  then have h: "peek p \<noteq> CHR ''#''" using assms(1) by (auto simp: blank_step_def Let_def p_def)
  show thesis
  proof (cases "peek p = CHR ''/'' \<and> peekn 1 p = CHR ''*''")
    case True
    then obtain e where e: "strstr ''*/'' (drop 2 p) = Some e" "q' = drop 2 e" "l' = l + count_lf (between (drop 2 p) e)"
      using assms(1) False h by (auto simp: blank_step_def Let_def p_def [symmetric] throw_at_def split: option.splits)
    have "LF \<notin> set (take 2 e)" using strstr_starts [OF e(1)] by (rule starts_with_no_LF) simp_all
    then show thesis using comment [of "between (drop 2 p) e" e] strstr_split [OF e(1)] e True by simp
  next
    case nb: False
    then have n: "peek p = CHR ''['' \<and> peekn 1 p = CHR ''*''"
      using assms(1) False h by (auto simp: blank_step_def Let_def p_def [symmetric] throw_at_def split: if_splits option.splits)
    then obtain e where e: "comment_end p = Some e" "q' = drop 2 e" "l' = l + count_lf (between (drop 2 p) e)"
      using assms(1) False h by (auto simp: blank_step_def Let_def p_def [symmetric] throw_at_def split: option.splits)
    obtain u where u: "drop 2 p = u @ e" "starts_with ''*]'' e" using comment_end_split [OF e(1)] by blast
    have "LF \<notin> set (take 2 e)" using u(2) by (rule starts_with_no_LF) simp_all
    then show thesis using comment [OF _ _ _ u(1) _ e(2,3)] n by simp
  qed
qed

lemma blank_step_less: "blank_step p0 l = Continue q' l' \<Longrightarrow> length q' < length p0"
proof (erule blank_step_Continue)
  fix q assume b: "peek (SkipWhitespace p0) = BSL" "q = SkipWhitespace (tl (SkipWhitespace p0))" "is_nl (peek q)"
    "SkipNewline q l = (q', l')"
  have "length q' < length q" using length_SkipNewline_less [OF b(3), of l] b(4) by simp
  then have "length q' < length (tl (SkipWhitespace p0))" using b(2) less_SkipWhitespace by blast
  then have "length q' < length (SkipWhitespace p0)" by simp
  then show ?thesis by (rule less_SkipWhitespace)
next
  fix q assume n: "is_nl (peek (SkipWhitespace p0))" "skip_newlines (SkipWhitespace p0) l = (q, l')" "q' = tl q"
  have "length q < length (SkipWhitespace p0)" using skip_newlines_length [OF n(1), of l] n(2) by simp
  then have "length q' < length (SkipWhitespace p0)" using n(3) by simp
  then show ?thesis by (rule less_SkipWhitespace)
next
  fix u e assume c: "peek (SkipWhitespace p0) \<noteq> NUL" "drop 2 (SkipWhitespace p0) = u @ e" "q' = drop 2 e"
  have "length q' < length (SkipWhitespace p0)" unfolding c(3) by (rule drop2_less [OF c(1)]) (simp add: c(2))
  then show ?thesis by (rule less_SkipWhitespace)
qed

function skip_blank :: "string \<Rightarrow> int \<Rightarrow> (tok_error, string \<times> int) result" where
  "skip_blank p l =
     (case blank_step p l of
        Continue q l' \<Rightarrow> skip_blank q l'
      | Break q l' \<Rightarrow> Inr (q, l')
      | Throw e \<Rightarrow> Inl e)"
  by pat_completeness auto
termination
  by (relation "measure (\<lambda>(p, l). length p)") (auto dest: blank_step_less)

declare skip_blank.simps [simp del]

section \<open>Numbers\<close>

text \<open>Operators are coded as in \<^verbatim>\<open>operator ""_i\<close>: the last character in the least
  significant byte.\<close>

definition op_i :: "string \<Rightarrow> int" where
  "op_i s = foldl (\<lambda>acc c. acc * 256 + int (cc c)) 0 s"

definition digit_val :: "char \<Rightarrow> int" where "digit_val c = int (cc c) - 48"

definition times10_plus :: "fp \<Rightarrow> int \<Rightarrow> fp" where
  "times10_plus d v = fp_add binary64 (fp_mul binary64 d (fp_of_int binary64 10)) (fp_of_int binary64 v)"

text \<open>The digits after the decimal point.\<close>

fun fraction :: "string \<Rightarrow> fp \<Rightarrow> fp \<Rightarrow> string \<times> fp \<times> fp" where
  "fraction [] d place = ([], d, place)"
| "fraction (c # s) d place =
     (if c_isdigit c
      then fraction s (times10_plus d (digit_val c)) (fp_mul binary64 place (fp_of_int binary64 10))
      else (c # s, d, place))"

definition gather_int :: "bool \<Rightarrow> int \<Rightarrow> int \<Rightarrow> bool \<times> int" where
  "gather_int isf ll v =
     (if isf then (isf, ll)
      else if ll > INT64_MAX div 10 \<or> (ll = INT64_MAX div 10 \<and> v > INT64_MAX mod 10) then (True, ll)
      else (False, ll * 10 + v))"

function number_loop :: "string \<Rightarrow> bool \<Rightarrow> int \<Rightarrow> fp \<Rightarrow> fp \<Rightarrow> string \<times> bool \<times> int \<times> fp \<times> fp" where
  "number_loop p isf ll d place =
     (if peek p = CHR ''.'' then
        (case fraction (tl p) d place of (q, d', place') \<Rightarrow> (q, True, ll, d', place'))
      else
        (case gather_int isf ll (digit_val (peek p)) of (isf', ll') \<Rightarrow>
           let d' = times10_plus d (digit_val (peek p)); q = tl p
           in if c_isdigit (peek q) \<or> peek q = CHR ''.'' then number_loop q isf' ll' d' place
              else (q, isf', ll', d', place)))"
  by pat_completeness auto
termination
proof (relation "measure (\<lambda>(p, _). length p)", goal_cases)
  case (2 p isf ll d place isf' ll' d' q)
  have "c_isdigit (peek q) \<or> peek q = CHR ''.''" using 2 by blast
  then have "0 < length q" by (cases q) auto
  with 2 show ?case by simp
qed simp

declare number_loop.simps [simp del]

definition GetNumber :: "string \<Rightarrow> int \<Rightarrow> (tok_error, token \<times> string \<times> int) result" where
  "GetNumber p l =
     (case number_loop p False 0 (Zero False) (fp_of_int binary64 1) of (q, isf, ll, d, place) \<Rightarrow>
        let v = fp_div binary64 d place
        in if fp_le DBL_MAX v then tok_err ''Tokenizer: Number is to big.'' q l
           else if isf then Inr (TFloat v, q, l)
           else if ll \<le> INT_MAX then Inr (TInt ll, q, l)
           else Inr (TLong ll, q, l))"

definition hex_val :: "char \<Rightarrow> int option" where
  "hex_val c =
     (if 48 \<le> cc c \<and> cc c \<le> 57 then Some (int (cc c) - 48)
      else if 97 \<le> cc c \<and> cc c \<le> 102 then Some (int (cc c) - 97 + 10)
      else if 65 \<le> cc c \<and> cc c \<le> 70 then Some (int (cc c) - 65 + 10)
      else None)"

fun hex_loop :: "string \<Rightarrow> int \<Rightarrow> int \<Rightarrow> (tok_error, int \<times> bool \<times> string) result" where
  "hex_loop [] acc l = tok_err ''$ must be followed by a hexadecimal number'' [] l"
| "hex_loop (c # s) acc l =
     (case hex_val c of
        Some v \<Rightarrow>
          (let acc' = wrap64 (acc * 16 + v)
           in if c_isalnum (peek s) then hex_loop s acc' l else Inr (acc', False, s))
      | None \<Rightarrow>
          if c = CHR ''L'' \<or> c = CHR ''l'' then Inr (acc, True, s)
          else tok_err ''$ must be followed by a hexadecimal number'' (c # s) l)"

definition hex_token :: "string \<Rightarrow> int \<Rightarrow> (tok_error, token \<times> string \<times> int) result" where
  "hex_token p l = bind_r (hex_loop p 0 l)
     (\<lambda>(v, long64bit, q). Inr (if long64bit then TLong v else TInt (wrap32 v), q, l))"

section \<open>Strings\<close>

definition quotes :: "bool \<Rightarrow> string" where
  "quotes triple = (if triple then [DQ, DQ, DQ] else [DQ])"

lemma strstr_Some_nonempty: "strstr n s = Some r \<Longrightarrow> n \<noteq> [] \<Longrightarrow> r \<noteq> []"
  by (induction s) (auto split: if_splits)

text \<open>The search for the closing quotes.  \<open>prev\<close> is the character before the text; in a
  string with escapes a quote after a backslash does not close it.\<close>

function closing :: "bool \<Rightarrow> bool \<Rightarrow> char \<Rightarrow> string \<Rightarrow> string option" where
  "closing triple escape prev s =
     (case strstr (quotes triple) s of
        None \<Rightarrow> None
      | Some e \<Rightarrow>
          (if escape \<and> last (prev # between s e) = BSL then closing triple escape DQ (tl e)
           else Some e))"
  by pat_completeness auto
termination
proof (relation "measure (\<lambda>(_, _, _, s). length s)", goal_cases)
  case (2 triple escape prev s e)
  have "e \<noteq> []" using strstr_Some_nonempty [OF 2(1)] by (simp add: quotes_def)
  then show ?case using length_strstr [OF 2(1)] by (cases e) auto
qed simp

declare closing.simps [simp del]

text \<open>\<^verbatim>\<open>while (end[3] == '"') end++\<close>\<close>

fun extend_quotes :: "string \<Rightarrow> string" where
  "extend_quotes [] = []"
| "extend_quotes (c # s) = (if peekn 3 (c # s) = DQ then extend_quotes s else c # s)"

definition string_token :: "bool \<Rightarrow> string \<Rightarrow> int \<Rightarrow> (tok_error, token \<times> string \<times> int) result" where
  "string_token escape p l =
     (let text = (\<lambda>start end. TString (cstr (saved_bytes start (wrap32 (int (length start - length end))) escape)))
      in if peekn 1 p = DQ \<and> peekn 2 p = DQ then
           (let start = drop 3 p
            in case closing True escape DQ start of
                 None \<Rightarrow> tok_err ''Parse error: string missing closing quotation marks'' p l
               | Some e \<Rightarrow>
                   let end = extend_quotes e
                   in Inr (text start end, drop 3 end, l + count_lf (between start end)))
         else
           (let start = tl p
            in case closing False escape DQ start of
                 None \<Rightarrow> tok_err ''Parse error: string missing closing quotation mark'' p l
               | Some end \<Rightarrow> Inr (text start end, tl end, l + count_lf (between start end))))"

section \<open>The next token\<close>

definition is_ident_char :: "char \<Rightarrow> bool" where "is_ident_char c \<longleftrightarrow> c = CHR ''_'' \<or> c_isalnum c"

definition ident_token :: "string \<Rightarrow> int \<Rightarrow> token \<times> string \<times> int" where
  "ident_token p l =
     (let q = dropWhile is_ident_char (tl p); name = between p q
      in (if streqi name ''__END__'' then TEOF else TIdent name, q, l))"

definition op_token :: "nat \<Rightarrow> string \<Rightarrow> int \<Rightarrow> (tok_error, token \<times> string \<times> int) result" where
  "op_token n p l = Inr (TOp (op_i (take n p)), drop n p, l)"

definition lone_ops :: string where "lone_ops = ''{}()[],?:-*/%''"

text \<open>The \<^verbatim>\<open>switch\<close> of \<^verbatim>\<open>NextToken\<close>.\<close>

definition lex_token :: "string \<Rightarrow> int \<Rightarrow> (tok_error, token \<times> string \<times> int) result" where
  "lex_token p l =
     (let c = peek p; c1 = peekn 1 p in
      if c = NUL then Inr (TEOF, p, l)
      else if is_nl c then Inr (TNewline, fst (SkipNewline p l), snd (SkipNewline p l) - 1)
      else if c = CHR ''.'' then (if c_isdigit c1 then GetNumber p l else op_token 1 p l)
      else if c = CHR ''<'' then op_token (if c1 = CHR ''='' \<or> c1 = CHR ''>'' then 2 else 1) p l
      else if c \<in> set ''>!='' then op_token (if c1 = CHR ''='' then 2 else 1) p l
      else if c \<in> set ''+&|'' then op_token (if c1 = c then 2 else 1) p l
      else if c \<in> set lone_ops then op_token 1 p l
      else if c = CHR ''$'' then hex_token (tl p) l
      else if c = DQ then string_token False p l
      else if c = CHR ''e'' \<and> c1 = DQ then string_token True (tl p) l
      else if c_isdigit c then GetNumber p l
      else if c = CHR ''_'' \<or> c_isalpha c then Inr (ident_token p l)
      else tok_err (''unexpected character '' @ [DQ, c, DQ]) p l)"

definition NextToken :: "tokenizer \<Rightarrow> (tok_error, tokenizer) result" where
  "NextToken t =
     bind_r (skip_blank (pc t) (if tok t = TNewline then line t + 1 else line t))
       (\<lambda>(p, l). bind_r (lex_token p l) (\<lambda>(k, q, l'). Inr \<lparr>pc = q, line = l', tok = k\<rparr>))"

definition Tokenizer_new :: "string \<Rightarrow> (tok_error, tokenizer) result" where
  "Tokenizer_new code = NextToken \<lparr>pc = cstr code, line = 1, tok = TEOF\<rparr>"

text \<open>\<^verbatim>\<open>Tokenizer(Tokenizer* old)\<close>: a copy that has read one token more.\<close>

definition Tokenizer_copy :: "tokenizer \<Rightarrow> (tok_error, tokenizer) result" where
  "Tokenizer_copy old = NextToken \<lparr>pc = pc old, line = line old, tok = tok old\<rparr>"

definition IsIdentifier :: "string \<Rightarrow> tokenizer \<Rightarrow> bool" where
  "IsIdentifier name t = (case tok t of TIdent s \<Rightarrow> streqi name s | _ \<Rightarrow> False)"

definition IsOperator :: "string \<Rightarrow> tokenizer \<Rightarrow> bool" where
  "IsOperator name t \<longleftrightarrow> tok t = TOp (op_i name)"

text \<open>The column of a position of the text \<open>code\<close>: the characters since the last newline.\<close>

definition GetColumn :: "string \<Rightarrow> string \<Rightarrow> int" where
  "GetColumn code p = int (length (takeWhile (\<lambda>c. \<not> is_nl c) (rev (between code p))))"

section \<open>Every token is a step forward, and lines are counted right\<close>

text \<open>The position that a result ends at; the position of an error counts too.\<close>

definition adv_ok :: "string \<Rightarrow> int \<Rightarrow> (tok_error, string \<times> int) result \<Rightarrow> bool" where
  "adv_ok p l r = (case r of Inr (q, l') \<Rightarrow> adv p l q l' | Inl e \<Rightarrow> adv p l (epc e) (eline e))"

lemma adv_ok_trans: "adv p l q l' \<Longrightarrow> adv_ok q l' r \<Longrightarrow> adv_ok p l r"
  by (auto simp: adv_ok_def split: sum.splits elim: adv_trans)

lemma adv_ok_simps [simp]:
  "adv_ok p l (Inr (q, l')) = adv p l q l'" "adv_ok p l (tok_err msg q l') = adv p l q l'"
  by (simp_all add: adv_ok_def tok_err_def)

lemma adv_to_eol: "adv p l (dropWhile (\<lambda>c. \<not> is_nl c) p) l"
  by (rule adv_dropWhile) (auto simp: is_nl_def)

lemma blank_step_adv:
  assumes "CR \<notin> set p0"
  shows "blank_step p0 l = Continue q' l' \<Longrightarrow> adv p0 l q' l'"
    and "blank_step p0 l = Break q' l' \<Longrightarrow> adv p0 l q' l'"
    and "blank_step p0 l = Throw e \<Longrightarrow> adv p0 l (epc e) (eline e)"
proof -
  let ?p = "SkipWhitespace p0"
  have a: "adv p0 l ?p l" by (rule adv_SkipWhitespace)
  have cr: "CR \<notin> set ?p" by (rule adv_no_CR [OF a assms])
  show "adv p0 l q' l'" if "blank_step p0 l = Continue q' l'"
    using that
  proof (cases rule: blank_step_Continue)
    case (escaped q)
    have q: "adv ?p l q l" unfolding escaped(2) by (rule adv_trans [OF adv_tl adv_SkipWhitespace]) (simp add: escaped(1))
    show ?thesis by (rule adv_trans [OF a adv_trans [OF q adv_SkipNewline [OF adv_no_CR [OF q cr] escaped(4)]]])
  next
    case (joined q)
    have "adv ?p l q' l'" unfolding joined(4)
      by (rule adv_trans [OF adv_skip_newlines [OF cr joined(2)] adv_tl]) (simp add: joined(3))
    with a show ?thesis by (rule adv_trans)
  next
    case (comment u e)
    show ?thesis unfolding comment(6,7)
      by (rule adv_trans [OF a adv_comment [OF comment(2) _ comment(4,5)]]) (use comment(3) in simp)
  qed
  have nl: "adv ?p l (fst (skip_newlines ?p l)) (snd (skip_newlines ?p l))"
    by (rule adv_skip_newlines [OF cr]) simp
  then show "adv p0 l q' l'" if "blank_step p0 l = Break q' l'"
    using that adv_trans [OF a nl] adv_trans [OF a adv_to_eol] a
    by (auto simp: blank_step_def Let_def throw_at_def split: if_splits prod.splits option.splits)
  have "adv ?p l (SkipWhitespace (tl ?p)) l" if "peek ?p = BSL"
    by (rule adv_trans [OF adv_tl adv_SkipWhitespace]) (simp add: that)
  then show "adv p0 l (epc e) (eline e)" if "blank_step p0 l = Throw e"
    using that a adv_trans [OF a]
    by (auto simp: blank_step_def Let_def throw_at_def split: if_splits prod.splits option.splits)
qed

lemma skip_blank_adv: "CR \<notin> set p \<Longrightarrow> adv_ok p l (skip_blank p l)"
proof (induction p l rule: skip_blank.induct)
  case (1 p l)
  show ?case
  proof (cases "blank_step p l")
    case (Continue q l')
    note a = blank_step_adv(1) [OF 1(2) Continue]
    from adv_ok_trans [OF a 1(1) [OF Continue adv_no_CR [OF a 1(2)]]] show ?thesis
      by (simp add: skip_blank.simps [of p] Continue)
  qed (use 1(2) blank_step_adv(2,3) in \<open>auto simp: skip_blank.simps [of p] adv_ok_def\<close>)
qed

lemma skip_blank_length: "skip_blank p l = Inr (q, l') \<Longrightarrow> length q \<le> length p"
proof (induction p l rule: skip_blank.induct)
  case (1 p l)
  show ?case
  proof (cases "blank_step p l")
    case (Continue r k)
    then show ?thesis using 1 blank_step_less [OF Continue] by (simp add: skip_blank.simps [of p])
  next
    case (Break r k)
    let ?p = "SkipWhitespace p"
    have "length q \<le> length ?p"
    proof (cases "is_nl (peek ?p)")
      case True
      then show ?thesis using skip_newlines_length [OF True, of l] Break 1(2)
        by (auto simp: skip_blank.simps [of p] blank_step_def Let_def throw_at_def split: if_splits prod.splits option.splits)
    qed (use Break 1(2) in \<open>auto simp: skip_blank.simps [of p] blank_step_def Let_def throw_at_def
        split: if_splits prod.splits option.splits\<close>)
    then show ?thesis using length_SkipWhitespace le_trans by blast
  qed (use 1(2) in \<open>simp add: skip_blank.simps [of p]\<close>)
qed

text \<open>The number, string and operator readers.\<close>

lemma fraction_adv: "fraction p d pl = (q, d', pl') \<Longrightarrow> adv p l q l"
proof (induction p arbitrary: d pl)
  case (Cons c p)
  show ?case
  proof (cases "c_isdigit c")
    case True
    then have "c \<noteq> LF" by (auto simp: c_class_defs)
    with Cons True show ?thesis using adv_trans [OF adv_tl [of "c # p" l]] by auto
  qed (use Cons in auto)
qed simp

lemma number_loop_adv:
  "number_loop p isf ll d pl = (q, isf', ll', d', pl') \<Longrightarrow> c_isdigit (peek p) \<or> peek p = CHR ''.'' \<Longrightarrow> adv (tl p) l q l"
proof (induction p isf ll d pl rule: number_loop.induct)
  case (1 p isf ll d pl)
  show ?case
  proof (cases "peek p = CHR ''.''")
    case True
    with 1(2) show ?thesis by (auto simp: number_loop.simps [of p] fraction_adv split: prod.splits)
  next
    case False
    obtain isf1 ll1 where g: "gather_int isf ll (digit_val (peek p)) = (isf1, ll1)" by fastforce
    show ?thesis
    proof (cases "c_isdigit (peek (tl p)) \<or> peek (tl p) = CHR ''.''")
      case True
      from 1(1) [OF False g [symmetric] refl refl True _ True] 1(2) False g True
      have "adv (tl (tl p)) l q l" by (simp add: number_loop.simps [of p] Let_def)
      moreover have "peek (tl p) \<noteq> LF" using True by (auto simp: c_class_defs)
      ultimately show ?thesis using adv_trans [OF adv_tl] by blast
    next
      case False2: False
      with 1(2) False g show ?thesis by (simp add: number_loop.simps [of p] Let_def)
    qed
  qed
qed

lemma GetNumber_adv:
  assumes "c_isdigit (peek p) \<or> peek p = CHR ''.''"
  shows "(GetNumber p l = Inr (k, q, l') \<longrightarrow> adv (tl p) l q l' \<and> k \<noteq> TEOF \<and> k \<noteq> TNewline)
    \<and> (GetNumber p l = Inl e \<longrightarrow> adv (tl p) l (epc e) (eline e))"
  using number_loop_adv [of p False 0 "Zero False" "fp_of_int binary64 1" _ _ _ _ _ l] assms
  by (auto simp: GetNumber_def tok_err_def Let_def split: prod.splits if_splits)

lemma hex_val_not_LF: "hex_val c = Some v \<Longrightarrow> c \<noteq> LF"
  by (auto simp: hex_val_def cc_def)

lemma hex_loop_adv:
  "(hex_loop p acc l = Inr (v, b, q) \<longrightarrow> adv p l q l)
   \<and> (hex_loop p acc l = Inl e \<longrightarrow> adv p l (epc e) (eline e))"
proof (induction p arbitrary: acc)
  case (Cons c s)
  have t: "adv (c # s) l s l" if "c \<noteq> LF" using adv_tl [of "c # s" l] that by simp
  show ?case
  proof (cases "hex_val c")
    case (Some x)
    from t [OF hex_val_not_LF [OF Some]] have "adv s l r m \<Longrightarrow> adv (c # s) l r m" for r m by (rule adv_trans)
    with Cons.IH [of "wrap64 (acc * 16 + x)"] t [OF hex_val_not_LF [OF Some]] Some show ?thesis
      by (auto simp: Let_def)
  next
    case None
    with t show ?thesis by (auto simp: tok_err_def)
  qed
qed (auto simp: tok_err_def)

lemma hex_token_adv:
  "(hex_token p l = Inr (k, q, l') \<longrightarrow> adv p l q l' \<and> k \<noteq> TEOF \<and> k \<noteq> TNewline)
   \<and> (hex_token p l = Inl e \<longrightarrow> adv p l (epc e) (eline e))"
  using hex_loop_adv [of p 0 l] by (auto simp: hex_token_def bind_r_Inr bind_r_Inl split: if_splits)

lemma closing_suffix: "closing triple esc prev s = Some e \<Longrightarrow> \<exists>u. s = u @ e \<and> starts_with (quotes triple) e"
proof (induction triple esc prev s rule: closing.induct)
  case (1 triple esc prev s)
  obtain x where x: "strstr (quotes triple) s = Some x" using 1(2) by (auto simp: closing.simps [of triple] split: option.splits)
  obtain u where u: "s = u @ x" using strstr_suffix [OF x] by blast
  show ?case
  proof (cases "esc \<and> last (prev # between s x) = BSL")
    case True
    have "x \<noteq> []" using strstr_Some_nonempty [OF x] by (simp add: quotes_def)
    then have "x = [hd x] @ tl x" by simp
    moreover obtain v where "tl x = v @ e \<and> starts_with (quotes triple) e"
      using 1(1) [OF x True] 1(2) [unfolded closing.simps [of triple esc prev]] x True by auto
    ultimately show ?thesis using u by (metis append.assoc)
  next
    case False
    with 1(2) [unfolded closing.simps [of triple esc prev]] x u strstr_starts [OF x] show ?thesis by auto
  qed
qed

lemma extend_quotes_suffix:
  "starts_with (quotes True) e \<Longrightarrow> \<exists>u. e = u @ extend_quotes e \<and> starts_with (quotes True) (extend_quotes e)"
proof (induction e)
  case (Cons c e)
  show ?case
  proof (cases "peekn 3 (c # e) = DQ")
    case True
    then obtain a b r where "e = a # b # DQ # r" 
      by (cases e; cases "tl e"; cases "tl (tl e)") (auto simp: numeral_3_eq_3)
    with Cons.prems have "starts_with (quotes True) e" by (auto simp: quotes_def)
    with Cons.IH True show ?thesis by (metis append_Cons extend_quotes.simps(2))
  qed (use Cons.prems in auto)
qed (simp add: quotes_def)

lemma string_token_adv:
  assumes "peek p = DQ"
  shows "(string_token esc p l = Inr (k, q, l') \<longrightarrow> adv (tl p) l q l' \<and> k \<noteq> TEOF \<and> k \<noteq> TNewline)
   \<and> (string_token esc p l = Inl e \<longrightarrow> adv p l (epc e) (eline e))"
proof (cases "peekn 1 p = DQ \<and> peekn 2 p = DQ")
  case True
  then obtain s where p: "p = DQ # DQ # DQ # s"
    using assms by (cases p; cases "tl p"; cases "tl (tl p)") (auto simp: numeral_2_eq_2)
  show ?thesis
  proof (cases "closing True esc DQ s")
    case (Some x)
    obtain u v where u: "s = u @ v @ extend_quotes x" "starts_with (quotes True) (extend_quotes x)"
      using closing_suffix [OF Some] extend_quotes_suffix by blast
    let ?e = "extend_quotes x"
    have "adv (tl p) l s l" unfolding p using adv_drop [of 2 "DQ # DQ # s" l] by simp
    moreover have "adv s l ?e (l + count_lf (between s ?e))" by (rule adv_between [of _ "u @ v"]) (simp add: u(1))
    moreover have "take 3 ?e = [DQ, DQ, DQ]"
      using starts_with_prefix [OF u(2)] by (metis append_eq_conv_conj quotes_def length_Cons list.size(3) numeral_3_eq_3)
    then have "adv ?e m (drop 3 ?e) m" for m by (intro adv_drop) simp
    ultimately have "adv (tl p) l (drop 3 ?e) (l + count_lf (between s ?e))" by (blast intro: adv_trans)
    then show ?thesis using Some p by (auto simp: string_token_def Let_def)
  qed (use p in \<open>auto simp: string_token_def Let_def tok_err_def\<close>)
next
  case False
  show ?thesis
  proof (cases "closing False esc DQ (tl p)")
    case (Some x)
    obtain u where u: "tl p = u @ x" "starts_with (quotes False) x" using closing_suffix [OF Some] by blast
    have "adv (tl p) l x (l + count_lf (between (tl p) x))" by (rule adv_between [OF u(1)])
    moreover have "adv x m (tl x) m" for m
      using u(2) by (intro adv_tl) (cases x; auto simp: quotes_def)
    ultimately have "adv (tl p) l (tl x) (l + count_lf (between (tl p) x))" by (blast intro: adv_trans)
    then show ?thesis using Some False by (auto simp: string_token_def Let_def)
  qed (use False in \<open>auto simp: string_token_def Let_def tok_err_def\<close>)
qed

text \<open>One token.  A newline is counted with the following token.\<close>

lemma op_token_adv:
  "LF \<notin> set (take n p) \<Longrightarrow> op_token n p l = Inr (k, q, l') \<Longrightarrow> adv p l q l' \<and> k \<noteq> TEOF \<and> k \<noteq> TNewline"
  using adv_drop by (auto simp: op_token_def)

lemma ident_token_adv:
  assumes "ident_token p l = (k, q, l')"
  shows "adv (tl p) l q l' \<and> k \<noteq> TNewline"
proof -
  have "adv (tl p) l (dropWhile is_ident_char (tl p)) l"
    by (rule adv_dropWhile) (auto simp: is_ident_char_def c_class_defs)
  with assms show ?thesis by (auto simp: ident_token_def Let_def split: if_splits)
qed

lemma op1_adv: "op_token 1 p l = Inr (k, q, l') \<Longrightarrow> peek p \<noteq> LF \<Longrightarrow> p \<noteq> [] \<Longrightarrow> adv (tl p) l q l' \<and> k \<noteq> TEOF \<and> k \<noteq> TNewline"
  by (cases p) (auto simp: op_token_def)

lemma op2_adv: "op_token 2 p l = Inr (k, q, l') \<Longrightarrow> peekn 1 p \<noteq> LF \<Longrightarrow> p \<noteq> [] \<Longrightarrow> adv (tl p) l q l' \<and> k \<noteq> TEOF \<and> k \<noteq> TNewline"
  using adv_tl [of "tl p" l] by (cases p) (auto simp: op_token_def numeral_2_eq_2 drop_Suc)

lemma lex_token_adv:
  assumes "peek p \<noteq> NUL" "\<not> is_nl (peek p)" "lex_token p l = Inr (k, q, l')"
  shows "adv (tl p) l q l' \<and> k \<noteq> TNewline"
proof -
  have ne: "p \<noteq> []" and lf: "peek p \<noteq> LF" using assms(1,2) by (auto simp: is_nl_def)
  note readers = op1_adv [OF _ lf ne, of l k q l'] op2_adv [OF _ _ ne, of l k q l']
    GetNumber_adv [of p l k q l'] hex_token_adv [of "tl p" l k q l'] string_token_adv [of p False l k q l']
    ident_token_adv [of p l k q l']
  show ?thesis
  proof (cases "peek p = CHR ''e'' \<and> peekn 1 p = DQ")
    case True
    then have dq: "peek (tl p) = DQ" by (cases p) auto
    from True assms(3) have "string_token True (tl p) l = Inr (k, q, l')"
      by (simp add: lex_token_def Let_def is_nl_def lone_ops_def)
    with string_token_adv [OF dq, of True l k q l'] have "adv (tl (tl p)) l q l'" "k \<noteq> TNewline" by auto
    then show ?thesis using adv_trans [OF adv_tl [of "tl p" l]] dq by simp
  next
    case False
    with assms(3) assms(1,2) readers show ?thesis
      unfolding lex_token_def Let_def by (simp split: if_splits) (auto simp: tok_err_def)
  qed
qed

lemma lex_token_error:
  assumes "lex_token p l = Inl e"
  shows "adv p l (epc e) (eline e)"
proof -
  have ne: "p \<noteq> []" and lf: "peek p \<noteq> LF" using assms by (auto simp: lex_token_def is_nl_def)
  from adv_tl [OF lf] have tl: "adv (tl p) l q m \<Longrightarrow> adv p l q m" for q m by (rule adv_trans)
  have str: "adv (tl p) l (epc e) (eline e)" if "peekn 1 p = DQ" "string_token True (tl p) l = Inl e"
    using string_token_adv [of "tl p" True l] that ne by (cases p) auto
  show ?thesis
    using assms tl str GetNumber_adv [of p l] hex_token_adv [of "tl p" l] string_token_adv [of p False l]
    unfolding lex_token_def Let_def op_token_def tok_err_def by (auto split: if_splits)
qed

lemma NextToken_adv:
  assumes "CR \<notin> set (pc t)"
  defines "l \<equiv> (if tok t = TNewline then line t + 1 else line t)"
  shows "NextToken t = Inr t' \<Longrightarrow> adv (pc t) l (pc t') (if tok t' = TNewline then line t' + 1 else line t')"
    and "NextToken t = Inl e \<Longrightarrow> adv (pc t) l (epc e) (eline e)"
proof -
  note blank = skip_blank_adv [OF assms(1), of l]
  have tok: "adv p m q (if k = TNewline then m' + 1 else m')"
    if "lex_token p m = Inr (k, q, m')" "CR \<notin> set p" for p m k q m'
  proof (cases "peek p = NUL \<or> is_nl (peek p)")
    case True
    then show ?thesis using that adv_SkipNewline [OF that(2), of m q]
      by (auto simp: lex_token_def Let_def prod_eq_iff split: if_splits)
  next
    case False
    then have "peek p \<noteq> LF" by (auto simp: is_nl_def)
    from adv_trans [OF adv_tl [OF this]] lex_token_adv [OF _ _ that(1)] False show ?thesis by auto
  qed
  show "adv (pc t) l (pc t') (if tok t' = TNewline then line t' + 1 else line t')" if n: "NextToken t = Inr t'"
  proof -
    from n obtain p m k q m' where b: "skip_blank (pc t) l = Inr (p, m)" "lex_token p m = Inr (k, q, m')"
      "t' = \<lparr>pc = q, line = m', tok = k\<rparr>"
      unfolding NextToken_def l_def [symmetric] by (auto simp: bind_r_Inr)
    from blank b(1) have a: "adv (pc t) l p m" by simp
    from adv_trans [OF a tok [OF b(2) adv_no_CR [OF a assms(1)]]] b(3) show ?thesis by (simp split: if_splits)
  qed
  show "adv (pc t) l (epc e) (eline e)" if n: "NextToken t = Inl e"
    using n blank unfolding NextToken_def l_def [symmetric]
    by (auto simp: bind_r_Inl adv_ok_def intro: adv_trans lex_token_error)
qed

text \<open>The tokenizer after \<open>n\<close> further calls of \<^verbatim>\<open>NextToken\<close>.\<close>

fun nth_token :: "nat \<Rightarrow> string \<Rightarrow> (tok_error, tokenizer) result" where
  "nth_token 0 code = Tokenizer_new code"
| "nth_token (Suc n) code = bind_r (nth_token n code) NextToken"



text \<open>Progress: every token but the last shortens the text.\<close>

lemma NextToken_progress:
  assumes "NextToken t = Inr t'"
  shows "length (pc t') \<le> length (pc t)" "tok t' \<noteq> TEOF \<Longrightarrow> length (pc t') < length (pc t)"
proof -
  from assms obtain p m where b: "skip_blank (pc t) (if tok t = TNewline then line t + 1 else line t) = Inr (p, m)"
    "lex_token p m = Inr (tok t', pc t', line t')"
    unfolding NextToken_def by (auto simp: bind_r_Inr)
  have "length (pc t') < length p" if "peek p \<noteq> NUL"
  proof (cases "is_nl (peek p)")
    case True
    with b(2) that show ?thesis using length_SkipNewline_less [OF True, of m] by (simp add: lex_token_def Let_def)
  next
    case False
    from lex_token_adv [OF that False b(2)] adv_length have "length (pc t') \<le> length (tl p)" by blast
    moreover have "p \<noteq> []" using that by auto
    ultimately show ?thesis by (cases p) auto
  qed
  moreover have "tok t' = TEOF \<and> pc t' = p" if "peek p = NUL" using b(2) that by (simp add: lex_token_def)
  ultimately show "length (pc t') \<le> length (pc t)" "tok t' \<noteq> TEOF \<Longrightarrow> length (pc t') < length (pc t)"
    using skip_blank_length [OF b(1)] by fastforce+
qed

lemma nth_token_length:
  "nth_token n code = Inr t \<Longrightarrow> (\<And>i s. i \<le> n \<Longrightarrow> nth_token i code = Inr s \<Longrightarrow> tok s \<noteq> TEOF) \<Longrightarrow>
     length (pc t) + Suc n \<le> length (cstr code)"
proof (induction n arbitrary: t)
  case 0
  then have n: "NextToken \<lparr>pc = cstr code, line = 1, tok = TEOF\<rparr> = Inr t" by (simp add: Tokenizer_new_def)
  from NextToken_progress(2) [OF n] 0 show ?case by auto
next
  case (Suc n)
  then obtain s where s: "nth_token n code = Inr s" "NextToken s = Inr t" by (auto simp: bind_r_Inr)
  have "length (pc s) + Suc n \<le> length (cstr code)"
    by (rule Suc.IH [OF s(1)]) (rule Suc.prems(2), simp_all)
  moreover have "length (pc t) < length (pc s)" using NextToken_progress(2) [OF s(2)] Suc.prems by blast
  ultimately show ?case by simp
qed

text \<open>
  Tokenizing ends.  Whatever the text, after at most as many tokens as it has characters
  the tokenizer has thrown an error or reached the end of the script.
\<close>

theorem tokens_end:
  "\<exists>n \<le> length (cstr code). case nth_token n code of Inl e \<Rightarrow> True | Inr t \<Rightarrow> tok t = TEOF"
proof (rule ccontr)
  assume "\<not> ?thesis"
  then have live: "\<exists>t. nth_token n code = Inr t \<and> tok t \<noteq> TEOF" if "n \<le> length (cstr code)" for n
    using that by (auto split: sum.splits) (metis sum.exhaust)
  then obtain t where t: "nth_token (length (cstr code)) code = Inr t" by blast
  have "length (pc t) + Suc (length (cstr code)) \<le> length (cstr code)"
    by (rule nth_token_length [OF t]) (use live in fastforce)
  then show False by simp
qed

section \<open>The operators\<close>

definition script_operators :: "string list" where
  "script_operators = [''.'', ''<'', ''<='', ''<>'', ''>'', ''>='', ''!'', ''!='', ''='', ''=='',
     ''+'', ''++'', ''&'', ''&&'', ''|'', ''||'', ''{'', ''}'', ''('', '')'', ''['', '']'', '','', ''?'', '':'',
     ''-'', ''*'', ''/'', ''%'']"

lemma take1: "peek p \<noteq> NUL \<Longrightarrow> take (Suc 0) p = [peek p]"
  by (cases p) auto

lemma take2: "peek p \<noteq> NUL \<Longrightarrow> peekn (Suc 0) p \<noteq> NUL \<Longrightarrow> take 2 p = [peek p, peekn (Suc 0) p]"
  by (cases p; cases "tl p") (auto simp: numeral_2_eq_2)

lemma lex_token_op: "lex_token p l = Inr (TOp v, q, l') \<Longrightarrow> v \<in> op_i ` set script_operators"
proof -
  assume a: "lex_token p l = Inr (TOp v, q, l')"
  have n: "GetNumber p l \<noteq> Inr (TOp v, q, l')" "hex_token (tl p) l \<noteq> Inr (TOp v, q, l')"
    "string_token b r l \<noteq> Inr (TOp v, q, l')" "ident_token p l \<noteq> (TOp v, q, l')" for b r
    by (auto simp: GetNumber_def hex_token_def string_token_def ident_token_def tok_err_def Let_def bind_r_Inr
        split: if_splits prod.splits option.splits)
  from a n show ?thesis
    by (auto simp: lex_token_def Let_def op_token_def tok_err_def lone_ops_def take1 take2 script_operators_def
        split: if_splits)
qed

text \<open>
  The operators that the tokenizer can produce are exactly the listed ones; the
  assignment operator \<^verbatim>\<open>:=\<close> that the parser of assignments inside expressions asks for
  is not among them.
\<close>

theorem operators_of_the_language:
  "(\<forall>t t' v. NextToken t = Inr t' \<and> tok t' = TOp v \<longrightarrow> v \<in> op_i ` set script_operators)
   \<and> (\<forall>s \<in> set script_operators. \<exists>t. Tokenizer_new s = Inr t \<and> tok t = TOp (op_i s))
   \<and> op_i '':='' \<notin> op_i ` set script_operators"
proof (intro conjI)
  show "\<forall>t t' v. NextToken t = Inr t' \<and> tok t' = TOp v \<longrightarrow> v \<in> op_i ` set script_operators"
  proof (intro allI impI)
    fix t t' v assume a: "NextToken t = Inr t' \<and> tok t' = TOp v"
    then obtain p m q m' where "lex_token p m = Inr (TOp v, q, m')"
      unfolding NextToken_def by (auto simp: bind_r_Inr)
    then show "v \<in> op_i ` set script_operators" by (rule lex_token_op)
  qed
  have "list_all (\<lambda>s. case Tokenizer_new s of Inr t \<Rightarrow> tok t = TOp (op_i s) | Inl e \<Rightarrow> False) script_operators"
    by code_simp
  then show "\<forall>s \<in> set script_operators. \<exists>t. Tokenizer_new s = Inr t \<and> tok t = TOp (op_i s)"
    by (auto simp: list_all_iff split: sum.splits) (metis sum.exhaust)
  have "list_all (\<lambda>s. op_i '':='' \<noteq> op_i s) script_operators" by code_simp
  then show "op_i '':='' \<notin> op_i ` set script_operators" by (auto simp: list_all_iff)
qed

theorem operators_of_the_language_witness:
  "op_i ''<>'' \<in> op_i ` set script_operators \<and> (\<exists>t. Tokenizer_new ''<>'' = Inr t \<and> tok t = TOp (op_i ''<>''))"
  using operators_of_the_language by (auto simp: script_operators_def)

end
