(* ===== verification/Token_Print.thy ===== *)
theory Token_Print
  imports Tokenizer
begin

text \<open>
  The tokenizer reads back what is printed: for identifiers, decimal integers, operators and
  quoted strings, written one after another with blanks in between, \<open>NextToken\<close> gives the
  same tokens in the same order.  Two closed examples show literals that are not read as
  their notation promises.
\<close>

section \<open>Lexemes\<close>

definition dec_val :: "string \<Rightarrow> int" where
  "dec_val s = foldl (\<lambda>a c. a * 10 + digit_val c) 0 s"

definition is_name :: "string \<Rightarrow> bool" where
  "is_name s \<longleftrightarrow> s \<noteq> [] \<and> (hd s = CHR ''_'' \<or> c_isalpha (hd s)) \<and> list_all is_ident_char s \<and> \<not> streqi s ''__END__''"

definition is_decimal :: "string \<Rightarrow> bool" where
  "is_decimal s \<longleftrightarrow> s \<noteq> [] \<and> list_all c_isdigit s \<and> dec_val s \<le> INT_MAX"

definition is_quoted :: "string \<Rightarrow> bool" where
  "is_quoted s \<longleftrightarrow> DQ \<notin> set s \<and> NUL \<notin> set s \<and> int (length s) \<le> INT_MAX"

text \<open>A spelling together with the token it spells.\<close>

definition lexeme :: "string \<times> token \<Rightarrow> bool" where
  "lexeme x = (case x of (s, k) \<Rightarrow>
     (case k of
        TIdent n \<Rightarrow> s = n \<and> is_name n
      | TInt i \<Rightarrow> is_decimal s \<and> i = dec_val s
      | TOp v \<Rightarrow> s \<in> set script_operators \<and> v = op_i s
      | TString b \<Rightarrow> s = DQ # b @ [DQ] \<and> is_quoted b
      | _ \<Rightarrow> False))"

definition print_tokens :: "(string \<times> token) list \<Rightarrow> string" where
  "print_tokens xs = concat (map (\<lambda>(s, k). s @ '' '') xs)"

section \<open>Reading one lexeme\<close>

lemma dropWhile_stop: "list_all P xs \<Longrightarrow> \<not> P y \<Longrightarrow> dropWhile P (xs @ y # ys) = y # ys"
  by (induction xs) auto

lemma SkipWhitespace_blank [simp]: "SkipWhitespace (CHR '' '' # p) = SkipWhitespace p"
  by (simp add: SkipWhitespace_def is_blank_def)

lemma skip_blank_blank [simp]: "skip_blank (CHR '' '' # p) l = skip_blank p l"
  by (simp add: skip_blank.simps [of "CHR '' '' # p"] skip_blank.simps [of p] blank_step_def)

text \<open>A first character at which skipping stops.\<close>

definition stops :: "string \<Rightarrow> bool" where
  "stops p \<longleftrightarrow> \<not> is_blank (peek p) \<and> peek p \<noteq> BSL \<and> \<not> is_nl (peek p) \<and> peek p \<noteq> CHR ''#''
     \<and> \<not> (peek p = CHR ''/'' \<and> peekn 1 p = CHR ''*'') \<and> \<not> (peek p = CHR ''*'' \<and> peekn 1 p = CHR ''/'')
     \<and> \<not> (peek p = CHR ''['' \<and> peekn 1 p = CHR ''*'') \<and> \<not> (peek p = CHR ''*'' \<and> peekn 1 p = CHR '']'')"

lemma skip_blank_stops: "stops p \<Longrightarrow> skip_blank p l = Inr (p, l)"
proof -
  assume s: "stops p"
  then have "SkipWhitespace p = p" by (cases p) (auto simp: stops_def SkipWhitespace_def)
  with s show ?thesis by (auto simp: skip_blank.simps [of p] blank_step_def stops_def)
qed

lemma lex_name:
  assumes "is_name s"
  shows "lex_token (s @ CHR '' '' # r) l = Inr (TIdent s, CHR '' '' # r, l) \<and> stops (s @ CHR '' '' # r)"
proof -
  obtain c w where s: "s = c # w" using assms by (cases s) (auto simp: is_name_def)
  have c: "c = CHR ''_'' \<or> c_isalpha c" and w: "list_all is_ident_char w" using assms s by (auto simp: is_name_def)
  have ne: "c \<noteq> NUL" "\<not> is_nl c" "\<not> is_blank c" "c \<noteq> BSL" "c \<notin> set ''.<>!=+&|{}()[],?:-*/%$#''" "c \<noteq> DQ" "\<not> c_isdigit c"
    using c by (auto simp: c_class_defs is_nl_def is_blank_def)
  have "peek (w @ CHR '' '' # r) \<noteq> DQ" using w by (cases w) (auto simp: is_ident_char_def c_class_defs)
  moreover have "dropWhile is_ident_char (w @ CHR '' '' # r) = CHR '' '' # r"
    by (rule dropWhile_stop [OF w]) (simp add: is_ident_char_def c_class_defs)
  moreover have "between (s @ CHR '' '' # r) (CHR '' '' # r) = s" by simp
  ultimately show ?thesis using ne c assms s
    by (auto simp: lex_token_def Let_def lone_ops_def ident_token_def is_name_def stops_def)
qed

lemma number_loop_digits:
  "list_all c_isdigit ds \<Longrightarrow> ds \<noteq> [] \<Longrightarrow> 0 \<le> a \<Longrightarrow> foldl (\<lambda>a c. a * 10 + digit_val c) a ds \<le> INT_MAX \<Longrightarrow>
   number_loop (ds @ CHR '' '' # r) False a (fp_of_int binary64 a) pl =
     (CHR '' '' # r, False, foldl (\<lambda>a c. a * 10 + digit_val c) a ds,
      fp_of_int binary64 (foldl (\<lambda>a c. a * 10 + digit_val c) a ds), pl)"
proof (induction ds arbitrary: a)
  case (Cons d ds)
  let ?v = "digit_val d" and ?F = "\<lambda>a. foldl (\<lambda>a c. a * 10 + digit_val c) a ds"
  have d: "0 \<le> ?v" "?v \<le> 9" "d \<noteq> CHR ''.''" using Cons.prems(1) by (auto simp: digit_val_def c_class_defs)
  have mono: "b \<le> foldl (\<lambda>a c. a * 10 + digit_val c) b es" if "0 \<le> b" "list_all c_isdigit es" for b es
    using that
  proof (induction es arbitrary: b)
    case (Cons e es)
    have "0 \<le> digit_val e" using Cons.prems(2) by (auto simp: digit_val_def c_class_defs)
    with Cons.prems Cons.IH [of "b * 10 + digit_val e"] show ?case by simp
  qed simp
  have le: "a * 10 + ?v \<le> INT_MAX"
    using mono [of "a * 10 + ?v" ds] Cons.prems d by simp
  then have g: "gather_int False a ?v = (False, a * 10 + ?v)"
    using Cons.prems(3) d by (simp add: gather_int_def int_limits)
  have f: "times10_plus (fp_of_int binary64 a) ?v = fp_of_int binary64 (a * 10 + ?v)"
    unfolding times10_plus_def using Cons.prems(3) d le
    by (simp add: fp_mul_int fp_add_int int_limits)
  show ?case
  proof (cases ds)
    case Nil
    then show ?thesis using g f d by (simp add: number_loop.simps [of "d # _"] c_class_defs Let_def)
  next
    case (Cons e es)
    then have "c_isdigit e" using Cons.prems(1) by simp
    then show ?thesis using g f d Cons.IH [of "a * 10 + ?v"] Cons.prems Cons
      by (simp add: number_loop.simps [of "d # _"] Let_def)
  qed
qed simp

lemma dec_val_nonneg: "list_all c_isdigit ds \<Longrightarrow> 0 \<le> a \<Longrightarrow> 0 \<le> foldl (\<lambda>a c. a * 10 + digit_val c) a ds"
  by (induction ds arbitrary: a) (auto simp: digit_val_def c_class_defs)

lemma lex_decimal:
  assumes "is_decimal s"
  shows "lex_token (s @ CHR '' '' # r) l = Inr (TInt (dec_val s), CHR '' '' # r, l) \<and> stops (s @ CHR '' '' # r)"
proof -
  obtain c w where s: "s = c # w" using assms by (cases s) (auto simp: is_decimal_def)
  have c: "c_isdigit c" using assms s by (auto simp: is_decimal_def)
  have ne: "c \<noteq> NUL" "\<not> is_nl c" "\<not> is_blank c" "c \<noteq> BSL" "c \<notin> set ''.<>!=+&|{}()[],?:-*/%$#e''" "c \<noteq> DQ"
    using c by (auto simp: c_class_defs is_nl_def is_blank_def)
  have v: "0 \<le> dec_val s" "dec_val s \<le> INT_MAX"
    using assms dec_val_nonneg [of s 0] by (auto simp: is_decimal_def dec_val_def)
  then have b: "dec_val s < 2 ^ 53" by (simp add: int_limits)
  have "number_loop (s @ CHR '' '' # r) False 0 (fp_of_int binary64 0) (fp_of_int binary64 1)
      = (CHR '' '' # r, False, dec_val s, fp_of_int binary64 (dec_val s), fp_of_int binary64 1)"
    using number_loop_digits [of s 0 r "fp_of_int binary64 1"] assms by (simp add: is_decimal_def dec_val_def)
  then have "GetNumber (s @ CHR '' '' # r) l = Inr (TInt (dec_val s), CHR '' '' # r, l)"
    using fp_div_1 [OF v(1) b] fp_not_huge [OF v(1) b] v(2) by (simp add: GetNumber_def Let_def)
  then show ?thesis using ne c s by (auto simp: lex_token_def Let_def lone_ops_def stops_def)
qed

lemma lex_operator:
  assumes "s \<in> set script_operators"
  shows "lex_token (s @ CHR '' '' # r) l = Inr (TOp (op_i s), CHR '' '' # r, l) \<and> stops (s @ CHR '' '' # r)"
  using assms unfolding script_operators_def list.set insert_iff empty_iff
  by (elim disjE FalseE;
      simp add: lex_token_def Let_def op_token_def lone_ops_def stops_def is_nl_def is_blank_def c_isdigit_def cc_def)

lemma strstr_quote: "DQ \<notin> set b \<Longrightarrow> strstr [DQ] (b @ DQ # r) = Some (DQ # r)"
  by (induction b) auto

lemma lex_quoted:
  assumes "is_quoted b"
  shows "\<exists>l'. lex_token (DQ # b @ DQ # CHR '' '' # r) l = Inr (TString b, CHR '' '' # r, l') \<and> stops (DQ # b @ DQ # CHR '' '' # r)"
proof -
  have q: "DQ \<notin> set b" "NUL \<notin> set b" "is_int32 (int (length b))"
    using assms by (auto simp: is_quoted_def is_int32_def int_limits)
  have "\<not> (peek (b @ DQ # CHR '' '' # r) = DQ \<and> peekn 1 (b @ DQ # CHR '' '' # r) = DQ)"
    using q(1) by (cases b) auto
  moreover have "closing False False DQ (b @ DQ # CHR '' '' # r) = Some (DQ # CHR '' '' # r)"
    using strstr_quote [OF q(1)] by (simp add: closing.simps quotes_def)
  moreover have "saved_bytes (b @ DQ # CHR '' '' # r) (int (length b)) False = b"
    by (simp add: saved_bytes_def Let_def)
  ultimately have "\<exists>l'. string_token False (DQ # b @ DQ # CHR '' '' # r) l = Inr (TString b, CHR '' '' # r, l')"
    using q by (auto simp: string_token_def Let_def cstr_id numeral_2_eq_2)
  moreover have "\<not> c_isdigit DQ" "DQ \<notin> set ''.<>!=+&|{}()[],?:-*/%$#e''" by (auto simp: c_class_defs)
  ultimately show ?thesis
    by (auto simp: lex_token_def Let_def lone_ops_def stops_def is_nl_def is_blank_def)
qed

lemma lex_lexeme:
  assumes "lexeme (s, k)"
  shows "\<exists>l'. lex_token (s @ CHR '' '' # r) l = Inr (k, CHR '' '' # r, l') \<and> stops (s @ CHR '' '' # r)"
proof (cases k)
  case (TIdent n)
  with assms lex_name [of s r l] show ?thesis by (simp add: lexeme_def)
next
  case (TOp v)
  with assms lex_operator [of s r l] show ?thesis by (simp add: lexeme_def)
next
  case (TInt i)
  with assms lex_decimal [of s r l] show ?thesis by (simp add: lexeme_def)
next
  case (TString b)
  with assms lex_quoted [of b r l] show ?thesis by (simp add: lexeme_def)
qed (use assms in \<open>simp_all add: lexeme_def\<close>)

section \<open>The round trip\<close>

lemma lexeme_no_NUL:
  assumes "lexeme (s, k)"
  shows "NUL \<notin> set s"
proof (cases k)
  case (TOp v)
  have "list_all (\<lambda>s. NUL \<notin> set s) script_operators" by code_simp
  with TOp assms show ?thesis by (simp add: lexeme_def list_all_iff)
next
  case (TIdent n)
  with assms have "list_all is_ident_char s" by (simp add: lexeme_def is_name_def)
  moreover have "\<not> is_ident_char NUL" by (simp add: is_ident_char_def)
  ultimately show ?thesis unfolding list_all_iff by blast
next
  case (TInt i)
  with assms have "list_all c_isdigit s" by (simp add: lexeme_def is_decimal_def)
  then show ?thesis unfolding list_all_iff by (metis c_class_NUL(1))
next
  case (TString b)
  with assms show ?thesis by (simp add: lexeme_def is_quoted_def)
qed (use assms in \<open>simp_all add: lexeme_def\<close>)

lemma print_tokens_Cons: "print_tokens ((s, k) # xs) = s @ CHR '' '' # print_tokens xs"
  by (simp add: print_tokens_def)

lemma print_no_NUL: "\<forall>x \<in> set xs. lexeme x \<Longrightarrow> NUL \<notin> set (print_tokens xs)"
  by (induction xs) (auto simp: print_tokens_def dest: lexeme_no_NUL)

lemma NextToken_print:
  assumes "lexeme (s, k)" "pc t = p \<or> pc t = CHR '' '' # p" "p = print_tokens ((s, k) # xs)"
  shows "\<exists>t'. NextToken t = Inr t' \<and> tok t' = k \<and> pc t' = CHR '' '' # print_tokens xs"
proof -
  let ?l = "if tok t = TNewline then line t + 1 else line t"
  obtain l' where l: "lex_token p ?l = Inr (k, CHR '' '' # print_tokens xs, l')" "stops p"
    using lex_lexeme [OF assms(1)] assms(3) print_tokens_Cons by metis
  have "skip_blank (pc t) ?l = Inr (p, ?l)" using assms(2) skip_blank_stops [OF l(2)] by auto
  with l(1) show ?thesis by (simp add: NextToken_def)
qed

lemma NextToken_print_end: "pc t = CHR '' '' # print_tokens [] \<or> pc t = [] \<Longrightarrow> \<exists>t'. NextToken t = Inr t' \<and> tok t' = TEOF"
proof -
  assume "pc t = CHR '' '' # print_tokens [] \<or> pc t = []"
  moreover have "skip_blank [] l = Inr ([], l)" for l by (rule skip_blank_stops) (simp add: stops_def)
  ultimately show ?thesis by (auto simp: NextToken_def print_tokens_def lex_token_def)
qed

lemma nth_token_print:
  assumes "\<forall>x \<in> set xs. lexeme x" "i < length xs"
  shows "\<exists>t. nth_token i (print_tokens xs) = Inr t \<and> tok t = snd (xs ! i) \<and> pc t = CHR '' '' # print_tokens (drop (Suc i) xs)"
  using assms(2)
proof (induction i)
  case 0
  then obtain s k ys where xs: "xs = (s, k) # ys" by (cases xs) auto
  have "cstr (print_tokens xs) = print_tokens xs" by (rule cstr_id [OF print_no_NUL [OF assms(1)]])
  then show ?case
    using NextToken_print [of s k "\<lparr>pc = cstr (print_tokens xs), line = 1, tok = TEOF\<rparr>" "print_tokens xs" ys] assms(1) xs
    by (simp add: Tokenizer_new_def)
next
  case (Suc i)
  then obtain t where t: "nth_token i (print_tokens xs) = Inr t" "pc t = CHR '' '' # print_tokens (drop (Suc i) xs)" by auto
  obtain s k where sk: "xs ! Suc i = (s, k)" by fastforce
  have d: "drop (Suc i) xs = (s, k) # drop (Suc (Suc i)) xs" using Suc.prems sk Cons_nth_drop_Suc by metis
  have "lexeme (s, k)" using assms(1) Suc.prems sk nth_mem by metis
  from NextToken_print [OF this _ refl] t d sk show ?case by simp
qed

text \<open>
  C20: round trip.  Print any sequence of identifiers, decimal integers up to
  \<^verbatim>\<open>INT_MAX\<close>, operators and quoted strings, separated by blanks: the tokenizer reads
  exactly these tokens, in this order, and then the end of the script.
\<close>

theorem tokens_roundtrip:
  assumes "\<forall>x \<in> set xs. lexeme x"
  shows "(\<forall>i < length xs. \<exists>t. nth_token i (print_tokens xs) = Inr t \<and> tok t = snd (xs ! i))
    \<and> (\<exists>t. nth_token (length xs) (print_tokens xs) = Inr t \<and> tok t = TEOF)"
proof
  show "\<forall>i < length xs. \<exists>t. nth_token i (print_tokens xs) = Inr t \<and> tok t = snd (xs ! i)"
    using nth_token_print [OF assms] by blast
  show "\<exists>t. nth_token (length xs) (print_tokens xs) = Inr t \<and> tok t = TEOF"
  proof (cases xs)
    case Nil
    then show ?thesis using NextToken_print_end [of "\<lparr>pc = [], line = 1, tok = TEOF\<rparr>"]
      by (simp add: Tokenizer_new_def print_tokens_def cstr_def)
  next
    case (Cons y ys)
    obtain t where "nth_token (length ys) (print_tokens xs) = Inr t" "pc t = CHR '' '' # print_tokens []"
      using nth_token_print [OF assms, of "length ys"] Cons by auto
    then show ?thesis using NextToken_print_end [of t] Cons by simp
  qed
qed

theorem tokens_roundtrip_witness:
  "\<exists>t. nth_token 2 (''a = 25 '') = Inr t \<and> tok t = TInt 25"
proof -
  let ?xs = "[(''a'', TIdent ''a''), (''='', TOp (op_i ''='')), (''25'', TInt 25)]"
  have "list_all lexeme ?xs" by code_simp
  then have "\<forall>x \<in> set ?xs. lexeme x" by (simp only: list_all_iff)
  from tokens_roundtrip [OF this] show ?thesis
    by (auto simp: print_tokens_def dest: spec [of _ 2])
qed

section \<open>Literals that are not what they look like\<close>

text \<open>
  In a string with escapes the closing quote is recognised by looking at one character
  before it only.  A string that ends with an escaped backslash, such as
  \<^verbatim>\<open>e"\\"\<close>, is therefore reported as unterminated.
\<close>

theorem escaped_backslash_at_end:
  "Tokenizer_new (''e'' @ [DQ, BSL, BSL, DQ])
   = tok_err ''Parse error: string missing closing quotation mark'' [DQ, BSL, BSL, DQ] 1"
  by code_simp

end
