(* ===== verification/Expression.thy ===== *)
theory Expression
  imports Avs_Value
begin

text \<open>
  The expression trees that the parser builds (classes of
  \<^verbatim>\<open>core/parser/expression.h\<close>).  A pointer that may be null is an \<open>option\<close>; the
  parallel arrays of a call are a list of pairs.
\<close>

datatype expr =
  ExpRootBlock expr
| ExpConstant AVSValue
| ExpSequence expr expr
| ExpTryCatch expr string expr
| ExpLine expr string int
| ExpBlockConditional expr "expr option" "expr option"
| ExpWhileLoop expr "expr option"
| ExpForLoop string expr expr expr "expr option"
| ExpBreak
| ExpContinue
| ExpConditional expr expr expr
| ExpReturn expr
| ExpOr expr expr
| ExpAnd expr expr
| ExpEqual expr expr
| ExpLess expr expr
| ExpPlus expr expr
| ExpDoublePlus expr expr
| ExpMinus expr expr
| ExpMult expr expr
| ExpDiv expr expr
| ExpMod expr expr
| ExpNegate expr
| ExpNot expr
| ExpVariableReference string
| ExpAssignment string expr bool
| ExpGlobalAssignment string expr
| ExpFunctionCall "string option" expr "(expr \<times> string option) list" bool
| ExpLegacyFunctionDefinition
| ExpFunctionWrapper string
| ExpFunctionDefinition expr "string option" string "bool list" "string list" "string list" "string option" int

fun GetLvalue :: "expr \<Rightarrow> string option" where
  "GetLvalue (ExpVariableReference name) = Some name"
| "GetLvalue _ = None"

section \<open>The balanced tree of a block\<close>

text \<open>\<^verbatim>\<open>trees[i]\<close> is null or holds a balanced tree of \<open>2 ^ i\<close> statements.  Adding a
  statement is like counting in binary; what is carried out of the last place is lost.\<close>

fun insert_tree :: "expr \<Rightarrow> expr option list \<Rightarrow> expr option list" where
  "insert_tree e [] = []"
| "insert_tree e (None # ts) = Some e # ts"
| "insert_tree e (Some t # ts) = None # insert_tree (ExpSequence t e) ts"

fun join_trees :: "expr option \<Rightarrow> expr option list \<Rightarrow> expr option" where
  "join_trees r [] = r"
| "join_trees r (None # ts) = join_trees r ts"
| "join_trees r (Some t # ts) =
     join_trees (case r of None \<Rightarrow> Some t | Some e \<Rightarrow> Some (ExpSequence t e)) ts"

definition no_trees :: "expr option list" where
  "no_trees = replicate 20 None"

definition block_result :: "expr option list \<Rightarrow> expr option" where
  "block_result trees = (case trees of [] \<Rightarrow> None | t # ts \<Rightarrow> join_trees t ts)"

text \<open>What a tree stands for: its statements in order of evaluation, and its depth.\<close>

inductive seq_tree :: "expr \<Rightarrow> expr list \<Rightarrow> nat \<Rightarrow> bool" where
  leaf: "seq_tree e [e] 0"
| node: "seq_tree a xs d \<Longrightarrow> seq_tree b ys d' \<Longrightarrow> seq_tree (ExpSequence a b) (xs @ ys) (Suc (max d d'))"

text \<open>The trees from place \<open>i\<close> on stand for the statements \<open>xs\<close>; higher places are older.\<close>

fun trees_inv :: "nat \<Rightarrow> expr option list \<Rightarrow> expr list \<Rightarrow> bool" where
  "trees_inv i [] xs \<longleftrightarrow> xs = []"
| "trees_inv i (None # ts) xs \<longleftrightarrow> trees_inv (Suc i) ts xs"
| "trees_inv i (Some t # ts) xs \<longleftrightarrow>
     (\<exists>ys zs. xs = ys @ zs \<and> seq_tree t zs i \<and> length zs = 2 ^ i \<and> trees_inv (Suc i) ts ys)"

lemma trees_inv_insert:
  "trees_inv i ts xs \<Longrightarrow> seq_tree e zs i \<Longrightarrow> length zs = 2 ^ i \<Longrightarrow> length (xs @ zs) < 2 ^ (i + length ts) \<Longrightarrow>
     trees_inv i (insert_tree e ts) (xs @ zs)"
proof (induction ts arbitrary: i e xs zs)
  case (Cons t ts)
  show ?case
  proof (cases t)
    case None
    with Cons.prems show ?thesis by auto
  next
    case (Some a)
    with Cons.prems(1) obtain ys ws where w: "xs = ys @ ws" "seq_tree a ws i" "length ws = 2 ^ i" "trees_inv (Suc i) ts ys"
      by auto
    have "seq_tree (ExpSequence a e) (ws @ zs) (Suc i)"
      using seq_tree.node [OF w(2) Cons.prems(2)] by simp
    from Cons.IH [OF w(4) this] Cons.prems w Some show ?thesis by simp
  qed
qed simp

lemma trees_inv_empty: "trees_inv i (replicate n None) []"
  by (induction n arbitrary: i) auto

lemma length_insert_tree [simp]: "length (insert_tree e ts) = length ts"
  by (induction e ts rule: insert_tree.induct) auto

lemma trees_inv_fold:
  assumes "length xs < 2 ^ k"
  shows "trees_inv 0 (fold insert_tree xs (replicate k None)) xs \<and> length (fold insert_tree xs (replicate k None)) = k"
  using assms
proof (induction xs rule: rev_induct)
  case (snoc x xs)
  then have IH: "trees_inv 0 (fold insert_tree xs (replicate k None)) xs" "length (fold insert_tree xs (replicate k None)) = k"
    by simp_all
  from trees_inv_insert [OF IH(1) seq_tree.leaf [of x]] IH(2) snoc.prems show ?case by simp
qed (simp add: trees_inv_empty)

text \<open>The final join: the newer statements \<open>ws\<close> are already in \<open>r\<close>.\<close>

lemma join_trees_inv:
  "trees_inv i ts xs \<Longrightarrow> (\<forall>e. r = Some e \<longrightarrow> (\<exists>d. seq_tree e ws d \<and> d \<le> i \<and> (d = 0 \<or> 2 ^ (d - 1) \<le> length ws))) \<Longrightarrow>
   (r = None \<longrightarrow> ws = []) \<Longrightarrow>
   (join_trees r ts = None \<longrightarrow> xs @ ws = []) \<and>
   (\<forall>e. join_trees r ts = Some e \<longrightarrow> (\<exists>d. seq_tree e (xs @ ws) d \<and> (d = 0 \<or> 2 ^ (d - 1) \<le> length (xs @ ws))))"
proof (induction ts arbitrary: i xs r ws)
  case (Cons t ts)
  show ?case
  proof (cases t)
    case None
    have "\<forall>e. r = Some e \<longrightarrow> (\<exists>d. seq_tree e ws d \<and> d \<le> Suc i \<and> (d = 0 \<or> 2 ^ (d - 1) \<le> length ws))"
      using Cons.prems(2) le_SucI by blast
    with Cons.IH [of "Suc i" xs r ws] Cons.prems None show ?thesis by simp
  next
    case (Some a)
    then obtain ys zs where z: "xs = ys @ zs" "seq_tree a zs i" "length zs = 2 ^ i" "trees_inv (Suc i) ts ys"
      using Cons.prems(1) by auto
    let ?r = "case r of None \<Rightarrow> Some a | Some e \<Rightarrow> Some (ExpSequence a e)"
    have "\<exists>d. seq_tree e (zs @ ws) d \<and> d \<le> Suc i \<and> (d = 0 \<or> 2 ^ (d - 1) \<le> length (zs @ ws))" if "?r = Some e" for e
    proof (cases r)
      case None
      have "(2::nat) ^ (i - 1) \<le> 2 ^ i" by (rule power_increasing) auto
      with None that z Cons.prems(3) show ?thesis by auto
    next
      case (Some b)
      with Cons.prems(2) obtain d where d: "seq_tree b ws d" "d \<le> i" by blast
      have "seq_tree e (zs @ ws) (Suc (max i d))" using seq_tree.node [OF z(2) d(1)] that Some by simp
      moreover have "max i d = i" using d(2) by simp
      ultimately show ?thesis using z(3) by (intro exI [of _ "Suc i"]) simp
    qed
    moreover have "?r = None \<longrightarrow> zs @ ws = []" by (simp split: option.split)
    ultimately show ?thesis using Cons.IH [OF z(4), of ?r "zs @ ws"] Some z(1) by simp
  qed
qed auto

text \<open>
  The tree of a block is right and shallow.  For a block of fewer than \<open>2 ^ 20\<close>
  statements, the tree that \<^verbatim>\<open>ParseBlock\<close> builds evaluates exactly these statements in
  order, and its depth \<open>d\<close> is logarithmic: \<open>2 ^ (d - 1)\<close> is at most their number.
\<close>

theorem block_tree_balanced:
  assumes "xs \<noteq> []" "length xs < 2 ^ 20"
  shows "\<exists>e d. block_result (fold insert_tree xs no_trees) = Some e \<and> seq_tree e xs d
    \<and> (d = 0 \<or> 2 ^ (d - 1) \<le> length xs)"
proof -
  obtain t ts where ts: "fold insert_tree xs no_trees = t # ts" "trees_inv 0 (t # ts) xs"
    using trees_inv_fold [OF assms(2)] unfolding no_trees_def by (metis length_0_conv list.exhaust zero_neq_numeral)
  have j: "join_trees None (t # ts) = join_trees t ts" by (cases t) auto
  from join_trees_inv [OF ts(2), of None "[]"] assms(1) obtain e d
    where "join_trees t ts = Some e" "seq_tree e xs d" "d = 0 \<or> 2 ^ (d - 1) \<le> length xs"
    unfolding j by (cases "join_trees t ts") auto
  then show ?thesis using ts(1) by (auto simp: block_result_def)
qed

theorem block_tree_balanced_witness:
  "\<exists>e d. block_result (fold insert_tree [ExpBreak, ExpContinue, ExpBreak] no_trees) = Some e
     \<and> seq_tree e [ExpBreak, ExpContinue, ExpBreak] d"
  using block_tree_balanced [of "[ExpBreak, ExpContinue, ExpBreak]"] by auto

text \<open>The number that the places spell in binary.\<close>

fun trees_val :: "expr option list \<Rightarrow> nat" where
  "trees_val [] = 0"
| "trees_val (t # ts) = (if t = None then 0 else 1) + 2 * trees_val ts"

lemma trees_val_bound: "trees_val ts < 2 ^ length ts"
  by (induction ts) auto

lemma trees_val_insert: "trees_val (insert_tree e ts) = (trees_val ts + 1) mod 2 ^ length ts"
proof (induction e ts rule: insert_tree.induct)
  case (2 e ts)
  then show ?case using trees_val_bound [of ts] by simp
next
  case (3 e t ts)
  have "2 * ((trees_val ts + 1) mod 2 ^ length ts) = (2 * (trees_val ts + 1)) mod (2 * 2 ^ length ts)"
    by (rule mult_mod_right)
  with 3 show ?case by simp
qed simp

lemma trees_val_fold: "trees_val (fold insert_tree xs ts) = (trees_val ts + length xs) mod 2 ^ length ts"
proof (induction xs rule: rev_induct)
  case Nil
  then show ?case using trees_val_bound [of ts] by simp
next
  case (snoc x xs)
  have "length (fold insert_tree xs ts) = length ts" by (induction xs arbitrary: ts) auto
  with snoc show ?case by (simp add: trees_val_insert mod_Suc_eq)
qed

lemma trees_val_0: "trees_val ts = 0 \<Longrightarrow> ts = replicate (length ts) None"
  by (induction ts) (auto split: if_splits)

text \<open>
  A limit of the same code: a block of exactly \<open>2 ^ 20\<close> statements leaves all twenty
  places empty, so that none of its statements is in the tree and the block counts as empty.
\<close>

theorem block_tree_limit:
  assumes "length xs = 2 ^ 20"
  shows "block_result (fold insert_tree xs no_trees) = None"
proof -
  have v: "trees_val no_trees = 0" by (simp add: no_trees_def numeral_eq_Suc)
  have l: "length (fold insert_tree xs no_trees) = 20"
    by (induction xs rule: rev_induct) (auto simp: no_trees_def)
  have "trees_val (fold insert_tree xs no_trees) = 0"
    by (simp add: trees_val_fold v assms) (simp add: no_trees_def)
  then have "fold insert_tree xs no_trees = replicate 20 None" using trees_val_0 l by metis
  then show ?thesis by (simp add: block_result_def numeral_eq_Suc)
qed

theorem block_tree_limit_witness:
  "block_result (fold insert_tree (replicate (2 ^ 20) ExpBreak) no_trees) = None"
  by (rule block_tree_limit) (rule length_replicate)

section \<open>Well-formed expressions\<close>

text \<open>\<open>C\<close> holds of the constants, \<open>F\<close> of the signature, the names and the float flags of the
  parameters of every function literal.\<close>

fun good_expr ::
    "(AVSValue \<Rightarrow> bool) \<Rightarrow> (string \<Rightarrow> string list \<Rightarrow> bool list \<Rightarrow> bool) \<Rightarrow> expr \<Rightarrow> bool" where
  "good_expr C F (ExpRootBlock e) = good_expr C F e"
| "good_expr C F (ExpConstant v) = C v"
| "good_expr C F (ExpSequence a b) = (good_expr C F a \<and> good_expr C F b)"
| "good_expr C F (ExpTryCatch a i b) = (good_expr C F a \<and> good_expr C F b)"
| "good_expr C F (ExpLine e f l) = good_expr C F e"
| "good_expr C F (ExpBlockConditional i t e) =
     (good_expr C F i \<and> (case t of None \<Rightarrow> True | Some x \<Rightarrow> good_expr C F x)
      \<and> (case e of None \<Rightarrow> True | Some x \<Rightarrow> good_expr C F x))"
| "good_expr C F (ExpWhileLoop c b) = (good_expr C F c \<and> (case b of None \<Rightarrow> True | Some x \<Rightarrow> good_expr C F x))"
| "good_expr C F (ExpForLoop i x y z b) =
     (good_expr C F x \<and> good_expr C F y \<and> good_expr C F z \<and> (case b of None \<Rightarrow> True | Some x \<Rightarrow> good_expr C F x))"
| "good_expr C F ExpBreak = True"
| "good_expr C F ExpContinue = True"
| "good_expr C F (ExpConditional x y z) = (good_expr C F x \<and> good_expr C F y \<and> good_expr C F z)"
| "good_expr C F (ExpReturn e) = good_expr C F e"
| "good_expr C F (ExpOr a b) = (good_expr C F a \<and> good_expr C F b)"
| "good_expr C F (ExpAnd a b) = (good_expr C F a \<and> good_expr C F b)"
| "good_expr C F (ExpEqual a b) = (good_expr C F a \<and> good_expr C F b)"
| "good_expr C F (ExpLess a b) = (good_expr C F a \<and> good_expr C F b)"
| "good_expr C F (ExpPlus a b) = (good_expr C F a \<and> good_expr C F b)"
| "good_expr C F (ExpDoublePlus a b) = (good_expr C F a \<and> good_expr C F b)"
| "good_expr C F (ExpMinus a b) = (good_expr C F a \<and> good_expr C F b)"
| "good_expr C F (ExpMult a b) = (good_expr C F a \<and> good_expr C F b)"
| "good_expr C F (ExpDiv a b) = (good_expr C F a \<and> good_expr C F b)"
| "good_expr C F (ExpMod a b) = (good_expr C F a \<and> good_expr C F b)"
| "good_expr C F (ExpNegate e) = good_expr C F e"
| "good_expr C F (ExpNot e) = good_expr C F e"
| "good_expr C F (ExpVariableReference n) = True"
| "good_expr C F (ExpAssignment n e r) = good_expr C F e"
| "good_expr C F (ExpGlobalAssignment n e) = good_expr C F e"
| "good_expr C F (ExpFunctionCall n f args oop) = (good_expr C F f \<and> list_all (\<lambda>a. good_expr C F (fst a)) args)"
| "good_expr C F ExpLegacyFunctionDefinition = True"
| "good_expr C F (ExpFunctionWrapper n) = True"
| "good_expr C F (ExpFunctionDefinition b n ty fl ns vs fn l) = (good_expr C F b \<and> F ty ns fl)"

end
