(* ===== verification/Script_Parser.thy ===== *)
theory Script_Parser
  imports Token_Print Expression Arg_Match
begin

text \<open>
  The parser of the script language (\<^verbatim>\<open>core/parser/scriptparser.cpp\<close>).  One definition
  per parse function, over a state with the tokenizer, the depth of enclosing loops and the
  functions registered so far.  The functions call each other through the argument \<open>rec\<close>,
  which takes a nonterminal; \<open>parse\<close> ties the knot with fuel.  A loop of the code is a
  nonterminal of its own.
\<close>

section \<open>State and primitive steps\<close>

record script_function =
  sf_name :: string
  sf_params :: string
  sf_body :: expr
  sf_floats :: "bool list"
  sf_param_names :: "string list"

record parser =
  tokenizer :: tokenizer
  loopDepth :: int
  registered :: "script_function list"

text \<open>A null pointer that is dereferenced and a parser that runs out of fuel are errors of their own;
  neither happens (shown below).\<close>

datatype parse_error = ParseError string parser | NullPointer | OutOfFuel

type_synonym 'a parse = "parser \<Rightarrow> (parse_error, 'a \<times> parser) result"

definition bind_p :: "'a parse \<Rightarrow> ('a \<Rightarrow> 'b parse) \<Rightarrow> 'b parse" where
  "bind_p p f s = (case p s of Inl e \<Rightarrow> Inl e | Inr (x, s') \<Rightarrow> f x s')"

definition return_p :: "'a \<Rightarrow> 'a parse" where "return_p x s = Inr (x, s)"

definition ThrowError :: "string \<Rightarrow> 'a parse" where
  "ThrowError msg s = Inl (ParseError msg s)"

definition cur :: "parser \<Rightarrow> token" where "cur s = tok (tokenizer s)"

definition next_token :: "unit parse" where
  "next_token s = (case NextToken (tokenizer s) of
     Inr t \<Rightarrow> Inr ((), s\<lparr>tokenizer := t\<rparr>)
   | Inl e \<Rightarrow> Inl (ParseError (emsg e) (s\<lparr>tokenizer := (tokenizer s)\<lparr>pc := epc e, line := eline e\<rparr>\<rparr>)))"

text \<open>A second tokenizer looks one token ahead.  When it throws, the first has not moved.\<close>

definition lookahead :: "token parse" where
  "lookahead s = (case Tokenizer_copy (tokenizer s) of
     Inr t \<Rightarrow> Inr (tok t, s)
   | Inl e \<Rightarrow> Inl (ParseError (emsg e) s))"

definition is_op :: "string \<Rightarrow> parser \<Rightarrow> bool" where "is_op name s = IsOperator name (tokenizer s)"
definition is_id :: "string \<Rightarrow> parser \<Rightarrow> bool" where "is_id name s = IsIdentifier name (tokenizer s)"

definition is_ident :: "token \<Rightarrow> bool" where "is_ident k = (case k of TIdent _ \<Rightarrow> True | _ \<Rightarrow> False)"
definition is_str :: "token \<Rightarrow> bool" where "is_str k = (case k of TString _ \<Rightarrow> True | _ \<Rightarrow> False)"

definition Expect_msg :: "string \<Rightarrow> string \<Rightarrow> unit parse" where
  "Expect_msg op' msg s = (if is_op op' s then next_token s else ThrowError msg s)"

definition Expect :: "string \<Rightarrow> unit parse" where
  "Expect op' = Expect_msg op' (''Script error: expected `'' @ op' @ [CHR 0x27])"

text \<open>\<^verbatim>\<open>while (tokenizer.IsNewline()) tokenizer.NextToken();\<close> and the like.  The text gets
  shorter with every token before the end.\<close>

definition remaining :: "tokenizer \<Rightarrow> nat" where
  "remaining t = length (pc t) + (if tok t = TEOF then 0 else 1)"

lemma NextToken_remaining:
  assumes "NextToken t = Inr t'"
  shows "tok t \<noteq> TEOF \<Longrightarrow> remaining t' < remaining t" "remaining t' \<le> remaining t"
  using NextToken_progress [OF assms] by (auto simp: remaining_def)

function skip_tokens :: "token \<Rightarrow> unit parse" where
  "skip_tokens k s =
     (if cur s = k \<and> k \<noteq> TEOF
      then (case next_token s of Inl e \<Rightarrow> Inl e | Inr (_, s') \<Rightarrow> skip_tokens k s')
      else Inr ((), s))"
  by pat_completeness auto
termination
proof (relation "measure (\<lambda>(k, s). remaining (tokenizer s))", goal_cases)
  case (2 k s x u s')
  then show ?case using NextToken_remaining(1) [of "tokenizer s"]
    by (auto simp: next_token_def cur_def split: sum.splits)
qed simp

declare skip_tokens.simps [simp del]

section \<open>Nonterminals\<close>

datatype nonterm =
  NBlock bool
| NBlockLoop bool bool "expr option list"
| NStatement
| NIf
| NAssignment
| NAssignmentWithRet
| NConditional
| NOr
| NAnd
| NComparison
| NComparisonLoop "expr option" expr
| NAddition bool
| NMultiplication bool
| NMultiplicationLoop bool expr
| NUnary
| NOOP
| NOOPLoop expr
| NFunction "expr option"
| NCall expr "expr option" bool
| NCallLoop expr "expr option" bool bool "(expr \<times> string option) list" nat
| NAtom
| NFunctionDefinition
| NCaptureLoop bool "string list"
| NParamLoop "string option" "string list" bool bool string "bool list" "string list"

text \<open>A parse function returns an expression or null, and a flag: \<^verbatim>\<open>*stop\<close> of a
  statement, \<^verbatim>\<open>*empty\<close> of a block.\<close>

type_synonym parsed = "expr option \<times> bool"
type_synonym recur = "nonterm \<Rightarrow> parsed parse"

text \<open>A call whose result is never null.\<close>

definition rec_e :: "recur \<Rightarrow> nonterm \<Rightarrow> expr parse" where
  "rec_e rec nt = bind_p (rec nt) (\<lambda>(e, _). case e of Some x \<Rightarrow> return_p x | None \<Rightarrow> (\<lambda>s. Inl NullPointer))"

definition ret_e :: "expr \<Rightarrow> parsed parse" where "ret_e e = return_p (Some e, False)"

definition max_args :: nat where "max_args = 1024"

section \<open>Expressions\<close>

definition ParseAssignmentWithRet :: "recur \<Rightarrow> parsed parse" where
  "ParseAssignmentWithRet rec =
     bind_p (rec_e rec NConditional) (\<lambda>e s.
       if is_op '':='' s then
         (case GetLvalue e of
            None \<Rightarrow> ThrowError (''Script error: left operand of `:='' @ [CHR 0x27] @ '' must be a variable name'') s
          | Some name \<Rightarrow>
              bind_p next_token (\<lambda>_. bind_p (rec_e rec NAssignmentWithRet)
                (\<lambda>e'. ret_e (ExpAssignment name e' True))) s)
       else ret_e e s)"

definition ParseAssignment :: "recur \<Rightarrow> parsed parse" where
  "ParseAssignment rec s =
     (if is_id ''global'' s then
        bind_p next_token (\<lambda>_ s.
          case cur s of
            TIdent name \<Rightarrow>
              bind_p next_token (\<lambda>_. bind_p (Expect ''='') (\<lambda>_. bind_p (rec_e rec NConditional)
                (\<lambda>e. ret_e (ExpGlobalAssignment name e)))) s
          | _ \<Rightarrow> ThrowError (''Script error: `global'' @ [CHR 0x27] @ '' must be followed by a variable name'') s) s
      else
        bind_p (rec_e rec NAssignmentWithRet) (\<lambda>e s.
          if is_op ''='' s then
            (case GetLvalue e of
               None \<Rightarrow> ThrowError (''Script error: left operand of `='' @ [CHR 0x27] @ '' must be a variable name'') s
             | Some name \<Rightarrow>
                 bind_p next_token (\<lambda>_. bind_p (rec_e rec NAssignmentWithRet)
                   (\<lambda>e'. ret_e (ExpAssignment name e' False))) s)
          else ret_e e s) s)"

definition ParseConditional :: "recur \<Rightarrow> parsed parse" where
  "ParseConditional rec =
     bind_p (rec_e rec NOr) (\<lambda>a s.
       if is_op ''?'' s then
         bind_p next_token (\<lambda>_. bind_p (rec_e rec NAssignmentWithRet) (\<lambda>b. bind_p (Expect '':'') (\<lambda>_.
           bind_p (rec_e rec NAssignmentWithRet) (\<lambda>c. ret_e (ExpConditional a b c))))) s
       else ret_e a s)"

definition ParseOr :: "recur \<Rightarrow> parsed parse" where
  "ParseOr rec =
     bind_p (rec_e rec NAnd) (\<lambda>left s.
       if is_op ''||'' s
       then bind_p next_token (\<lambda>_. bind_p (rec_e rec NOr) (\<lambda>right. ret_e (ExpOr left right))) s
       else ret_e left s)"

definition ParseAnd :: "recur \<Rightarrow> parsed parse" where
  "ParseAnd rec =
     bind_p (rec_e rec NComparison) (\<lambda>left s.
       if is_op ''&&'' s
       then bind_p next_token (\<lambda>_. bind_p (rec_e rec NAnd) (\<lambda>right. ret_e (ExpAnd left right))) s
       else ret_e left s)"

definition comparison_ops :: "string list" where
  "comparison_ops = [''=='', ''!='', ''<>'', ''<'', ''>'', ''<='', ''>='']"

definition GetTokenAsComparisonOperator :: "parser \<Rightarrow> string option" where
  "GetTokenAsComparisonOperator s = find (\<lambda>op'. is_op op' s) comparison_ops"

definition comparison_term :: "string \<Rightarrow> expr \<Rightarrow> expr \<Rightarrow> expr" where
  "comparison_term op' left right =
     (if op' = ''=='' then ExpEqual left right
      else if op' = ''!='' \<or> op' = ''<>'' then ExpNot (ExpEqual left right)
      else if op' = ''<'' then ExpLess left right
      else if op' = ''>='' then ExpNot (ExpLess left right)
      else if op' = ''>'' then ExpLess right left
      else ExpNot (ExpLess right left))"

definition ParseComparison :: "recur \<Rightarrow> parsed parse" where
  "ParseComparison rec =
     bind_p (rec_e rec (NAddition False)) (\<lambda>left. rec (NComparisonLoop None left))"

definition ParseComparisonLoop :: "recur \<Rightarrow> expr option \<Rightarrow> expr \<Rightarrow> parsed parse" where
  "ParseComparisonLoop rec result left s =
     (case GetTokenAsComparisonOperator s of
        Some op' \<Rightarrow>
          bind_p next_token (\<lambda>_. bind_p (rec_e rec (NAddition False)) (\<lambda>right.
            let term = comparison_term op' left right;
                result' = (case result of None \<Rightarrow> term | Some r \<Rightarrow> ExpAnd r term)
            in rec (NComparisonLoop (Some result') right))) s
      | None \<Rightarrow> ret_e (case result of Some r \<Rightarrow> r | None \<Rightarrow> left) s)"

definition ParseAddition :: "recur \<Rightarrow> bool \<Rightarrow> parsed parse" where
  "ParseAddition rec negationOnHold =
     bind_p (rec_e rec (NMultiplication negationOnHold)) (\<lambda>left s.
       let plus = is_op ''+'' s; minus = is_op ''-'' s; doubleplus = is_op ''++'' s
       in if plus \<or> minus \<or> doubleplus then
            bind_p next_token (\<lambda>_. bind_p (rec_e rec (NAddition minus)) (\<lambda>right.
              ret_e (if doubleplus then ExpDoublePlus left right else ExpPlus left right))) s
          else ret_e left s)"

definition ParseMultiplication :: "recur \<Rightarrow> bool \<Rightarrow> parsed parse" where
  "ParseMultiplication rec negationOnHold =
     bind_p (rec_e rec NUnary) (\<lambda>left. rec (NMultiplicationLoop negationOnHold left))"

definition ParseMultiplicationLoop :: "recur \<Rightarrow> bool \<Rightarrow> expr \<Rightarrow> parsed parse" where
  "ParseMultiplicationLoop rec negationOnHold left s =
     (let mult = is_op ''*'' s; div' = is_op ''/'' s; mod' = is_op ''%'' s
      in if mult \<or> div' \<or> mod' then
           bind_p next_token (\<lambda>_. bind_p (rec_e rec NUnary) (\<lambda>right.
             rec (NMultiplicationLoop negationOnHold
               (if mult then ExpMult left right else if div' then ExpDiv left right else ExpMod left right)))) s
         else ret_e (if negationOnHold then ExpNegate left else left) s)"

definition ParseUnary :: "recur \<Rightarrow> parsed parse" where
  "ParseUnary rec =
     bind_p (skip_tokens (TOp (op_i ''+''))) (\<lambda>_ s.
       if is_op ''-'' s then bind_p next_token (\<lambda>_. bind_p (rec_e rec NUnary) (\<lambda>e. ret_e (ExpNegate e))) s
       else if is_op ''!'' s then bind_p next_token (\<lambda>_. bind_p (rec_e rec NUnary) (\<lambda>e. ret_e (ExpNot e))) s
       else rec NOOP s)"

text \<open>\<^verbatim>\<open>ParseArray\<close>: brackets are calls of \<^verbatim>\<open>Array\<close> and \<^verbatim>\<open>ArrayGet\<close>.\<close>

definition ParseArray :: "recur \<Rightarrow> expr option \<Rightarrow> parsed parse" where
  "ParseArray rec context =
     rec (NCall (ExpVariableReference (if context = None then ''Array'' else ''ArrayGet'')) context True)"

definition ParseOOP :: "recur \<Rightarrow> parsed parse" where
  "ParseOOP rec s =
     bind_p (if is_op ''['' s then ParseArray rec None else rec (NFunction None))
       (\<lambda>(e, _). case e of Some left \<Rightarrow> rec (NOOPLoop left) | None \<Rightarrow> (\<lambda>s. Inl NullPointer)) s"

definition ParseOOPLoop :: "recur \<Rightarrow> expr \<Rightarrow> parsed parse" where
  "ParseOOPLoop rec left s =
     (if is_op ''.'' s \<or> is_op ''['' s then
        bind_p next_token (\<lambda>_. bind_p (if is_op ''['' s then ParseArray rec (Some left) else rec (NFunction (Some left)))
          (\<lambda>(e, _). case e of Some left' \<Rightarrow> rec (NOOPLoop left') | None \<Rightarrow> (\<lambda>s. Inl NullPointer))) s
      else ret_e left s)"

definition ParseFunction :: "recur \<Rightarrow> expr option \<Rightarrow> parsed parse" where
  "ParseFunction rec context =
     bind_p (rec_e rec NAtom) (\<lambda>left s.
       if context \<noteq> None \<or> is_op ''('' s then rec (NCall left context False) s else ret_e left s)"

text \<open>\<^verbatim>\<open>ParseCall\<close>: after, before and in the loop over the arguments.  A call
  \<^verbatim>\<open>func(name)\<close> makes a function object of a function.\<close>

definition call_expr :: "expr \<Rightarrow> expr option \<Rightarrow> bool \<Rightarrow> (expr \<times> string option) list \<Rightarrow> expr" where
  "call_expr left context isArraySpecifier args =
     (let name = GetLvalue left;
          call = ExpFunctionCall name left args (context \<noteq> None \<or> isArraySpecifier)
      in case (name, args) of
           (Some n, [(a, _)]) \<Rightarrow>
             (case GetLvalue a of
                Some f \<Rightarrow> if streqi n ''func'' then ExpFunctionWrapper f else call
              | None \<Rightarrow> call)
         | _ \<Rightarrow> call)"

definition finish_call :: "recur \<Rightarrow> expr \<Rightarrow> expr option \<Rightarrow> bool \<Rightarrow> (expr \<times> string option) list \<Rightarrow> nat \<Rightarrow> parsed parse" where
  "finish_call rec left context isArraySpecifier args params_count s =
     (if isArraySpecifier \<and> params_count = 0 \<and> context \<noteq> None
      then ThrowError ''Script error: array indexing must have at least one index'' s
      else
        let left' = call_expr left context isArraySpecifier args
        in if is_op ''('' s then rec (NCall left' None False) s else ret_e left' s)"

definition ParseCall :: "recur \<Rightarrow> expr \<Rightarrow> expr option \<Rightarrow> bool \<Rightarrow> parsed parse" where
  "ParseCall rec left context isArraySpecifier s =
     (let args = (case context of None \<Rightarrow> [] | Some c \<Rightarrow> [(c, None)])
      in if isArraySpecifier \<or> is_op ''('' s then
           bind_p (if context \<noteq> None \<and> isArraySpecifier then return_p () else next_token)
             (\<lambda>_. rec (NCallLoop left context isArraySpecifier False args 0)) s
         else finish_call rec left context isArraySpecifier args 0 s)"

definition arg_name :: "bool \<Rightarrow> string option parse" where
  "arg_name isArraySpecifier s =
     (case (isArraySpecifier, cur s) of
        (False, TIdent n) \<Rightarrow>
          bind_p lookahead (\<lambda>k.
            if k = TOp (op_i ''='')
            then bind_p next_token (\<lambda>_. bind_p next_token (\<lambda>_. return_p (Some n)))
            else return_p None) s
      | _ \<Rightarrow> return_p None s)"

definition ParseCallLoop :: "recur \<Rightarrow> expr \<Rightarrow> expr option \<Rightarrow> bool \<Rightarrow> bool \<Rightarrow> (expr \<times> string option) list \<Rightarrow> nat
    \<Rightarrow> parsed parse" where
  "ParseCallLoop rec left context isArraySpecifier need_comma args params_count s =
     (if is_op (if isArraySpecifier then '']'' else '')'') s then
        bind_p next_token (\<lambda>_. finish_call rec left context isArraySpecifier args params_count) s
      else
        bind_p (if need_comma
                then Expect_msg '','' (if isArraySpecifier then ''Script error: expected a , or ]''
                                     else ''Script error: expected a , or )'')
                else return_p ()) (\<lambda>_.
          if length args = max_args then ThrowError ''Script error: argument list too long''
          else bind_p (arg_name isArraySpecifier) (\<lambda>name. bind_p (rec_e rec NAssignmentWithRet) (\<lambda>a.
            rec (NCallLoop left context isArraySpecifier True (args @ [(a, name)]) (Suc params_count))))) s)"

definition ParseAtom :: "recur \<Rightarrow> parsed parse" where
  "ParseAtom rec s =
     (if is_id ''function'' s then bind_p next_token (\<lambda>_. rec NFunctionDefinition) s
      else case cur s of
        TIdent name \<Rightarrow> bind_p next_token (\<lambda>_. ret_e (ExpVariableReference name)) s
      | TInt i \<Rightarrow> bind_p next_token (\<lambda>_. ret_e (ExpConstant (VInt i))) s
      | TLong i \<Rightarrow> bind_p next_token (\<lambda>_. ret_e (ExpConstant (VLong i))) s
      | TFloat d \<Rightarrow> bind_p next_token (\<lambda>_. ret_e (ExpConstant (VDouble d))) s
      | TString str \<Rightarrow> bind_p next_token (\<lambda>_. ret_e (ExpConstant (VString str))) s
      | _ \<Rightarrow>
          if is_op ''('' s then
            bind_p next_token (\<lambda>_. bind_p (rec_e rec NAssignmentWithRet) (\<lambda>e. bind_p (Expect '')'') (\<lambda>_. ret_e e))) s
          else if is_op ''['' s then
            ThrowError ''Script error: array is not supported on this version of avisynth'' s
          else ThrowError ''Script error: syntax error'' s)"

section \<open>Function definitions\<close>

text \<open>The keyword in front of a parameter name: its type letter and the mark of an array.\<close>

definition param_types_table :: "(string \<times> char \<times> char option) list" where
  "param_types_table =
     [(''val'', CHR ''.'', None), (''bool'', CHR ''b'', None), (''int'', CHR ''i'', None), (''float'', CHR ''f'', None),
      (''string'', CHR ''s'', None), (''clip'', CHR ''c'', None), (''func'', CHR ''n'', None),
      (''array'', CHR ''.'', Some (CHR ''*'')), (''val_array'', CHR ''.'', Some (CHR ''*'')),
      (''array_nz'', CHR ''.'', Some (CHR ''+'')), (''val_array_nz'', CHR ''.'', Some (CHR ''+'')),
      (''bool_array'', CHR ''b'', Some (CHR ''*'')), (''bool_array_nz'', CHR ''b'', Some (CHR ''+'')),
      (''int_array'', CHR ''i'', Some (CHR ''*'')), (''int_array_nz'', CHR ''i'', Some (CHR ''+'')),
      (''float_array'', CHR ''f'', Some (CHR ''*'')), (''float_array_nz'', CHR ''f'', Some (CHR ''+'')),
      (''string_array'', CHR ''s'', Some (CHR ''*'')), (''string_array_nz'', CHR ''s'', Some (CHR ''+'')),
      (''clip_array'', CHR ''c'', Some (CHR ''*'')), (''clip_array_nz'', CHR ''c'', Some (CHR ''+'')),
      (''func_array'', CHR ''n'', Some (CHR ''*'')), (''func_array_nz'', CHR ''n'', Some (CHR ''+''))]"

definition quoted :: "string \<Rightarrow> string" where "quoted s = DQ # s @ [DQ]"

definition type_error :: string where
  "type_error = ''Script error: expected '' @ quoted ''val'' @ '', '' @ quoted ''bool'' @ '', '' @ quoted ''int'' @ '', ''
     @ quoted ''float'' @ '', '' @ quoted ''string'' @ '', '' @ quoted ''array'' @ '', or '' @ quoted ''clip''
     @ '' (or their '' @ quoted ''_array'' @ '' or '' @ quoted ''_array_nz'' @ '' versions''"

text \<open>The optional type of a parameter: whether it is \<^verbatim>\<open>float\<close>, its letter and its mark.\<close>

definition ParseParamType :: "(bool \<times> char \<times> char option) parse" where
  "ParseParamType =
     bind_p lookahead (\<lambda>k s.
       if is_ident k \<or> is_str k then
         (case find (\<lambda>(n, _). is_id n s) param_types_table of
            Some (n, ty, kind) \<Rightarrow> bind_p next_token (\<lambda>_. return_p (n = ''float'', ty, kind)) s
          | None \<Rightarrow> ThrowError type_error s)
       else return_p (False, CHR ''.'', None) s)"

definition signature_tail :: "char \<Rightarrow> char option \<Rightarrow> string" where
  "signature_tail ty kind = ty # (case kind of None \<Rightarrow> [] | Some c \<Rightarrow> [c])"

text \<open>A named function is registered as soon as its body is read; \<^verbatim>\<open>AddFunction\<close> refuses a
  signature that is not valid.\<close>

definition finish_definition :: "recur \<Rightarrow> string option \<Rightarrow> string option \<Rightarrow> string list \<Rightarrow> string \<Rightarrow> bool list \<Rightarrow> string list
    \<Rightarrow> parsed parse" where
  "finish_definition rec filename name vars types floats names s =
     (let line = line (tokenizer s)
      in bind_p (rec_e rec (NBlock True)) (\<lambda>e.
           let body = ExpRootBlock e
           in case name of
                Some n \<Rightarrow>
                  if \<not> IsValidParameterString types
                  then ThrowError (n @ '' has an invalid parameter string (bug in filter)'')
                  else (\<lambda>s. ret_e ExpLegacyFunctionDefinition
                    (s\<lparr>registered := registered s @
                       [\<lparr>sf_name = n, sf_params = types, sf_body = body, sf_floats = floats, sf_param_names = names\<rparr>]\<rparr>))
              | None \<Rightarrow> ret_e (ExpFunctionDefinition body None types floats names vars filename line)) s)"

definition ParseParamLoop :: "recur \<Rightarrow> string option \<Rightarrow> string option \<Rightarrow> string list \<Rightarrow> bool \<Rightarrow> bool \<Rightarrow> string \<Rightarrow> bool list
    \<Rightarrow> string list \<Rightarrow> parsed parse" where
  "ParseParamLoop rec filename name vars need_comma named_arg_found types floats names s =
     (if is_op '')'' s then
        bind_p next_token (\<lambda>_. finish_definition rec filename name vars types floats names) s
      else
        bind_p (if need_comma then Expect_msg '','' ''Script error: expected a , or )'' else return_p ()) (\<lambda>_.
          if length names = max_args then ThrowError ''Script error: parameter list too long''
          else bind_p ParseParamType (\<lambda>(isfloat, ty, kind) s.
            case cur s of
              TIdent n \<Rightarrow>
                (if named_arg_found
                 then ThrowError (''Script error: can'' @ [CHR 0x27] @
                   ''t have a named (quoted) parameter followed by an ordinary parameter'') s
                 else bind_p next_token (\<lambda>_. rec (NParamLoop name vars True False
                   (types @ signature_tail ty kind) (floats @ [isfloat]) (names @ [n]))) s)
            | TString n \<Rightarrow>
                (if length types + length n \<ge> 4000 then ThrowError ''Script error: parameter list too long'' s
                 else bind_p next_token (\<lambda>_. rec (NParamLoop name vars True True
                   (types @ [CHR ''[''] @ n @ [CHR '']''] @ signature_tail ty kind) (floats @ [isfloat]) (names @ [n]))) s)
            | _ \<Rightarrow> ThrowError ''Script error: expected a parameter name'' s)) s)"

text \<open>From the body or the opening parenthesis on.\<close>

definition ParseParams :: "recur \<Rightarrow> string option \<Rightarrow> string option \<Rightarrow> string list \<Rightarrow> parsed parse" where
  "ParseParams rec filename name vars s =
     (if is_op ''{'' s then finish_definition rec filename name vars [] [] [] s
      else bind_p (Expect_msg ''('' ''Script error: expected ( or { after function name'')
        (\<lambda>_. rec (NParamLoop name vars False False [] [] [])) s)"

definition ParseCaptureLoop :: "recur \<Rightarrow> string option \<Rightarrow> bool \<Rightarrow> string list \<Rightarrow> parsed parse" where
  "ParseCaptureLoop rec filename need_comma vars s =
     (if is_op '']'' s then bind_p next_token (\<lambda>_. ParseParams rec filename None vars) s
      else
        bind_p (if need_comma then Expect_msg '','' ''Script error: expected a , or ]'' else return_p ()) (\<lambda>_ s.
          case cur s of
            TIdent n \<Rightarrow>
              (if length vars = max_args then ThrowError ''Script error: variable capture list too long'' s
               else bind_p next_token (\<lambda>_. rec (NCaptureLoop True (vars @ [n]))) s)
          | _ \<Rightarrow> ThrowError ''Script error: expected a parameter name'' s) s)"

definition ParseFunctionDefinition :: "recur \<Rightarrow> string option \<Rightarrow> parsed parse" where
  "ParseFunctionDefinition rec filename s =
     (case cur s of
        TIdent n \<Rightarrow>
          bind_p next_token (\<lambda>_ s.
            if is_op ''['' s
            then ThrowError ''Script error: variable capture is not supported on legacy function definition.'' s
            else ParseParams rec filename (Some n) [] s) s
      | _ \<Rightarrow>
          if is_op ''['' s then bind_p next_token (\<lambda>_. rec (NCaptureLoop False [])) s
          else ParseParams rec filename None [] s)"

section \<open>Statements and blocks\<close>

definition or_null :: "parsed \<Rightarrow> expr option" where
  "or_null r = (if snd r then None else fst r)"

definition ParseIf :: "recur \<Rightarrow> parsed parse" where
  "ParseIf rec =
     bind_p next_token (\<lambda>_. bind_p (Expect ''('') (\<lambda>_. bind_p (rec_e rec NAssignmentWithRet) (\<lambda>If.
       bind_p (Expect '')'') (\<lambda>_. bind_p (rec (NBlock True)) (\<lambda>Then. bind_p (skip_tokens TNewline) (\<lambda>_ s.
         if is_id ''else'' s then
           bind_p next_token (\<lambda>_ s.
             if is_id ''if'' s
             then bind_p (rec_e rec NIf) (\<lambda>Else. ret_e (ExpBlockConditional If (or_null Then) (Some Else))) s
             else bind_p (rec (NBlock True)) (\<lambda>Else. ret_e (ExpBlockConditional If (or_null Then) (or_null Else))) s) s
         else ret_e (ExpBlockConditional If (or_null Then) None) s))))))"

definition in_loop :: "'a parse \<Rightarrow> 'a parse" where
  "in_loop p s = bind_p p (\<lambda>x s. Inr (x, s\<lparr>loopDepth := loopDepth s - 1\<rparr>)) (s\<lparr>loopDepth := loopDepth s + 1\<rparr>)"

definition ParseWhile :: "recur \<Rightarrow> parsed parse" where
  "ParseWhile rec =
     bind_p next_token (\<lambda>_. bind_p (Expect ''('') (\<lambda>_. bind_p (rec_e rec NAssignmentWithRet) (\<lambda>c.
       bind_p (Expect '')'') (\<lambda>_. bind_p (in_loop (rec (NBlock True))) (\<lambda>body.
         ret_e (ExpWhileLoop c (or_null body)))))))"

definition ParseFor :: "recur \<Rightarrow> parsed parse" where
  "ParseFor rec =
     bind_p next_token (\<lambda>_. bind_p (Expect ''('') (\<lambda>_ s.
       case cur s of
         TIdent name \<Rightarrow>
           bind_p next_token (\<lambda>_. bind_p (Expect ''='') (\<lambda>_. bind_p (rec_e rec NAssignmentWithRet) (\<lambda>init.
             bind_p (Expect '','') (\<lambda>_. bind_p (rec_e rec NAssignmentWithRet) (\<lambda>limit.
               bind_p (\<lambda>s. if is_op '','' s then bind_p next_token (\<lambda>_. rec_e rec NAssignmentWithRet) s
                           else return_p (ExpConstant (VInt 1)) s) (\<lambda>step.
                 bind_p (Expect '')'') (\<lambda>_. bind_p (in_loop (rec (NBlock True))) (\<lambda>body.
                   ret_e (ExpForLoop name init limit step (or_null body)))))))))) s
       | _ \<Rightarrow> ThrowError ''Script error: expected a variable name'' s))"

definition ParseTry :: "recur \<Rightarrow> parsed parse" where
  "ParseTry rec =
     bind_p next_token (\<lambda>_. bind_p (rec_e rec (NBlock True)) (\<lambda>try_block. bind_p (skip_tokens TNewline) (\<lambda>_ s.
       if is_id ''catch'' s then
         bind_p next_token (\<lambda>_. bind_p (Expect ''('') (\<lambda>_ s.
           case cur s of
             TIdent i \<Rightarrow>
               bind_p next_token (\<lambda>_. bind_p (Expect '')'') (\<lambda>_. bind_p (rec_e rec (NBlock True))
                 (\<lambda>catch_block. ret_e (ExpTryCatch try_block i catch_block)))) s
           | _ \<Rightarrow> ThrowError ''Script error: expected identifier'' s)) s
       else ThrowError (''Script error: expected `catch'' @ [CHR 0x27]) s)))"

text \<open>\<^verbatim>\<open>break\<close> and \<^verbatim>\<open>continue\<close>\<close>

definition loop_statement :: "string \<Rightarrow> expr \<Rightarrow> parsed parse" where
  "loop_statement name e s =
     (if loopDepth s \<le> 0
      then ThrowError ([CHR 0x27] @ name @ [CHR 0x27] @ '' statement outside of loop.'') s
      else bind_p next_token (\<lambda>_. ret_e e) s)"

definition ParseStatement :: "recur \<Rightarrow> parsed parse" where
  "ParseStatement rec s =
     (if cur s = TNewline \<or> cur s = TEOF then return_p (None, False) s
      else if is_id ''try'' s then ParseTry rec s
      else if is_id ''if'' s then rec NIf s
      else if is_id ''while'' s then ParseWhile rec s
      else if is_id ''for'' s then ParseFor rec s
      else if is_id ''return'' s then
        bind_p next_token (\<lambda>_. bind_p (rec_e rec NAssignmentWithRet) (\<lambda>e. return_p (Some (ExpReturn e), True))) s
      else if is_id ''break'' s then loop_statement ''Break'' ExpBreak s
      else if is_id ''continue'' s then loop_statement ''Continue'' ExpContinue s
      else bind_p (rec_e rec NAssignment) ret_e s)"

definition ParseBlock :: "recur \<Rightarrow> bool \<Rightarrow> parsed parse" where
  "ParseBlock rec braced =
     bind_p (if braced then bind_p (skip_tokens TNewline) (\<lambda>_. Expect ''{'') else return_p ())
       (\<lambda>_. rec (NBlockLoop braced False no_trees))"

definition finish_block :: "expr option list \<Rightarrow> parsed parse" where
  "finish_block trees = return_p (case block_result trees of
     Some e \<Rightarrow> (Some e, False)
   | None \<Rightarrow> (Some (ExpConstant VUndefined), True))"

definition with_line :: "string option \<Rightarrow> int \<Rightarrow> expr \<Rightarrow> expr" where
  "with_line filename l e = (case filename of None \<Rightarrow> e | Some f \<Rightarrow> ExpLine e f l)"

definition ParseBlockLoop :: "recur \<Rightarrow> string option \<Rightarrow> bool \<Rightarrow> bool \<Rightarrow> expr option list \<Rightarrow> parsed parse" where
  "ParseBlockLoop rec filename braced ignore_remainder trees s =
     (if cur s = TNewline then bind_p next_token (\<lambda>_. rec (NBlockLoop braced ignore_remainder trees)) s
      else if is_op ''}'' s then
        (if braced then bind_p next_token (\<lambda>_. finish_block trees) s
         else ThrowError ''Script error: found } without a matching {'' s)
      else if cur s = TEOF then
        (if braced then ThrowError ''Script error: end of file reached without matching }'' s
         else finish_block trees s)
      else
        bind_p (rec NStatement) (\<lambda>(e, stop) s.
          let e' = (if \<not> braced \<and> e = Some ExpLegacyFunctionDefinition then None else e);
              trees' = (case e' of
                  Some x \<Rightarrow> if ignore_remainder then trees
                            else insert_tree (with_line filename (line (tokenizer s)) x) trees
                | None \<Rightarrow> trees)
          in rec (NBlockLoop braced (ignore_remainder \<or> stop) trees') s) s)"

section \<open>The parser\<close>

fun parse_body :: "string option \<Rightarrow> recur \<Rightarrow> nonterm \<Rightarrow> parsed parse" where
  "parse_body fn rec (NBlock b) = ParseBlock rec b"
| "parse_body fn rec (NBlockLoop b i ts) = ParseBlockLoop rec fn b i ts"
| "parse_body fn rec NStatement = ParseStatement rec"
| "parse_body fn rec NIf = ParseIf rec"
| "parse_body fn rec NAssignment = ParseAssignment rec"
| "parse_body fn rec NAssignmentWithRet = ParseAssignmentWithRet rec"
| "parse_body fn rec NConditional = ParseConditional rec"
| "parse_body fn rec NOr = ParseOr rec"
| "parse_body fn rec NAnd = ParseAnd rec"
| "parse_body fn rec NComparison = ParseComparison rec"
| "parse_body fn rec (NComparisonLoop r l) = ParseComparisonLoop rec r l"
| "parse_body fn rec (NAddition n) = ParseAddition rec n"
| "parse_body fn rec (NMultiplication n) = ParseMultiplication rec n"
| "parse_body fn rec (NMultiplicationLoop n l) = ParseMultiplicationLoop rec n l"
| "parse_body fn rec NUnary = ParseUnary rec"
| "parse_body fn rec NOOP = ParseOOP rec"
| "parse_body fn rec (NOOPLoop l) = ParseOOPLoop rec l"
| "parse_body fn rec (NFunction c) = ParseFunction rec c"
| "parse_body fn rec (NCall l c a) = ParseCall rec l c a"
| "parse_body fn rec (NCallLoop l c a n args k) = ParseCallLoop rec l c a n args k"
| "parse_body fn rec NAtom = ParseAtom rec"
| "parse_body fn rec NFunctionDefinition = ParseFunctionDefinition rec fn"
| "parse_body fn rec (NCaptureLoop n vs) = ParseCaptureLoop rec fn n vs"
| "parse_body fn rec (NParamLoop n vs c f ty fl ns) = ParseParamLoop rec fn n vs c f ty fl ns"

fun parse :: "string option \<Rightarrow> nat \<Rightarrow> nonterm \<Rightarrow> parsed parse" where
  "parse fn 0 nt s = Inl OutOfFuel"
| "parse fn (Suc n) nt s = parse_body fn (parse fn n) nt s"

text \<open>The message of \<^verbatim>\<open>Parse\<close> names the file, the line and the column; the functions read
  before the error stay registered.  The fuel is shown to
  be enough below.\<close>

record located_error =
  lmsg :: string
  lfile :: "string option"
  lline :: int
  lcolumn :: int
  lregistered :: "script_function list"

definition parse_fuel :: "string \<Rightarrow> nat" where
  "parse_fuel code = 40 * (length (cstr code) + 1) + 40"

text \<open>The constructor reads the first token outside the \<^verbatim>\<open>try\<close> of \<^verbatim>\<open>Parse\<close>.\<close>

definition ScriptParser_new :: "string \<Rightarrow> (tok_error, parser) result" where
  "ScriptParser_new code = bind_r (Tokenizer_new code)
     (\<lambda>t. Inr \<lparr>tokenizer = t, loopDepth = 0, registered = []\<rparr>)"

datatype script_error = Located located_error | Raw string | Crashed | NotTerminated

definition Parse :: "string option \<Rightarrow> string \<Rightarrow> (script_error, expr \<times> parser) result" where
  "Parse filename code =
     (case ScriptParser_new code of
        Inl e \<Rightarrow> Inl (Raw (emsg e))
      | Inr s \<Rightarrow>
          (case rec_e (parse filename (parse_fuel code)) (NBlock False) s of
             Inr (e, s') \<Rightarrow> Inr (ExpRootBlock e, s')
           | Inl OutOfFuel \<Rightarrow> Inl NotTerminated
           | Inl NullPointer \<Rightarrow> Inl Crashed
           | Inl (ParseError msg s') \<Rightarrow>
               Inl (Located \<lparr>lmsg = msg, lfile = filename, lline = line (tokenizer s'),
                 lcolumn = GetColumn (cstr code) (pc (tokenizer s')), lregistered = registered s'\<rparr>)))"

end
