(* ===== verification/Function_Table.thy ===== *)
theory Function_Table
  imports Arg_Spec Var_Table Script_Parser
begin

text \<open>
  The functions a script can call: \<^verbatim>\<open>AVSFunction\<close> and the function tables of
  \<^verbatim>\<open>core/PluginManager.cpp\<close>, the lookup of \<^verbatim>\<open>ScriptEnvironment\<close> and the first
  four steps of \<^verbatim>\<open>ScriptEnvironment::Invoke_\<close> in \<^verbatim>\<open>core/avisynth.cpp\<close>.

  The state is the part of the script environment these use: the variables, the objects behind
  function values, the function tables and the state of the plugin autoloader.  Code that can
  throw is a computation on that state; \<open>Raise\<close> is a C++ exception, and the state at the
  throw is kept, since the code that catches it goes on with it.  A saved string keeps its text
  for the life of the environment (\<open>saved_strings_stable\<close>), so a string value is its text.
\<close>


section \<open>Computations on the environment\<close>

text \<open>\<open>Crash\<close> is a read outside an array or through a bad pointer, \<open>Trap\<close> an arithmetic trap of the
  processor, \<open>NoFuel\<close> the end of the interpreter's fuel; no handler of the program sees these, and
  nothing is claimed of the state after them.\<close>

datatype exc =
    BreakStmtException | ContinueStmtException | ReturnExprException AVSValue
  | AvisynthError string | NotFound
  | Crash
  | Trap
  | NoFuel

datatype 'a outcome = Value 'a | Raise exc

text \<open>\<^verbatim>\<open>struct Function\<close>.  The code behind \<^verbatim>\<open>apply\<close> and \<^verbatim>\<open>user_data\<close> is a
  script function, a function object of a script, or compiled code named by a number.\<close>

datatype apply_func =
    ScriptFunctionExecute script_function
  | FunctionInstanceExecute nat
  | NativeApply nat

record Function =
  fn_name :: "string option"
  canon_name :: "string option"
  param_types :: string
  fn_apply :: apply_func
  dll_path :: "string option"
  isPluginAvs25 :: bool
  isPluginPreV11C :: bool

record function_instance =
  fi_data :: Function
  fi_body :: expr
  fi_floats :: "bool list"
  fi_param_names :: "string list"
  fi_var_names :: "string list"
  fi_var_data :: "AVSValue list"
  fi_name :: "string option"
  fi_filename :: "string option"
  fi_line :: int

datatype func_obj = WrappedFunction string | FunctionInstance function_instance

fun GetLegacyName :: "func_obj \<Rightarrow> string option" where
  "GetLegacyName (WrappedFunction name) = Some name"
| "GetLegacyName (FunctionInstance fi) = None"

fun GetDefinition :: "func_obj \<Rightarrow> Function option" where
  "GetDefinition (WrappedFunction name) = None"
| "GetDefinition (FunctionInstance fi) = Some (fi_data fi)"

record plugin_file =
  FilePath :: string
  BaseName :: string
  pf_isPluginAvs25 :: bool
  pf_isPluginPreV11C :: bool

type_synonym function_map = "string \<Rightarrow> Function list"

record env =
  vars :: "AVSValue var_table"
  closing :: bool
  fobjs :: "func_obj list"
  ExternalFunctions :: function_map
  AutoloadedFunctions :: function_map
  AutoloadExecuted :: bool
  Autoloading :: bool
  PluginInLoad :: "plugin_file option"

type_synonym 'a ev = "env \<Rightarrow> 'a outcome \<times> env"

definition bind_e :: "'a ev \<Rightarrow> ('a \<Rightarrow> 'b ev) \<Rightarrow> 'b ev" where
  "bind_e p f s = (case p s of (Value x, s') \<Rightarrow> f x s' | (Raise e, s') \<Rightarrow> (Raise e, s'))"

definition return_e :: "'a \<Rightarrow> 'a ev" where "return_e x s = (Value x, s)"

definition raise_e :: "exc \<Rightarrow> 'a ev" where "raise_e e s = (Raise e, s)"

definition get_e :: "(env \<Rightarrow> 'a) \<Rightarrow> 'a ev" where "get_e f s = (Value (f s), s)"

definition error_e :: "string \<Rightarrow> 'a ev" where "error_e msg = raise_e (AvisynthError msg)"

text \<open>What lies outside: the tables of built-in functions, the loading of the files of the
  autoload directories (with the error it ends in, if any), and compiled code.\<close>

record world =
  builtin_functions :: "Function list list"
  load_autoload_dirs :: "env \<Rightarrow> string option \<times> env"
  native :: "nat \<Rightarrow> AVSValue list \<Rightarrow> AVSValue ev"


section \<open>Variables of the environment\<close>

definition GetVarTry :: "string \<Rightarrow> env \<Rightarrow> AVSValue option" where
  "GetVarTry name s = (if closing s then None else VarTable_Get name (vars s))"

definition GetVarDef :: "string \<Rightarrow> AVSValue \<Rightarrow> env \<Rightarrow> AVSValue" where
  "GetVarDef name d s = (if closing s then d else (case GetVarTry name s of Some v \<Rightarrow> v | None \<Rightarrow> d))"

definition GetVarBool :: "string \<Rightarrow> bool \<Rightarrow> env \<Rightarrow> bool" where
  "GetVarBool name d s = (if closing s then False else (case GetVarTry name s of Some v \<Rightarrow> AsBool2 v d | None \<Rightarrow> d))"

definition GetVarInt :: "string \<Rightarrow> int \<Rightarrow> env \<Rightarrow> int" where
  "GetVarInt name d s = (if closing s then d else (case GetVarTry name s of Some v \<Rightarrow> AsInt2 v d | None \<Rightarrow> d))"

definition GetVarDouble :: "string \<Rightarrow> fp \<Rightarrow> env \<Rightarrow> fp" where
  "GetVarDouble name d s = (if closing s then d else (case GetVarTry name s of Some v \<Rightarrow> AsDblDef v d | None \<Rightarrow> d))"

definition GetVarString :: "string \<Rightarrow> string \<Rightarrow> env \<Rightarrow> string" where
  "GetVarString name d s = (if closing s then d else (case GetVarTry name s of Some v \<Rightarrow> AsString2 v d | None \<Rightarrow> d))"

definition GetVarLong :: "string \<Rightarrow> int \<Rightarrow> env \<Rightarrow> int" where
  "GetVarLong name d s = (if closing s then d else (case GetVarTry name s of Some v \<Rightarrow> AsLong2 v d | None \<Rightarrow> d))"

definition GetVar :: "string \<Rightarrow> AVSValue ev" where
  "GetVar name s =
     (if closing s then (Value VUndefined, s)
      else (case VarTable_Get name (vars s) of Some v \<Rightarrow> (Value v, s) | None \<Rightarrow> (Raise NotFound, s)))"

text \<open>A local assignment without a frame would be a write through an empty vector.\<close>

definition SetVar :: "string \<Rightarrow> AVSValue \<Rightarrow> bool ev" where
  "SetVar name v s =
     (if closing s then (Value True, s)
      else (case VarTable_Set name v (vars s) of
              Some (b, t) \<Rightarrow> (Value b, s\<lparr>vars := t\<rparr>) | None \<Rightarrow> (Raise Crash, s)))"

definition SetGlobalVar :: "string \<Rightarrow> AVSValue \<Rightarrow> bool ev" where
  "SetGlobalVar name v s =
     (if closing s then (Value True, s)
      else (case VarTable_SetGlobal name v (vars s) of (b, t) \<Rightarrow> (Value b, s\<lparr>vars := t\<rparr>)))"

definition PushContext :: "unit ev" where
  "PushContext s = (Value (), s\<lparr>vars := VarTable_Push (vars s)\<rparr>)"

definition PopContext :: "unit ev" where
  "PopContext s = (case VarTable_Pop (vars s) of Some t \<Rightarrow> (Value (), s\<lparr>vars := t\<rparr>) | None \<Rightarrow> (Raise Crash, s))"

definition PushContextGlobal :: "unit ev" where
  "PushContextGlobal s = (Value (), s\<lparr>vars := VarTable_PushGlobal (vars s)\<rparr>)"

definition PopContextGlobal :: "unit ev" where
  "PopContextGlobal s = (case VarTable_PopGlobal (vars s) of Some t \<Rightarrow> (Value (), s\<lparr>vars := t\<rparr>) | None \<Rightarrow> (Raise Crash, s))"


section \<open>The function tables\<close>

text \<open>\<^verbatim>\<open>std::map\<close> with the case-insensitive \<^verbatim>\<open>StdStriComparer\<close>: names with the same
  canonical spelling share an entry.  An absent entry and an empty list look the same to a lookup;
  \<^verbatim>\<open>push_back\<close> makes every entry non-empty.\<close>

definition map_push :: "string \<Rightarrow> Function \<Rightarrow> function_map \<Rightarrow> function_map" where
  "map_push name f m = m(canon name := m (canon name) @ [f])"

definition AVSFunction_new ::
    "string option \<Rightarrow> string option \<Rightarrow> string \<Rightarrow> apply_func \<Rightarrow> string option \<Rightarrow> bool \<Rightarrow> bool \<Rightarrow> Function" where
  "AVSFunction_new name plugin_basename params apply' path avs25 preV11C =
     \<lparr>fn_name = name,
      canon_name = (case name of None \<Rightarrow> None
        | Some n \<Rightarrow> Some ((case plugin_basename of None \<Rightarrow> [] | Some b \<Rightarrow> b) @ ''_'' @ n)),
      param_types = params, fn_apply = apply', dll_path = path, isPluginAvs25 = avs25, isPluginPreV11C = preV11C\<rparr>"

definition UpdateFunctionExports :: "string \<Rightarrow> string \<Rightarrow> string option \<Rightarrow> unit ev" where
  "UpdateFunctionExports funcName funcParams exportVar =
     (let var = (case exportVar of None \<Rightarrow> ''$PluginFunctions$'' | Some v \<Rightarrow> v) in
      bind_e (get_e (GetVarString var [])) (\<lambda>old.
      let FnList = (if old \<noteq> [] then old @ '' '' else old) @ funcName in
      bind_e (SetGlobalVar var (VString FnList)) (\<lambda>_.
      bind_e (SetGlobalVar (''$Plugin!'' @ funcName @ ''!Param$'') (VString funcParams)) (\<lambda>_.
      return_e ()))))"

definition new_function ::
    "string \<Rightarrow> string \<Rightarrow> apply_func \<Rightarrow> bool \<Rightarrow> bool \<Rightarrow> plugin_file option \<Rightarrow> Function" where
  "new_function name params apply' from25 fromPreV11C loading =
     (case loading of
        Some p \<Rightarrow> AVSFunction_new (Some name) (Some (BaseName p)) params apply' (Some (FilePath p))
          (from25 \<or> pf_isPluginAvs25 p) (fromPreV11C \<or> pf_isPluginPreV11C p)
      | None \<Rightarrow> AVSFunction_new (Some name) None params apply' None from25 fromPreV11C)"

definition push_function :: "string \<Rightarrow> Function \<Rightarrow> unit ev" where
  "push_function name f s = (Value (),
     if Autoloading s then s\<lparr>AutoloadedFunctions := map_push name f (AutoloadedFunctions s)\<rparr>
     else s\<lparr>ExternalFunctions := map_push name f (ExternalFunctions s)\<rparr>)"

definition AddFunction ::
    "string \<Rightarrow> string \<Rightarrow> apply_func \<Rightarrow> string option \<Rightarrow> bool \<Rightarrow> bool \<Rightarrow> unit ev" where
  "AddFunction name params apply' exportVar from25 fromPreV11C =
     (if \<not> IsValidParameterString params then error_e (name @ '' has an invalid parameter string (bug in filter)'')
      else bind_e (get_e PluginInLoad) (\<lambda>loading.
        let f = new_function name params apply' from25 fromPreV11C loading in
        bind_e (push_function name f) (\<lambda>_.
        bind_e (UpdateFunctionExports name params exportVar) (\<lambda>_.
        case canon_name f of
          None \<Rightarrow> return_e ()
        | Some cn \<Rightarrow>
            bind_e (push_function cn f) (\<lambda>_. UpdateFunctionExports cn params exportVar)))))"

text \<open>\<^verbatim>\<open>TypeMatch(..) && ArgNameMatch(..)\<close>\<close>

definition matches :: "Function \<Rightarrow> AVSValue list \<Rightarrow> bool \<Rightarrow> string option list \<Rightarrow> (match_error, bool) result" where
  "matches f args strict names =
     bind_r (TypeMatch (param_types f) args strict) (\<lambda>b.
       if \<not> b then Inr False else ArgNameMatch (param_types f) names)"

fun first_match ::
    "Function list \<Rightarrow> AVSValue list \<Rightarrow> bool \<Rightarrow> string option list \<Rightarrow> (match_error, Function option) result" where
  "first_match [] args strict names = Inr None"
| "first_match (f # fs) args strict names =
     bind_r (matches f args strict names) (\<lambda>b. if b then Inr (Some f) else first_match fs args strict names)"

text \<open>The lookup of \<^verbatim>\<open>PluginManager\<close>: the newest function first, functions that were not
  autoloaded before those that were.\<close>

definition Lookup_map ::
    "function_map \<Rightarrow> string \<Rightarrow> AVSValue list \<Rightarrow> bool \<Rightarrow> string option list \<Rightarrow> (match_error, Function option) result" where
  "Lookup_map m search_name args strict names = first_match (rev (m (canon search_name))) args strict names"

definition PluginManager_Lookup ::
    "string \<Rightarrow> AVSValue list \<Rightarrow> bool \<Rightarrow> string option list \<Rightarrow> env \<Rightarrow> (match_error, Function option) result" where
  "PluginManager_Lookup search_name args strict names s =
     bind_r (Lookup_map (ExternalFunctions s) search_name args strict names) (\<lambda>r.
       case r of Some f \<Rightarrow> Inr (Some f)
       | None \<Rightarrow> Lookup_map (AutoloadedFunctions s) search_name args strict names)"

definition PluginManager_FunctionExists :: "string \<Rightarrow> env \<Rightarrow> bool" where
  "PluginManager_FunctionExists name s \<longleftrightarrow>
     AutoloadedFunctions s (canon name) \<noteq> [] \<or> ExternalFunctions s (canon name) \<noteq> []"

text \<open>\<^verbatim>\<open>AutoloadPlugins\<close>.  An error of a file leaves \<^verbatim>\<open>Autoloading\<close> set.\<close>

definition AutoloadPlugins :: "world \<Rightarrow> unit ev" where
  "AutoloadPlugins w s =
     (if AutoloadExecuted s then (Value (), s)
      else case load_autoload_dirs w (s\<lparr>AutoloadExecuted := True, Autoloading := True\<rparr>) of
             (Some msg, s') \<Rightarrow> (Raise (AvisynthError msg), s')
           | (None, s') \<Rightarrow> (Value (), s'\<lparr>Autoloading := False\<rparr>))"


section \<open>Lookup in the environment\<close>

definition has_fn_name :: "string \<Rightarrow> Function \<Rightarrow> bool" where
  "has_fn_name name f \<longleftrightarrow> (case fn_name f of None \<Rightarrow> False | Some n \<Rightarrow> streqi n name)"

definition builtin_candidates :: "world \<Rightarrow> string \<Rightarrow> Function list" where
  "builtin_candidates w name =
     filter (has_fn_name name) (concat (map (takeWhile (\<lambda>f. fn_name f \<noteq> None)) (builtin_functions w)))"

definition InternalFunctionExists :: "world \<Rightarrow> string \<Rightarrow> bool" where
  "InternalFunctionExists w name \<longleftrightarrow> builtin_candidates w name \<noteq> []"

text \<open>One round of the search, at one strictness and with or without the argument names; the
  function found comes with the strictness it matched at.\<close>

definition lookup_round ::
    "world \<Rightarrow> string \<Rightarrow> AVSValue list \<Rightarrow> bool \<Rightarrow> string option list \<Rightarrow> env \<Rightarrow> (match_error, (Function \<times> bool) option) result" where
  "lookup_round w name args strict names s =
     bind_r (PluginManager_Lookup name args strict names s) (\<lambda>r.
       case r of Some f \<Rightarrow> Inr (Some (f, strict))
       | None \<Rightarrow> bind_r (first_match (builtin_candidates w name) args strict names)
           (\<lambda>r. Inr (map_option (\<lambda>f. (f, strict)) r)))"

fun lookup_rounds ::
    "world \<Rightarrow> string \<Rightarrow> AVSValue list \<Rightarrow> (bool \<times> string option list) list \<Rightarrow> env \<Rightarrow> (match_error, (Function \<times> bool) option) result" where
  "lookup_rounds w name args [] s = Inr None"
| "lookup_rounds w name args ((strict, names) # rs) s =
     bind_r (lookup_round w name args strict names s) (\<lambda>r.
       case r of Some x \<Rightarrow> Inr (Some x) | None \<Rightarrow> lookup_rounds w name args rs s)"

definition search_order :: "string option list \<Rightarrow> (bool \<times> string option list) list" where
  "search_order names =
     [(True, names), (False, names)] @ (if names = [] then [] else [(True, []), (False, [])])"

text \<open>A function value in a variable of that name: a wrapped function gives the name to search,
  any other is taken when its signature matches.\<close>

definition lookup_variable ::
    "string \<Rightarrow> AVSValue list \<Rightarrow> string option list \<Rightarrow> env \<Rightarrow> (match_error, string + (Function \<times> bool)) result" where
  "lookup_variable name args names s =
     (case GetVarTry name s of
        Some (VFunction k) \<Rightarrow>
          (if k < length (fobjs s) then
             (case GetLegacyName (fobjs s ! k) of
                Some n \<Rightarrow> Inr (Inl n)
              | None \<Rightarrow>
                  (case GetDefinition (fobjs s ! k) of
                     None \<Rightarrow> Inl OutOfBounds
                   | Some f \<Rightarrow> bind_r (matches f args False names) (\<lambda>b.
                       if b then bind_r (TypeMatch (param_types f) args True) (\<lambda>st. Inr (Inr (f, st)))
                       else Inr (Inl name))))
           else Inl OutOfBounds)
      | _ \<Rightarrow> Inr (Inl name))"

definition lookup_once ::
    "world \<Rightarrow> string \<Rightarrow> AVSValue list \<Rightarrow> string option list \<Rightarrow> env \<Rightarrow> (match_error, string + (Function \<times> bool)) result" where
  "lookup_once w name args names s =
     bind_r (lookup_variable name args names s) (\<lambda>r.
       case r of
         Inr x \<Rightarrow> Inr (Inr x)
       | Inl n \<Rightarrow> bind_r (lookup_rounds w n args (search_order names) s) (\<lambda>r.
           case r of Some x \<Rightarrow> Inr (Inr x) | None \<Rightarrow> Inr (Inl n)))"

text \<open>The text of an error.\<close>

definition quote :: "string \<Rightarrow> string" where "quote s = [CHR 0x22] @ s @ [CHR 0x22]"

fun match_message :: "string \<Rightarrow> match_error \<Rightarrow> string" where
  "match_message fn UnterminatedName = ''TypeMatch: unterminated parameter name (bug in filter)''"
| "match_message fn NoTypeSpecified = ''TypeMatch: no type specified for optional parameter (bug in filter)''"
| "match_message fn InvalidCharacter = ''TypeMatch: invalid character in parameter list (bug in filter)''"
| "match_message fn OutOfBounds = []"
| "match_message fn ElementTypeMismatch = ''Array elements do not match with the specified type in function '' @ fn"
| "match_message fn ZeroSizedArrayGiven = ''An array with zero element size was given to function '' @ fn
     @ '' which expects a '' @ [CHR 0x27] @ ''one-or-more'' @ [CHR 0x27] @ '' style array argument''"
| "match_message fn ZeroSizedUnnamed = ''A zero-sized array (or empty parameter list) appeared in the place of an unnamed parameter to function '' @ fn
     @ '' which expects a '' @ [CHR 0x27] @ ''one-or-more'' @ [CHR 0x27] @ '' style array argument''"
| "match_message fn TooManyArguments = ''Too many arguments to function '' @ fn"
| "match_message fn (NamedTwice n) = ''Script error: the named argument '' @ quote n
     @ '' was passed more than once (twice as named or first unnamed then named) to '' @ fn"
| "match_message fn (NamedElementType n) = ''Script error: the named array argument '' @ quote n @ '' to '' @ fn @ '' had a wrong element type''"
| "match_message fn (NamedWrongType n c) = ''Script error: the named argument '' @ quote n @ '' to '' @ fn
     @ '' had the wrong type (passed '' @ [CHR 0x27, c, CHR 0x27] @ '')''"
| "match_message fn (NamedArrayToNonArray n) = ''Script error: the named argument '' @ quote n @ '' to '' @ fn
     @ '' had the wrong type (passed an array to a non-array and not-any parameter)''"
| "match_message fn (NamedZeroCount n) = ''Script error: the named argument '' @ quote n @ '' to '' @ fn
     @ '' is a '' @ [CHR 0x27] @ ''one-or-more'' @ [CHR 0x27] @ '' element style array but had zero element count.''"
| "match_message fn (NoSuchNamed n) = ''Script error: '' @ fn @ '' does not have a named argument '' @ quote n"
| "match_message fn TooManyPassed = ''Too many arguments passed to function (max. is 1024)''"

definition lift_match :: "string \<Rightarrow> (match_error, 'a) result \<Rightarrow> 'a ev" where
  "lift_match fn r = (case r of
     Inr x \<Rightarrow> return_e x
   | Inl e \<Rightarrow> if e = OutOfBounds then raise_e Crash else error_e (match_message fn e))"

text \<open>\<^verbatim>\<open>ScriptEnvironment::Lookup\<close>.  When nothing is found and the autoload directories have
  not been read, they are read and the search runs again; it does not read them twice.\<close>

definition Lookup ::
    "world \<Rightarrow> string \<Rightarrow> AVSValue list \<Rightarrow> string option list \<Rightarrow> (Function \<times> bool) option ev" where
  "Lookup w name args names =
     bind_e (\<lambda>s. lift_match name (lookup_once w name args names s) s) (\<lambda>r.
       case r of
         Inr x \<Rightarrow> return_e (Some x)
       | Inl n \<Rightarrow> bind_e (get_e AutoloadExecuted) (\<lambda>executed.
           if executed then return_e None
           else bind_e (AutoloadPlugins w) (\<lambda>_.
             bind_e (\<lambda>s. lift_match name (lookup_once w n args names s) s) (\<lambda>r.
               return_e (case r of Inr x \<Rightarrow> Some x | Inl _ \<Rightarrow> None)))))"

definition function_exists_once :: "world \<Rightarrow> string \<Rightarrow> env \<Rightarrow> bool" where
  "function_exists_once w name s \<longleftrightarrow>
     (case GetVarTry name s of Some v \<Rightarrow> IsFunction v | None \<Rightarrow> False)
     \<or> InternalFunctionExists w name \<or> PluginManager_FunctionExists name s"

definition FunctionExists :: "world \<Rightarrow> string \<Rightarrow> bool ev" where
  "FunctionExists w name =
     bind_e (get_e (function_exists_once w name)) (\<lambda>b.
       if b then return_e True
       else bind_e (get_e AutoloadExecuted) (\<lambda>executed.
         if executed then return_e False
         else bind_e (AutoloadPlugins w) (\<lambda>_. get_e (function_exists_once w name))))"

definition CheckArguments ::
    "Function \<Rightarrow> AVSValue list \<Rightarrow> string option list \<Rightarrow> (match_error, bool option) result" where
  "CheckArguments f args names =
     bind_r (matches f args False names) (\<lambda>b.
       if b then bind_r (TypeMatch (param_types f) args True) (\<lambda>st. Inr (Some st)) else Inr None)"

text \<open>Steps 1 to 4 of \<^verbatim>\<open>Invoke_\<close>: the function to call and the values of its parameters;
  \<open>None\<close> is \<^verbatim>\<open>return false\<close>.\<close>

definition resolve_call ::
    "world \<Rightarrow> AVSValue \<Rightarrow> string \<Rightarrow> Function option \<Rightarrow> AVSValue list \<Rightarrow> string option list
     \<Rightarrow> (Function \<times> bool \<times> AVSValue list) option ev" where
  "resolve_call w implicit_last name f args2 names =
     (case f of
        Some g \<Rightarrow>
          bind_e (lift_match name (CheckArguments g args2 names)) (\<lambda>r.
            case r of
              Some st \<Rightarrow> return_e (Some (g, st, args2))
            | None \<Rightarrow>
                if \<not> Defined implicit_last then return_e None
                else bind_e (lift_match name (CheckArguments g (implicit_last # args2) names)) (\<lambda>r.
                  return_e (map_option (\<lambda>st. (g, st, implicit_last # args2)) r)))
      | None \<Rightarrow>
          bind_e (Lookup w name args2 names) (\<lambda>r.
            case r of
              Some (g, st) \<Rightarrow> return_e (Some (g, st, args2))
            | None \<Rightarrow>
                if \<not> Defined implicit_last then return_e None
                else bind_e (Lookup w name (implicit_last # args2) names) (\<lambda>r.
                  return_e (map_option (\<lambda>(g, st). (g, st, implicit_last # args2)) r))))"

definition arg_name_list :: "AVSValue \<Rightarrow> string option list option \<Rightarrow> string option list" where
  "arg_name_list args arg_names =
     (case arg_names of None \<Rightarrow> [] | Some ns \<Rightarrow> if IsArray args then take (nat (ArraySize args)) ns else [])"

definition prepare_call ::
    "world \<Rightarrow> AVSValue \<Rightarrow> string option \<Rightarrow> Function option \<Rightarrow> AVSValue \<Rightarrow> string option list option
     \<Rightarrow> (Function \<times> AVSValue list) option ev" where
  "prepare_call w implicit_last name f args arg_names =
     (let nm = (case name of None \<Rightarrow> ''<anonymous function>'' | Some n \<Rightarrow> n);
          args2 = Flatten args arg_names;
          names = arg_name_list args arg_names
      in if length args2 > max_args then error_e (match_message nm TooManyPassed)
         else bind_e (resolve_call w implicit_last nm f args2 names) (\<lambda>r.
           case r of
             None \<Rightarrow> return_e None
           | Some (g, strict, as) \<Rightarrow>
               bind_e (lift_match nm (bind_arguments (param_types g) strict as (named_args args arg_names)))
                 (\<lambda>vs. return_e (Some (g, vs)))))"

end
