(* ===== verification/Evaluator.thy ===== *)
theory Evaluator
  imports Function_Table
begin

text \<open>
  The evaluation of scripts: the \<^verbatim>\<open>Evaluate\<close> methods of
  \<^verbatim>\<open>core/parser/expression.cpp\<close>, \<^verbatim>\<open>ScriptFunction::Execute\<close> of
  \<^verbatim>\<open>core/parser/script.cpp\<close> and the call of the function \<^verbatim>\<open>Invoke_\<close> found.

  The exceptions of the language are outcomes of a computation, the state at the throw being the
  state the handler sees.  A script may run for ever, so the interpreter takes fuel: \<open>run n\<close>
  gives \<open>NoFuel\<close> when \<open>n\<close> is too small, which no handler catches, and any larger \<open>n\<close> gives the
  same as one that was enough (\<open>run_mono\<close>).  A job is an expression or a loop between two
  iterations.

  \<^verbatim>\<open>ExpExceptionTranslator\<close> lets every exception of the language pass; the system
  exceptions and foreign C++ exceptions it translates are not part of the model.  Calls go the way
  of a script that is being evaluated (\<^verbatim>\<open>is_runtime\<close> is false); what the environment wraps
  around a clip that compiled code returns is part of that code here.  Function objects are never
  freed.  A \<^verbatim>\<open>func\<close> literal makes its object when it is evaluated, so two evaluations of
  one literal are different functions here, while they are the same object in the code.
\<close>


section \<open>Operators\<close>

text \<open>\<^verbatim>\<open>if (result >= INT_MIN && result <= INT_MAX) return (int)result; return result;\<close>\<close>

definition int_result :: "int \<Rightarrow> AVSValue" where
  "int_result r = (if INT_MIN \<le> r \<and> r \<le> INT_MAX then VInt r else VLong r)"

definition the_long :: "AVSValue \<Rightarrow> int" where
  "the_long v = (case AsLong v of Some i \<Rightarrow> i | None \<Rightarrow> 0)"

definition the_float :: "AVSValue \<Rightarrow> fp" where
  "the_float v = (case AsFloat v of Some f \<Rightarrow> f | None \<Rightarrow> Zero False)"

definition the_floatf :: "AVSValue \<Rightarrow> fp" where
  "the_floatf v = (case AsFloatf v of Some f \<Rightarrow> f | None \<Rightarrow> Zero False)"

definition the_string :: "AVSValue \<Rightarrow> string" where
  "the_string v = (case AsString v of Some s \<Rightarrow> s | None \<Rightarrow> [])"

text \<open>The numeric branches that \<^verbatim>\<open>+ - * /\<close> share; \<open>None\<close>: not both numbers.\<close>

definition arith ::
    "(int \<Rightarrow> int \<Rightarrow> int) \<Rightarrow> (format \<Rightarrow> fp \<Rightarrow> fp \<Rightarrow> fp) \<Rightarrow> AVSValue \<Rightarrow> AVSValue \<Rightarrow> AVSValue option" where
  "arith iop fop x y =
     (if IsInt x \<and> IsInt y then Some (int_result (wrap64 (iop (the_long x) (the_long y))))
      else if IsFloatfStrict x \<and> IsFloatfStrict y then Some (VFloat (fop binary32 (the_floatf x) (the_floatf y)))
      else if IsFloat x \<and> IsFloat y then Some (VDouble (fop binary64 (the_float x) (the_float y)))
      else None)"

text \<open>\<^verbatim>\<open>strcasecmp\<close>: the sign of the first difference of the folded bytes.\<close>

fun bytes_less :: "string \<Rightarrow> string \<Rightarrow> bool" where
  "bytes_less a [] = False"
| "bytes_less [] (c # b) = True"
| "bytes_less (x # a) (y # b) \<longleftrightarrow> cc x < cc y \<or> (x = y \<and> bytes_less a b)"

definition stricmp_less :: "string \<Rightarrow> string \<Rightarrow> bool" where
  "stricmp_less a b = bytes_less (canon a) (canon b)"

definition op_equal :: "AVSValue \<Rightarrow> AVSValue \<Rightarrow> bool option" where
  "op_equal x y =
     (if IsBool x \<and> IsBool y then Some (x = y)
      else if IsInt x \<and> IsInt y then Some (the_long x = the_long y)
      else if IsFloatfStrict x \<and> IsFloatfStrict y then Some (fp_eq (the_floatf x) (the_floatf y))
      else if IsFloat x \<and> IsFloat y then Some (fp_eq (the_float x) (the_float y))
      else if IsClip x \<and> IsClip y then Some (x = y)
      else if IsString x \<and> IsString y then Some (streqi (the_string x) (the_string y))
      else if IsFunction x \<and> IsFunction y then Some (x = y)
      else None)"

definition op_less :: "AVSValue \<Rightarrow> AVSValue \<Rightarrow> bool option" where
  "op_less x y =
     (if IsInt x \<and> IsInt y then Some (the_long x < the_long y)
      else if IsFloatfStrict x \<and> IsFloatfStrict y then Some (fp_less (the_floatf x) (the_floatf y))
      else if IsFloat x \<and> IsFloat y then Some (fp_less (the_float x) (the_float y))
      else if IsString x \<and> IsString y then Some (stricmp_less (the_string x) (the_string y))
      else None)"

definition op_negate :: "AVSValue \<Rightarrow> AVSValue option" where
  "op_negate x =
     (if IsInt x then Some (int_result (wrap64 (- the_long x)))
      else if IsFloatfStrict x then Some (VFloat (fp_neg (the_floatf x)))
      else if IsFloat x then Some (VDouble (fp_neg (the_float x)))
      else None)"

fun GetAVSTypeName :: "AVSValue \<Rightarrow> string" where
  "GetAVSTypeName (VClip _) = ''clip''"
| "GetAVSTypeName (VBool _) = ''bool''"
| "GetAVSTypeName (VLong _) = ''long''"
| "GetAVSTypeName (VInt _) = ''int''"
| "GetAVSTypeName (VFloat _) = ''float''"
| "GetAVSTypeName (VDouble _) = ''double''"
| "GetAVSTypeName (VString _) = ''string''"
| "GetAVSTypeName (VArray _) = ''array''"
| "GetAVSTypeName (VFunction _) = ''function''"
| "GetAVSTypeName VUndefined = ''undefined value''"

fun show_nat :: "nat \<Rightarrow> string" where
  "show_nat n = (if n < 10 then [char_of (48 + n)] else show_nat (n div 10) @ [char_of (48 + n mod 10)])"

declare show_nat.simps [simp del]

definition show_int :: "int \<Rightarrow> string" where
  "show_int i = (if i < 0 then CHR ''-'' # show_nat (nat (- i)) else show_nat (nat i))"

abbreviation APO :: char where "APO \<equiv> CHR 0x27"


section \<open>Jobs and handlers\<close>

datatype job =
    Eval expr
  | WhileJob expr "expr option" AVSValue
  | ForJob string int int "expr option" int AVSValue

type_synonym interp = "job \<Rightarrow> AVSValue ev"

text \<open>\<^verbatim>\<open>catch\<close> of one kind of exception, and \<^verbatim>\<open>catch (...) { PopContext(); throw; }\<close>
  with the \<^verbatim>\<open>PopContext\<close> of the normal end.  Running out of fuel and traps are no exceptions
  of the program and no handler sees them.\<close>

definition catch_e :: "'a ev \<Rightarrow> (exc \<Rightarrow> 'a ev option) \<Rightarrow> 'a ev" where
  "catch_e p h s = (case p s of
     (Value x, s') \<Rightarrow> (Value x, s')
   | (Raise e, s') \<Rightarrow> (case h e of None \<Rightarrow> (Raise e, s') | Some q \<Rightarrow> q s'))"

definition finally_pop :: "'a ev \<Rightarrow> 'a ev" where
  "finally_pop p s = (case p s of (r, s') \<Rightarrow>
     if r = Raise NoFuel \<or> r = Raise Trap then (r, s')
     else (case PopContext s' of (Value _, s'') \<Rightarrow> (r, s'') | (Raise e, s'') \<Rightarrow> (Raise e, s'')))"

definition last_value :: "AVSValue ev" where
  "last_value = get_e (\<lambda>s. case GetVarTry ''last'' s of Some v \<Rightarrow> v | None \<Rightarrow> VUndefined)"

definition set_last_if_clip :: "AVSValue \<Rightarrow> unit ev" where
  "set_last_if_clip v = (if IsClip v then bind_e (SetVar ''last'' v) (\<lambda>_. return_e ()) else return_e ())"

definition eval_opt :: "interp \<Rightarrow> expr option \<Rightarrow> AVSValue \<Rightarrow> AVSValue ev" where
  "eval_opt rec e d = (case e of Some x \<Rightarrow> rec (Eval x) | None \<Rightarrow> return_e d)"


section \<open>Calls\<close>

text \<open>\<^verbatim>\<open>FilterConstructor::InstantiateFilter\<close>: old plugins get 32 bit numbers.\<close>

fun narrow_arg :: "AVSValue \<Rightarrow> AVSValue" where
  "narrow_arg (VLong l) = VInt (wrap32 l)"
| "narrow_arg (VDouble d) = VFloat (fp_convert binary32 d)"
| "narrow_arg v = v"

definition is_within_int_in_float32_range :: "int \<Rightarrow> bool" where
  "is_within_int_in_float32_range v \<longleftrightarrow> - 16777216 \<le> v \<and> v \<le> 16777216"

text \<open>An integer given to a float parameter.  Both arms of the inner conditional have the common
  type \<^verbatim>\<open>double\<close>.\<close>

definition float_param :: "bool \<Rightarrow> AVSValue \<Rightarrow> AVSValue" where
  "float_param is_float v =
     (if is_float \<and> IsInt v then
        VDouble (if is_within_int_in_float32_range (the_long v)
                 then fp_convert binary64 (fp_of_int binary32 (the_long v))
                 else fp_of_int binary64 (the_long v))
      else v)"

text \<open>The loop over \<^verbatim>\<open>args[i]\<close>: reading past the names or the flags is a crash.\<close>

fun set_params :: "string list \<Rightarrow> bool list \<Rightarrow> AVSValue list \<Rightarrow> unit ev" where
  "set_params ns fs [] = return_e ()"
| "set_params (n # ns) (f # fs) (v # vs) = bind_e (SetVar n (float_param f v)) (\<lambda>_. set_params ns fs vs)"
| "set_params _ _ (v # vs) = raise_e Crash"

fun set_captures :: "string list \<Rightarrow> AVSValue list \<Rightarrow> unit ev" where
  "set_captures (n # ns) (v # vs) = bind_e (SetVar n v) (\<lambda>_. set_captures ns vs)"
| "set_captures [] _ = return_e ()"
| "set_captures (n # ns) [] = raise_e Crash"

definition ScriptFunction_Execute :: "interp \<Rightarrow> script_function \<Rightarrow> AVSValue list \<Rightarrow> AVSValue ev" where
  "ScriptFunction_Execute rec sf args =
     bind_e PushContext (\<lambda>_.
     bind_e (set_params (sf_param_names sf) (sf_floats sf) args) (\<lambda>_.
     finally_pop (rec (Eval (sf_body sf)))))"

definition FunctionInstance_Execute :: "interp \<Rightarrow> function_instance \<Rightarrow> AVSValue list \<Rightarrow> AVSValue ev" where
  "FunctionInstance_Execute rec fi args =
     bind_e PushContext (\<lambda>_.
     bind_e (set_captures (fi_var_names fi) (fi_var_data fi)) (\<lambda>_.
     bind_e (set_params (fi_param_names fi) (fi_floats fi) args) (\<lambda>_.
     finally_pop (rec (Eval (fi_body fi))))))"

definition call_function :: "world \<Rightarrow> interp \<Rightarrow> Function \<Rightarrow> AVSValue list \<Rightarrow> AVSValue ev" where
  "call_function w rec f vs =
     (let args = (if isPluginAvs25 f \<or> isPluginPreV11C f then map narrow_arg vs else vs) in
      case fn_apply f of
        ScriptFunctionExecute sf \<Rightarrow> ScriptFunction_Execute rec sf args
      | FunctionInstanceExecute k \<Rightarrow> (\<lambda>s.
          if k < length (fobjs s) then
            (case fobjs s ! k of
               FunctionInstance fi \<Rightarrow> FunctionInstance_Execute rec fi args s
             | WrappedFunction _ \<Rightarrow> (Raise Crash, s))
          else (Raise Crash, s))
      | NativeApply n \<Rightarrow> native w n args)"

definition Invoke_impl ::
    "world \<Rightarrow> interp \<Rightarrow> AVSValue \<Rightarrow> string option \<Rightarrow> Function option \<Rightarrow> AVSValue \<Rightarrow> string option list option
     \<Rightarrow> AVSValue option ev" where
  "Invoke_impl w rec implicit_last name f args arg_names =
     bind_e (prepare_call w implicit_last name f args arg_names) (\<lambda>r.
       case r of
         None \<Rightarrow> return_e None
       | Some (g, vs) \<Rightarrow> bind_e (call_function w rec g vs) (\<lambda>v. return_e (Some v)))"

definition InvokeTry :: "world \<Rightarrow> interp \<Rightarrow> string \<Rightarrow> AVSValue \<Rightarrow> AVSValue option ev" where
  "InvokeTry w rec name args = Invoke_impl w rec VUndefined (Some name) None args None"

definition Invoke :: "world \<Rightarrow> interp \<Rightarrow> string \<Rightarrow> AVSValue \<Rightarrow> AVSValue ev" where
  "Invoke w rec name args =
     bind_e (InvokeTry w rec name args) (\<lambda>r. case r of Some v \<Rightarrow> return_e v | None \<Rightarrow> raise_e NotFound)"

text \<open>The objects behind function values.\<close>

definition new_object :: "func_obj \<Rightarrow> AVSValue ev" where
  "new_object f s = (Value (VFunction (length (fobjs s))), s\<lparr>fobjs := fobjs s @ [f]\<rparr>)"

definition with_object :: "AVSValue \<Rightarrow> (func_obj \<Rightarrow> 'a ev) \<Rightarrow> 'a ev" where
  "with_object v k s =
     (case v of VFunction i \<Rightarrow> if i < length (fobjs s) then k (fobjs s ! i) s else (Raise Crash, s)
      | _ \<Rightarrow> (Raise Crash, s))"

definition printf_s :: "string option \<Rightarrow> string" where
  "printf_s s = (case s of None \<Rightarrow> ''(null)'' | Some x \<Rightarrow> x)"

fun ToString :: "func_obj \<Rightarrow> string" where
  "ToString (WrappedFunction n) = ''Wrapped Function: '' @ n"
| "ToString (FunctionInstance fi) =
     (case fi_name fi of
        Some n \<Rightarrow> ''Function: '' @ n @ '' defined at '' @ printf_s (fi_filename fi) @ '', line '' @ show_int (fi_line fi)
      | None \<Rightarrow> ''Function: defined at '' @ printf_s (fi_filename fi) @ '', line '' @ show_int (fi_line fi))"

fun eval_args :: "interp \<Rightarrow> expr list \<Rightarrow> AVSValue list ev" where
  "eval_args rec [] = return_e []"
| "eval_args rec (e # es) = bind_e (rec (Eval e)) (\<lambda>v. bind_e (eval_args rec es) (\<lambda>vs. return_e (v # vs)))"

fun capture_vars :: "string list \<Rightarrow> AVSValue list ev" where
  "capture_vars [] = return_e []"
| "capture_vars (n # ns) =
     bind_e (get_e (GetVarTry n)) (\<lambda>r.
       case r of None \<Rightarrow> error_e (''No variable named '' @ [APO] @ n @ [APO])
       | Some v \<Rightarrow> bind_e (capture_vars ns) (\<lambda>vs. return_e (v # vs)))"


section \<open>Loops\<close>

text \<open>One iteration's body: its value becomes \<^verbatim>\<open>last\<close> when it is a clip; \<^verbatim>\<open>break\<close> and
  \<^verbatim>\<open>continue\<close> take a clip in \<^verbatim>\<open>last\<close> as the result.  The flag says to go on.\<close>

definition loop_exit :: "bool \<Rightarrow> AVSValue \<Rightarrow> (bool \<times> AVSValue) ev" where
  "loop_exit go result = bind_e last_value (\<lambda>r. return_e (go, if IsClip r then r else result))"

definition loop_body :: "interp \<Rightarrow> expr option \<Rightarrow> AVSValue \<Rightarrow> (bool \<times> AVSValue) ev" where
  "loop_body rec body result =
     (case body of
        None \<Rightarrow> return_e (True, result)
      | Some b \<Rightarrow>
          catch_e (bind_e (rec (Eval b)) (\<lambda>r. bind_e (set_last_if_clip r) (\<lambda>_. return_e (True, r))))
            (\<lambda>e. case e of
               BreakStmtException \<Rightarrow> Some (loop_exit False result)
             | ContinueStmtException \<Rightarrow> Some (loop_exit True result)
             | _ \<Rightarrow> None))"

definition while_step :: "interp \<Rightarrow> expr \<Rightarrow> expr option \<Rightarrow> AVSValue \<Rightarrow> AVSValue ev" where
  "while_step rec condition body result =
     bind_e (rec (Eval condition)) (\<lambda>c.
       if \<not> IsBool c then error_e ''while: condition must be boolean (true/false)''
       else if c = VBool False then return_e result
       else bind_e (loop_body rec body result) (\<lambda>(go, r).
         if go then rec (WhileJob condition body r) else return_e r))"

definition for_step :: "interp \<Rightarrow> string \<Rightarrow> int \<Rightarrow> int \<Rightarrow> expr option \<Rightarrow> int \<Rightarrow> AVSValue \<Rightarrow> AVSValue ev" where
  "for_step rec id' iLimit iStep body i result =
     (if (if iStep > 0 then i \<le> iLimit else i \<ge> iLimit) then
        bind_e (loop_body rec body result) (\<lambda>(go, r).
          if \<not> go then return_e r
          else bind_e (GetVar id') (\<lambda>idVal.
            if \<not> IsInt idVal then error_e (''for: loop variable '' @ [APO] @ id' @ [APO] @ '' has been assigned a non-int value'')
            else (let i' = wrap64 (the_long idVal + iStep) in
              bind_e (SetVar id' (int_result i')) (\<lambda>_. rec (ForJob id' iLimit iStep body i' r)))))
      else return_e result)"



section \<open>Expressions\<close>

definition need_bool :: "string \<Rightarrow> AVSValue \<Rightarrow> bool ev" where
  "need_bool msg v = (case AsBool v of Some b \<Rightarrow> return_e b | None \<Rightarrow> error_e msg)"

definition value_or_error :: "string \<Rightarrow> 'a option \<Rightarrow> 'a ev" where
  "value_or_error msg r = (case r of Some v \<Rightarrow> return_e v | None \<Rightarrow> error_e msg)"

definition eval2 :: "interp \<Rightarrow> expr \<Rightarrow> expr \<Rightarrow> (AVSValue \<Rightarrow> AVSValue \<Rightarrow> AVSValue ev) \<Rightarrow> AVSValue ev" where
  "eval2 rec a b k = bind_e (rec (Eval a)) (\<lambda>x. bind_e (rec (Eval b)) (k x))"

definition eval_plus :: "world \<Rightarrow> interp \<Rightarrow> AVSValue \<Rightarrow> AVSValue \<Rightarrow> AVSValue ev" where
  "eval_plus w rec x y =
     (if IsClip x \<and> IsClip y then Invoke w rec ''UnalignedSplice'' (VArray [x, y, VInt 0])
      else case arith (+) fp_add x y of
        Some v \<Rightarrow> return_e v
      | None \<Rightarrow> if IsString x \<and> IsString y then return_e (VString (the_string x @ the_string y))
          else error_e (''Evaluate: operands of `+'' @ [APO] @ '' must both be numbers, strings, or clips''))"

definition eval_double_plus :: "world \<Rightarrow> interp \<Rightarrow> AVSValue \<Rightarrow> AVSValue \<Rightarrow> AVSValue ev" where
  "eval_double_plus w rec x y =
     (if IsClip x \<and> IsClip y then Invoke w rec ''AlignedSplice'' (VArray [x, y, VInt 0])
      else error_e (''Evaluate: operands of `++'' @ [APO] @ '' must be clips''))"

text \<open>The quotient of the smallest 64 bit integer by -1 does not fit: the division instruction traps,
  for \<^verbatim>\<open>%\<close> too.\<close>

definition quotient_overflows :: "int \<Rightarrow> int \<Rightarrow> bool" where
  "quotient_overflows x y \<longleftrightarrow> x = - (2 ^ 63) \<and> y = -1"

definition eval_div :: "AVSValue \<Rightarrow> AVSValue \<Rightarrow> AVSValue ev" where
  "eval_div x y =
     (if IsInt x \<and> IsInt y \<and> the_long y = 0 then error_e ''Evaluate: division by zero''
      else if IsInt x \<and> IsInt y \<and> quotient_overflows (the_long x) (the_long y) then raise_e Trap
      else value_or_error (''Evaluate: operands of `/'' @ [APO] @ '' must be numeric'') (arith cdiv fp_div x y))"

definition eval_mod :: "AVSValue \<Rightarrow> AVSValue \<Rightarrow> AVSValue ev" where
  "eval_mod x y =
     (if IsInt x \<and> IsInt y then
        (if the_long y = 0 then error_e ''Evaluate: division by zero''
         else if quotient_overflows (the_long x) (the_long y) then raise_e Trap
         else return_e (int_result (wrap64 (cmod (the_long x) (the_long y)))))
      else error_e (''Evaluate: operands of `%'' @ [APO] @ '' must be integers''))"

definition unknown_name :: "string \<Rightarrow> 'a ev" where
  "unknown_name name = error_e (''I don'' @ [APO] @ ''t know what '' @ [APO] @ name @ [APO] @ '' means.'')"

text \<open>A function of the single argument \<^verbatim>\<open>last\<close>, then the variable once more.\<close>

definition call_with_last :: "world \<Rightarrow> interp \<Rightarrow> string \<Rightarrow> AVSValue option ev" where
  "call_with_last w rec name =
     bind_e (get_e (GetVarTry ''last'')) (\<lambda>l. case l of None \<Rightarrow> return_e None | Some v \<Rightarrow> InvokeTry w rec name v)"

definition last_chance :: "string \<Rightarrow> AVSValue ev" where
  "last_chance name =
     bind_e (get_e (GetVarTry name)) (\<lambda>v. case v of Some x \<Rightarrow> return_e x | None \<Rightarrow> unknown_name name)"

definition eval_variable :: "world \<Rightarrow> interp \<Rightarrow> string \<Rightarrow> AVSValue ev" where
  "eval_variable w rec name =
     bind_e (get_e (GetVarTry name)) (\<lambda>v. case v of
       Some x \<Rightarrow> return_e x
     | None \<Rightarrow> bind_e (InvokeTry w rec name (VArray [])) (\<lambda>r. case r of
         Some x \<Rightarrow> return_e x
       | None \<Rightarrow> bind_e (call_with_last w rec name) (\<lambda>r. case r of
           Some x \<Rightarrow> return_e x
         | None \<Rightarrow> last_chance name)))"

text \<open>With \<^verbatim>\<open>withret\<close>, the value a call of that name with \<^verbatim>\<open>last\<close> gives is computed
  and dropped; the variable itself is the result only when there is no such function.\<close>

definition eval_assignment :: "world \<Rightarrow> interp \<Rightarrow> string \<Rightarrow> expr \<Rightarrow> bool \<Rightarrow> AVSValue ev" where
  "eval_assignment w rec lhs rhs withret =
     bind_e (rec (Eval rhs)) (\<lambda>v.
     bind_e (SetVar lhs v) (\<lambda>_.
       if withret then
         bind_e (call_with_last w rec lhs) (\<lambda>r.
           case r of Some _ \<Rightarrow> return_e VUndefined | None \<Rightarrow> last_chance lhs)
       else return_e VUndefined))"

text \<open>\<^verbatim>\<open>ExpFunctionCall::Evaluate\<close>: the callee, the two attempts, and the final error.\<close>

definition callee :: "interp \<Rightarrow> string option \<Rightarrow> expr \<Rightarrow> (string option \<times> Function option \<times> AVSValue) ev" where
  "callee rec name func =
     (case name of
        Some n \<Rightarrow> return_e (Some n, None, VUndefined)
      | None \<Rightarrow> bind_e (rec (Eval func)) (\<lambda>v.
          if \<not> IsFunction v then
            error_e (''Script error: '' @ [APO] @ GetAVSTypeName v @ [APO] @ '' cannot be called. Give me a function!'')
          else with_object v (\<lambda>f. return_e (GetLegacyName f, GetDefinition f, v))))"

definition catch_not_found :: "'a ev \<Rightarrow> ('a \<times> bool) ev \<Rightarrow> ('a \<times> bool) ev" where
  "catch_not_found p q =
     catch_e (bind_e p (\<lambda>v. return_e (v, False))) (\<lambda>e. if e = NotFound then Some q else None)"

definition call_error :: "world \<Rightarrow> string option \<Rightarrow> AVSValue \<Rightarrow> AVSValue ev" where
  "call_error w real_name fval =
     (case real_name of
        None \<Rightarrow> with_object fval (\<lambda>f. error_e (''Script error: Invalid arguments to '' @ ToString f @ ''.''))
      | Some n \<Rightarrow>
          bind_e (get_e (GetVarTry n)) (\<lambda>var.
          bind_e (case var of
                    Some v \<Rightarrow> if IsFunction v
                      then with_object v (\<lambda>f. return_e (case GetLegacyName f of Some m \<Rightarrow> m | None \<Rightarrow> n))
                      else return_e n
                  | None \<Rightarrow> return_e n) (\<lambda>m.
          bind_e (FunctionExists w m) (\<lambda>b.
            error_e (if b then ''Script error: Invalid arguments to function '' @ [APO] @ m @ [APO] @ ''.''
                     else ''Script error: There is no function named '' @ [APO] @ m @ [APO] @ ''.'')))))"

definition eval_call ::
    "world \<Rightarrow> interp \<Rightarrow> string option \<Rightarrow> expr \<Rightarrow> (expr \<times> string option) list \<Rightarrow> bool \<Rightarrow> AVSValue ev" where
  "eval_call w rec name func args oop_notation =
     bind_e (callee rec name func) (\<lambda>(real_name, real_func, fval).
     bind_e (eval_args rec (map fst args)) (\<lambda>vs.
     bind_e (if oop_notation then return_e VUndefined else get_e (GetVarDef ''last'' VUndefined)) (\<lambda>implicit_last.
     bind_e (catch_not_found (Invoke_impl w rec implicit_last real_name real_func (VArray vs) (Some (map snd args)))
               (return_e (None, True))) (\<lambda>(r, notfound).
     case r of
       Some v \<Rightarrow> return_e v
     | None \<Rightarrow>
         if notfound \<and> IsClip implicit_last then
           bind_e (catch_not_found (Invoke_impl w rec VUndefined real_name real_func (VArray (implicit_last # vs))
                      (Some (None # map snd args))) (return_e (None, True))) (\<lambda>(r, _).
             case r of Some v \<Rightarrow> return_e v | None \<Rightarrow> call_error w real_name fval)
         else call_error w real_name fval))))"

definition eval_wrapper :: "string \<Rightarrow> AVSValue ev" where
  "eval_wrapper name =
     bind_e (get_e (GetVarTry name)) (\<lambda>v.
       case v of
         Some x \<Rightarrow> if IsFunction x then return_e x else new_object (WrappedFunction name)
       | None \<Rightarrow> new_object (WrappedFunction name))"

definition instance_function :: "string option \<Rightarrow> string \<Rightarrow> nat \<Rightarrow> Function" where
  "instance_function name params k =
     \<lparr>fn_name = name, canon_name = map_option (\<lambda>n. ''_'' @ n) name, param_types = params,
      fn_apply = FunctionInstanceExecute k, dll_path = None, isPluginAvs25 = False, isPluginPreV11C = False\<rparr>"

definition eval_definition ::
    "expr \<Rightarrow> string option \<Rightarrow> string \<Rightarrow> bool list \<Rightarrow> string list \<Rightarrow> string list \<Rightarrow> string option \<Rightarrow> int \<Rightarrow> AVSValue ev" where
  "eval_definition body name params floats pnames vnames filename ln =
     bind_e (capture_vars vnames) (\<lambda>data.
     bind_e (get_e (\<lambda>s. length (fobjs s))) (\<lambda>k.
     bind_e (new_object (FunctionInstance
       \<lparr>fi_data = instance_function name params k, fi_body = body, fi_floats = floats, fi_param_names = pnames,
        fi_var_names = vnames, fi_var_data = data, fi_name = name, fi_filename = filename, fi_line = ln\<rparr>)) (\<lambda>f.
       case name of
         None \<Rightarrow> return_e f
       | Some n \<Rightarrow> bind_e (SetGlobalVar n f) (\<lambda>_. return_e VUndefined))))"

fun Evaluate :: "world \<Rightarrow> interp \<Rightarrow> expr \<Rightarrow> AVSValue ev" where
  "Evaluate w rec (ExpRootBlock e) =
     catch_e (rec (Eval e)) (\<lambda>x. case x of ReturnExprException v \<Rightarrow> Some (return_e v) | _ \<Rightarrow> None)"
| "Evaluate w rec (ExpConstant v) = return_e v"
| "Evaluate w rec (ExpSequence a b) =
     bind_e (rec (Eval a)) (\<lambda>l. bind_e (set_last_if_clip l) (\<lambda>_. rec (Eval b)))"
| "Evaluate w rec (ExpTryCatch e id' c) =
     catch_e (rec (Eval e)) (\<lambda>x. case x of
       AvisynthError msg \<Rightarrow> Some (bind_e (SetVar id' (VString msg)) (\<lambda>_. rec (Eval c))) | _ \<Rightarrow> None)"
| "Evaluate w rec (ExpLine e filename ln) =
     catch_e (rec (Eval e)) (\<lambda>x. case x of
       AvisynthError msg \<Rightarrow> Some (error_e (msg @ [LF] @ ''('' @ filename @ '', line '' @ show_int ln @ '')'')) | _ \<Rightarrow> None)"
| "Evaluate w rec (ExpBlockConditional i t e) =
     bind_e last_value (\<lambda>l.
     bind_e (rec (Eval i)) (\<lambda>c.
     bind_e (need_bool ''if: condition must be boolean (true/false)'' c) (\<lambda>b.
     bind_e (eval_opt rec (if b then t else e) l) (\<lambda>r.
     bind_e (set_last_if_clip r) (\<lambda>_. return_e r)))))"
| "Evaluate w rec (ExpWhileLoop c body) = bind_e last_value (\<lambda>l. rec (WhileJob c body l))"
| "Evaluate w rec (ExpForLoop id' init limit step body) =
     bind_e (rec (Eval init)) (\<lambda>initVal.
     bind_e (rec (Eval limit)) (\<lambda>limitVal.
     bind_e (rec (Eval step)) (\<lambda>stepVal.
       if \<not> IsInt initVal then error_e ''for: initial value must be int''
       else if \<not> IsInt limitVal then error_e ''for: final value must be int''
       else if \<not> IsInt stepVal then error_e ''for: step value must be int''
       else if the_long stepVal = 0 then error_e ''for: step value must be non-zero''
       else bind_e last_value (\<lambda>l.
         bind_e (SetVar id' initVal) (\<lambda>_.
           rec (ForJob id' (the_long limitVal) (the_long stepVal) body (the_long initVal) l))))))"
| "Evaluate w rec ExpBreak = raise_e BreakStmtException"
| "Evaluate w rec ExpContinue = raise_e ContinueStmtException"
| "Evaluate w rec (ExpConditional i t e) =
     bind_e (rec (Eval i)) (\<lambda>c.
     bind_e (need_bool (''Evaluate: left of `?'' @ [APO] @ '' must be boolean (true/false)'') c) (\<lambda>b.
       rec (Eval (if b then t else e))))"
| "Evaluate w rec (ExpReturn e) = bind_e (rec (Eval e)) (\<lambda>v. raise_e (ReturnExprException v))"
| "Evaluate w rec (ExpOr a b) =
     bind_e (rec (Eval a)) (\<lambda>x.
     bind_e (need_bool ''Evaluate: left operand of || must be boolean (true/false)'' x) (\<lambda>xb.
       if xb then return_e x
       else bind_e (rec (Eval b)) (\<lambda>y.
         bind_e (need_bool ''Evaluate: right operand of || must be boolean (true/false)'' y) (\<lambda>_. return_e y))))"
| "Evaluate w rec (ExpAnd a b) =
     bind_e (rec (Eval a)) (\<lambda>x.
     bind_e (need_bool ''Evaluate: left operand of && must be boolean (true/false)'' x) (\<lambda>xb.
       if \<not> xb then return_e x
       else bind_e (rec (Eval b)) (\<lambda>y.
         bind_e (need_bool ''Evaluate: right operand of && must be boolean (true/false)'' y) (\<lambda>_. return_e y))))"
| "Evaluate w rec (ExpEqual a b) = eval2 rec a b (\<lambda>x y.
     bind_e (value_or_error (''Evaluate: operands of `=='' @ [APO] @ '' and `!='' @ [APO] @ '' must be comparable'') (op_equal x y))
       (\<lambda>r. return_e (VBool r)))"
| "Evaluate w rec (ExpLess a b) = eval2 rec a b (\<lambda>x y.
     bind_e (value_or_error (''Evaluate: operands of `<'' @ [APO] @ '' and friends must be string or numeric'') (op_less x y))
       (\<lambda>r. return_e (VBool r)))"
| "Evaluate w rec (ExpPlus a b) = eval2 rec a b (eval_plus w rec)"
| "Evaluate w rec (ExpDoublePlus a b) = eval2 rec a b (eval_double_plus w rec)"
| "Evaluate w rec (ExpMinus a b) = eval2 rec a b (\<lambda>x y.
     value_or_error (''Evaluate: operands of `-'' @ [APO] @ '' must be numeric'') (arith (-) fp_sub x y))"
| "Evaluate w rec (ExpMult a b) = eval2 rec a b (\<lambda>x y.
     value_or_error (''Evaluate: operands of `*'' @ [APO] @ '' must be numeric'') (arith (*) fp_mul x y))"
| "Evaluate w rec (ExpDiv a b) = eval2 rec a b eval_div"
| "Evaluate w rec (ExpMod a b) = eval2 rec a b eval_mod"
| "Evaluate w rec (ExpNegate e) =
     bind_e (rec (Eval e)) (\<lambda>x. value_or_error ''Evaluate: unary minus can only by used with numbers'' (op_negate x))"
| "Evaluate w rec (ExpNot e) =
     bind_e (rec (Eval e)) (\<lambda>x.
     bind_e (need_bool (''Evaluate: operand of `!'' @ [APO] @ '' must be boolean (true/false)'') x) (\<lambda>b.
       return_e (VBool (\<not> b))))"
| "Evaluate w rec (ExpVariableReference name) = eval_variable w rec name"
| "Evaluate w rec (ExpAssignment lhs rhs withret) = eval_assignment w rec lhs rhs withret"
| "Evaluate w rec (ExpGlobalAssignment lhs rhs) =
     bind_e (rec (Eval rhs)) (\<lambda>v. bind_e (SetGlobalVar lhs v) (\<lambda>_. return_e VUndefined))"
| "Evaluate w rec (ExpFunctionCall name func args oop_notation) = eval_call w rec name func args oop_notation"
| "Evaluate w rec ExpLegacyFunctionDefinition = return_e VUndefined"
| "Evaluate w rec (ExpFunctionWrapper name) = eval_wrapper name"
| "Evaluate w rec (ExpFunctionDefinition body name params floats pnames vnames filename ln) =
     eval_definition body name params floats pnames vnames filename ln"

fun run_job :: "world \<Rightarrow> interp \<Rightarrow> job \<Rightarrow> AVSValue ev" where
  "run_job w rec (Eval e) = Evaluate w rec e"
| "run_job w rec (WhileJob c body r) = while_step rec c body r"
| "run_job w rec (ForJob id' limit step body i r) = for_step rec id' limit step body i r"

fun run :: "world \<Rightarrow> nat \<Rightarrow> interp" where
  "run w 0 j = raise_e NoFuel"
| "run w (Suc n) j = run_job w (run w n) j"

end
