(* ===== verification/Eval_Logic.thy ===== *)
theory Eval_Logic
  imports Evaluator
begin

text \<open>
  A program logic for the evaluator.  An invariant \<open>I\<close> of the environment, a relation \<open>R\<close>
  between the environment before and after, and a predicate \<open>V\<close> of values are kept by every
  expression, on normal return and on every exception, as soon as they are kept by the
  operations of the environment that the evaluator calls: this is the contract of the locale
  \<open>eval_logic\<close>.  Two developments interpret it: \<open>Eval_Frames\<close> (the frames of variables) and
  \<open>Eval_Types\<close> (the types of values).
\<close>


section \<open>Triples\<close>

definition exc_ok :: "(env \<Rightarrow> AVSValue \<Rightarrow> bool) \<Rightarrow> exc \<Rightarrow> env \<Rightarrow> bool" where
  "exc_ok V e s = (case e of ReturnExprException v \<Rightarrow> V s v | Crash \<Rightarrow> False | Trap \<Rightarrow> False | NoFuel \<Rightarrow> False | _ \<Rightarrow> True)"

text \<open>From a state with \<open>I\<close>, \<open>p\<close> returns with \<open>Q\<close> or throws, in a state with \<open>I\<close> that is
  \<open>R\<close>-related to the first; nothing is said after the exceptions in \<open>D\<close>.\<close>

definition ev_ok ::
    "(env \<Rightarrow> bool) \<Rightarrow> (env \<Rightarrow> env \<Rightarrow> bool) \<Rightarrow> (env \<Rightarrow> AVSValue \<Rightarrow> bool) \<Rightarrow> (exc \<Rightarrow> bool)
     \<Rightarrow> 'a ev \<Rightarrow> env \<Rightarrow> ('a \<Rightarrow> env \<Rightarrow> bool) \<Rightarrow> bool" where
  "ev_ok I R V D p s Q \<longleftrightarrow>
     (I s \<longrightarrow> (case p s of
        (Value x, s') \<Rightarrow> I s' \<and> R s s' \<and> Q x s'
      | (Raise e, s') \<Rightarrow> D e \<or> (I s' \<and> R s s' \<and> exc_ok V e s')))"

text \<open>The rules that need no more than an order on environments along which values stay good.\<close>

locale ev_rel =
  fixes I :: "env \<Rightarrow> bool"
    and R :: "env \<Rightarrow> env \<Rightarrow> bool"
    and V :: "env \<Rightarrow> AVSValue \<Rightarrow> bool"
    and D :: "exc \<Rightarrow> bool"
  assumes R_refl: "R s s"
    and R_trans: "R s s' \<Longrightarrow> R s' s'' \<Longrightarrow> R s s''"
    and V_mono: "V s v \<Longrightarrow> R s s' \<Longrightarrow> V s' v"
    and D_range: "D e \<Longrightarrow> e = NoFuel \<or> e = Trap \<or> e = Crash"
    and D_Trap: "D Trap"
    and D_NoFuel: "D NoFuel"
begin

lemma ok_return: "(I s \<Longrightarrow> Q x s) \<Longrightarrow> ev_ok I R V D (return_e x) s Q"
  by (simp add: ev_ok_def return_e_def R_refl)

lemma ok_get: "(I s \<Longrightarrow> Q (f s) s) \<Longrightarrow> ev_ok I R V D (get_e f) s Q"
  by (simp add: ev_ok_def get_e_def R_refl)

lemma ok_raise: "(I s \<Longrightarrow> D e \<or> exc_ok V e s) \<Longrightarrow> ev_ok I R V D (raise_e e) s Q"
  by (auto simp: ev_ok_def raise_e_def R_refl)

lemma ok_error: "ev_ok I R V D (error_e m) s Q"
  unfolding error_e_def by (rule ok_raise) (simp add: exc_ok_def)

lemma ok_conseq:
  "ev_ok I R V D p s P \<Longrightarrow> (\<And>x s'. I s' \<Longrightarrow> R s s' \<Longrightarrow> P x s' \<Longrightarrow> Q x s') \<Longrightarrow> ev_ok I R V D p s Q"
  unfolding ev_ok_def by (auto split: prod.splits outcome.splits)

lemma exc_ok_mono: "exc_ok V e s \<Longrightarrow> R s s' \<Longrightarrow> exc_ok V e s'"
  by (auto simp: exc_ok_def intro: V_mono split: exc.splits)

lemma ok_bind:
  assumes "ev_ok I R V D p s (\<lambda>x s'. ev_ok I R V D (f x) s' Q)"
  shows "ev_ok I R V D (bind_e p f) s Q"
proof (cases "p s")
  case (Pair r s')
  show ?thesis
  proof (cases r)
    case (Value x)
    with Pair assms show ?thesis
      by (auto simp: ev_ok_def bind_e_def intro: R_trans split: prod.splits outcome.splits)
  next
    case (Raise e)
    with Pair assms show ?thesis by (simp add: ev_ok_def bind_e_def)
  qed
qed

lemma ok_catch:
  assumes p: "ev_ok I R V D p s Q"
    and dead: "\<And>e. D e \<Longrightarrow> h e = None"
    and h: "\<And>e q s'. I s' \<Longrightarrow> R s s' \<Longrightarrow> exc_ok V e s' \<Longrightarrow> h e = Some q \<Longrightarrow> ev_ok I R V D q s' Q"
  shows "ev_ok I R V D (catch_e p h) s Q"
proof (cases "p s")
  case (Pair r s')
  show ?thesis
  proof (cases r)
    case (Value x)
    with Pair p show ?thesis by (simp add: ev_ok_def catch_e_def)
  next
    case (Raise e)
    show ?thesis
    proof (cases "h e")
      case None
      with Raise Pair p show ?thesis by (simp add: ev_ok_def catch_e_def)
    next
      case (Some q)
      have "I s \<Longrightarrow> I s' \<and> R s s' \<and> exc_ok V e s'" using p Pair Raise dead [of e] Some by (auto simp: ev_ok_def)
      moreover have "I s \<Longrightarrow> ev_ok I R V D q s' Q" using h [OF _ _ _ Some] calculation by blast
      ultimately show ?thesis using Pair Raise Some
        by (auto simp: ev_ok_def catch_e_def intro: R_trans split: prod.splits outcome.splits)
    qed
  qed
qed

lemma not_dead: "e \<noteq> NoFuel \<Longrightarrow> e \<noteq> Trap \<Longrightarrow> e \<noteq> Crash \<Longrightarrow> \<not> D e"
  using D_range by blast

text \<open>Looking up and preparing a call changes the environment only by loading plugins.\<close>

lemma ok_lift_match:
  "(r = Inl OutOfBounds \<Longrightarrow> I s \<Longrightarrow> D Crash) \<Longrightarrow> (\<And>x. r = Inr x \<Longrightarrow> I s \<Longrightarrow> Q x s) \<Longrightarrow> ev_ok I R V D (lift_match fn r) s Q"
  unfolding lift_match_def by (cases r) (auto intro!: ok_return ok_error ok_raise)

lemma ok_with_state: "ev_ok I R V D (p s) s Q \<Longrightarrow> ev_ok I R V D (\<lambda>s. p s s) s Q"
  by (simp add: ev_ok_def)

lemma ok_Lookup:
  assumes auto: "\<And>s. ev_ok I R V D (AutoloadPlugins w) s (\<lambda>_ _. True)"
    and oob: "\<And>n s. I s \<Longrightarrow> R s0 s \<Longrightarrow> lookup_once w n args names s = Inl OutOfBounds \<Longrightarrow> D Crash"
    and found: "\<And>n s x. I s \<Longrightarrow> R s0 s \<Longrightarrow> lookup_once w n args names s = Inr (Inr x) \<Longrightarrow> P s x"
    and Q: "\<And>r s'. I s' \<Longrightarrow> R s0 s' \<Longrightarrow> (\<And>x. r = Some x \<Longrightarrow> P s' x) \<Longrightarrow> Q r s'"
  shows "ev_ok I R V D (Lookup w name args names) s0 Q"
  unfolding Lookup_def
proof (rule ok_bind, rule ok_with_state, rule ok_lift_match)
  fix x assume x: "lookup_once w name args names s0 = Inr x" "I s0"
  have again: "ev_ok I R V D (bind_e (\<lambda>s. lift_match name (lookup_once w n args names s) s) (\<lambda>r.
               return_e (case r of Inr x \<Rightarrow> Some x | Inl _ \<Rightarrow> None))) s Q" if s: "I s" "R s0 s" for n s
  proof (rule ok_bind, rule ok_with_state, rule ok_lift_match)
    fix y assume y: "lookup_once w n args names s = Inr y"
    show "ev_ok I R V D (return_e (case y of Inr x \<Rightarrow> Some x | Inl _ \<Rightarrow> None)) s Q"
      by (rule ok_return, rule Q) (use s y found in \<open>auto split: sum.splits\<close>)
  qed (use s oob in auto)
  show "ev_ok I R V D (case x of
         Inr x \<Rightarrow> return_e (Some x)
       | Inl n \<Rightarrow> bind_e (get_e AutoloadExecuted) (\<lambda>executed.
           if executed then return_e None
           else bind_e (AutoloadPlugins w) (\<lambda>_.
             bind_e (\<lambda>s. lift_match name (lookup_once w n args names s) s) (\<lambda>r.
               return_e (case r of Inr x \<Rightarrow> Some x | Inl _ \<Rightarrow> None))))) s0 Q"
  proof (cases x)
    case (Inr y)
    have "Q (Some y) s0" by (rule Q) (use x Inr found R_refl in auto)
    then show ?thesis using Inr by (auto intro: ok_return)
  next
    case (Inl n)
    have "Q None s0" by (rule Q) (use x R_refl in auto)
    moreover have "ev_ok I R V D (bind_e (AutoloadPlugins w) (\<lambda>_.
             bind_e (\<lambda>s. lift_match name (lookup_once w n args names s) s) (\<lambda>r.
               return_e (case r of Inr x \<Rightarrow> Some x | Inl _ \<Rightarrow> None)))) s0 Q"
      by (rule ok_bind, rule ok_conseq [OF auto], rule again)
    ultimately show ?thesis unfolding Inl sum.case
      by (intro ok_bind [of "get_e AutoloadExecuted"] ok_get) (simp add: ok_return)
  qed
qed (use oob R_refl in auto)

lemma ok_FunctionExists:
  assumes "\<And>s. ev_ok I R V D (AutoloadPlugins w) s (\<lambda>_ _. True)"
  shows "ev_ok I R V D (FunctionExists w n) s (\<lambda>_ _. True)"
  unfolding FunctionExists_def by (auto intro!: ok_bind ok_get ok_return ok_conseq [OF assms])

text \<open>\<open>P\<close> is what makes a function good: that its signature can be matched and bound without
  leaving the string.\<close>

lemma ok_resolve_call:
  assumes auto: "\<And>s. ev_ok I R V D (AutoloadPlugins w) s (\<lambda>_ _. True)"
    and oob: "\<And>n a s. I s \<Longrightarrow> lookup_once w n a names s = Inl OutOfBounds \<Longrightarrow> D Crash"
    and found: "\<And>n a s f st. I s \<Longrightarrow> lookup_once w n a names s = Inr (Inr (f, st)) \<Longrightarrow> P s f"
    and check: "\<And>s g a. I s \<Longrightarrow> P s g \<Longrightarrow> CheckArguments g a names = Inl OutOfBounds \<Longrightarrow> D Crash"
    and given: "\<And>g. f = Some g \<Longrightarrow> P s0 g"
    and Q: "\<And>r s'. I s' \<Longrightarrow> R s0 s' \<Longrightarrow>
      (\<And>g st as. r = Some (g, st, as) \<Longrightarrow> P s' g \<and> (as = args \<or> as = il # args)) \<Longrightarrow> Q r s'"
  shows "ev_ok I R V D (resolve_call w il nm f args names) s0 Q"
proof (cases f)
  case (Some g)
  show ?thesis unfolding resolve_call_def Some option.case
  proof (rule ok_bind, rule ok_lift_match)
    fix r assume i: "I s0"
    show "ev_ok I R V D (case r of
              Some st \<Rightarrow> return_e (Some (g, st, args))
            | None \<Rightarrow>
                if \<not> Defined il then return_e None
                else bind_e (lift_match nm (CheckArguments g (il # args) names)) (\<lambda>r.
                  return_e (map_option (\<lambda>st. (g, st, il # args)) r))) s0 Q"
      using i given [OF Some] check [OF i given [OF Some]] R_refl [of s0]
      by (cases r) (auto intro!: ok_return Q ok_bind ok_lift_match)
  qed (use check given Some in blast)
next
  case None
  show ?thesis unfolding resolve_call_def None option.case
  proof (rule ok_bind, rule ok_Lookup [OF auto oob, where P = "\<lambda>s x. P s (fst x)"])
    fix r :: "(Function \<times> bool) option" and s' assume s': "I s'" "R s0 s'" "\<And>x. r = Some x \<Longrightarrow> P s' (fst x)"
    have second: "ev_ok I R V D (bind_e (Lookup w nm (il # args) names) (\<lambda>r.
                  return_e (map_option (\<lambda>(g, st). (g, st, il # args)) r))) s' Q"
    proof (rule ok_bind, rule ok_Lookup [OF auto oob, where P = "\<lambda>s x. P s (fst x)"])
      fix r :: "(Function \<times> bool) option" and s'' assume "I s''" "R s' s''" "\<And>x. r = Some x \<Longrightarrow> P s'' (fst x)"
      then show "ev_ok I R V D (return_e (map_option (\<lambda>(g, st). (g, st, il # args)) r)) s'' Q"
        using R_trans [OF s'(2)] by (intro ok_return Q) auto
    qed (auto dest: found)
    show "ev_ok I R V D (case r of
              Some (g, st) \<Rightarrow> return_e (Some (g, st, args))
            | None \<Rightarrow>
                if \<not> Defined il then return_e None
                else bind_e (Lookup w nm (il # args) names) (\<lambda>r.
                  return_e (map_option (\<lambda>(g, st). (g, st, il # args)) r))) s' Q"
      using s' second by (cases r) (auto intro!: ok_return Q)
  qed (auto dest: found)
qed

lemma ok_prepare_call:
  assumes auto: "\<And>s. ev_ok I R V D (AutoloadPlugins w) s (\<lambda>_ _. True)"
    and oob: "\<And>n a ns s. I s \<Longrightarrow> lookup_once w n a ns s = Inl OutOfBounds \<Longrightarrow> D Crash"
    and found: "\<And>n a ns s f st. I s \<Longrightarrow> lookup_once w n a ns s = Inr (Inr (f, st)) \<Longrightarrow> P s f"
    and check: "\<And>s g a ns. I s \<Longrightarrow> P s g \<Longrightarrow> CheckArguments g a ns = Inl OutOfBounds \<Longrightarrow> D Crash"
    and bind: "\<And>s g st a na. I s \<Longrightarrow> P s g \<Longrightarrow> bind_arguments (param_types g) st a na = Inl OutOfBounds \<Longrightarrow> D Crash"
    and given: "\<And>g. f = Some g \<Longrightarrow> P s0 g"
    and Q: "\<And>r s'. I s' \<Longrightarrow> R s0 s' \<Longrightarrow>
      (\<And>g vs. r = Some (g, vs) \<Longrightarrow> P s' g \<and> (\<exists>st as. bind_arguments (param_types g) st as (named_args args names) = Inr vs
           \<and> (as = Flatten args names \<or> as = il # Flatten args names))) \<Longrightarrow> Q r s'"
  shows "ev_ok I R V D (prepare_call w il name f args names) s0 Q"
proof -
  let ?nm = "case name of None \<Rightarrow> ''<anonymous function>'' | Some n \<Rightarrow> n"
  show ?thesis
    unfolding prepare_call_def Let_def
  proof (split if_split, intro conjI impI ok_error, rule ok_bind, rule ok_resolve_call [where P = P], rule auto)
    fix r :: "(Function \<times> bool \<times> AVSValue list) option" and s'
    assume s': "I s'" "R s0 s'"
      "\<And>g st as. r = Some (g, st, as) \<Longrightarrow> P s' g \<and> (as = Flatten args names \<or> as = il # Flatten args names)"
    show "ev_ok I R V D (case r of None \<Rightarrow> return_e None
           | Some (g, strict, as) \<Rightarrow>
               bind_e (lift_match ?nm (bind_arguments (param_types g) strict as (named_args args names)))
                 (\<lambda>vs. return_e (Some (g, vs)))) s' Q"
    proof (cases r)
      case None
      then show ?thesis using s' by (auto intro!: ok_return Q)
    next
      case (Some x)
      obtain g st as where x: "x = (g, st, as)" by (cases x)
      have "Q (Some (g, vs)) s'" if "bind_arguments (param_types g) st as (named_args args names) = Inr vs" for vs
      proof (rule Q [OF s'(1,2)])
        fix g' vs' assume "Some (g, vs) = Some (g', vs')"
        then have e: "g' = g" "vs' = vs" by simp_all
        from s'(3) [of g st as] Some x that show "P s' g' \<and> (\<exists>st as. bind_arguments (param_types g') st as (named_args args names) = Inr vs'
           \<and> (as = Flatten args names \<or> as = il # Flatten args names))"
          unfolding e by (intro conjI exI [of _ st] exI [of _ as]) simp_all
      qed
      then show ?thesis using s'(3) [of g st as] bind [OF s'(1)] Some x
        by (auto intro!: ok_return ok_bind ok_lift_match)
    qed
  qed (use oob found check given in blast)+
qed

end

locale eval_logic = ev_rel I R V D
  for I :: "env \<Rightarrow> bool" and R :: "env \<Rightarrow> env \<Rightarrow> bool" and V :: "env \<Rightarrow> AVSValue \<Rightarrow> bool" and D :: "exc \<Rightarrow> bool" +
  fixes w :: world
    and FD :: "env \<Rightarrow> Function \<Rightarrow> bool"
    and C :: "AVSValue \<Rightarrow> bool"
    and F :: "string \<Rightarrow> string list \<Rightarrow> bool list \<Rightarrow> bool"
  assumes FD_mono: "FD s f \<Longrightarrow> R s s' \<Longrightarrow> FD s' f"
    and V_const: "C v \<Longrightarrow> V s v"
    and V_undefined: "V s VUndefined"
    and V_bool: "V s (VBool b)"
    and V_string: "V s (VString t)"
    and V_float: "V s (VFloat x)"
    and V_double: "V s (VDouble x)"
    and V_int: "is_int64 z \<Longrightarrow> V s (int_result z)"
    and V_array: "\<forall>v \<in> set vs. V s v \<Longrightarrow> V s (VArray vs)"
    and V_function: "I s \<Longrightarrow> V s (VFunction i) \<Longrightarrow> \<not> D Crash \<Longrightarrow> i < length (fobjs s)"
    and FD_object: "I s \<Longrightarrow> i < length (fobjs s) \<Longrightarrow> GetDefinition (fobjs s ! i) = Some f \<Longrightarrow> FD s f"
    and get_var: "I s \<Longrightarrow> GetVarTry n s = Some v \<Longrightarrow> V s v"
    and set_var: "V s v \<Longrightarrow> ev_ok I R V D (SetVar n v) s (\<lambda>_ _. True)"
    and set_global: "V s v \<Longrightarrow> ev_ok I R V D (SetGlobalVar n v) s (\<lambda>_ _. True)"
    and new_wrapped: "ev_ok I R V D (new_object (WrappedFunction n)) s (\<lambda>v s'. V s' v)"
    and new_instance:
      "good_expr C F body \<Longrightarrow> F params pnames floats \<Longrightarrow> length data = length vnames \<Longrightarrow> \<forall>v \<in> set data. V s v \<Longrightarrow>
       ev_ok I R V D (new_object (FunctionInstance
         \<lparr>fi_data = instance_function name params (length (fobjs s)), fi_body = body, fi_floats = floats,
          fi_param_names = pnames, fi_var_names = vnames, fi_var_data = data, fi_name = name,
          fi_filename = filename, fi_line = ln\<rparr>)) s (\<lambda>v s'. V s' v)"
    and invoke:
      "(\<And>e s. good_expr C F e \<Longrightarrow> ev_ok I R V D (rec (Eval e)) s (\<lambda>v s'. V s' v)) \<Longrightarrow>
       V s il \<Longrightarrow> V s args \<Longrightarrow> (\<And>g. fo = Some g \<Longrightarrow> FD s g) \<Longrightarrow>
       ev_ok I R V D (Invoke_impl w rec il name fo args names) s (\<lambda>r s'. \<forall>v. r = Some v \<longrightarrow> V s' v)"
    and fn_exists: "ev_ok I R V D (FunctionExists w fname) s (\<lambda>_ _. True)"
begin

definition good_job :: "env \<Rightarrow> job \<Rightarrow> bool" where
  "good_job s j = (case j of
     Eval e \<Rightarrow> good_expr C F e
   | WhileJob c b r \<Rightarrow> good_expr C F c \<and> (case b of None \<Rightarrow> True | Some x \<Rightarrow> good_expr C F x) \<and> V s r
   | ForJob _ _ _ b _ r \<Rightarrow> (case b of None \<Rightarrow> True | Some x \<Rightarrow> good_expr C F x) \<and> V s r)"

definition rec_ok :: "interp \<Rightarrow> bool" where
  "rec_ok rec \<longleftrightarrow> (\<forall>j s. good_job s j \<longrightarrow> ev_ok I R V D (rec j) s (\<lambda>v s'. V s' v))"

lemma ok_set_var: "V s v \<Longrightarrow> (\<And>b s'. I s' \<Longrightarrow> R s s' \<Longrightarrow> Q b s') \<Longrightarrow> ev_ok I R V D (SetVar n v) s Q"
  using set_var ok_conseq by blast

lemma ok_set_global: "V s v \<Longrightarrow> (\<And>b s'. I s' \<Longrightarrow> R s s' \<Longrightarrow> Q b s') \<Longrightarrow> ev_ok I R V D (SetGlobalVar n v) s Q"
  using set_global ok_conseq by blast

lemma ok_rec:
  "rec_ok rec \<Longrightarrow> good_job s j \<Longrightarrow> (\<And>v s'. I s' \<Longrightarrow> R s s' \<Longrightarrow> V s' v \<Longrightarrow> Q v s') \<Longrightarrow> ev_ok I R V D (rec j) s Q"
  unfolding rec_ok_def using ok_conseq by blast

lemma ok_eval:
  "rec_ok rec \<Longrightarrow> good_expr C F e \<Longrightarrow> (\<And>v s'. I s' \<Longrightarrow> R s s' \<Longrightarrow> V s' v \<Longrightarrow> Q v s') \<Longrightarrow>
   ev_ok I R V D (rec (Eval e)) s Q"
  by (rule ok_rec) (auto simp: good_job_def)

lemma ok_last_value: "(\<And>v. I s \<Longrightarrow> V s v \<Longrightarrow> Q v s) \<Longrightarrow> ev_ok I R V D last_value s Q"
  unfolding last_value_def by (rule ok_get) (auto intro: get_var V_undefined split: option.split)

lemma ok_set_last: "V s v \<Longrightarrow> (\<And>s'. I s' \<Longrightarrow> R s s' \<Longrightarrow> Q () s') \<Longrightarrow> ev_ok I R V D (set_last_if_clip v) s Q"
  unfolding set_last_if_clip_def
  by (auto intro!: ok_bind ok_set_var ok_return R_refl)

lemma ok_with_object:
  assumes "V s v" "IsFunction v" "\<And>i. v = VFunction i \<Longrightarrow> i < length (fobjs s) \<Longrightarrow> ev_ok I R V D (k (fobjs s ! i)) s Q"
  shows "ev_ok I R V D (with_object v k) s Q"
proof -
  obtain i where v: "v = VFunction i" using assms(2) by (cases v) auto
  show ?thesis
  proof (cases "i < length (fobjs s)")
    case True
    then show ?thesis using assms(3) [OF v True] v by (simp add: with_object_def ev_ok_def)
  next
    case False
    then have "D Crash" if "I s" using V_function [OF that] assms(1) v by auto
    then show ?thesis using False v by (simp add: with_object_def ev_ok_def)
  qed
qed

lemma ok_invoke:
  assumes "rec_ok rec" "V s il" "V s args" "\<And>g. f = Some g \<Longrightarrow> FD s g"
    and "\<And>r s'. I s' \<Longrightarrow> R s s' \<Longrightarrow> (\<And>v. r = Some v \<Longrightarrow> V s' v) \<Longrightarrow> Q r s'"
  shows "ev_ok I R V D (Invoke_impl w rec il name f args names) s Q"
proof (rule ok_conseq [OF invoke [OF _ assms(2-4)]])
  show "ev_ok I R V D (rec (Eval e)) s (\<lambda>v s'. V s' v)" if "good_expr C F e" for e s
    using assms(1) that by (auto intro: ok_eval)
qed (use assms(5) in auto)

lemma ok_invoke_try:
  assumes "rec_ok rec" "V s args"
    and "\<And>r s'. I s' \<Longrightarrow> R s s' \<Longrightarrow> (\<And>v. r = Some v \<Longrightarrow> V s' v) \<Longrightarrow> Q r s'"
  shows "ev_ok I R V D (InvokeTry w rec name args) s Q"
  unfolding InvokeTry_def by (rule ok_invoke) (use assms V_undefined in auto)

lemma ok_Invoke:
  assumes "rec_ok rec" "V s args" "\<And>v s'. I s' \<Longrightarrow> R s s' \<Longrightarrow> V s' v \<Longrightarrow> Q v s'"
  shows "ev_ok I R V D (Invoke w rec name args) s Q"
  unfolding Invoke_def
proof (rule ok_bind, rule ok_invoke_try [OF assms(1,2)])
  fix r s' assume a: "I s'" "R s s'" "\<And>v. r = Some v \<Longrightarrow> V s' v"
  show "ev_ok I R V D (case r of Some v \<Rightarrow> return_e v | None \<Rightarrow> raise_e NotFound) s' Q"
    using a assms(3) by (cases r) (auto intro!: ok_return ok_raise simp: exc_ok_def)
qed

end


section \<open>Every construct\<close>

context eval_logic
begin

lemma V_arith: "arith iop fop x y = Some v \<Longrightarrow> V s v"
  by (auto simp: arith_def intro: V_int V_float V_double split: if_splits)

lemma V_negate: "op_negate x = Some v \<Longrightarrow> V s v"
  by (auto simp: op_negate_def intro: V_int V_float V_double split: if_splits)

lemma ok_value_or_error: "(\<And>v. r = Some v \<Longrightarrow> I s \<Longrightarrow> Q v s) \<Longrightarrow> ev_ok I R V D (value_or_error m r) s Q"
  unfolding value_or_error_def by (auto intro!: ok_return ok_error split: option.split)

lemma ok_need_bool: "(\<And>b. I s \<Longrightarrow> Q b s) \<Longrightarrow> ev_ok I R V D (need_bool m v) s Q"
  unfolding need_bool_def by (auto intro!: ok_return ok_error split: option.split)

lemma ok_eval2:
  assumes "rec_ok rec" "good_expr C F a" "good_expr C F b"
    and "\<And>x y s'. I s' \<Longrightarrow> R s s' \<Longrightarrow> V s' x \<Longrightarrow> V s' y \<Longrightarrow> ev_ok I R V D (k x y) s' Q"
  shows "ev_ok I R V D (eval2 rec a b k) s Q"
  unfolding eval2_def
  by (intro ok_bind ok_eval [OF assms(1)] assms(2-4)) (blast intro: V_mono R_trans)+

lemma ok_eval_plus:
  assumes "rec_ok rec" "V s x" "V s y"
  shows "ev_ok I R V D (eval_plus w rec x y) s (\<lambda>v s'. V s' v)"
  unfolding eval_plus_def
  by (auto intro!: ok_Invoke ok_return ok_error V_array V_string assms split: option.split
      intro: V_int [of 0, simplified int_result_def, simplified] V_arith)
    (use V_int [of 0 s] in \<open>simp add: int_result_def int_limits is_int64_def\<close>)+

lemma ok_eval_double_plus:
  assumes "rec_ok rec" "V s x" "V s y"
  shows "ev_ok I R V D (eval_double_plus w rec x y) s (\<lambda>v s'. V s' v)"
  unfolding eval_double_plus_def
  using assms V_int [of 0 s]
  by (auto intro!: ok_Invoke ok_error V_array simp: int_result_def int_limits is_int64_def)

lemma ok_eval_div: "ev_ok I R V D (eval_div x y) s (\<lambda>v s'. V s' v)"
  unfolding eval_div_def by (auto intro!: ok_value_or_error ok_error ok_raise D_Trap intro: V_arith)

lemma ok_eval_mod: "ev_ok I R V D (eval_mod x y) s (\<lambda>v s'. V s' v)"
  unfolding eval_mod_def by (auto intro!: ok_return ok_error ok_raise D_Trap V_int)

lemma ok_call_with_last:
  assumes "rec_ok rec" "\<And>r s'. I s' \<Longrightarrow> R s s' \<Longrightarrow> (\<And>v. r = Some v \<Longrightarrow> V s' v) \<Longrightarrow> Q r s'"
  shows "ev_ok I R V D (call_with_last w rec n) s Q"
  unfolding call_with_last_def
proof (rule ok_bind, rule ok_get)
  assume i: "I s"
  show "ev_ok I R V D (case GetVarTry ''last'' s of None \<Rightarrow> return_e None | Some v \<Rightarrow> InvokeTry w rec n v) s Q"
    using assms i R_refl [of s] get_var [OF i, of "''last''"]
    by (cases "GetVarTry ''last'' s") (auto intro!: ok_return ok_invoke_try)
qed

lemma ok_last_chance: "ev_ok I R V D (last_chance n) s (\<lambda>v s'. V s' v)"
  unfolding last_chance_def unknown_name_def
  by (rule ok_bind, rule ok_get) (auto intro!: ok_return ok_error intro: get_var split: option.split)

lemma ok_eval_variable:
  assumes "rec_ok rec"
  shows "ev_ok I R V D (eval_variable w rec n) s (\<lambda>v s'. V s' v)"
  unfolding eval_variable_def
proof (rule ok_bind, rule ok_get)
  assume i: "I s"
  have 2: "ev_ok I R V D (case r of Some x \<Rightarrow> return_e x | None \<Rightarrow> last_chance n) s' (\<lambda>v s'. V s' v)"
    if "\<And>v. r = Some v \<Longrightarrow> V s' v" for r s'
    using that by (cases r) (auto intro!: ok_return ok_last_chance)
  have 1: "ev_ok I R V D (case r of Some x \<Rightarrow> return_e x
      | None \<Rightarrow> bind_e (call_with_last w rec n) (\<lambda>r. case r of Some x \<Rightarrow> return_e x | None \<Rightarrow> last_chance n)) s' (\<lambda>v s'. V s' v)"
    if "\<And>v. r = Some v \<Longrightarrow> V s' v" for r s'
    using that by (cases r) (auto intro!: ok_return ok_bind ok_call_with_last [OF assms] 2)
  show "ev_ok I R V D (case GetVarTry n s of Some x \<Rightarrow> return_e x
      | None \<Rightarrow> bind_e (InvokeTry w rec n (VArray [])) (\<lambda>r. case r of Some x \<Rightarrow> return_e x
         | None \<Rightarrow> bind_e (call_with_last w rec n) (\<lambda>r. case r of Some x \<Rightarrow> return_e x | None \<Rightarrow> last_chance n)))
     s (\<lambda>v s'. V s' v)"
    using get_var [OF i, of n]
    by (cases "GetVarTry n s") (auto intro!: ok_return ok_bind ok_invoke_try [OF assms] 1 V_array)
qed

lemma ok_eval_assignment:
  assumes "rec_ok rec" "good_expr C F e"
  shows "ev_ok I R V D (eval_assignment w rec n e b) s (\<lambda>v s'. V s' v)"
  unfolding eval_assignment_def
proof (rule ok_bind, rule ok_eval [OF assms], rule ok_bind, rule ok_set_var, assumption)
  fix s'
  show "ev_ok I R V D (if b then bind_e (call_with_last w rec n)
      (\<lambda>r. case r of Some _ \<Rightarrow> return_e VUndefined | None \<Rightarrow> last_chance n) else return_e VUndefined) s' (\<lambda>v s'. V s' v)"
    by (auto intro!: ok_return ok_bind ok_call_with_last [OF assms(1)] V_undefined ok_last_chance split: option.split)
qed

lemma ok_eval_args:
  assumes "rec_ok rec" "list_all (good_expr C F) es" "\<And>vs s'. I s' \<Longrightarrow> R s s' \<Longrightarrow> \<forall>v \<in> set vs. V s' v \<Longrightarrow> Q vs s'"
  shows "ev_ok I R V D (eval_args rec es) s Q"
  using assms(2,3)
proof (induction es arbitrary: s Q)
  case Nil
  show ?case unfolding eval_args.simps by (rule ok_return) (auto intro!: Nil.prems(2) R_refl)
next
  case (Cons e es)
  have g: "good_expr C F e" "list_all (good_expr C F) es" using Cons.prems(1) by auto
  show ?case unfolding eval_args.simps
  proof (rule ok_bind, rule ok_eval [OF assms(1) g(1)], rule ok_bind, rule Cons.IH [OF g(2)])
    fix v s' vs s''
    assume a: "I s'" "R s s'" "V s' v" "I s''" "R s' s''" "\<forall>v \<in> set vs. V s'' v"
    then have "Q (v # vs) s''" by (intro Cons.prems(2)) (auto intro: V_mono R_trans)
    then show "ev_ok I R V D (return_e (v # vs)) s'' Q" by (rule ok_return)
  qed
qed

lemma ok_callee:
  assumes "rec_ok rec" "good_expr C F func"
    and "\<And>n g v s'. I s' \<Longrightarrow> R s s' \<Longrightarrow> (\<And>f. g = Some f \<Longrightarrow> FD s' f) \<Longrightarrow> V s' v \<Longrightarrow> (n = None \<Longrightarrow> IsFunction v) \<Longrightarrow> Q (n, g, v) s'"
  shows "ev_ok I R V D (callee rec name func) s Q"
proof (cases name)
  case (Some n)
  show ?thesis unfolding callee_def Some option.case
    by (rule ok_return) (auto intro!: assms(3) R_refl V_undefined)
next
  case None
  show ?thesis unfolding callee_def None option.case
  proof (rule ok_bind, rule ok_eval [OF assms(1,2)])
    fix v s' assume a: "I s'" "R s s'" "V s' v"
    show "ev_ok I R V D (if \<not> IsFunction v then error_e (''Script error: '' @ [APO] @ GetAVSTypeName v @ [APO] @ '' cannot be called. Give me a function!'')
          else with_object v (\<lambda>f. return_e (GetLegacyName f, GetDefinition f, v))) s' Q"
      using a FD_object [OF a(1)]
      by (auto intro!: ok_error ok_with_object ok_return assms(3))
  qed
qed

lemma ok_call_error:
  assumes "V s fval" "n = None \<Longrightarrow> IsFunction fval"
  shows "ev_ok I R V D (call_error w n fval) s Q"
proof (cases n)
  case None
  then show ?thesis using assms unfolding call_error_def by (auto intro!: ok_with_object ok_error)
next
  case (Some m)
  show ?thesis unfolding call_error_def Some option.case
  proof (rule ok_bind, rule ok_get, rule ok_bind)
    assume i: "I s"
    have tail: "ev_ok I R V D (bind_e (FunctionExists w m) (\<lambda>b. error_e (k b))) s' Q" for k m s'
      by (rule ok_bind, rule ok_conseq [OF fn_exists]) (rule ok_error)
    show "ev_ok I R V D (case GetVarTry m s of
         Some v \<Rightarrow> if IsFunction v then with_object v (\<lambda>f. return_e (case GetLegacyName f of Some m' \<Rightarrow> m' | None \<Rightarrow> m)) else return_e m
       | None \<Rightarrow> return_e m) s (\<lambda>m s'. ev_ok I R V D (bind_e (FunctionExists w m) (\<lambda>b.
            error_e (if b then ''Script error: Invalid arguments to function '' @ [APO] @ m @ [APO] @ ''.''
                     else ''Script error: There is no function named '' @ [APO] @ m @ [APO] @ ''.''))) s' Q)"
      using get_var [OF i, of m]
      by (cases "GetVarTry m s") (auto intro!: ok_return ok_with_object tail)
  qed
qed

lemma ok_catch_not_found:
  assumes "ev_ok I R V D p s (\<lambda>v s'. Q (v, False) s')" "\<And>s'. I s' \<Longrightarrow> R s s' \<Longrightarrow> ev_ok I R V D q s' Q"
  shows "ev_ok I R V D (catch_not_found p q) s Q"
  unfolding catch_not_found_def
proof (rule ok_catch)
  show "ev_ok I R V D (bind_e p (\<lambda>v. return_e (v, False))) s Q"
    by (rule ok_bind, rule ok_conseq [OF assms(1)]) (auto intro: ok_return)
qed (use assms(2) not_dead in \<open>auto split: if_splits\<close>)

lemma ok_eval_call:
  assumes "rec_ok rec" "good_expr C F func" "list_all (\<lambda>a. good_expr C F (fst a)) args"
  shows "ev_ok I R V D (eval_call w rec name func args oop) s (\<lambda>v s'. V s' v)"
  unfolding eval_call_def
proof (rule ok_bind, rule ok_callee [OF assms(1,2)], unfold prod.case, rule ok_bind, rule ok_eval_args [OF assms(1)])
  show "list_all (good_expr C F) (map fst args)" using assms(3) by (simp add: list_all_iff)
next
  fix n :: "string option" and g fval s1 vs s2
  assume 1: "I s1" "R s s1" "\<And>f. g = Some f \<Longrightarrow> FD s1 f" "V s1 fval" "n = None \<Longrightarrow> IsFunction fval"
    and 2: "I s2" "R s1 s2" "\<forall>v \<in> set vs. V s2 v"
  have err: "ev_ok I R V D (call_error w n fval) s' (\<lambda>v s'. V s' v)" if "R s2 s'" for s'
    using ok_call_error 1(4,5) 2(2) that V_mono by blast
  have last: "ev_ok I R V D (if oop then return_e VUndefined else get_e (GetVarDef ''last'' VUndefined)) s2 (\<lambda>v s'. s' = s2 \<and> V s2 v)"
    using get_var [OF 2(1), of "''last''"] V_undefined
    by (auto intro!: ok_return ok_get simp: GetVarDef_def split: option.split)
  have fd: "FD s' f" if "g = Some f" "R s2 s'" for f s'
    using 1(3) that 2(2) FD_mono by blast
  let ?call = "\<lambda>il a ns. catch_not_found (Invoke_impl w rec il n g (VArray a) (Some ns)) (return_e (None, True))"
  have call: "ev_ok I R V D (?call il a ns) s' Q"
    if "V s' il" "\<forall>v \<in> set a. V s' v" "R s2 s'" "\<And>r b s''. I s'' \<Longrightarrow> R s' s'' \<Longrightarrow> (\<And>v. r = Some v \<Longrightarrow> V s'' v) \<Longrightarrow> Q (r, b) s''"
    for il a ns s' Q
  proof (rule ok_catch_not_found)
    show "ev_ok I R V D (Invoke_impl w rec il n g (VArray a) (Some ns)) s' (\<lambda>v s'. Q (v, False) s')"
      using that fd by (intro ok_invoke [OF assms(1)]) (auto intro: V_array)
  qed (use that in \<open>auto intro!: ok_return\<close>)
  show "ev_ok I R V D (bind_e (if oop then return_e VUndefined else get_e (GetVarDef ''last'' VUndefined)) (\<lambda>implicit_last.
     bind_e (?call implicit_last vs (map snd args)) (\<lambda>(r, notfound).
     case r of
       Some v \<Rightarrow> return_e v
     | None \<Rightarrow>
         if notfound \<and> IsClip implicit_last then
           bind_e (?call VUndefined (implicit_last # vs) (None # map snd args)) (\<lambda>(r, _).
             case r of Some v \<Rightarrow> return_e v | None \<Rightarrow> call_error w n fval)
         else call_error w n fval))) s2 (\<lambda>v s'. V s' v)"
  proof (rule ok_bind, rule ok_conseq [OF last], elim conjE, hypsubst)
    fix il assume il: "V s2 il"
    have second: "ev_ok I R V D (bind_e (?call VUndefined (il # vs) (None # map snd args)) (\<lambda>(r, _).
             case r of Some v \<Rightarrow> return_e v | None \<Rightarrow> call_error w n fval)) s' (\<lambda>v s'. V s' v)" if r: "R s2 s'" for s'
    proof (rule ok_bind, rule call [OF V_undefined _ r])
      show "\<forall>v \<in> set (il # vs). V s' v" using il 2(3) r V_mono by auto
      show "ev_ok I R V D (case (x, b) of (r, _) \<Rightarrow> case r of Some v \<Rightarrow> return_e v | None \<Rightarrow> call_error w n fval) s'' (\<lambda>v s'. V s' v)"
        if "I s''" "R s' s''" "\<And>v. x = Some v \<Longrightarrow> V s'' v" for x b s''
        using that err [of s''] R_trans [OF r that(2)] by (cases x) (auto intro!: ok_return)
    qed
    show "ev_ok I R V D (bind_e (?call il vs (map snd args)) (\<lambda>(r, notfound). case r of
       Some v \<Rightarrow> return_e v
     | None \<Rightarrow>
         if notfound \<and> IsClip il then
           bind_e (?call VUndefined (il # vs) (None # map snd args)) (\<lambda>(r, _).
             case r of Some v \<Rightarrow> return_e v | None \<Rightarrow> call_error w n fval)
         else call_error w n fval)) s2 (\<lambda>v s'. V s' v)"
    proof (rule ok_bind, rule call [OF il 2(3) R_refl], unfold prod.case)
      show "ev_ok I R V D (case x of Some v \<Rightarrow> return_e v
         | None \<Rightarrow> if b \<and> IsClip il then bind_e (?call VUndefined (il # vs) (None # map snd args)) (\<lambda>(r, _).
             case r of Some v \<Rightarrow> return_e v | None \<Rightarrow> call_error w n fval)
         else call_error w n fval) s'' (\<lambda>v s'. V s' v)"
        if "I s''" "R s2 s''" "\<And>v. x = Some v \<Longrightarrow> V s'' v" for x b s''
        using that err [OF that(2)] second [OF that(2)] by (cases x) (auto intro!: ok_return)
    qed
  qed
qed

lemma ok_eval_wrapper: "ev_ok I R V D (eval_wrapper n) s (\<lambda>v s'. V s' v)"
  unfolding eval_wrapper_def
  by (rule ok_bind, rule ok_get) (auto intro!: ok_return new_wrapped intro: get_var split: option.split)

lemma ok_capture_vars:
  assumes "\<And>vs s'. I s' \<Longrightarrow> R s s' \<Longrightarrow> \<forall>v \<in> set vs. V s' v \<Longrightarrow> length vs = length ns \<Longrightarrow> Q vs s'"
  shows "ev_ok I R V D (capture_vars ns) s Q"
  using assms
proof (induction ns arbitrary: Q s)
  case Nil
  show ?case unfolding capture_vars.simps by (rule ok_return) (auto intro!: Nil R_refl)
next
  case (Cons n ns)
  show ?case unfolding capture_vars.simps
  proof (rule ok_bind, rule ok_get)
    assume i: "I s"
    show "ev_ok I R V D (case GetVarTry n s of None \<Rightarrow> error_e (''No variable named '' @ [APO] @ n @ [APO])
       | Some v \<Rightarrow> bind_e (capture_vars ns) (\<lambda>vs. return_e (v # vs))) s Q"
    proof (cases "GetVarTry n s")
      case (Some v)
      have "ev_ok I R V D (bind_e (capture_vars ns) (\<lambda>vs. return_e (v # vs))) s Q"
        by (rule ok_bind, rule Cons.IH) (auto intro!: ok_return Cons.prems intro: V_mono [OF get_var [OF i Some]])
      then show ?thesis using Some by simp
    qed (simp add: ok_error)
  qed
qed

lemma ok_eval_definition:
  assumes "good_expr C F body" "F params pnames floats"
  shows "ev_ok I R V D (eval_definition body name params floats pnames vnames filename ln) s (\<lambda>v s'. V s' v)"
  unfolding eval_definition_def
proof (rule ok_bind, rule ok_capture_vars, rule ok_bind, rule ok_get, rule ok_bind)
  fix data s'
  assume a: "I s'" "R s s'" "\<forall>v \<in> set data. V s' v" "length data = length vnames"
  let ?o = "new_object (FunctionInstance \<lparr>fi_data = instance_function name params (length (fobjs s')), fi_body = body, fi_floats = floats,
          fi_param_names = pnames, fi_var_names = vnames, fi_var_data = data, fi_name = name, fi_filename = filename, fi_line = ln\<rparr>)"
  have "ev_ok I R V D (case name of None \<Rightarrow> return_e f | Some n \<Rightarrow> bind_e (SetGlobalVar n f) (\<lambda>_. return_e VUndefined)) s'' (\<lambda>v s'. V s' v)"
    if "V s'' f" for f s''
    using that by (cases name) (auto intro!: ok_return ok_bind ok_set_global V_undefined)
  then show "ev_ok I R V D ?o s' (\<lambda>f s''. ev_ok I R V D (case name of None \<Rightarrow> return_e f
       | Some n \<Rightarrow> bind_e (SetGlobalVar n f) (\<lambda>_. return_e VUndefined)) s'' (\<lambda>v s'. V s' v))"
    by (intro ok_conseq [OF new_instance [OF assms a(4,3)]])
qed

lemma ok_loop_exit:
  assumes "V s r" "\<And>v s'. I s' \<Longrightarrow> R s s' \<Longrightarrow> V s' v \<Longrightarrow> Q (go, v) s'"
  shows "ev_ok I R V D (loop_exit go r) s Q"
  unfolding loop_exit_def
  by (rule ok_bind, rule ok_last_value, rule ok_return) (use assms R_refl in auto)

lemma ok_loop_body:
  assumes "rec_ok rec" "case b of None \<Rightarrow> True | Some x \<Rightarrow> good_expr C F x" "V s r"
    and "\<And>go v s'. I s' \<Longrightarrow> R s s' \<Longrightarrow> V s' v \<Longrightarrow> Q (go, v) s'"
  shows "ev_ok I R V D (loop_body rec b r) s Q"
proof (cases b)
  case None
  then show ?thesis unfolding loop_body_def by (auto intro!: ok_return assms R_refl)
next
  case (Some e)
  have g: "good_expr C F e" using assms(2) Some by simp
  show ?thesis unfolding loop_body_def Some option.case
  proof (rule ok_catch)
    show "ev_ok I R V D (bind_e (rec (Eval e)) (\<lambda>r. bind_e (set_last_if_clip r) (\<lambda>_. return_e (True, r)))) s Q"
    proof (rule ok_bind, rule ok_eval [OF assms(1) g], rule ok_bind, rule ok_set_last, assumption, rule ok_return)
      show "Q (True, v) s''" if "I s'" "R s s'" "V s' v" "I s''" "R s' s''" for v s' s''
        using that assms(4) R_trans V_mono by blast
    qed
    have exit: "ev_ok I R V D (loop_exit go r) s' Q" if "I s'" "R s s'" for go s'
      by (rule ok_loop_exit) (use assms that V_mono R_trans in blast)+
    show "ev_ok I R V D q s' Q"
      if "I s'" "R s s'" "(case x of BreakStmtException \<Rightarrow> Some (loop_exit False r)
             | ContinueStmtException \<Rightarrow> Some (loop_exit True r) | _ \<Rightarrow> None) = Some q" for x q s'
      using that exit by (cases x) auto
  qed (use D_range in \<open>auto split: exc.split\<close>)
qed

lemma ok_while:
  assumes "rec_ok rec" "good_expr C F c" "case b of None \<Rightarrow> True | Some x \<Rightarrow> good_expr C F x" "V s r"
  shows "ev_ok I R V D (while_step rec c b r) s (\<lambda>v s'. V s' v)"
  unfolding while_step_def
proof (rule ok_bind, rule ok_eval [OF assms(1,2)])
  fix x s' assume a: "I s'" "R s s'" "V s' x"
  have v: "V s' r" using assms(4) a(2) by (rule V_mono)
  have "ev_ok I R V D (bind_e (loop_body rec b r) (\<lambda>(go, r). if go then rec (WhileJob c b r) else return_e r)) s' (\<lambda>v s'. V s' v)"
    by (rule ok_bind, rule ok_loop_body [OF assms(1,3) v])
      (auto intro!: ok_return ok_rec [OF assms(1)] simp: good_job_def assms)
  then show "ev_ok I R V D (if \<not> IsBool x then error_e ''while: condition must be boolean (true/false)''
       else if x = VBool False then return_e r
       else bind_e (loop_body rec b r) (\<lambda>(go, r). if go then rec (WhileJob c b r) else return_e r)) s' (\<lambda>v s'. V s' v)"
    using v by (auto intro!: ok_return ok_error)
qed

lemma ok_GetVar:
  assumes "\<And>v. I s \<Longrightarrow> V s v \<Longrightarrow> Q v s"
  shows "ev_ok I R V D (GetVar n) s Q"
proof (cases "closing s")
  case True
  then show ?thesis using assms V_undefined R_refl by (simp add: ev_ok_def GetVar_def)
next
  case False
  then show ?thesis using assms get_var [of s n] R_refl
    by (cases "VarTable_Get n (vars s)") (auto simp: ev_ok_def GetVar_def GetVarTry_def exc_ok_def)
qed

lemma ok_for:
  assumes "rec_ok rec" "case b of None \<Rightarrow> True | Some x \<Rightarrow> good_expr C F x" "V s r"
  shows "ev_ok I R V D (for_step rec i l t b k r) s (\<lambda>v s'. V s' v)"
proof (cases "if t > 0 then k \<le> l else k \<ge> l")
  case False
  then show ?thesis unfolding for_step_def using assms(3) by (auto intro!: ok_return)
next
  case True
  show ?thesis unfolding for_step_def if_P [OF True]
  proof (rule ok_bind, rule ok_loop_body [OF assms], unfold prod.case)
    fix go v s' assume a: "I s'" "R s s'" "V s' v"
    have "ev_ok I R V D (SetVar i (int_result k')) s' (\<lambda>_ s''. ev_ok I R V D (rec (ForJob i l t b k' v)) s'' (\<lambda>v s'. V s' v))"
      if "is_int64 k'" for k'
      by (rule ok_set_var) (auto intro!: V_int that ok_rec [OF assms(1)] simp: good_job_def assms intro: V_mono [OF a(3)])
    then show "ev_ok I R V D (if \<not> go then return_e v else bind_e (GetVar i) (\<lambda>idVal.
            if \<not> IsInt idVal then error_e (''for: loop variable '' @ [APO] @ i @ [APO] @ '' has been assigned a non-int value'')
            else (let i' = wrap64 (the_long idVal + t) in
              bind_e (SetVar i (int_result i')) (\<lambda>_. rec (ForJob i l t b i' v))))) s' (\<lambda>v s'. V s' v)"
      using a by (auto intro!: ok_return ok_bind ok_GetVar ok_error simp: Let_def)
  qed
qed

lemma ok_eval_opt:
  assumes "rec_ok rec" "case e of None \<Rightarrow> True | Some x \<Rightarrow> good_expr C F x" "V s d"
    and "\<And>v s'. I s' \<Longrightarrow> R s s' \<Longrightarrow> V s' v \<Longrightarrow> Q v s'"
  shows "ev_ok I R V D (eval_opt rec e d) s Q"
  using assms R_refl [of s] by (cases e) (auto simp: eval_opt_def intro!: ok_return ok_eval)

lemma ok_conditional:
  assumes "rec_ok rec" "good_expr C F i" "good_expr C F t" "good_expr C F e"
  shows "ev_ok I R V D (Evaluate w rec (ExpConditional i t e)) s (\<lambda>v s'. V s' v)"
  using assms by (auto intro!: ok_bind ok_eval [OF assms(1)] ok_need_bool)

lemma ok_block_conditional:
  assumes "rec_ok rec" "good_expr C F (ExpBlockConditional i t e)"
  shows "ev_ok I R V D (Evaluate w rec (ExpBlockConditional i t e)) s (\<lambda>v s'. V s' v)"
  unfolding Evaluate.simps
proof (rule ok_bind, rule ok_last_value, rule ok_bind, rule ok_eval [OF assms(1)], goal_cases)
  case (2 l c s')
  have l: "V s' l" using 2 V_mono by blast
  show ?case
  proof (rule ok_bind, rule ok_need_bool, rule ok_bind, rule ok_eval_opt [OF assms(1) _ l], goal_cases)
    case (2 b v s'')
    then show ?case by (auto intro!: ok_bind ok_set_last ok_return intro: V_mono)
  qed (use assms(2) in \<open>auto split: if_splits option.splits\<close>)
qed (use assms(2) in auto)

lemma ok_and_or:
  assumes "rec_ok rec" "good_expr C F a" "good_expr C F b"
  shows "ev_ok I R V D (Evaluate w rec (ExpOr a b)) s (\<lambda>v s'. V s' v)"
    and "ev_ok I R V D (Evaluate w rec (ExpAnd a b)) s (\<lambda>v s'. V s' v)"
  using assms by (auto intro!: ok_bind ok_eval [OF assms(1)] ok_need_bool ok_return)

lemma ok_for_loop:
  assumes "rec_ok rec" "good_expr C F (ExpForLoop i x y z b)"
  shows "ev_ok I R V D (Evaluate w rec (ExpForLoop i x y z b)) s (\<lambda>v s'. V s' v)"
  unfolding Evaluate.simps
proof (rule ok_bind, rule ok_eval [OF assms(1)], goal_cases)
  case (2 xv s1)
  show ?case
  proof (rule ok_bind, rule ok_eval [OF assms(1)], goal_cases)
    case (2 yv s2)
    show ?case
    proof (rule ok_bind, rule ok_eval [OF assms(1)], goal_cases)
      case (2 zv s3)
      have xv: "V s3 xv" using 2 \<open>V s1 xv\<close> \<open>R s1 s2\<close> V_mono by blast
      have "ev_ok I R V D (SetVar i xv) s3 (\<lambda>_ s'. ev_ok I R V D
          (rec (ForJob i (the_long yv) (the_long zv) b (the_long xv) l)) s' (\<lambda>v s'. V s' v))" if "V s3 l" for l
        using assms(2) that xv V_mono by (auto intro!: ok_set_var ok_rec [OF assms(1)] simp: good_job_def)
      then show ?case by (auto intro!: ok_error ok_bind ok_last_value)
    qed (use assms(2) in auto)
  qed (use assms(2) in auto)
qed (use assms(2) in auto)

lemma ok_Evaluate:
  assumes "rec_ok rec" "good_expr C F e"
  shows "ev_ok I R V D (Evaluate w rec e) s (\<lambda>v s'. V s' v)"
proof -
  note ev = ok_eval [OF assms(1)] and rc = ok_rec [OF assms(1)] and ev2 = ok_eval2 [OF assms(1)]
  show ?thesis
  proof (cases e)
    case (ExpRootBlock x)
    then show ?thesis using assms
      by (auto intro!: ok_catch ev ok_return simp: exc_ok_def dest: D_range split: exc.splits)
  next
    case (ExpConstant v)
    then show ?thesis using assms by (auto intro!: ok_return V_const)
  next
    case (ExpSequence a b)
    then show ?thesis using assms by (auto intro!: ok_bind ev ok_set_last)
  next
    case (ExpTryCatch a i b)
    then show ?thesis using assms
      by (auto intro!: ok_catch ev ok_bind ok_set_var V_string dest: D_range split: exc.splits)
  next
    case (ExpLine a f l)
    then show ?thesis using assms by (auto intro!: ok_catch ev ok_error dest: D_range split: exc.splits)
  next
    case (ExpBlockConditional i t e)
    then show ?thesis using ok_block_conditional assms by simp
  next
    case (ExpWhileLoop c b)
    then show ?thesis using assms by (auto intro!: ok_bind ok_last_value rc simp: good_job_def)
  next
    case (ExpForLoop i x y z b)
    then show ?thesis using ok_for_loop assms by simp
  next
    case (ExpConditional i t e)
    then show ?thesis using ok_conditional assms by simp
  next
    case (ExpReturn x)
    then show ?thesis using assms by (auto intro!: ok_bind ev ok_raise simp: exc_ok_def)
  next
    case (ExpOr a b)
    then show ?thesis using ok_and_or assms by simp
  next
    case (ExpAnd a b)
    then show ?thesis using ok_and_or assms by simp
  next
    case (ExpPlus a b)
    then show ?thesis using assms by (auto intro!: ev2 ok_eval_plus)
  next
    case (ExpDoublePlus a b)
    then show ?thesis using assms by (auto intro!: ev2 ok_eval_double_plus)
  next
    case (ExpVariableReference n)
    then show ?thesis using assms by (simp add: ok_eval_variable)
  next
    case (ExpAssignment n x b)
    then show ?thesis using assms by (simp add: ok_eval_assignment)
  next
    case (ExpGlobalAssignment n x)
    then show ?thesis using assms by (auto intro!: ok_bind ev ok_set_global ok_return V_undefined)
  next
    case (ExpFunctionCall n f a oop)
    then show ?thesis using assms by (simp add: ok_eval_call)
  next
    case (ExpFunctionWrapper n)
    then show ?thesis by (simp add: ok_eval_wrapper)
  next
    case (ExpFunctionDefinition b n ty fl ns vs fn l)
    then show ?thesis using assms by (simp add: ok_eval_definition)
  qed (use assms in \<open>auto intro!: ev2 ok_bind ok_value_or_error ok_return ok_raise ev ok_need_bool
          ok_eval_div ok_eval_mod V_bool V_undefined intro: V_arith V_negate simp: exc_ok_def\<close>)
qed

lemma run_ok:
  "good_job s j \<Longrightarrow> ev_ok I R V D (run w n j) s (\<lambda>v s'. V s' v)"
proof (induction n arbitrary: j s)
  case 0
  show ?case by (auto intro!: ok_raise D_NoFuel)
next
  case (Suc n)
  then have r: "rec_ok (run w n)" by (simp add: rec_ok_def)
  show ?case using Suc.prems
    by (cases j) (auto simp: good_job_def intro: ok_Evaluate ok_while ok_for r)
qed

end

end
