(* ===== verification/Eval_Fuel.thy ===== *)
theory Eval_Fuel
  imports Evaluator
begin

text \<open>
  The fuel of the interpreter: a run that ends is the run of every larger amount of fuel.  The
  order \<open>le_ev p q\<close> says that \<open>q\<close> agrees with \<open>p\<close> wherever \<open>p\<close> does not run out of fuel; every
  construct of the evaluator is monotone in it.
\<close>

named_theorems fuel_mono "constructs that are monotone in the interpreter they call"

definition le_ev :: "'a ev \<Rightarrow> 'a ev \<Rightarrow> bool" where
  "le_ev p q \<longleftrightarrow> (\<forall>s. fst (p s) \<noteq> Raise NoFuel \<longrightarrow> q s = p s)"

lemma le_ev_refl [fuel_mono, intro!]: "le_ev p p"
  by (simp add: le_ev_def)

lemma le_ev_bind [fuel_mono]:
  assumes "le_ev p q" "\<And>x. le_ev (f x) (g x)"
  shows "le_ev (bind_e p f) (bind_e q g)"
  unfolding le_ev_def
proof (intro allI impI)
  fix s assume nf: "fst (bind_e p f s) \<noteq> Raise NoFuel"
  obtain r s' where p: "p s = (r, s')" by fastforce
  then have "r \<noteq> Raise NoFuel" using nf by (auto simp: bind_e_def)
  then have q: "q s = (r, s')" using assms(1) p by (auto simp: le_ev_def)
  show "bind_e q g s = bind_e p f s"
  proof (cases r)
    case (Value x)
    then show ?thesis using nf p q assms(2) [of x] by (auto simp: bind_e_def le_ev_def)
  next
    case (Raise e)
    then show ?thesis using p q by (simp add: bind_e_def)
  qed
qed

lemma le_ev_catch:
  assumes "le_ev p q" "h NoFuel = None"
    and "\<And>e. (h e = None \<and> k e = None) \<or> (\<exists>x y. h e = Some x \<and> k e = Some y \<and> le_ev x y)"
  shows "le_ev (catch_e p h) (catch_e q k)"
  unfolding le_ev_def
proof (intro allI impI)
  fix s assume nf: "fst (catch_e p h s) \<noteq> Raise NoFuel"
  obtain r s' where p: "p s = (r, s')" by fastforce
  then have "r \<noteq> Raise NoFuel" using nf assms(2) by (auto simp: catch_e_def)
  then have q: "q s = (r, s')" using assms(1) p by (auto simp: le_ev_def)
  show "catch_e q k s = catch_e p h s"
  proof (cases r)
    case (Value x)
    then show ?thesis using p q by (simp add: catch_e_def)
  next
    case (Raise e)
    with assms(3) [of e] show ?thesis using nf p q by (auto simp: catch_e_def le_ev_def)
  qed
qed

lemma le_ev_finally [fuel_mono]: "le_ev p q \<Longrightarrow> le_ev (finally_pop p) (finally_pop q)"
  by (auto simp: le_ev_def finally_pop_def split: prod.splits outcome.splits if_splits)

lemma le_ev_with_object [fuel_mono]: "(\<And>f. le_ev (k f) (l f)) \<Longrightarrow> le_ev (with_object v k) (with_object v l)"
  by (cases v) (auto simp: le_ev_def with_object_def)

text \<open>An interpreter that knows more.\<close>

definition le_interp :: "interp \<Rightarrow> interp \<Rightarrow> bool" where
  "le_interp rec rec' \<longleftrightarrow> (\<forall>j. le_ev (rec j) (rec' j))"

lemma le_interpD: "le_interp rec rec' \<Longrightarrow> le_ev (rec j) (rec' j)"
  by (simp add: le_interp_def)

lemma le_eval_args [fuel_mono]:
  assumes a: "le_interp rec rec'"
  shows "le_ev (eval_args rec es) (eval_args rec' es)"
  by (induction es) (auto intro!: fuel_mono le_interpD [OF a])

lemma le_call_function [fuel_mono]:
  assumes "le_interp rec rec'"
  shows "le_ev (call_function w rec f vs) (call_function w rec' f vs)"
proof -
  have 1: "le_ev (ScriptFunction_Execute rec sf a) (ScriptFunction_Execute rec' sf a)" for sf a
    unfolding ScriptFunction_Execute_def by (intro fuel_mono assms le_interpD [OF assms])
  have 2: "le_ev (FunctionInstance_Execute rec fi a) (FunctionInstance_Execute rec' fi a)" for fi a
    unfolding FunctionInstance_Execute_def by (intro fuel_mono assms le_interpD [OF assms])
  show ?thesis
    using 1 2 by (cases "fn_apply f")
      (auto simp: call_function_def le_ev_def Let_def split: func_obj.splits)
qed

lemma le_invoke_impl [fuel_mono]:
  assumes "le_interp rec rec'"
  shows "le_ev (Invoke_impl w rec il n f a ns) (Invoke_impl w rec' il n f a ns)"
  unfolding Invoke_impl_def
  by (rule le_ev_bind, rule le_ev_refl) (auto split: option.split intro!: fuel_mono assms le_interpD [OF assms])

lemma le_invoke_try [fuel_mono]:
  assumes a: "le_interp rec rec'"
  shows "le_ev (InvokeTry w rec n a) (InvokeTry w rec' n a)"
  unfolding InvokeTry_def by (rule le_invoke_impl [OF a])

lemma le_invoke [fuel_mono]:
  assumes a: "le_interp rec rec'"
  shows "le_ev (Invoke w rec n a) (Invoke w rec' n a)"
  unfolding Invoke_def by (intro fuel_mono a le_interpD [OF a])

lemma le_loop_body [fuel_mono]:
  assumes "le_interp rec rec'"
  shows "le_ev (loop_body rec b r) (loop_body rec' b r)"
proof (cases b)
  case (Some e)
  then show ?thesis unfolding loop_body_def
    by (auto intro!: le_ev_catch fuel_mono assms le_interpD [OF assms] split: exc.split)
qed (auto simp: loop_body_def)

lemma le_while [fuel_mono]:
  assumes a: "le_interp rec rec'"
  shows "le_ev (while_step rec c b r) (while_step rec' c b r)"
  unfolding while_step_def by (auto intro!: fuel_mono a le_interpD [OF a])

lemma le_for [fuel_mono]:
  assumes a: "le_interp rec rec'"
  shows "le_ev (for_step rec i l t b k r) (for_step rec' i l t b k r)"
  unfolding for_step_def by (auto intro!: fuel_mono a le_interpD [OF a] simp: Let_def)

lemma le_eval_opt [fuel_mono]:
  assumes a: "le_interp rec rec'"
  shows "le_ev (eval_opt rec e d) (eval_opt rec' e d)"
  unfolding eval_opt_def by (auto intro!: fuel_mono a le_interpD [OF a] split: option.split)

lemma le_eval2 [fuel_mono]:
  fixes k l :: "AVSValue \<Rightarrow> AVSValue \<Rightarrow> AVSValue ev"
  assumes a: "le_interp rec rec'"
    and b: "\<And>x y. le_ev (k x y) (l x y)"
  shows "le_ev (eval2 rec a b k) (eval2 rec' a b l)"
  unfolding eval2_def by (intro le_ev_bind b le_interpD [OF a])

lemma le_eval_plus [fuel_mono]:
  assumes a: "le_interp rec rec'"
  shows "le_ev (eval_plus w rec x y) (eval_plus w rec' x y)"
  unfolding eval_plus_def by (auto intro!: fuel_mono a le_interpD [OF a] split: option.split)

lemma le_eval_double_plus [fuel_mono]:
  assumes a: "le_interp rec rec'"
  shows "le_ev (eval_double_plus w rec x y) (eval_double_plus w rec' x y)"
  unfolding eval_double_plus_def by (auto intro!: fuel_mono a le_interpD [OF a])

lemma le_call_with_last [fuel_mono]:
  assumes a: "le_interp rec rec'"
  shows "le_ev (call_with_last w rec n) (call_with_last w rec' n)"
  unfolding call_with_last_def by (auto intro!: fuel_mono a le_interpD [OF a] split: option.split)

lemma le_eval_variable [fuel_mono]:
  assumes a: "le_interp rec rec'"
  shows "le_ev (eval_variable w rec n) (eval_variable w rec' n)"
  unfolding eval_variable_def by (auto intro!: fuel_mono a le_interpD [OF a] split: option.split)

lemma le_eval_assignment [fuel_mono]:
  assumes a: "le_interp rec rec'"
  shows "le_ev (eval_assignment w rec l r b) (eval_assignment w rec' l r b)"
  unfolding eval_assignment_def by (auto intro!: fuel_mono a le_interpD [OF a] split: option.split)

lemma le_catch_not_found [fuel_mono]: "le_ev p q \<Longrightarrow> le_ev (catch_not_found p k) (catch_not_found q k)"
  unfolding catch_not_found_def by (auto intro!: le_ev_catch fuel_mono)

lemma le_callee [fuel_mono]:
  assumes a: "le_interp rec rec'"
  shows "le_ev (callee rec n f) (callee rec' n f)"
  unfolding callee_def by (auto intro!: fuel_mono a le_interpD [OF a] split: option.split)

lemma le_eval_call [fuel_mono]:
  assumes a: "le_interp rec rec'"
  shows "le_ev (eval_call w rec n f args oop) (eval_call w rec' n f args oop)"
  unfolding eval_call_def by (auto intro!: fuel_mono a le_interpD [OF a] split: option.split)

lemma le_Evaluate:
  assumes "le_interp rec rec'"
  shows "le_ev (Evaluate w rec e) (Evaluate w rec' e)"
  by (cases e) (auto intro!: le_ev_catch fuel_mono assms le_interpD [OF assms] split: exc.split)

lemma le_run_job: "le_interp rec rec' \<Longrightarrow> le_ev (run_job w rec j) (run_job w rec' j)"
  by (cases j) (auto intro: le_Evaluate le_while le_for)

lemma run_Suc: "run w (Suc n) = run_job w (run w n)"
  by (rule ext) simp

text \<open>For running the interpreter by rewriting: a job is unfolded only when its state is known.\<close>

lemma run_state:
  "run w 0 j s = (Raise NoFuel, s)"
  "run w (Suc n) j s = run_job w (run w n) j s"
  "run w (numeral k) j s = run_job w (run w (pred_numeral k)) j s"
  by (simp_all add: raise_e_def numeral_eq_Suc)

lemmas run_simps = run_state bind_e_def return_e_def raise_e_def get_e_def error_e_def catch_e_def
  set_last_if_clip_def last_value_def

lemma le_run_Suc: "le_interp (run w n) (run w (Suc n))"
proof (induction n)
  case 0
  show ?case by (simp add: le_interp_def le_ev_def raise_e_def)
next
  case (Suc n)
  have "le_ev (run w (Suc n) j) (run w (Suc (Suc n)) j)" for j
    using le_run_job [OF Suc, of w j] by (simp only: run_Suc)
  then show ?case by (simp only: le_interp_def) blast
qed

lemma run_more:
  assumes "fst (run w n j s) \<noteq> Raise NoFuel" "n \<le> m"
  shows "run w m j s = run w n j s"
  using assms(2)
proof (induction m rule: dec_induct)
  case (step m)
  have "le_ev (run w m j) (run w (Suc m) j)" using le_run_Suc [of w m] by (simp add: le_interp_def)
  then show ?case using step.IH assms(1) by (auto simp: le_ev_def)
qed simp



end
