(* ===== verification/Eval_Frames.thy ===== *)
theory Eval_Frames
  imports Eval_Logic Eval_Fuel
begin

text \<open>
  The frames of variables during an evaluation.  A call of a script function pushes a frame and
  pops it on every way out, so that whatever an expression does, by value or by exception, the
  frames below the newest one are those from before; and a call leaves every frame of its caller
  as it was.
\<close>

definition frames_I :: "env \<Rightarrow> bool" where
  "frames_I s \<longleftrightarrow> stackFrames (vars s) \<noteq> []"

definition frames_R :: "env \<Rightarrow> env \<Rightarrow> bool" where
  "frames_R s s' \<longleftrightarrow> (frames_I s \<longrightarrow> only_newest (vars s) (vars s'))"

definition frames_D :: "exc \<Rightarrow> bool" where
  "frames_D e \<longleftrightarrow> e = NoFuel \<or> e = Trap \<or> e = Crash"

abbreviation frames_V :: "env \<Rightarrow> AVSValue \<Rightarrow> bool" where "frames_V \<equiv> \<lambda>_ _. True"

abbreviation frames_ok :: "'a ev \<Rightarrow> env \<Rightarrow> ('a \<Rightarrow> env \<Rightarrow> bool) \<Rightarrow> bool" where
  "frames_ok \<equiv> ev_ok frames_I frames_R frames_V frames_D"

text \<open>Compiled code and the plugin loader pop what they push.\<close>

definition frames_world :: "world \<Rightarrow> bool" where
  "frames_world w \<longleftrightarrow>
     (\<forall>n args s. frames_ok (native w n args) s (\<lambda>_ _. True))
     \<and> (\<forall>s. frames_I s \<longrightarrow> only_newest (vars s) (vars (snd (load_autoload_dirs w s))))"

lemma only_newest_refl: "stackFrames t \<noteq> [] \<Longrightarrow> only_newest t t"
  by (simp add: only_newest_def)

interpretation frames_rel: ev_rel frames_I frames_R frames_V frames_D
proof
  show "frames_R s s" for s by (simp add: frames_R_def frames_I_def only_newest_refl)
  show "frames_R s s'' " if "frames_R s s'" "frames_R s' s''" for s s' s''
    using that only_newest_trans [of "vars s" "vars s'" "vars s''"]
    by (auto simp: frames_R_def frames_I_def only_newest_def)
qed (auto simp: frames_D_def)

lemma frames_SetVar: "frames_ok (SetVar n v) s (\<lambda>_ _. True)"
  using frames_rel.R_refl [of s]
  by (auto simp: ev_ok_def SetVar_def VarTable_Set_def frames_R_def frames_I_def only_newest_def
      split: option.splits list.splits prod.splits)

lemma frames_SetGlobalVar: "frames_ok (SetGlobalVar n v) s (\<lambda>_ _. True)"
  using frames_rel.R_refl [of s]
  by (auto simp: ev_ok_def SetGlobalVar_def VarTable_SetGlobal_def frames_R_def frames_I_def only_newest_def
      split: option.splits list.splits prod.splits)

lemma frames_new_object: "frames_ok (new_object f) s (\<lambda>_ _. True)"
  by (auto simp: ev_ok_def new_object_def frames_R_def frames_I_def only_newest_refl)

lemma frames_AutoloadPlugins:
  assumes "frames_world w"
  shows "frames_ok (AutoloadPlugins w) s (\<lambda>_ _. True)"
proof -
  let ?s = "s\<lparr>AutoloadExecuted := True, Autoloading := True\<rparr>"
  obtain m s' where l: "load_autoload_dirs w ?s = (m, s')" by fastforce
  have "only_newest (vars s) (vars s')" if "frames_I s"
    using assms that l by (simp add: frames_world_def frames_I_def) (metis env.select_convs(1) env.surjective env.update_convs(6,7) snd_conv)
  then show ?thesis using l frames_rel.R_refl [of s]
    by (auto simp: ev_ok_def AutoloadPlugins_def frames_R_def frames_I_def only_newest_def exc_ok_def split: option.splits)
qed

text \<open>A call with the frame it pushes: \<open>body\<close> may only change the newest frames.\<close>

definition same_frames :: "env \<Rightarrow> env \<Rightarrow> bool" where
  "same_frames s s' \<longleftrightarrow> stackFrames (vars s') = stackFrames (vars s)"

lemma frames_set_params: "frames_ok (set_params ns fs vs) s (\<lambda>_ _. True)"
proof (induction ns fs vs arbitrary: s rule: set_params.induct)
  case (2 n ns f fs v vs)
  show ?case unfolding set_params.simps
    by (rule frames_rel.ok_bind, rule frames_rel.ok_conseq [OF frames_SetVar], rule 2)
qed (auto intro!: frames_rel.ok_return frames_rel.ok_raise simp: frames_D_def)

lemma frames_set_captures: "frames_ok (set_captures ns vs) s (\<lambda>_ _. True)"
proof (induction ns vs arbitrary: s rule: set_captures.induct)
  case (1 n ns v vs)
  show ?case unfolding set_captures.simps
    by (rule frames_rel.ok_bind, rule frames_rel.ok_conseq [OF frames_SetVar], rule 1)
qed (auto intro!: frames_rel.ok_return frames_rel.ok_raise simp: frames_D_def)

text \<open>After the frame is popped, the frames are those from before the push.\<close>

definition popped :: "env \<Rightarrow> env \<Rightarrow> bool" where
  "popped s s' \<longleftrightarrow> same_frames s s' \<and> length (globalFrames (vars s')) = length (globalFrames (vars s))
     \<and> tl (globalFrames (vars s')) = tl (globalFrames (vars s))
     \<and> (globalFrames (vars s) \<noteq> [] \<longrightarrow> topFrame (vars s') = topFrame (vars s))"

definition call_ok :: "AVSValue ev \<Rightarrow> env \<Rightarrow> bool" where
  "call_ok p s \<longleftrightarrow> (case p s of (Value v, s') \<Rightarrow> popped s s' | (Raise e, s') \<Rightarrow> frames_D e \<or> popped s s')"

lemma PopContext_frames:
  assumes "only_newest (VarTable_Push (vars s)) (vars s1)"
  shows "\<exists>s2. PopContext s1 = (Value (), s2) \<and> popped s s2"
  using assms popped_frames [of "vars s" "vars s1"] pushed [of "vars s"]
  by (auto simp: PopContext_def popped_def same_frames_def only_newest_def split: option.splits)

text \<open>Between the push and the body only assignments happen; they throw nothing a handler could
  catch.\<close>

definition quiet :: "'a ev \<Rightarrow> bool" where
  "quiet p \<longleftrightarrow> (\<forall>s. case p s of (Value _, _) \<Rightarrow> True | (Raise e, _) \<Rightarrow> frames_D e)"

lemma quiet_bind: "quiet p \<Longrightarrow> (\<And>x. quiet (f x)) \<Longrightarrow> quiet (bind_e p f)"
proof -
  assume p: "quiet p" and f: "\<And>x. quiet (f x)"
  have "case bind_e p f s of (Value _, _) \<Rightarrow> True | (Raise e, _) \<Rightarrow> frames_D e" for s
  proof (cases "p s")
    case (Pair r s')
    show ?thesis
    proof (cases r)
      case (Value x)
      then show ?thesis using Pair f [of x] by (simp add: bind_e_def quiet_def)
    next
      case (Raise e)
      then show ?thesis using Pair p by (auto simp: bind_e_def quiet_def split: prod.splits outcome.splits)
    qed
  qed
  then show ?thesis unfolding quiet_def by blast
qed

lemma quiet_SetVar: "quiet (SetVar n v)"
  by (auto simp: quiet_def SetVar_def frames_D_def split: option.splits)

lemma quiet_set_params: "quiet (set_params ns fs vs)"
proof (induction ns fs vs rule: set_params.induct)
  case (2 n ns f fs v vs)
  then show ?case by (auto intro: quiet_bind quiet_SetVar)
qed (auto simp: quiet_def return_e_def raise_e_def frames_D_def)

lemma quiet_set_captures: "quiet (set_captures ns vs)"
proof (induction ns vs rule: set_captures.induct)
  case (1 n ns v vs)
  then show ?case by (auto intro: quiet_bind quiet_SetVar)
qed (auto simp: quiet_def return_e_def raise_e_def frames_D_def)

lemma call_frames:
  assumes pre: "\<And>s. frames_ok pre s (\<lambda>_ _. True)" "quiet pre" and body: "\<And>s. frames_ok body s (\<lambda>_ _. True)"
  shows "call_ok (bind_e PushContext (\<lambda>_. bind_e pre (\<lambda>_::unit. finally_pop body))) s"
proof -
  let ?s = "s\<lparr>vars := VarTable_Push (vars s)\<rparr>"
  have i: "frames_I ?s" using pushed [of "vars s"] by (simp add: frames_I_def)
  have p: "PushContext s = (Value (), ?s)" by (simp add: PushContext_def)
  obtain o1 s1 where 1: "pre ?s = (o1, s1)" by fastforce
  show ?thesis
  proof (cases o1)
    case (Raise e)
    with 1 have "frames_D e" using pre(2) unfolding quiet_def by (metis (mono_tags, lifting) case_prodD outcome.simps(6))
    then show ?thesis using 1 p Raise by (simp add: call_ok_def bind_e_def)
  next
    case (Value x)
    have s1: "frames_I s1" "only_newest (VarTable_Push (vars s)) (vars s1)"
      using pre(1) [of ?s] i 1 Value by (auto simp: ev_ok_def frames_R_def)
    obtain o2 s2 where 2: "body s1 = (o2, s2)" by fastforce
    have run: "bind_e PushContext (\<lambda>_. bind_e pre (\<lambda>_. finally_pop body)) s = finally_pop body s1"
      using p 1 Value by (simp add: bind_e_def)
    show ?thesis
    proof (cases "\<exists>e. o2 = Raise e \<and> frames_D e")
      case True
      then show ?thesis unfolding call_ok_def run using 2
        by (auto simp: finally_pop_def frames_D_def PopContext_def split: option.splits)
    next
      case False
      then have "only_newest (vars s1) (vars s2)"
        using body [of s1] 2 s1(1) by (cases o2) (auto simp: ev_ok_def frames_R_def)
      then have "only_newest (VarTable_Push (vars s)) (vars s2)" using s1(2) only_newest_trans by blast
      from PopContext_frames [OF this] obtain s3 where "PopContext s2 = (Value (), s3)" "popped s s3" by blast
      then show ?thesis unfolding call_ok_def run using 2 False
        by (cases o2) (auto simp: finally_pop_def frames_D_def)
    qed
  qed
qed

lemma call_ok_frames: "call_ok p s \<Longrightarrow> frames_ok p s (\<lambda>_ _. True)"
  by (auto simp: call_ok_def ev_ok_def popped_def same_frames_def frames_R_def frames_I_def only_newest_def exc_ok_def frames_D_def
      split: prod.splits outcome.splits exc.splits)

definition frames_interp :: "interp \<Rightarrow> bool" where
  "frames_interp rec \<longleftrightarrow> (\<forall>e s. frames_ok (rec (Eval e)) s (\<lambda>_ _. True))"

lemma script_call_frames:
  assumes "frames_interp rec"
  shows "call_ok (ScriptFunction_Execute rec sf args) s" "call_ok (FunctionInstance_Execute rec fi args) s"
proof -
  show "call_ok (ScriptFunction_Execute rec sf args) s"
    unfolding ScriptFunction_Execute_def by (rule call_frames) (use assms in \<open>simp_all add: frames_set_params quiet_set_params frames_interp_def\<close>)
  have assoc: "bind_e p (\<lambda>_. bind_e q r) = bind_e (bind_e p (\<lambda>_. q)) r" for p :: "unit ev" and q :: "unit ev" and r :: "unit \<Rightarrow> AVSValue ev"
    by (rule ext) (simp add: bind_e_def split: prod.splits outcome.splits)
  show "call_ok (FunctionInstance_Execute rec fi args) s"
    unfolding FunctionInstance_Execute_def assoc [of "set_captures _ _"]
  proof (rule call_frames)
    show "quiet (bind_e (set_captures (fi_var_names fi) (fi_var_data fi)) (\<lambda>_. set_params (fi_param_names fi) (fi_floats fi) args))"
      by (intro quiet_bind quiet_set_captures quiet_set_params)
    show "frames_ok (bind_e (set_captures (fi_var_names fi) (fi_var_data fi)) (\<lambda>_. set_params (fi_param_names fi) (fi_floats fi) args)) s (\<lambda>_ _. True)" for s
      by (rule frames_rel.ok_bind, rule frames_rel.ok_conseq [OF frames_set_captures], rule frames_set_params)
  qed (use assms in \<open>simp add: frames_interp_def\<close>)
qed

lemma frames_call_function:
  assumes "frames_world w" "frames_interp rec"
  shows "frames_ok (call_function w rec f vs) s (\<lambda>_ _. True)"
proof (cases "fn_apply f")
  case (ScriptFunctionExecute sf)
  then show ?thesis using call_ok_frames [OF script_call_frames(1) [OF assms(2)]] by (simp add: call_function_def Let_def)
next
  case (FunctionInstanceExecute k)
  have "frames_ok (\<lambda>s. if k < length (fobjs s) then (case fobjs s ! k of
          FunctionInstance fi \<Rightarrow> FunctionInstance_Execute rec fi a s | WrappedFunction _ \<Rightarrow> (Raise Crash, s))
        else (Raise Crash, s)) s (\<lambda>_ _. True)" for a
    using call_ok_frames [OF script_call_frames(2) [OF assms(2)], of _ a s]
    by (auto simp: ev_ok_def frames_D_def split: func_obj.splits)
  then show ?thesis using FunctionInstanceExecute by (simp add: call_function_def Let_def)
next
  case (NativeApply n)
  then show ?thesis using assms(1) by (simp add: call_function_def Let_def frames_world_def)
qed

lemma frames_Invoke:
  assumes "frames_world w" "frames_interp rec"
  shows "frames_ok (Invoke_impl w rec il name f args names) s (\<lambda>_ _. True)"
  unfolding Invoke_impl_def
proof (rule frames_rel.ok_bind, rule frames_rel.ok_prepare_call [where P = "\<lambda>_ _. True"])
  show "frames_ok (AutoloadPlugins w) s (\<lambda>_ _. True)" for s by (rule frames_AutoloadPlugins [OF assms(1)])
  show "frames_ok (case r of None \<Rightarrow> return_e None
       | Some (g, vs) \<Rightarrow> bind_e (call_function w rec g vs) (\<lambda>v. return_e (Some v))) s' (\<lambda>_ _. True)" for r s'
    by (auto intro!: frames_rel.ok_return frames_rel.ok_bind frames_rel.ok_conseq [OF frames_call_function [OF assms]]
        split: option.splits)
qed (auto simp: frames_D_def)

lemma frames_logic:
  assumes "frames_world w"
  shows "eval_logic frames_I frames_R frames_V frames_D w (\<lambda>_ _. True) (\<lambda>_. True) (\<lambda>_ _ _. True)"
proof (unfold_locales)
  show "frames_ok (SetVar n v) s (\<lambda>_ _. True)" for n v s by (rule frames_SetVar)
  show "frames_ok (SetGlobalVar n v) s (\<lambda>_ _. True)" for n v s by (rule frames_SetGlobalVar)
  show "frames_ok (new_object (WrappedFunction n)) s (\<lambda>_ _. True)" for n s by (rule frames_new_object)
  show "frames_ok (new_object (FunctionInstance
         \<lparr>fi_data = instance_function name params (length (fobjs s)), fi_body = body, fi_floats = floats,
          fi_param_names = pnames, fi_var_names = vnames, fi_var_data = data, fi_name = name,
          fi_filename = filename, fi_line = ln\<rparr>)) s (\<lambda>_ _. True)" for name params s body floats pnames vnames data filename ln
    by (rule frames_new_object)
  show "frames_ok (Invoke_impl w rec il name fo args names) s (\<lambda>r s'. \<forall>v. r = Some v \<longrightarrow> True)"
    if "\<And>e s. good_expr (\<lambda>_. True) (\<lambda>_ _ _. True) e \<Longrightarrow> frames_ok (rec (Eval e)) s (\<lambda>v s'. True)" for rec il name fo args names s
  proof -
    have "good_expr (\<lambda>_. True) (\<lambda>_ _ _. True) e" for e
      by (induction e) (auto simp: list_all_iff split: option.splits)
    then have "frames_interp rec" using that by (simp add: frames_interp_def)
    then show ?thesis using frames_Invoke [OF assms] by simp
  qed
  show "frames_ok (FunctionExists w fname) s (\<lambda>_ _. True)" for fname s
    by (rule frames_rel.ok_FunctionExists [OF frames_AutoloadPlugins [OF assms]])
qed (auto simp: frames_D_def)

text \<open>A system without compiled functions and without autoload directories: what scripts alone can do.\<close>

definition script_world :: "Function list list \<Rightarrow> world" where
  "script_world bs = \<lparr>builtin_functions = bs, load_autoload_dirs = (\<lambda>s. (None, s)), native = (\<lambda>_ _. raise_e NotFound)\<rparr>"

lemma frames_script_world: "frames_world (script_world bs)"
  by (auto simp: frames_world_def script_world_def frames_I_def only_newest_refl
      intro!: frames_rel.ok_raise simp: exc_ok_def)

interpretation script_frames: eval_logic frames_I frames_R frames_V frames_D "script_world bs" "\<lambda>_ _. True" "\<lambda>_. True" "\<lambda>_ _ _. True" for bs
  by (rule frames_logic [OF frames_script_world])

lemma good_expr_trivial: "good_expr (\<lambda>_. True) (\<lambda>_ _ _. True) e"
  by (induction e) (auto simp: list_all_iff split: option.splits)

lemma run_frames:
  assumes "frames_world w"
  shows "frames_ok (run w n j) s (\<lambda>_ _. True)"
proof (rule eval_logic.run_ok [OF frames_logic [OF assms]])
  show "eval_logic.good_job (\<lambda>_ _. True) (\<lambda>_. True) (\<lambda>_ _ _. True) s j"
    using good_expr_trivial
    by (simp add: eval_logic.good_job_def [OF frames_logic [OF assms]] split: job.split option.split)
qed

text \<open>
  C3: frames of variables are balanced.  Whatever a job does, and however it ends, the frames
  below the newest one are unchanged; a call of a script function leaves every frame of its
  caller as it was, also when the body throws.
\<close>

theorem evaluation_keeps_frames:
  assumes "frames_world w" "stackFrames (vars s) \<noteq> []"
  shows "(\<forall>r s'. run w n j s = (r, s') \<and> r \<noteq> Raise NoFuel \<and> r \<noteq> Raise Trap \<and> r \<noteq> Raise Crash \<longrightarrow>
            stackFrames (vars s') \<noteq> [] \<and> tl (stackFrames (vars s')) = tl (stackFrames (vars s)))
       \<and> (\<forall>sf args r s'. ScriptFunction_Execute (run w n) sf args s = (r, s') \<and> r \<noteq> Raise NoFuel \<and> r \<noteq> Raise Trap \<and> r \<noteq> Raise Crash \<longrightarrow>
            stackFrames (vars s') = stackFrames (vars s))"
proof (intro conjI allI impI; elim conjE)
  fix r s' assume r: "run w n j s = (r, s')" "r \<noteq> Raise NoFuel" "r \<noteq> Raise Trap" "r \<noteq> Raise Crash"
  from run_frames [OF assms(1), of n j s] r assms(2) have "only_newest (vars s) (vars s')"
    by (cases r) (auto simp: ev_ok_def frames_I_def frames_R_def frames_D_def)
  then show "stackFrames (vars s') \<noteq> []" "tl (stackFrames (vars s')) = tl (stackFrames (vars s))"
    by (auto simp: only_newest_def)
next
  fix sf args r s'
  assume r: "ScriptFunction_Execute (run w n) sf args s = (r, s')" "r \<noteq> Raise NoFuel" "r \<noteq> Raise Trap" "r \<noteq> Raise Crash"
  have "frames_interp (run w n)" using run_frames [OF assms(1)] by (simp add: frames_interp_def)
  from script_call_frames(1) [OF this, of sf args s] r show "stackFrames (vars s') = stackFrames (vars s)"
    by (cases r) (auto simp: call_ok_def frames_D_def popped_def same_frames_def)
qed

text \<open>A first environment: one frame of variables and no functions.\<close>

definition empty_env :: env where
  "empty_env = \<lparr>vars = VarTable_new string_frame_new, closing = False, fobjs = [], ExternalFunctions = (\<lambda>_. []),
     AutoloadedFunctions = (\<lambda>_. []), AutoloadExecuted = True, Autoloading = False, PluginInLoad = None\<rparr>"

theorem evaluation_keeps_frames_witness:
  "fst (ScriptFunction_Execute (run (script_world []) 5)
       \<lparr>sf_name = ''f'', sf_params = ''i'', sf_body = ExpSequence (ExpConstant (VInt 1)) ExpBreak,
        sf_floats = [False], sf_param_names = [''a'']\<rparr> [VInt 3] empty_env) = Raise BreakStmtException
   \<and> stackFrames (vars (snd (ScriptFunction_Execute (run (script_world []) 5)
       \<lparr>sf_name = ''f'', sf_params = ''i'', sf_body = ExpSequence (ExpConstant (VInt 1)) ExpBreak,
        sf_floats = [False], sf_param_names = [''a'']\<rparr> [VInt 3] empty_env))) = [[]]"
proof -
  let ?sf = "\<lparr>sf_name = ''f'', sf_params = ''i'', sf_body = ExpSequence (ExpConstant (VInt 1)) ExpBreak,
        sf_floats = [False], sf_param_names = [''a'']\<rparr>"
  have 1: "fst (ScriptFunction_Execute (run (script_world []) 5) ?sf [VInt 3] empty_env) = Raise BreakStmtException"
    by (simp add: ScriptFunction_Execute_def run_simps PushContext_def SetVar_def float_param_def empty_env_def
        VarTable_new_def VarTable_Push_def VarTable_Set_def finally_pop_def PopContext_def VarTable_Pop_def del: run.simps)
  have 2: "stackFrames (vars empty_env) = [[]]"
    by (simp add: empty_env_def VarTable_new_def VarTable_Push_def)
  from evaluation_keeps_frames [OF frames_script_world, of empty_env "[]" 5] 1 2
  show ?thesis by (metis (no_types, lifting) exc.distinct list.distinct(1) outcome.inject(2) prod.collapse)
qed

end
