(* ===== verification/Eval_Types.thy ===== *)
theory Eval_Types
  imports Eval_Frames
begin

text \<open>
  The types of values during an evaluation.  Integers stay in the range of their type, function
  values name function objects that exist, and the code never reads outside a signature, a list of
  parameter names or the table of objects.  This is proved for every script whose constants are
  values of their types and whose functions have as many parameter names as their signatures have
  parameters, in a system whose compiled functions keep to the same rules.
\<close>


section \<open>Well-formed environments\<close>

definition types_V :: "env \<Rightarrow> AVSValue \<Rightarrow> bool" where
  "types_V s v = wf_val (length (fobjs s)) v"

abbreviation good_script :: "expr \<Rightarrow> bool" where
  "good_script \<equiv> good_expr const_ok sig_ok"

definition fn_ok :: "env \<Rightarrow> Function \<Rightarrow> bool" where
  "fn_ok s f \<longleftrightarrow> (case fn_apply f of
     ScriptFunctionExecute sf \<Rightarrow> good_script (sf_body sf) \<and> sig_ok (param_types f) (sf_param_names sf) (sf_floats sf)
   | FunctionInstanceExecute k \<Rightarrow> k < length (fobjs s) \<and>
       (\<exists>fi. fobjs s ! k = FunctionInstance fi \<and> sig_ok (param_types f) (fi_param_names fi) (fi_floats fi))
   | NativeApply _ \<Rightarrow> IsValidParameterString (param_types f))"

fun obj_ok :: "env \<Rightarrow> func_obj \<Rightarrow> bool" where
  "obj_ok s (WrappedFunction n) = True"
| "obj_ok s (FunctionInstance fi) \<longleftrightarrow>
     good_script (fi_body fi) \<and> length (fi_var_data fi) = length (fi_var_names fi)
     \<and> (\<forall>v \<in> set (fi_var_data fi). types_V s v) \<and> fn_ok s (fi_data fi)"

definition vals :: "AVSValue var_frame \<Rightarrow> AVSValue set" where
  "vals f = snd ` set f"

definition frame_vals :: "AVSValue var_table \<Rightarrow> AVSValue set" where
  "frame_vals t = (\<Union>f \<in> set (stackFrames t). vals f) \<union> (\<Union>g \<in> set (globalFrames t). vals (fvars g)) \<union> vals (fvars (topFrame t))"

definition types_I :: "env \<Rightarrow> bool" where
  "types_I s \<longleftrightarrow> frames_I s \<and> pools_clean (vars s) \<and> (\<forall>v \<in> frame_vals (vars s). types_V s v)
     \<and> (\<forall>f \<in> set (fobjs s). obj_ok s f)
     \<and> (\<forall>n. \<forall>f \<in> set (ExternalFunctions s n) \<union> set (AutoloadedFunctions s n). fn_ok s f)"

definition grows :: "env \<Rightarrow> env \<Rightarrow> bool" where
  "grows s s' \<longleftrightarrow> (\<exists>l. fobjs s' = fobjs s @ l)"

definition types_R :: "env \<Rightarrow> env \<Rightarrow> bool" where
  "types_R s s' \<longleftrightarrow> frames_R s s' \<and> grows s s'"

definition types_D :: "exc \<Rightarrow> bool" where
  "types_D e \<longleftrightarrow> e = NoFuel \<or> e = Trap"

abbreviation types_ok :: "'a ev \<Rightarrow> env \<Rightarrow> ('a \<Rightarrow> env \<Rightarrow> bool) \<Rightarrow> bool" where
  "types_ok \<equiv> ev_ok types_I types_R types_V types_D"

text \<open>Built-in functions have valid signatures and are compiled code; compiled code and the loader
  keep the environment well-formed.\<close>

definition types_world :: "world \<Rightarrow> bool" where
  "types_world w \<longleftrightarrow>
     (\<forall>f \<in> set (concat (builtin_functions w)). (\<exists>n. fn_apply f = NativeApply n) \<and> IsValidParameterString (param_types f))
     \<and> (\<forall>n args s. (\<forall>v \<in> set args. types_V s v) \<longrightarrow> types_ok (native w n args) s (\<lambda>v s'. types_V s' v))
     \<and> (\<forall>s. types_I s \<longrightarrow> types_I (snd (load_autoload_dirs w s)) \<and> types_R s (snd (load_autoload_dirs w s)))"

lemma types_V_mono: "types_V s v \<Longrightarrow> grows s s' \<Longrightarrow> types_V s' v"
  by (auto simp: types_V_def grows_def intro: wf_val_mono)

lemma fn_ok_mono: "fn_ok s f \<Longrightarrow> grows s s' \<Longrightarrow> fn_ok s' f"
  by (auto simp: fn_ok_def grows_def nth_append split: apply_func.splits)

lemma obj_ok_mono: "obj_ok s f \<Longrightarrow> grows s s' \<Longrightarrow> obj_ok s' f"
  by (cases f) (auto intro: fn_ok_mono types_V_mono)

lemma grows_refl: "grows s s"
  by (simp add: grows_def)

interpretation types_rel: ev_rel types_I types_R types_V types_D
proof
  show "types_R s s" for s by (simp add: types_R_def frames_rel.R_refl grows_refl)
  show "types_R s s''" if "types_R s s'" "types_R s' s''" for s s' s''
    using that frames_rel.R_trans by (fastforce simp: types_R_def grows_def)
  show "types_V s' v" if "types_V s v" "types_R s s'" for s s' v
    using that types_V_mono by (simp add: types_R_def)
qed (auto simp: types_D_def)


section \<open>The operations of the environment\<close>

text \<open>A change of the variables only.\<close>

lemma types_I_vars:
  assumes "types_I s" "only_newest (vars s) t" "pools_clean t" "\<forall>v \<in> frame_vals t. types_V s v"
  shows "types_I (s\<lparr>vars := t\<rparr>) \<and> types_R s (s\<lparr>vars := t\<rparr>)"
proof -
  have g: "grows s (s\<lparr>vars := t\<rparr>)" by (simp add: grows_def)
  have "stackFrames t \<noteq> []" using assms(2) by (simp add: only_newest_def)
  moreover have "types_V (s\<lparr>vars := t\<rparr>) v" if "types_V s v" for v using that by (simp add: types_V_def)
  ultimately show ?thesis
    using assms g obj_ok_mono [OF _ g] fn_ok_mono [OF _ g]
    by (auto simp: types_I_def types_R_def frames_R_def frames_I_def)
qed

lemma VarFrame_Set_vals: "vals (snd (VarFrame_Set n v f)) \<subseteq> insert v (vals f)"
proof (induction n v f rule: VarFrame_Set.induct)
  case (2 n v k w f)
  obtain b f' where b: "VarFrame_Set n v f = (b, f')" by fastforce
  from 2 [of] b show ?case by (cases "streqi n k") (auto simp: vals_def)
qed (simp add: vals_def)

lemma VarFrame_SetD: "VarFrame_Set n v f = (b, f') \<Longrightarrow> x \<in> vals f' \<Longrightarrow> x = v \<or> x \<in> vals f"
  using VarFrame_Set_vals [of n v f] by auto

lemma types_GetVar:
  assumes "types_I s" "GetVarTry n s = Some v"
  shows "types_V s v"
proof -
  have g: "VarFrame_Get n f = Some v \<Longrightarrow> v \<in> vals f" for f
    by (auto simp: VarFrame_Get_def find_Some_iff image_iff vals_def) (metis nth_mem snd_conv)
  have s: "search_globals n gs = Some v \<Longrightarrow> v \<in> (\<Union>g \<in> set gs. vals (fvars g))" for gs
    by (induction gs) (auto dest: g split: option.splits)
  have "v \<in> frame_vals (vars s)"
    using assms(2) g s unfolding GetVarTry_def VarTable_Get_def frame_vals_def
    by (auto split: if_splits option.splits list.splits)
  then show ?thesis using assms(1) by (simp add: types_I_def)
qed

lemma types_SetVar:
  assumes "types_V s v"
  shows "types_ok (SetVar n v) s (\<lambda>_ _. True)"
proof (cases "closing s \<or> \<not> types_I s")
  case True
  then show ?thesis using types_rel.R_refl by (auto simp: ev_ok_def SetVar_def split: option.splits prod.splits)
next
  case False
  then obtain f fs where f: "stackFrames (vars s) = f # fs"
    by (cases "stackFrames (vars s)") (auto simp: types_I_def frames_I_def)
  obtain b f' where b: "VarFrame_Set n v f = (b, f')" by fastforce
  let ?t = "vars s\<lparr>stackFrames := f' # fs\<rparr>"
  have "frame_vals ?t \<subseteq> insert v (frame_vals (vars s))"
    using VarFrame_Set_vals [of n v f] f b by (auto simp: frame_vals_def)
  then have "types_I (s\<lparr>vars := ?t\<rparr>) \<and> types_R s (s\<lparr>vars := ?t\<rparr>)"
    using False assms f by (intro types_I_vars) (auto simp: types_I_def pools_clean_def only_newest_def)
  then show ?thesis using f b False by (simp add: ev_ok_def SetVar_def VarTable_Set_def)
qed

lemma types_SetGlobalVar:
  assumes "types_V s v"
  shows "types_ok (SetGlobalVar n v) s (\<lambda>_ _. True)"
proof (cases "closing s \<or> \<not> types_I s")
  case True
  then show ?thesis using types_rel.R_refl by (auto simp: ev_ok_def SetGlobalVar_def split: option.splits prod.splits)
next
  case False
  obtain b t where t: "VarTable_SetGlobal n v (vars s) = (b, t)" by fastforce
  have c: "stackFrames (vars s) \<noteq> []" "pools_clean (vars s)" using False by (auto simp: types_I_def frames_I_def)
  have "frame_vals t \<subseteq> insert v (frame_vals (vars s)) \<and> only_newest (vars s) t \<and> pools_clean t"
  proof (cases "globalFrames (vars s)")
    case Nil
    obtain b' f where f: "VarFrame_Set n v (fvars (topFrame (vars s))) = (b', f)" by fastforce
    then have "t = vars s\<lparr>topFrame := (topFrame (vars s))\<lparr>fvars := f\<rparr>\<rparr>"
      using t Nil by (simp add: VarTable_SetGlobal_def)
    then show ?thesis using c Nil VarFrame_SetD [OF f]
      by (auto simp: frame_vals_def only_newest_def pools_clean_def)
  next
    case (Cons g gs)
    obtain b' f where f: "VarFrame_Set n v (fvars g) = (b', f)" by fastforce
    then have "t = vars s\<lparr>globalFrames := g\<lparr>fvars := f\<rparr> # gs\<rparr>"
      using t Cons by (simp add: VarTable_SetGlobal_def)
    then show ?thesis using c Cons VarFrame_SetD [OF f]
      by (auto simp: frame_vals_def only_newest_def pools_clean_def)
  qed
  then have "types_I (s\<lparr>vars := t\<rparr>) \<and> types_R s (s\<lparr>vars := t\<rparr>)"
    using False assms by (intro types_I_vars) (auto simp: types_I_def)
  then show ?thesis using t False by (simp add: ev_ok_def SetGlobalVar_def)
qed

lemma types_new_object:
  assumes "types_I s \<Longrightarrow> obj_ok (s\<lparr>fobjs := fobjs s @ [f]\<rparr>) f"
  shows "types_ok (new_object f) s (\<lambda>v s'. types_V s' v)"
proof -
  let ?s = "s\<lparr>fobjs := fobjs s @ [f]\<rparr>"
  have g: "grows s ?s" by (simp add: grows_def)
  have "types_I ?s \<and> types_R s ?s" if "types_I s"
    using that assms [OF that] g fn_ok_mono [OF _ g] obj_ok_mono [OF _ g] types_V_mono [OF _ g]
    by (auto simp: types_I_def types_R_def frames_R_def frames_I_def only_newest_refl)
  then show ?thesis by (auto simp: ev_ok_def new_object_def types_V_def)
qed

lemma types_AutoloadPlugins:
  assumes "types_world w"
  shows "types_ok (AutoloadPlugins w) s (\<lambda>_ _. True)"
proof -
  let ?s = "s\<lparr>AutoloadExecuted := True, Autoloading := True\<rparr>"
  obtain m s' where l: "load_autoload_dirs w ?s = (m, s')" by fastforce
  have same: "types_I x \<Longrightarrow> vars y = vars x \<Longrightarrow> fobjs y = fobjs x \<Longrightarrow> ExternalFunctions y = ExternalFunctions x
      \<Longrightarrow> AutoloadedFunctions y = AutoloadedFunctions x \<Longrightarrow> types_I y" for x y
    using fn_ok_mono [of x _ y] obj_ok_mono [of x _ y]
    by (auto simp: types_I_def frames_I_def types_V_def grows_def)
  have "types_I s' \<and> types_R s s'" if i: "types_I s"
  proof -
    have "types_I ?s" by (rule same [OF i]) simp_all
    then have "types_I s'" "types_R ?s s'" using assms l unfolding types_world_def by (metis snd_conv)+
    then show ?thesis by (simp add: types_R_def frames_R_def frames_I_def grows_def)
  qed
  moreover have "types_I s' \<Longrightarrow> types_I (s'\<lparr>Autoloading := False\<rparr>)" by (rule same) simp_all
  ultimately show ?thesis using l types_rel.R_refl [of s]
    by (auto simp: ev_ok_def AutoloadPlugins_def exc_ok_def types_R_def frames_R_def grows_def split: option.splits)
qed


section \<open>Lookup\<close>

text \<open>A function with a valid signature can be matched against any arguments.\<close>

lemma fn_ok_params: "fn_ok s f \<Longrightarrow> \<exists>ps. list_all wf_param ps \<and> param_types f = print_params ps"
  by (auto simp: fn_ok_def sig_ok_def valid_iff_params split: apply_func.splits)

lemma fn_ok_matches: "fn_ok s f \<Longrightarrow> \<exists>b. matches f args strict names = Inr b"
  using fn_ok_params [of s f] by (auto simp: matches_def TypeMatch_print ArgNameMatch_print)

lemma fn_ok_TypeMatch: "fn_ok s f \<Longrightarrow> \<exists>b. TypeMatch (param_types f) args strict = Inr b"
  using fn_ok_params [of s f] by (auto simp: TypeMatch_print)

lemma first_match_ok:
  "\<forall>f \<in> set fs. fn_ok s f \<Longrightarrow> \<exists>r. first_match fs args strict names = Inr r \<and> (\<forall>f. r = Some f \<longrightarrow> f \<in> set fs)"
proof (induction fs)
  case (Cons f fs)
  then obtain b where "matches f args strict names = Inr b" using fn_ok_matches by (metis list.set_intros(1))
  with Cons show ?case by (cases b) auto
qed simp

lemma PluginManager_Lookup_ok:
  assumes "types_I s"
  shows "\<exists>r. PluginManager_Lookup n args strict names s = Inr r \<and> (\<forall>f. r = Some f \<longrightarrow> fn_ok s f)"
proof -
  have e: "\<forall>f \<in> set (rev (ExternalFunctions s (canon n))). fn_ok s f" and a: "\<forall>f \<in> set (rev (AutoloadedFunctions s (canon n))). fn_ok s f"
    using assms by (auto simp: types_I_def)
  from first_match_ok [OF e, of args strict names] first_match_ok [OF a, of args strict names] e a
  show ?thesis by (auto simp: PluginManager_Lookup_def Lookup_map_def split: option.splits)
qed

lemma builtin_ok:
  assumes "types_world w" "f \<in> set (builtin_candidates w n)"
  shows "fn_ok s f"
proof -
  have "f \<in> set (concat (builtin_functions w))"
    using assms(2) by (auto simp: builtin_candidates_def dest: set_takeWhileD)
  with assms(1) obtain m where "fn_apply f = NativeApply m" "IsValidParameterString (param_types f)"
    unfolding types_world_def by blast
  then show ?thesis by (simp add: fn_ok_def)
qed

lemma lookup_rounds_ok:
  assumes "types_world w" "types_I s"
  shows "\<exists>r. lookup_rounds w n args rs s = Inr r \<and> (\<forall>f st. r = Some (f, st) \<longrightarrow> fn_ok s f)"
proof (induction rs)
  case (Cons x rs)
  obtain strict names where x: "x = (strict, names)" by fastforce
  obtain r where r: "PluginManager_Lookup n args strict names s = Inr r" "\<forall>f. r = Some f \<longrightarrow> fn_ok s f"
    using PluginManager_Lookup_ok [OF assms(2)] by blast
  have "\<forall>f \<in> set (builtin_candidates w n). fn_ok s f" using builtin_ok [OF assms(1)] by blast
  from first_match_ok [OF this, of args strict names] this obtain q where
    q: "first_match (builtin_candidates w n) args strict names = Inr q" "\<forall>f. q = Some f \<longrightarrow> fn_ok s f" by blast
  show ?case using Cons r q x by (cases r; cases q) (auto simp: lookup_round_def)
qed simp

lemma lookup_variable_ok:
  assumes "types_I s"
  shows "\<exists>r. lookup_variable n args names s = Inr r \<and> (\<forall>f st. r = Inr (f, st) \<longrightarrow> fn_ok s f)"
proof (cases "\<exists>k. GetVarTry n s = Some (VFunction k)")
  case True
  then obtain k where k: "GetVarTry n s = Some (VFunction k)" by blast
  then have len: "k < length (fobjs s)" using types_GetVar [OF assms k] by (simp add: types_V_def)
  show ?thesis
  proof (cases "fobjs s ! k")
    case (WrappedFunction m)
    then show ?thesis using k len by (simp add: lookup_variable_def)
  next
    case (FunctionInstance fi)
    have "obj_ok s (fobjs s ! k)" using assms len by (auto simp: types_I_def)
    then have f: "fn_ok s (fi_data fi)" using FunctionInstance by simp
    obtain b c where "matches (fi_data fi) args False names = Inr b" "TypeMatch (param_types (fi_data fi)) args True = Inr c"
      using fn_ok_matches [OF f] fn_ok_TypeMatch [OF f] by metis
    then show ?thesis using k len FunctionInstance f by (cases b) (auto simp: lookup_variable_def)
  qed
next
  case False
  then have "lookup_variable n args names s = Inr (Inl n)"
    by (auto simp: lookup_variable_def split: option.splits AVSValue.splits)
  then show ?thesis by simp
qed

lemma lookup_once_ok:
  assumes "types_world w" "types_I s"
  shows "\<exists>r. lookup_once w n args names s = Inr r \<and> (\<forall>f st. r = Inr (f, st) \<longrightarrow> fn_ok s f)"
proof -
  obtain r where r: "lookup_variable n args names s = Inr r" "\<forall>f st. r = Inr (f, st) \<longrightarrow> fn_ok s f"
    using lookup_variable_ok [OF assms(2)] by blast
  show ?thesis
  proof (cases r)
    case (Inl m)
    obtain q where "lookup_rounds w m args (search_order names) s = Inr q" "\<forall>f st. q = Some (f, st) \<longrightarrow> fn_ok s f"
      using lookup_rounds_ok [OF assms] by blast
    then show ?thesis using r Inl by (cases q) (auto simp: lookup_once_def)
  next
    case (Inr x)
    then show ?thesis using r by (auto simp: lookup_once_def)
  qed
qed


section \<open>Calls\<close>

lemma wf_from_args:
  assumes "from_args args v" "\<forall>a \<in> set args. types_V s a"
  shows "types_V s v"
  using assms unfolding from_args_def types_V_def by (auto simp: list_all_iff subset_iff)

lemma types_elems: "types_V s v \<Longrightarrow> a \<in> set (elems v) \<Longrightarrow> types_V s a"
proof (cases v)
  case (VArray vs)
  assume a: "types_V s v" "a \<in> set (elems v)"
  then obtain i where "0 \<le> i" "i < ArraySize v" "a = operator_index v i" by (auto simp: elems_def)
  then have "a \<in> set vs" using operator_index_in_array [of vs v i] VArray by simp
  then show ?thesis using a(1) VArray by (auto simp: types_V_def list_all_iff)
qed (auto simp: elems_def)

lemma types_Flatten: "types_V s v \<Longrightarrow> a \<in> set (Flatten v names) \<Longrightarrow> types_V s a"
  by (auto simp: Flatten_def dest: types_elems set_zip_rightD split: if_splits option.splits)

lemma types_named_args: "types_V s v \<Longrightarrow> (n, a) \<in> set (named_args v names) \<Longrightarrow> types_V s a"
  by (auto simp: named_args_def dest: types_elems set_zip_rightD split: if_splits option.splits)

lemma types_bound:
  assumes "fn_ok s f" "bind_arguments (param_types f) strict args (named_args v names) = Inr vs"
    and "types_V s v" "\<forall>a \<in> set args. types_V s a" "x \<in> set vs"
  shows "types_V s x"
proof -
  obtain ps where "list_all wf_param ps" "param_types f = print_params ps" using fn_ok_params [OF assms(1)] by blast
  with bind_arguments_print(2) [of ps strict args "named_args v names" vs x] assms(2,5)
  have "from_args args x \<or> (\<exists>n a. (Some n, a) \<in> set (named_args v names) \<and> (x = a \<or> x = VArray [a]))" by simp
  then show ?thesis using wf_from_args [OF _ assms(4)] types_named_args [OF assms(3)] by (auto simp: types_V_def)
qed

lemma types_float_param: "types_V s v \<Longrightarrow> types_V s (float_param b v)"
  by (simp add: float_param_def types_V_def)

lemma types_narrow_arg: "types_V s v \<Longrightarrow> types_V s (narrow_arg v)"
  by (cases v) (auto simp: types_V_def)

definition no_raise :: "'a ev \<Rightarrow> env \<Rightarrow> bool" where
  "no_raise p s \<longleftrightarrow> (types_I s \<longrightarrow> (\<exists>x s'. p s = (Value x, s') \<and> types_I s' \<and> types_R s s'))"

lemma no_raise_SetVar:
  assumes "types_V s v"
  shows "no_raise (SetVar n v) s"
  unfolding no_raise_def
proof
  assume i: "types_I s"
  then have "stackFrames (vars s) \<noteq> []" by (simp add: types_I_def frames_I_def)
  then obtain f fs b f' where "stackFrames (vars s) = f # fs" "VarFrame_Set n v f = (b, f')"
    by (metis list.exhaust surj_pair)
  then obtain x s' where x: "SetVar n v s = (Value x, s')"
    by (cases "closing s") (auto simp: SetVar_def VarTable_Set_def)
  then show "\<exists>x s'. SetVar n v s = (Value x, s') \<and> types_I s' \<and> types_R s s'"
    using types_SetVar [OF assms, of n] i by (simp add: ev_ok_def)
qed

lemma no_raise_bind:
  assumes "no_raise p s" "\<And>x s'. types_R s s' \<Longrightarrow> no_raise (f x) s'"
  shows "no_raise (bind_e p f) s"
  unfolding no_raise_def
proof
  assume "types_I s"
  with assms(1) obtain x s1 where 1: "p s = (Value x, s1)" "types_I s1" "types_R s s1" by (auto simp: no_raise_def)
  from assms(2) [OF 1(3), of x] 1(2) obtain y s2 where "f x s1 = (Value y, s2)" "types_I s2" "types_R s1 s2"
    by (auto simp: no_raise_def)
  with 1 types_rel.R_trans show "\<exists>x s'. bind_e p f s = (Value x, s') \<and> types_I s' \<and> types_R s s'"
    by (auto simp: bind_e_def)
qed

lemma no_raise_return: "no_raise (return_e x) s"
  by (simp add: no_raise_def return_e_def types_rel.R_refl)

lemma no_raise_set_params:
  "length vs \<le> length ns \<Longrightarrow> length vs \<le> length fs \<Longrightarrow> \<forall>v \<in> set vs. types_V s v \<Longrightarrow> no_raise (set_params ns fs vs) s"
proof (induction ns fs vs arbitrary: s rule: set_params.induct)
  case (2 n ns f fs v vs)
  show ?case unfolding set_params.simps
  proof (rule no_raise_bind)
    show "no_raise (SetVar n (float_param f v)) s" using 2(4) by (auto intro!: no_raise_SetVar types_float_param)
    show "no_raise (set_params ns fs vs) s'" if "types_R s s'" for s'
      using 2(2-4) types_rel.V_mono [OF _ that] by (intro 2(1)) auto
  qed
qed (auto intro: no_raise_return)

lemma no_raise_set_captures:
  "length vs = length ns \<Longrightarrow> \<forall>v \<in> set vs. types_V s v \<Longrightarrow> no_raise (set_captures ns vs) s"
proof (induction ns vs arbitrary: s rule: set_captures.induct)
  case (1 n ns v vs)
  show ?case unfolding set_captures.simps
  proof (rule no_raise_bind)
    show "no_raise (SetVar n v) s" using 1(3) by (auto intro!: no_raise_SetVar)
    show "no_raise (set_captures ns vs) s'" if "types_R s s'" for s'
      using 1(2,3) types_rel.V_mono [OF _ that] by (intro 1(1)) auto
  qed
qed (auto intro: no_raise_return)

text \<open>Pushing a frame, and popping it after a body that changed only the newest frames.\<close>

lemma types_Push:
  assumes "types_I s"
  shows "types_I (s\<lparr>vars := VarTable_Push (vars s)\<rparr>)"
proof -
  let ?s = "s\<lparr>vars := VarTable_Push (vars s)\<rparr>"
  have g: "grows s ?s" by (simp add: grows_def)
  have "frame_vals (VarTable_Push (vars s)) = frame_vals (vars s)" "pools_clean (VarTable_Push (vars s))"
    using assms by (auto simp: types_I_def frame_vals_def VarTable_Push_def pools_clean_def vals_def split: list.splits)
  then show ?thesis using assms pushed [of "vars s"] obj_ok_mono [OF _ g] fn_ok_mono [OF _ g] types_V_mono [OF _ g]
    by (auto simp: types_I_def frames_I_def)
qed

lemma types_Pop:
  assumes s: "types_I s" and i: "types_I s2" and r: "types_R (s\<lparr>vars := VarTable_Push (vars s)\<rparr>) s2"
  shows "\<exists>s3. PopContext s2 = (Value (), s3) \<and> types_I s3 \<and> types_R s s3 \<and> grows s2 s3"
proof -
  have "only_newest (VarTable_Push (vars s)) (vars s2)"
    using r pushed [of "vars s"] by (simp add: types_R_def frames_R_def frames_I_def)
  from PopContext_frames [OF this] obtain s3 where p: "PopContext s2 = (Value (), s3)" "popped s s3" by blast
  obtain f fs where f: "stackFrames (vars s2) = f # fs" using i
    by (cases "stackFrames (vars s2)") (auto simp: types_I_def frames_I_def)
  have s3: "s3 = s2\<lparr>vars := vars s2\<lparr>stackFrames := fs, stackPool := VarFrame_Clear f # stackPool (vars s2)\<rparr>\<rparr>"
    using p(1) f by (simp add: PopContext_def VarTable_Pop_def)
  have g: "grows s2 s3" "grows s s3" using s3 r by (auto simp: grows_def types_R_def)
  have "frames_I s3" using p(2) s by (simp add: popped_def same_frames_def types_I_def frames_I_def)
  moreover have "frame_vals (vars s3) \<subseteq> frame_vals (vars s2)" "pools_clean (vars s3)"
    using s3 f i by (auto simp: frame_vals_def pools_clean_def VarFrame_Clear_def types_I_def)
  moreover have "ExternalFunctions s3 = ExternalFunctions s2" "AutoloadedFunctions s3 = AutoloadedFunctions s2" "fobjs s3 = fobjs s2"
    using s3 by simp_all
  ultimately have "types_I s3" using i obj_ok_mono [OF _ g(1)] fn_ok_mono [OF _ g(1)] types_V_mono [OF _ g(1)]
    by (auto simp: types_I_def)
  moreover have "types_R s s3" using p(2) g(2) s
    by (auto simp: types_R_def frames_R_def popped_def same_frames_def only_newest_def types_I_def frames_I_def)
  ultimately show ?thesis using p(1) g(1) by blast
qed

lemma types_call:
  assumes pre: "\<And>s'. grows s s' \<Longrightarrow> no_raise pre s'"
    and body: "\<And>s. types_ok body s (\<lambda>v s'. types_V s' v)"
  shows "types_ok (bind_e PushContext (\<lambda>_. bind_e pre (\<lambda>_::unit. finally_pop body))) s (\<lambda>v s'. types_V s' v)"
  unfolding ev_ok_def
proof
  assume i: "types_I s"
  let ?s = "s\<lparr>vars := VarTable_Push (vars s)\<rparr>"
  have g: "grows s ?s" by (simp add: grows_def)
  from pre [OF g] types_Push [OF i] obtain x s1 where 1: "pre ?s = (Value x, s1)" "types_I s1" "types_R ?s s1"
    by (auto simp: no_raise_def)
  obtain r s2 where 2: "body s1 = (r, s2)" by fastforce
  have run: "bind_e PushContext (\<lambda>_. bind_e pre (\<lambda>_. finally_pop body)) s = finally_pop body s1"
    using 1 by (simp add: bind_e_def PushContext_def)
  show "case bind_e PushContext (\<lambda>_. bind_e pre (\<lambda>_. finally_pop body)) s of
        (Value x, s') \<Rightarrow> types_I s' \<and> types_R s s' \<and> types_V s' x
      | (Raise e, s') \<Rightarrow> types_D e \<or> (types_I s' \<and> types_R s s' \<and> exc_ok types_V e s')"
  proof (cases "r = Raise NoFuel \<or> r = Raise Trap")
    case True
    then show ?thesis unfolding run using 2 by (auto simp: finally_pop_def types_D_def)
  next
    case False
    have ok: "types_I s2 \<and> types_R s1 s2 \<and> (case r of Value v \<Rightarrow> types_V s2 v | Raise e \<Rightarrow> exc_ok types_V e s2)"
      using body [of s1] 1(2) 2 False by (cases r) (auto simp: ev_ok_def types_D_def)
    then have "types_R ?s s2" using 1(3) types_rel.R_trans by blast
    from types_Pop [OF i _ this] ok obtain s3 where
      3: "PopContext s2 = (Value (), s3)" "types_I s3" "types_R s s3" "grows s2 s3" by blast
    have "exc_ok types_V e s3" if "exc_ok types_V e s2" for e
      using that types_V_mono [OF _ 3(4)] by (auto simp: exc_ok_def split: exc.splits)
    then show ?thesis unfolding run using 2 3 False ok types_V_mono [OF _ 3(4)]
      by (cases r) (auto simp: finally_pop_def)
  qed
qed


definition types_interp :: "interp \<Rightarrow> bool" where
  "types_interp rec \<longleftrightarrow> (\<forall>e s. good_script e \<longrightarrow> types_ok (rec (Eval e)) s (\<lambda>v s'. types_V s' v))"

text \<open>The values the call binds, and the names and flags they are stored under.\<close>

definition args_ok :: "env \<Rightarrow> AVSValue list \<Rightarrow> string list \<Rightarrow> bool list \<Rightarrow> bool" where
  "args_ok s vs ns fs \<longleftrightarrow> length vs \<le> length ns \<and> length vs \<le> length fs \<and> (\<forall>v \<in> set vs. types_V s v)"

lemma types_ScriptFunction:
  assumes "types_interp rec" "good_script (sf_body sf)" "args_ok s vs (sf_param_names sf) (sf_floats sf)"
  shows "types_ok (ScriptFunction_Execute rec sf vs) s (\<lambda>v s'. types_V s' v)"
  unfolding ScriptFunction_Execute_def
proof (rule types_call)
  show "no_raise (set_params (sf_param_names sf) (sf_floats sf) vs) s'" if "grows s s'" for s'
    using assms(3) types_V_mono [OF _ that] by (intro no_raise_set_params) (auto simp: args_ok_def)
qed (use assms in \<open>simp add: types_interp_def\<close>)

lemma types_FunctionInstance:
  assumes "types_interp rec" "obj_ok s (FunctionInstance fi)" "args_ok s vs (fi_param_names fi) (fi_floats fi)"
  shows "types_ok (FunctionInstance_Execute rec fi vs) s (\<lambda>v s'. types_V s' v)"
proof -
  let ?set = "bind_e (set_captures (fi_var_names fi) (fi_var_data fi)) (\<lambda>_. set_params (fi_param_names fi) (fi_floats fi) vs)"
  have assoc: "bind_e p (\<lambda>_. bind_e q r) = bind_e (bind_e p (\<lambda>_. q)) r" for p :: "unit ev" and q :: "unit ev" and r :: "unit \<Rightarrow> AVSValue ev"
    by (rule ext) (simp add: bind_e_def split: prod.splits outcome.splits)
  have pre: "no_raise ?set s'" if g: "grows s s'" for s'
  proof (rule no_raise_bind)
    show "no_raise (set_captures (fi_var_names fi) (fi_var_data fi)) s'"
      using assms(2) types_V_mono [OF _ g] by (intro no_raise_set_captures) auto
    show "no_raise (set_params (fi_param_names fi) (fi_floats fi) vs) s''" if "types_R s' s''" for s''
      using assms(3) types_V_mono [OF _ g] types_rel.V_mono [OF _ that]
      by (intro no_raise_set_params) (auto simp: args_ok_def)
  qed
  show ?thesis unfolding FunctionInstance_Execute_def assoc [of "set_captures _ _"]
    by (rule types_call [OF pre]) (use assms in \<open>simp_all add: types_interp_def\<close>)
qed

lemma args_ok_narrow: "args_ok s vs ns fs \<Longrightarrow> args_ok s (if b then map narrow_arg vs else vs) ns fs"
  by (auto simp: args_ok_def types_narrow_arg)

lemma sig_ok_bound:
  assumes "sig_ok params ns fs" "bind_arguments params strict as nargs = Inr vs" "\<forall>v \<in> set vs. types_V s v"
  shows "args_ok s vs ns fs"
  using assms bind_arguments_print(1) [of _ strict as nargs vs] by (auto simp: sig_ok_def args_ok_def)

lemma types_call_function:
  assumes w: "types_world w" and rec: "types_interp rec" and f: "fn_ok s f" and i: "types_I s"
    and vs: "bind_arguments (param_types f) strict as nargs = Inr vs" "\<forall>v \<in> set vs. types_V s v"
  shows "types_ok (call_function w rec f vs) s (\<lambda>v s'. types_V s' v)"
proof -
  let ?vs = "if isPluginAvs25 f \<or> isPluginPreV11C f then map narrow_arg vs else vs"
  show ?thesis
  proof (cases "fn_apply f")
    case (ScriptFunctionExecute sf)
    then have "types_ok (ScriptFunction_Execute rec sf ?vs) s (\<lambda>v s'. types_V s' v)"
      using f by (intro types_ScriptFunction [OF rec] args_ok_narrow sig_ok_bound [OF _ vs]) (auto simp: fn_ok_def)
    then show ?thesis using ScriptFunctionExecute by (simp add: call_function_def Let_def)
  next
    case (FunctionInstanceExecute k)
    then obtain fi where fi: "k < length (fobjs s)" "fobjs s ! k = FunctionInstance fi"
      "sig_ok (param_types f) (fi_param_names fi) (fi_floats fi)" using f by (auto simp: fn_ok_def)
    then have "obj_ok s (FunctionInstance fi)" using i nth_mem [of k "fobjs s"] by (auto simp: types_I_def)
    then have "types_ok (FunctionInstance_Execute rec fi ?vs) s (\<lambda>v s'. types_V s' v)"
      using fi(3) by (intro types_FunctionInstance [OF rec] args_ok_narrow sig_ok_bound [OF _ vs])
    then show ?thesis using FunctionInstanceExecute fi by (simp add: call_function_def Let_def ev_ok_def)
  next
    case (NativeApply n)
    have "\<forall>v \<in> set ?vs. types_V s v" using vs(2) types_narrow_arg by auto
    then show ?thesis using w NativeApply unfolding call_function_def Let_def types_world_def by simp
  qed
qed

lemma types_Invoke:
  assumes w: "types_world w" and rec: "types_interp rec" and v: "types_V s il" "types_V s args"
    and fo: "\<And>g. fo = Some g \<Longrightarrow> fn_ok s g"
  shows "types_ok (Invoke_impl w rec il name fo args names) s (\<lambda>r s'. \<forall>v. r = Some v \<longrightarrow> types_V s' v)"
  unfolding Invoke_impl_def
proof (rule types_rel.ok_bind, rule types_rel.ok_prepare_call [where P = fn_ok])
  show "types_ok (AutoloadPlugins w) s (\<lambda>_ _. True)" for s by (rule types_AutoloadPlugins [OF w])
  fix r :: "(Function \<times> AVSValue list) option" and s'
  assume i: "types_I s'" and R: "types_R s s'"
    and r: "\<And>g vs. r = Some (g, vs) \<Longrightarrow> fn_ok s' g \<and> (\<exists>st as. bind_arguments (param_types g) st as (named_args args names) = Inr vs
           \<and> (as = Flatten args names \<or> as = il # Flatten args names))"
  note v' = types_rel.V_mono [OF v(1) R] types_rel.V_mono [OF v(2) R]
  show "types_ok (case r of None \<Rightarrow> return_e None
       | Some (g, vs) \<Rightarrow> bind_e (call_function w rec g vs) (\<lambda>v. return_e (Some v))) s' (\<lambda>r s'. \<forall>v. r = Some v \<longrightarrow> types_V s' v)"
  proof (cases r)
    case None
    then show ?thesis by (simp add: types_rel.ok_return)
  next
    case (Some x)
    obtain g vs where x: "x = (g, vs)" by fastforce
    from r [of g vs] Some x obtain st as where b: "fn_ok s' g"
      "bind_arguments (param_types g) st as (named_args args names) = Inr vs"
      "as = Flatten args names \<or> as = il # Flatten args names" by blast
    have "\<forall>a \<in> set as. types_V s' a" using b(3) v' types_Flatten [OF v'(2)] by auto
    then have "\<forall>a \<in> set vs. types_V s' a" using types_bound [OF b(1,2) v'(2)] by blast
    from types_call_function [OF w rec b(1) i b(2) this] show ?thesis using Some x
      by (auto intro!: types_rel.ok_bind types_rel.ok_return elim!: types_rel.ok_conseq)
  qed
next
  show "types_D Crash" if "types_I s" "lookup_once w n a ns s = Inl OutOfBounds" for n a ns s
    using lookup_once_ok [OF w that(1), of n a ns] that(2) by auto
  show "fn_ok s f" if "types_I s" "lookup_once w n a ns s = Inr (Inr (f, st))" for n a ns s f st
    using lookup_once_ok [OF w that(1), of n a ns] that(2) by auto
  show "types_D Crash" if "types_I s" "fn_ok s g" "CheckArguments g a ns = Inl OutOfBounds" for s g a ns
    using that(3) fn_ok_matches [OF that(2), of a False ns] fn_ok_TypeMatch [OF that(2), of a True]
    by (auto simp: CheckArguments_def split: if_splits)
  show "types_D Crash" if "types_I s" "fn_ok s g" "bind_arguments (param_types g) st a na = Inl OutOfBounds" for s g st a na
    using fn_ok_params [OF that(2)] bind_arguments_no_oob that(3) by metis
qed (use fo in blast)

lemma types_logic:
  assumes "types_world w"
  shows "eval_logic types_I types_R types_V types_D w fn_ok const_ok sig_ok"
proof (unfold_locales)
  show "types_V s (int_result z)" if "is_int64 z" for s z
    using that by (auto simp: types_V_def int_result_def is_int32_def)
  show "i < length (fobjs s)" if "types_V s (VFunction i)" for s i using that by (simp add: types_V_def)
  show "fn_ok s f" if "types_I s" "i < length (fobjs s)" "GetDefinition (fobjs s ! i) = Some f" for s i f
  proof -
    have "obj_ok s (fobjs s ! i)" using that by (simp add: types_I_def)
    then show ?thesis using that(3) by (cases "fobjs s ! i") auto
  qed
  show "types_V s v" if "types_I s" "GetVarTry n s = Some v" for s n v by (rule types_GetVar [OF that])
  show "types_ok (new_object (WrappedFunction n)) s (\<lambda>v s'. types_V s' v)" for n s
    by (rule types_new_object) simp
  show "types_ok (new_object (FunctionInstance
         \<lparr>fi_data = instance_function name params (length (fobjs s)), fi_body = body, fi_floats = floats,
          fi_param_names = pnames, fi_var_names = vnames, fi_var_data = data, fi_name = name,
          fi_filename = filename, fi_line = ln\<rparr>)) s (\<lambda>v s'. types_V s' v)"
    if "good_script body" "sig_ok params pnames floats" "length data = length vnames" "\<forall>v \<in> set data. types_V s v"
    for body params pnames floats data vnames s name filename ln
    by (rule types_new_object)
       (use that in \<open>auto simp: fn_ok_def instance_function_def types_V_def intro: wf_val_mono\<close>)
  show "types_ok (Invoke_impl w rec il name fo args names) s (\<lambda>r s'. \<forall>v. r = Some v \<longrightarrow> types_V s' v)"
    if "\<And>e s. good_script e \<Longrightarrow> types_ok (rec (Eval e)) s (\<lambda>v s'. types_V s' v)" "types_V s il" "types_V s args"
      "\<And>g. fo = Some g \<Longrightarrow> fn_ok s g" for rec il name fo args names s
    by (rule types_Invoke [OF assms _ that(2,3,4)]) (use that(1) in \<open>simp_all add: types_interp_def\<close>)
  show "types_ok (FunctionExists w fname) s (\<lambda>_ _. True)" for fname s
    by (rule types_rel.ok_FunctionExists [OF types_AutoloadPlugins [OF assms]])
qed (auto simp: types_SetVar types_SetGlobalVar types_R_def types_V_def const_ok_def list_all_iff intro: fn_ok_mono wf_val_mono)


lemma types_script_world: "types_world (script_world [])"
  by (auto simp: types_world_def script_world_def intro!: types_rel.ok_raise types_rel.R_refl simp: exc_ok_def)

interpretation script_types: eval_logic types_I types_R types_V types_D "script_world []" fn_ok const_ok sig_ok
  by (rule types_logic [OF types_script_world])

lemma run_types:
  assumes "types_world w" "good_script e"
  shows "types_ok (run w n (Eval e)) s (\<lambda>v s'. types_V s' v)"
  by (rule eval_logic.run_ok [OF types_logic [OF assms(1)]])
     (simp add: eval_logic.good_job_def [OF types_logic [OF assms(1)]] assms(2))

text \<open>
  C13: evaluation is type safe.  In a well-formed environment a well-formed script never reads
  outside a signature, its parameter names or the table of function objects, and never pops a frame
  that is not there.  However it ends, short of a trap, the environment is well-formed again, no function object is
  lost, and the value it gives or returns is a value of its type: 32 bit integers stay in 32 bits,
  64 bit integers in 64, and function values name objects that exist.
\<close>

theorem evaluation_type_safe:
  assumes "types_world w" "types_I s" "good_script e"
  shows "fst (run w n (Eval e) s) \<noteq> Raise Crash
       \<and> (\<forall>r s'. run w n (Eval e) s = (r, s') \<and> r \<noteq> Raise NoFuel \<and> r \<noteq> Raise Trap \<longrightarrow>
            types_I s' \<and> grows s s'
            \<and> (\<forall>v. r = Value v \<or> r = Raise (ReturnExprException v) \<longrightarrow> types_V s' v))"
proof -
  obtain r s' where run: "run w n (Eval e) s = (r, s')" by fastforce
  show ?thesis using run_types [OF assms(1,3), of n s] assms(2) run
    by (cases r) (auto simp: ev_ok_def types_D_def types_R_def exc_ok_def)
qed

lemma types_empty_env: "types_I empty_env"
  by (auto simp: types_I_def frames_I_def empty_env_def VarTable_new_def VarTable_Push_def pools_clean_def frame_vals_def vals_def string_frame_new_def)

theorem evaluation_type_safe_witness:
  "let r = run (script_world []) 9
         (Eval (ExpSequence (ExpAssignment ''x'' (ExpConstant (VInt 2147483647)) False)
                  (ExpPlus (ExpVariableReference ''x'') (ExpVariableReference ''x'')))) empty_env
   in fst r = Value (VLong 4294967294) \<and> types_I (snd r)"
proof -
  let ?e = "ExpSequence (ExpAssignment ''x'' (ExpConstant (VInt 2147483647)) False)
                  (ExpPlus (ExpVariableReference ''x'') (ExpVariableReference ''x''))"
  have g: "good_script ?e" by (simp add: const_ok_def is_int32_def int_limits)
  have r: "fst (run (script_world []) 9 (Eval ?e) empty_env) = Value (VLong 4294967294)"
    by (simp add: run_simps eval_assignment_def eval_variable_def SetVar_def GetVarTry_def empty_env_def
        VarTable_new_def VarTable_Push_def VarTable_Set_def VarTable_Get_def VarFrame_Get_def
        eval2_def eval_plus_def arith_def the_long_def int_result_def wrap64_def int_limits del: run.simps)
  from evaluation_type_safe [OF types_script_world types_empty_env g, of 9] r
  show ?thesis by (cases "run (script_world []) 9 (Eval ?e) empty_env") (simp add: Let_def)
qed

end
