(* ===== verification/Eval_Ops.thy ===== *)
theory Eval_Ops
  imports Eval_Frames
begin

text \<open>
  What operators and loops compute: integer arithmetic is exact as long as the result fits 64 bits
  and is kept in the smaller type when it fits 32; a \<^verbatim>\<open>for\<close> loop whose body ends and
  leaves the loop variable alone ends, with the variable at the first value beyond the limit.
\<close>


section \<open>Integer operators\<close>

lemma the_long_int_result [simp]: "the_long (int_result z) = z"
  by (simp add: the_long_def int_result_def)

lemma IsInt_int_result [simp]: "IsInt (int_result z)"
  by (simp add: int_result_def)

lemma cdiv_abs: "\<bar>cdiv a b\<bar> \<le> \<bar>a\<bar>"
proof (cases "b = 0")
  case False
  then have "\<bar>a\<bar> div \<bar>b\<bar> \<le> \<bar>a\<bar>" using zdiv_mono2 [of "\<bar>a\<bar>" 1 "\<bar>b\<bar>"] by simp
  moreover have "0 \<le> \<bar>a\<bar> div \<bar>b\<bar>" using False by (simp add: pos_imp_zdiv_nonneg_iff)
  ultimately show ?thesis by (auto simp: cdiv_def abs_mult sgn_if)
qed (simp add: cdiv_def)


lemma cdiv_fits:
  assumes "is_int64 a" "\<not> quotient_overflows a b"
  shows "is_int64 (cdiv a b)"
proof (cases "a = INT64_MIN")
  case False
  then show ?thesis using assms(1) cdiv_abs [of a b] unfolding is_int64_def int_limits by linarith
next
  case True
  consider "b = 0" | "b = 1" | "2 \<le> \<bar>b\<bar>" using assms(2) True unfolding quotient_overflows_def int_limits by fastforce
  then show ?thesis
  proof cases
    case 3
    have "\<bar>a\<bar> div \<bar>b\<bar> \<le> \<bar>a\<bar> div 2" using zdiv_mono2 [of "\<bar>a\<bar>" 2 "\<bar>b\<bar>"] 3 by simp
    moreover have "0 \<le> \<bar>a\<bar> div \<bar>b\<bar>" using 3 by (simp add: pos_imp_zdiv_nonneg_iff)
    moreover have "\<bar>cdiv a b\<bar> \<le> \<bar>a\<bar> div \<bar>b\<bar>" using calculation(2) by (auto simp: cdiv_def abs_mult sgn_if)
    ultimately show ?thesis using True unfolding is_int64_def int_limits by auto
  qed (use True in \<open>simp_all add: cdiv_def is_int64_def int_limits\<close>)
qed

lemma cmod_eq: "cmod a b = sgn a * (\<bar>a\<bar> mod \<bar>b\<bar>)"
proof -
  have "b * (sgn a * sgn b * q) = sgn a * (\<bar>b\<bar> * q)" for q by (simp add: sgn_if abs_if)
  then have "cmod a b = sgn a * \<bar>a\<bar> - sgn a * (\<bar>b\<bar> * (\<bar>a\<bar> div \<bar>b\<bar>))"
    by (simp add: cmod_def cdiv_def sgn_if abs_if)
  also have "\<dots> = sgn a * (\<bar>a\<bar> - \<bar>b\<bar> * (\<bar>a\<bar> div \<bar>b\<bar>))" by (simp add: right_diff_distrib)
  finally show ?thesis by (simp only: minus_mult_div_eq_mod)
qed

lemma cmod_bound:
  assumes "b \<noteq> 0"
  shows "\<bar>cmod a b\<bar> < \<bar>b\<bar>"
proof -
  have "0 \<le> \<bar>a\<bar> mod \<bar>b\<bar>" "\<bar>a\<bar> mod \<bar>b\<bar> < \<bar>b\<bar>" using assms by simp_all
  then show ?thesis by (auto simp: cmod_eq sgn_if abs_mult)
qed

lemma cmod_fits:
  assumes "is_int64 a"
  shows "is_int64 (cmod a b)"
proof -
  have "0 \<le> \<bar>a\<bar> mod \<bar>b\<bar>" "\<bar>a\<bar> mod \<bar>b\<bar> \<le> \<bar>a\<bar>"
    by (cases "b = 0") (auto simp: zmod_le_nonneg_dividend)
  then show ?thesis using assms unfolding is_int64_def int_limits cmod_eq by (auto simp: sgn_if)
qed

lemma wf_int: "IsInt x \<Longrightarrow> const_ok x \<Longrightarrow> is_int64 (the_long x)"
  by (cases x) (auto simp: const_ok_def the_long_def is_int32_imp_64)

text \<open>
  C33: integer operators are exact.  On integers of their types the sum, difference, product and
  negation are the mathematical ones whenever these fit 64 bits; quotient and remainder, truncated
  towards zero, always are, except for a zero divisor, which is an error of the script, and for the
  one quotient that does not fit, which traps.  A result is stored in 32 bits exactly when it fits.
\<close>

theorem integer_operators:
  assumes "IsInt x" "IsInt y" "const_ok x" "const_ok y"
  defines "a \<equiv> the_long x" and "b \<equiv> the_long y"
  shows "(is_int64 (a + b) \<longrightarrow> arith (+) fp_add x y = Some (int_result (a + b)))
     \<and> (is_int64 (a - b) \<longrightarrow> arith (-) fp_sub x y = Some (int_result (a - b)))
     \<and> (is_int64 (a * b) \<longrightarrow> arith (*) fp_mul x y = Some (int_result (a * b)))
     \<and> (is_int64 (- a) \<longrightarrow> op_negate x = Some (int_result (- a)))
     \<and> (b = 0 \<longrightarrow> (\<exists>m. eval_div x y s = (Raise (AvisynthError m), s) \<and> eval_mod x y s = (Raise (AvisynthError m), s)))
     \<and> (quotient_overflows a b \<longrightarrow> eval_div x y s = (Raise Trap, s) \<and> eval_mod x y s = (Raise Trap, s))
     \<and> (b \<noteq> 0 \<and> \<not> quotient_overflows a b \<longrightarrow>
          eval_div x y s = (Value (int_result (cdiv a b)), s) \<and> eval_mod x y s = (Value (int_result (cmod a b)), s)
          \<and> b * cdiv a b + cmod a b = a \<and> \<bar>cmod a b\<bar> < \<bar>b\<bar>)
     \<and> (\<forall>z. the_long (int_result z) = z \<and> (is_int32 z \<longleftrightarrow> int_result z = VInt z))"
proof -
  have r: "is_int64 a" "is_int64 b" using assms wf_int by simp_all
  have q: "b \<noteq> 0 \<Longrightarrow> \<not> quotient_overflows a b \<Longrightarrow>
      eval_div x y s = (Value (int_result (cdiv a b)), s) \<and> eval_mod x y s = (Value (int_result (cmod a b)), s)"
    using assms(1,2) cdiv_fits [OF r(1), of b] cmod_fits [OF r(1), of b]
    by (simp add: eval_div_def eval_mod_def arith_def value_or_error_def return_e_def a_def [symmetric] b_def [symmetric])
  show ?thesis using assms(1,2) q cdiv_cmod_eq [of b a] cmod_bound [of b a]
    by (auto simp: arith_def op_negate_def eval_div_def eval_mod_def error_e_def raise_e_def a_def b_def quotient_overflows_def
        int_result_def is_int32_def the_long_def)
qed

theorem integer_operators_witness:
  "arith (+) fp_add (VInt 2147483647) (VInt 1) = Some (VLong 2147483648)
   \<and> (\<forall>s. eval_div (VInt (-7)) (VInt 2) s = (Value (VInt (-3)), s) \<and> eval_mod (VInt (-7)) (VInt 2) s = (Value (VInt (-1)), s))
   \<and> (\<forall>s. eval_div (VLong (- 9223372036854775808)) (VInt (-1)) s = (Raise Trap, s))"
proof -
  have c: "const_ok (VInt 2147483647)" "const_ok (VInt 1)" "const_ok (VInt (-7))" "const_ok (VInt 2)" "const_ok (VInt (-1))"
    "const_ok (VLong (- 9223372036854775808))" by (simp_all add: const_ok_def is_int32_def is_int64_def int_limits)
  have l: "the_long (VInt i) = i" "the_long (VLong i) = i" for i by (simp_all add: the_long_def)
  have q: "cdiv (-7) 2 = -3" "cmod (-7) 2 = -1" "quotient_overflows (- 9223372036854775808) (-1)" "\<not> quotient_overflows (-7) 2"
    by (simp_all add: cdiv_def cmod_def quotient_overflows_def)
  show ?thesis
    using integer_operators [of "VInt 2147483647" "VInt 1"] integer_operators [of "VInt (-7)" "VInt 2"]
      integer_operators [of "VLong (- 9223372036854775808)" "VInt (-1)"] c q
    by (simp add: l is_int64_def int_limits int_result_def)
qed


section \<open>Loops\<close>

text \<open>The environment has a frame to assign to.\<close>

definition open_frame :: "env \<Rightarrow> bool" where
  "open_frame s \<longleftrightarrow> \<not> closing s \<and> stackFrames (vars s) \<noteq> []"

lemma SetVar_open:
  assumes "open_frame s"
  shows "\<exists>b s'. SetVar n v s = (Value b, s') \<and> open_frame s' \<and> GetVarTry n s' = Some v
     \<and> (\<forall>m. \<not> streqi m n \<longrightarrow> GetVarTry m s' = GetVarTry m s)"
proof -
  obtain f fs where f: "stackFrames (vars s) = f # fs" using assms by (cases "stackFrames (vars s)") (auto simp: open_frame_def)
  obtain b f' where b: "VarFrame_Set n v f = (b, f')" by fastforce
  have "VarFrame_Get m f' = ((frame_map f)(canon n \<mapsto> v)) (canon m)" for m
    using VarFrame_Set_map [of n v f] b by (simp add: VarFrame_Get_map)
  then have "VarFrame_Get m f' = (if streqi m n then Some v else VarFrame_Get m f)" for m
    by (simp add: VarFrame_Get_map streqi_canon)
  then show ?thesis using assms f b
    by (simp add: SetVar_def VarTable_Set_def open_frame_def GetVarTry_def VarTable_Get_def split: option.split)
qed

definition loop_goes_on :: "int \<Rightarrow> int \<Rightarrow> int \<Rightarrow> bool" where
  "loop_goes_on step limit i \<longleftrightarrow> (if step > 0 then i \<le> limit else i \<ge> limit)"

text \<open>A body that ends and leaves the loop variable alone.\<close>

definition steady_body :: "world \<Rightarrow> expr \<Rightarrow> string \<Rightarrow> bool" where
  "steady_body w b id' \<longleftrightarrow> (\<forall>s. open_frame s \<longrightarrow>
     (\<exists>n r s'. run w n (Eval b) s = (Value r, s') \<and> open_frame s' \<and> GetVarTry id' s' = GetVarTry id' s))"

lemma steady_iteration:
  assumes "steady_body w b id'" "\<not> streqi id' ''last''" "open_frame s"
  shows "\<exists>n r s'. open_frame s' \<and> GetVarTry id' s' = GetVarTry id' s
     \<and> (\<forall>m \<ge> n. loop_body (run w m) (Some b) r0 s = (Value (True, r), s'))"
proof -
  obtain n r s1 where 1: "run w n (Eval b) s = (Value r, s1)" "open_frame s1" "GetVarTry id' s1 = GetVarTry id' s"
    using assms(1,3) unfolding steady_body_def by blast
  obtain b' s2 where 2: "SetVar ''last'' r s1 = (Value b', s2)" "open_frame s2" "GetVarTry id' s2 = GetVarTry id' s1"
    using SetVar_open [OF 1(2), of "''last''" r] assms(2) by blast
  have "run w m (Eval b) s = (Value r, s1)" if "n \<le> m" for m using run_more [of w n "Eval b" s m] 1(1) that by simp
  then have "\<forall>m \<ge> n. loop_body (run w m) (Some b) r0 s = (Value (True, r), if IsClip r then s2 else s1)"
    using 2(1) by (simp add: loop_body_def catch_e_def bind_e_def set_last_if_clip_def return_e_def)
  moreover have "open_frame (if IsClip r then s2 else s1)" "GetVarTry id' (if IsClip r then s2 else s1) = GetVarTry id' s"
    using 1 2 by simp_all
  ultimately show ?thesis by blast
qed

definition loop_ends_at :: "int \<Rightarrow> int \<Rightarrow> int \<Rightarrow> nat \<Rightarrow> bool" where
  "loop_ends_at step limit i k \<longleftrightarrow> \<not> loop_goes_on step limit (i + int k * step) \<and> (\<forall>j < k. loop_goes_on step limit (i + int j * step))"

lemma loop_ends_at_Suc:
  assumes "loop_goes_on step limit i" "loop_ends_at step limit (i + step) k"
  shows "loop_ends_at step limit i (Suc k)"
  unfolding loop_ends_at_def
proof (intro conjI allI impI)
  show "\<not> loop_goes_on step limit (i + int (Suc k) * step)"
    using assms(2) by (simp add: loop_ends_at_def algebra_simps)
  fix j assume "j < Suc k"
  then show "loop_goes_on step limit (i + int j * step)"
    using assms by (cases j) (auto simp: loop_ends_at_def algebra_simps)
qed

lemma for_loop_ends:
  assumes body: "steady_body w b id'" "\<not> streqi id' ''last''"
    and step: "step \<noteq> 0" "is_int64 (limit + step)" "is_int64 step" "is_int64 limit"
    and s: "open_frame s" "is_int64 i" "GetVarTry id' s = Some (int_result i)"
  shows "\<exists>n r s' k. run w n (ForJob id' limit step (Some b) i r0) s = (Value r, s') \<and> open_frame s'
     \<and> loop_ends_at step limit i k \<and> GetVarTry id' s' = Some (int_result (i + int k * step))"
  using s
proof (induction "nat (if step > 0 then limit + 1 - i else i + 1 - limit)" arbitrary: s i r0 rule: less_induct)
  case less
  show ?case
  proof (cases "loop_goes_on step limit i")
    case False
    then have "run w (Suc 0) (ForJob id' limit step (Some b) i r0) s = (Value r0, s)"
      by (simp add: for_step_def loop_goes_on_def return_e_def)
    moreover have "loop_ends_at step limit i 0" using False by (simp add: loop_ends_at_def)
    ultimately show ?thesis using less(2,4) by fastforce
  next
    case True
    obtain n1 r s1 where 1: "open_frame s1" "GetVarTry id' s1 = GetVarTry id' s"
      "\<forall>m \<ge> n1. loop_body (run w m) (Some b) r0 s = (Value (True, r), s1)"
      using steady_iteration [OF body less(2)] by metis
    have fits: "is_int64 (i + step)"
      using True step less(3) unfolding is_int64_def loop_goes_on_def int_limits by (auto split: if_splits)
    obtain b' s2 where 2: "SetVar id' (int_result (i + step)) s1 = (Value b', s2)" "open_frame s2"
      "GetVarTry id' s2 = Some (int_result (i + step))" using SetVar_open [OF 1(1)] by metis
    have "nat (if step > 0 then limit + 1 - (i + step) else i + step + 1 - limit) < nat (if step > 0 then limit + 1 - i else i + 1 - limit)"
      using True step(1) by (auto simp: loop_goes_on_def split: if_splits)
    from less(1) [OF this 2(2) fits 2(3), of r] obtain n2 r' s' k where
      3: "run w n2 (ForJob id' limit step (Some b) (i + step) r) s2 = (Value r', s')" "open_frame s'"
      "loop_ends_at step limit (i + step) k" "GetVarTry id' s' = Some (int_result (i + step + int k * step))" by blast
    let ?n = "max n1 n2"
    have "run w ?n (ForJob id' limit step (Some b) (i + step) r) s2 = (Value r', s')"
      using run_more [of w n2 _ s2 ?n] 3(1) by simp
    moreover have "loop_body (run w ?n) (Some b) r0 s = (Value (True, r), s1)" using 1(3) by simp
    moreover have "GetVar id' s1 = (Value (int_result i), s1)"
      using 1(1,2) less(4) by (simp add: GetVar_def open_frame_def GetVarTry_def)
    ultimately have "run w (Suc ?n) (ForJob id' limit step (Some b) i r0) s = (Value r', s')"
      using True 2(1) fits by (simp add: for_step_def loop_goes_on_def bind_e_def Let_def)
    moreover have "loop_ends_at step limit i (Suc k)" by (rule loop_ends_at_Suc [OF True 3(3)])
    moreover have "GetVarTry id' s' = Some (int_result (i + int (Suc k) * step))" using 3(4) by (simp add: algebra_simps)
    ultimately show ?thesis using 3(2) by blast
  qed
qed



lemma open_empty_env: "open_frame empty_env"
  by (simp add: open_frame_def empty_env_def VarTable_new_def VarTable_Push_def)


text \<open>
  Without room beyond the limit a loop never ends: counting up to the largest 64 bit integer,
  the variable wraps around and is never beyond the limit.
\<close>

theorem for_loop_to_int64_max:
  assumes "open_frame s" "is_int64 i" "GetVarTry id' s = Some (int_result i)"
  shows "fst (run w n (ForJob id' INT64_MAX 1 None i r) s) = Raise NoFuel"
  using assms
proof (induction n arbitrary: s i r)
  case (Suc n)
  obtain b' s1 where 1: "SetVar id' (int_result (wrap64 (i + 1))) s = (Value b', s1)" "open_frame s1"
    "GetVarTry id' s1 = Some (int_result (wrap64 (i + 1)))" using SetVar_open [OF Suc.prems(1)] by blast
  have "GetVar id' s = (Value (int_result i), s)"
    using Suc.prems by (simp add: GetVar_def open_frame_def GetVarTry_def)
  then show ?case using Suc.IH [OF 1(2) wrap64_range 1(3)] Suc.prems(2) 1(1)
    by (simp add: for_step_def loop_body_def bind_e_def return_e_def Let_def is_int64_def)
qed (simp add: raise_e_def)


theorem for_loop_to_int64_max_witness:
  "fst (run (script_world []) 1000 (ForJob ''i'' INT64_MAX 1 None 1 VUndefined) (snd (SetVar ''i'' (VInt 1) empty_env))) = Raise NoFuel"
proof -
  obtain b s where "SetVar ''i'' (VInt 1) empty_env = (Value b, s)" "open_frame s" "GetVarTry ''i'' s = Some (VInt 1)"
    using SetVar_open [OF open_empty_env] by blast
  then show ?thesis using for_loop_to_int64_max [of s 1 "''i''"] by (simp add: is_int64_def int_result_def int_limits)
qed

end
