(* ===== verification/Parser_Correct.thy ===== *)
theory Parser_Correct
  imports Script_Parser Arg_Spec
begin

text \<open>
  The parser terminates with the fuel it is given, never dereferences a null expression, and
  accepts \<^verbatim>\<open>break\<close> and \<^verbatim>\<open>continue\<close> only inside loops.  The proof gives every
  nonterminal a precondition, a postcondition and a rank; the amount of text that is left,
  with the rank, bounds the fuel that is needed.
\<close>

section \<open>Where break and continue may stand\<close>

fun loops_ok :: "bool \<Rightarrow> expr \<Rightarrow> bool" where
  "loops_ok b (ExpRootBlock e) = loops_ok b e"
| "loops_ok b (ExpConstant v) = True"
| "loops_ok b (ExpSequence x y) = (loops_ok b x \<and> loops_ok b y)"
| "loops_ok b (ExpTryCatch x i y) = (loops_ok b x \<and> loops_ok b y)"
| "loops_ok b (ExpLine x f l) = loops_ok b x"
| "loops_ok b (ExpBlockConditional x t e) =
     (loops_ok b x \<and> (case t of None \<Rightarrow> True | Some y \<Rightarrow> loops_ok b y) \<and> (case e of None \<Rightarrow> True | Some y \<Rightarrow> loops_ok b y))"
| "loops_ok b (ExpWhileLoop x t) = (loops_ok b x \<and> (case t of None \<Rightarrow> True | Some y \<Rightarrow> loops_ok True y))"
| "loops_ok b (ExpForLoop i x y z t) =
     (loops_ok b x \<and> loops_ok b y \<and> loops_ok b z \<and> (case t of None \<Rightarrow> True | Some y \<Rightarrow> loops_ok True y))"
| "loops_ok b ExpBreak = b"
| "loops_ok b ExpContinue = b"
| "loops_ok b (ExpConditional x y z) = (loops_ok b x \<and> loops_ok b y \<and> loops_ok b z)"
| "loops_ok b (ExpReturn x) = loops_ok b x"
| "loops_ok b (ExpOr x y) = (loops_ok b x \<and> loops_ok b y)"
| "loops_ok b (ExpAnd x y) = (loops_ok b x \<and> loops_ok b y)"
| "loops_ok b (ExpEqual x y) = (loops_ok b x \<and> loops_ok b y)"
| "loops_ok b (ExpLess x y) = (loops_ok b x \<and> loops_ok b y)"
| "loops_ok b (ExpPlus x y) = (loops_ok b x \<and> loops_ok b y)"
| "loops_ok b (ExpDoublePlus x y) = (loops_ok b x \<and> loops_ok b y)"
| "loops_ok b (ExpMinus x y) = (loops_ok b x \<and> loops_ok b y)"
| "loops_ok b (ExpMult x y) = (loops_ok b x \<and> loops_ok b y)"
| "loops_ok b (ExpDiv x y) = (loops_ok b x \<and> loops_ok b y)"
| "loops_ok b (ExpMod x y) = (loops_ok b x \<and> loops_ok b y)"
| "loops_ok b (ExpNegate x) = loops_ok b x"
| "loops_ok b (ExpNot x) = loops_ok b x"
| "loops_ok b (ExpVariableReference n) = True"
| "loops_ok b (ExpAssignment n x r) = loops_ok b x"
| "loops_ok b (ExpGlobalAssignment n x) = loops_ok b x"
| "loops_ok b (ExpFunctionCall n f args o') = (loops_ok b f \<and> list_all (\<lambda>a. loops_ok b (fst a)) args)"
| "loops_ok b ExpLegacyFunctionDefinition = True"
| "loops_ok b (ExpFunctionWrapper n) = True"
| "loops_ok b (ExpFunctionDefinition x n ty fl ns vs fn l) = loops_ok b x"

lemma loops_ok_mono: "loops_ok b e \<Longrightarrow> loops_ok True e"
  by (induction b e rule: loops_ok.induct) (auto split: option.splits simp: list_all_iff)

section \<open>Constants and signatures\<close>

text \<open>A number that is read is a value of its type.\<close>

definition token_ok :: "token \<Rightarrow> bool" where
  "token_ok k = (case k of TInt i \<Rightarrow> is_int32 i | TLong i \<Rightarrow> is_int64 i | _ \<Rightarrow> True)"

lemma number_loop_range:
  "number_loop p isf ll d place = (q, isf', ll', d', place') \<Longrightarrow> c_isdigit (peek p) \<or> peek p = CHR ''.'' \<Longrightarrow>
   0 \<le> ll \<Longrightarrow> ll \<le> INT64_MAX \<Longrightarrow> 0 \<le> ll' \<and> ll' \<le> INT64_MAX"
proof (induction p isf ll d place rule: number_loop.induct)
  case (1 p isf ll d place)
  show ?case
  proof (cases "peek p = CHR ''.''")
    case True
    then show ?thesis using 1 by (auto simp: number_loop.simps [of p] split: prod.splits)
  next
    case False
    obtain isf1 ll1 where g: "gather_int isf ll (digit_val (peek p)) = (isf1, ll1)" by fastforce
    have "0 \<le> digit_val (peek p)" "digit_val (peek p) \<le> 9" using 1(3) False by (auto simp: digit_val_def c_class_defs)
    then have r: "0 \<le> ll1 \<and> ll1 \<le> INT64_MAX" using g 1(4,5)
      by (auto simp: gather_int_def int_limits split: if_splits)
    show ?thesis
    proof (cases "c_isdigit (peek (tl p)) \<or> peek (tl p) = CHR ''.''")
      case True
      from 1(1) [OF False g [symmetric] refl refl True _ True] 1(2) r False g True show ?thesis
        by (simp add: number_loop.simps [of p] Let_def)
    next
      case False2: False
      with 1(2) False g r show ?thesis by (simp add: number_loop.simps [of p] Let_def)
    qed
  qed
qed

lemma GetNumber_ok:
  assumes "GetNumber p l = Inr (k, q, l')" "c_isdigit (peek p) \<or> peek p = CHR ''.''"
  shows "token_ok k"
proof -
  obtain q1 isf ll d place where n: "number_loop p False 0 (Zero False) (fp_of_int binary64 1) = (q1, isf, ll, d, place)"
    by (metis surj_pair)
  from number_loop_range [OF n assms(2)] have "0 \<le> ll" "ll \<le> INT64_MAX" by (simp_all add: int_limits)
  then show ?thesis using assms(1) n
    by (auto simp: GetNumber_def Let_def token_ok_def is_int32_def is_int64_def int_limits tok_err_def split: if_splits)
qed

lemma hex_loop_range: "hex_loop p acc l = Inr (v, b, q) \<Longrightarrow> is_int64 acc \<Longrightarrow> is_int64 v"
  by (induction p acc l rule: hex_loop.induct) (auto simp: tok_err_def Let_def split: option.splits if_splits)

lemma hex_token_ok: "hex_token p l = Inr (k, q, l') \<Longrightarrow> token_ok k"
  using hex_loop_range [of p 0 l]
  by (auto simp: hex_token_def bind_r_Inr token_ok_def is_int64_def int_limits split: if_splits)

lemma string_token_ok: "string_token e p l = Inr (k, q, l') \<Longrightarrow> token_ok k"
  by (auto simp: string_token_def Let_def token_ok_def tok_err_def split: if_splits option.splits)

lemma lex_token_ok: "lex_token p l = Inr (k, q, l') \<Longrightarrow> token_ok k"
  unfolding lex_token_def Let_def
  by (auto dest: GetNumber_ok hex_token_ok string_token_ok simp: op_token_def ident_token_def tok_err_def token_ok_def Let_def
      split: if_splits)

lemma NextToken_ok: "NextToken t = Inr t' \<Longrightarrow> token_ok (tok t')"
  by (auto simp: NextToken_def bind_r_Inr intro: lex_token_ok)

text \<open>The signature of a function is well-formed, with a name and a flag for each parameter, unless
  a quoted parameter name has a closing bracket.\<close>

definition def_ok :: "string \<Rightarrow> string list \<Rightarrow> bool list \<Rightarrow> bool" where
  "def_ok types names floats \<longleftrightarrow> ((\<forall>n \<in> set names. CHR '']'' \<notin> set n) \<longrightarrow> sig_ok types names floats)"

lemma def_ok_Nil: "def_ok [] [] []"
  by (simp add: def_ok_def sig_ok_def)

lemma def_ok_step:
  assumes "def_ok types names floats" "wf_param (Param None ty kind)"
  shows "def_ok (types @ signature_tail ty kind) (names @ [n]) (floats @ [b])"
    and "def_ok (types @ CHR ''['' # n @ CHR '']'' # signature_tail ty kind) (names @ [n]) (floats @ [b])"
proof -
  have step: "sig_ok (types @ print_param p) (names @ [n]) (floats @ [b])" if "sig_ok types names floats" "wf_param p" for p
  proof -
    from that(1) obtain ps where "list_all wf_param ps" "types = print_params ps" "length ps \<le> length names" "length ps \<le> length floats"
      by (auto simp: sig_ok_def)
    with that(2) have "list_all wf_param (ps @ [p]) \<and> types @ print_param p = print_params (ps @ [p])
        \<and> length (ps @ [p]) \<le> length (names @ [n]) \<and> length (ps @ [p]) \<le> length (floats @ [b])"
      by (simp add: print_params_def)
    then show ?thesis unfolding sig_ok_def by blast
  qed
  show "def_ok (types @ signature_tail ty kind) (names @ [n]) (floats @ [b])"
    using assms step [of "Param None ty kind"] by (auto simp: def_ok_def signature_tail_def)
  show "def_ok (types @ CHR ''['' # n @ CHR '']'' # signature_tail ty kind) (names @ [n]) (floats @ [b])"
    using assms step [of "Param (Some n) ty kind"] by (auto simp: def_ok_def signature_tail_def)
qed

lemmas def_ok_steps =
  def_ok_step [where kind = None, unfolded signature_tail_def, simplified]
  def_ok_step [where kind = "Some k" for k, unfolded signature_tail_def, simplified]

lemma param_table_ok: "(k, ty, kind) \<in> set param_types_table \<Longrightarrow> wf_param (Param None ty kind)"
  by (auto simp: param_types_table_def IsParameterTypeSpecifier_def IsParameterTypeModifier_def)

lemma find_in_table: "find P xs = Some x \<Longrightarrow> x \<in> set xs"
  by (auto simp: find_Some_iff)

text \<open>An expression as the parser builds it.\<close>

definition tree_ok :: "bool \<Rightarrow> expr \<Rightarrow> bool" where
  "tree_ok b e \<longleftrightarrow> loops_ok b e \<and> good_expr const_ok def_ok e"

lemma tree_ok_sequence [simp]: "tree_ok b (ExpSequence x y) \<longleftrightarrow> tree_ok b x \<and> tree_ok b y"
  by (auto simp: tree_ok_def)


section \<open>Weakest preconditions\<close>

text \<open>The signatures of the registered functions fit into \<^verbatim>\<open>char param_types[4096]\<close>
  together with the terminating NUL.\<close>

definition function_ok :: "script_function \<Rightarrow> bool" where
  "function_ok f \<longleftrightarrow> length (sf_params f) < 4096 \<and> IsValidParameterString (sf_params f) \<and> def_ok (sf_params f) (sf_param_names f) (sf_floats f)
     \<and> good_expr const_ok def_ok (sf_body f)"

definition regs_ok :: "parser \<Rightarrow> bool" where
  "regs_ok s \<longleftrightarrow> (\<forall>f \<in> set (registered s). function_ok f)"

text \<open>Also when a script is refused, the functions registered before the error are well-formed.\<close>

definition wp :: "'a parse \<Rightarrow> parser \<Rightarrow> ('a \<Rightarrow> parser \<Rightarrow> bool) \<Rightarrow> bool" where
  "wp p s Q = (case p s of
     Inr (x, s') \<Rightarrow> Q x s' | Inl (ParseError _ s') \<Rightarrow> regs_ok s' | Inl NullPointer \<Rightarrow> False | Inl OutOfFuel \<Rightarrow> False)"

lemma wp_bind [simp]: "wp (bind_p p f) s Q = wp p s (\<lambda>x s'. wp (f x) s' Q)"
  by (auto simp: wp_def bind_p_def split: sum.splits prod.splits parse_error.splits)

lemma wp_return [simp]: "wp (return_p x) s Q = Q x s"
  by (simp add: wp_def return_p_def)

lemma wp_ret_e [simp]: "wp (ret_e e) s Q = Q (Some e, False) s"
  by (simp add: ret_e_def)

lemma wp_throw [simp]: "wp (ThrowError m) s Q = regs_ok s"
  by (simp add: wp_def ThrowError_def)

lemma wp_fun [simp]:
  "wp (\<lambda>s. if c s then p s else q s) s Q = (if c s then wp p s Q else wp q s Q)"
  by (simp add: wp_def)

lemma wp_bind_state [simp]: "wp (\<lambda>s. bind_p (p s) (f s) s) s Q = wp (p s) s (\<lambda>x s'. wp (f s x) s' Q)"
  by (auto simp: wp_def bind_p_def split: sum.splits prod.splits parse_error.splits)

lemma wp_Inr [simp]: "wp (\<lambda>s. Inr (f s, g s)) s Q = Q (f s) (g s)"
  by (simp add: wp_def)

lemma wp_if [simp]: "wp (if b then p else q) s Q = (if b then wp p s Q else wp q s Q)"
  by simp

lemma wp_case_option [simp]:
  "wp (\<lambda>s. case f s of None \<Rightarrow> p s | Some x \<Rightarrow> q x s) s Q = (case f s of None \<Rightarrow> wp p s Q | Some x \<Rightarrow> wp (q x) s Q)"
  by (simp add: wp_def split: option.split)

lemma wp_case_token [simp]:
  "wp (\<lambda>s. case f s of TEOF \<Rightarrow> p s | TIdent x \<Rightarrow> p1 x s | TOp x1 \<Rightarrow> p2 x1 s | TInt x2 \<Rightarrow> p3 x2 s | TLong x3 \<Rightarrow> p4 x3 s
     | TFloat x4 \<Rightarrow> p5 x4 s | TString x5 \<Rightarrow> p6 x5 s | TNewline \<Rightarrow> p7 s) s Q
   = (case f s of TEOF \<Rightarrow> wp p s Q | TIdent x \<Rightarrow> wp (p1 x) s Q | TOp x1 \<Rightarrow> wp (p2 x1) s Q | TInt x2 \<Rightarrow> wp (p3 x2) s Q
     | TLong x3 \<Rightarrow> wp (p4 x3) s Q | TFloat x4 \<Rightarrow> wp (p5 x4) s Q | TString x5 \<Rightarrow> wp (p6 x5) s Q | TNewline \<Rightarrow> wp p7 s Q)"
  by (simp add: wp_def split: token.split)

lemma wp_mono: "wp p s Q \<Longrightarrow> (\<And>x s'. Q x s' \<Longrightarrow> Q' x s') \<Longrightarrow> wp p s Q'"
  by (auto simp: wp_def split: sum.splits parse_error.splits)

abbreviation R :: "parser \<Rightarrow> nat" where "R s \<equiv> remaining (tokenizer s)"

definition sigs_ok :: "parser \<Rightarrow> bool" where
  "sigs_ok s \<longleftrightarrow> token_ok (cur s) \<and> regs_ok s"

lemma sigs_ok_regs [simp]: "sigs_ok s \<Longrightarrow> regs_ok s"
  by (simp add: sigs_ok_def)

lemma regs_ok_update [simp]: "regs_ok (s\<lparr>tokenizer := t\<rparr>) = regs_ok s" "regs_ok (s\<lparr>loopDepth := d\<rparr>) = regs_ok s"
  by (simp_all add: regs_ok_def)

lemma sigs_ok_update [simp]: "sigs_ok (s\<lparr>loopDepth := d\<rparr>) = sigs_ok s"
  by (simp add: sigs_ok_def cur_def)

lemma sigs_ok_next: "sigs_ok s \<Longrightarrow> NextToken (tokenizer s) = Inr t \<Longrightarrow> sigs_ok (s\<lparr>tokenizer := t\<rparr>)"
  by (simp add: sigs_ok_def cur_def NextToken_ok)

lemma sigs_ok_register [simp]:
  "sigs_ok (s\<lparr>registered := registered s @ [f]\<rparr>) \<longleftrightarrow> sigs_ok s \<and> function_ok f"
  by (auto simp: sigs_ok_def regs_ok_def cur_def)

lemma sigs_ok_number:
  "sigs_ok s \<Longrightarrow> cur s = TInt i \<Longrightarrow> const_ok (VInt i)" "sigs_ok s \<Longrightarrow> cur s = TLong i \<Longrightarrow> const_ok (VLong i)"
  by (simp_all add: sigs_ok_def token_ok_def const_ok_def)

lemma const_ok_simps [simp]: "const_ok (VDouble d)" "const_ok (VString t)" "const_ok VUndefined" "const_ok (VInt 1)"
  by (simp_all add: const_ok_def is_int32_def int_limits)

text \<open>What the loop over the parameters keeps: an ordinary parameter adds at most two
  characters, and a named one is refused from 4000 characters on.\<close>

definition sig_room :: "bool \<Rightarrow> string \<Rightarrow> string list \<Rightarrow> bool" where
  "sig_room named types names \<longleftrightarrow> length names \<le> max_args
     \<and> (if named then length types \<le> 4003 else length types \<le> 2 * length names)"

lemma wp_next:
  assumes "\<And>s'. R s' < R s \<Longrightarrow> loopDepth s' = loopDepth s \<and> sigs_ok s' \<Longrightarrow> Q () s'" "cur s \<noteq> TEOF" "sigs_ok s"
  shows "wp next_token s Q"
  using assms NextToken_remaining(1) [of "tokenizer s"]
  by (auto simp: wp_def next_token_def cur_def intro!: assms(1) sigs_ok_next split: sum.splits)

lemma wp_next_le:
  assumes "\<And>s'. R s' \<le> R s \<Longrightarrow> loopDepth s' = loopDepth s \<and> sigs_ok s' \<Longrightarrow> Q () s'" "sigs_ok s"
  shows "wp next_token s Q"
  using assms NextToken_remaining(2) [of "tokenizer s"]
  by (auto simp: wp_def next_token_def intro!: assms(1) sigs_ok_next split: sum.splits)

lemma wp_lookahead: "(\<And>k. Q k s) \<Longrightarrow> sigs_ok s \<Longrightarrow> wp lookahead s Q"
  by (auto simp: wp_def lookahead_def split: sum.splits)

lemma wp_skip_tokens:
  assumes "\<And>s'. R s' \<le> R s \<Longrightarrow> loopDepth s' = loopDepth s \<and> sigs_ok s' \<Longrightarrow> (s' = s \<or> R s' < R s) \<Longrightarrow> Q () s'" "sigs_ok s"
  shows "wp (skip_tokens k) s Q"
  using assms
proof (induction k s rule: skip_tokens.induct)
  case (1 k s)
  show ?case
  proof (cases "cur s = k \<and> k \<noteq> TEOF")
    case True
    have "wp next_token s (\<lambda>_ s'. wp (skip_tokens k) s' Q)"
    proof (cases "next_token s")
      case (Inr x)
      obtain s' where x: "x = ((), s')" by (cases x) auto
      have "wp next_token s (\<lambda>_ s1. R s1 < R s \<and> loopDepth s1 = loopDepth s \<and> sigs_ok s1)"
        by (rule wp_next) (use True 1(3) in auto)
      then have s': "R s' < R s" "loopDepth s' = loopDepth s" "sigs_ok s'" using Inr x by (auto simp: wp_def)
      have "wp (skip_tokens k) s' Q"
        by (rule 1(1) [OF True Inr x [symmetric]]) (rule 1(2), use s' in auto)
      then show ?thesis using Inr x by (simp add: wp_def [of next_token])
    next
      case (Inl e)
      then show ?thesis using 1(3) by (auto simp: wp_def next_token_def split: sum.splits)
    qed
    then show ?thesis using True
      by (auto simp: wp_def skip_tokens.simps [of k s] split: sum.splits prod.splits parse_error.splits)
  next
    case False
    then show ?thesis using 1(2,3) by (auto simp: wp_def skip_tokens.simps [of k s])
  qed
qed

lemma is_op_live: "is_op n s \<Longrightarrow> cur s \<noteq> TEOF"
  by (simp add: is_op_def IsOperator_def cur_def)

lemma is_id_live: "is_id n s \<Longrightarrow> cur s \<noteq> TEOF"
  by (auto simp: is_id_def IsIdentifier_def cur_def)

lemma wp_Expect_msg:
  assumes "\<And>s'. R s' < R s \<Longrightarrow> loopDepth s' = loopDepth s \<and> sigs_ok s' \<Longrightarrow> Q () s'" "sigs_ok s"
  shows "wp (Expect_msg n m) s Q"
proof (cases "is_op n s")
  case True
  then have "wp (Expect_msg n m) s Q = wp next_token s Q" by (simp add: wp_def Expect_msg_def)
  moreover have "wp next_token s Q" by (rule wp_next) (use assms is_op_live [OF True] in auto)
  ultimately show ?thesis by simp
next
  case False
  then show ?thesis using assms(2) by (simp add: wp_def Expect_msg_def ThrowError_def)
qed

lemma wp_Expect:
  assumes "\<And>s'. R s' < R s \<Longrightarrow> loopDepth s' = loopDepth s \<and> sigs_ok s' \<Longrightarrow> Q () s'" "sigs_ok s"
  shows "wp (Expect n) s Q"
  unfolding Expect_def by (rule wp_Expect_msg) (rule assms, simp_all add: assms(2))

section \<open>Contracts of the nonterminals\<close>

definition okd :: "parser \<Rightarrow> expr \<Rightarrow> bool" where "okd s e = tree_ok (0 < loopDepth s) e"

fun pre :: "nonterm \<Rightarrow> parser \<Rightarrow> bool" where
  "pre (NBlockLoop b i ts) s = (\<forall>t. Some t \<in> set ts \<longrightarrow> okd s t)"
| "pre NStatement s = (cur s \<noteq> TNewline \<and> cur s \<noteq> TEOF)"
| "pre NIf s = (cur s \<noteq> TEOF)"
| "pre (NComparisonLoop r l) s = (okd s l \<and> (\<forall>e. r = Some e \<longrightarrow> okd s e))"
| "pre (NMultiplicationLoop n l) s = okd s l"
| "pre (NOOPLoop l) s = okd s l"
| "pre (NFunction c) s = (\<forall>e. c = Some e \<longrightarrow> okd s e)"
| "pre (NCall l c a) s = (okd s l \<and> (\<forall>e. c = Some e \<longrightarrow> okd s e) \<and> (c = None \<longrightarrow> is_op (if a then ''['' else ''('') s))"
| "pre (NCallLoop l c a n args k) s = (okd s l \<and> list_all (\<lambda>x. okd s (fst x)) args)"
| "pre (NParamLoop n vs c f ty fl ns) s = (sig_room f ty ns \<and> def_ok ty ns fl)"
| "pre _ s = True"

fun loose :: "nonterm \<Rightarrow> bool" where
  "loose (NBlock b) = (\<not> b)"
| "loose (NBlockLoop b i ts) = True"
| "loose (NComparisonLoop r l) = True"
| "loose (NMultiplicationLoop n l) = True"
| "loose (NOOPLoop l) = True"
| "loose (NCall l c a) = (c \<noteq> None)"
| "loose (NCallLoop l c a n args k) = True"
| "loose (NCaptureLoop n vs) = True"
| "loose (NParamLoop n vs c f ty fl ns) = True"
| "loose _ = False"

definition post :: "nonterm \<Rightarrow> parser \<Rightarrow> parsed \<Rightarrow> parser \<Rightarrow> bool" where
  "post nt s r s' \<longleftrightarrow> (\<exists>e. fst r = Some e \<and> okd s e) \<and> loopDepth s' = loopDepth s
     \<and> sigs_ok s' \<and> (if loose nt then R s' \<le> R s else R s' < R s)"

fun rank :: "nonterm \<Rightarrow> nat" where
  "rank NFunctionDefinition = 33"
| "rank (NCall l c a) = (if c = None then 10 else 32)"
| "rank (NCallLoop l c a n args k) = 31"
| "rank (NBlock b) = 30"
| "rank (NBlockLoop b i ts) = 29"
| "rank NStatement = 28"
| "rank NIf = 27"
| "rank NAssignment = 27"
| "rank NAssignmentWithRet = 26"
| "rank NConditional = 25"
| "rank NOr = 24"
| "rank NAnd = 23"
| "rank NComparison = 22"
| "rank (NAddition n) = 21"
| "rank (NMultiplication n) = 20"
| "rank NUnary = 19"
| "rank NOOP = 18"
| "rank (NFunction c) = 17"
| "rank NAtom = 16"
| "rank _ = 0"

text \<open>The parse functions are proved against an arbitrary \<open>rec\<close> that meets the contracts for
  whatever needs no more than the fuel \<open>n\<close>.\<close>

locale recursive_parser =
  fixes rec :: recur and n :: nat and fn :: "string option"
  assumes rec_ok: "pre nt s \<Longrightarrow> sigs_ok s \<Longrightarrow> 40 * R s + rank nt < n \<Longrightarrow> wp (rec nt) s (post nt s)"
begin

lemma wp_rec:
  assumes "pre nt s" "40 * R s + rank nt < n" "sigs_ok s"
    and "\<And>e b s'. okd s e \<Longrightarrow> loopDepth s' = loopDepth s \<and> sigs_ok s' \<Longrightarrow> (if loose nt then R s' \<le> R s else R s' < R s) \<Longrightarrow> Q (Some e, b) s'"
  shows "wp (rec nt) s Q"
proof (rule wp_mono [OF rec_ok [OF assms(1,3,2)]])
  fix x s' assume "post nt s x s'"
  then show "Q x s'" using assms(4) by (cases x) (auto simp: post_def)
qed

lemma wp_rec_e:
  assumes "pre nt s" "40 * R s + rank nt < n" "sigs_ok s"
    and "\<And>e s'. okd s e \<Longrightarrow> loopDepth s' = loopDepth s \<and> sigs_ok s' \<Longrightarrow> (if loose nt then R s' \<le> R s else R s' < R s) \<Longrightarrow> Q e s'"
  shows "wp (rec_e rec nt) s Q"
  unfolding rec_e_def by simp (rule wp_rec [OF assms(1,2,3)], simp add: assms(4))

lemma wp_rec_state:
  assumes "pre (f s) s" "40 * R s + rank (f s) < n" "sigs_ok s"
    and "\<And>e b s'. okd s e \<Longrightarrow> loopDepth s' = loopDepth s \<and> sigs_ok s' \<Longrightarrow> (if loose (f s) then R s' \<le> R s else R s' < R s) \<Longrightarrow> Q (Some e, b) s'"
  shows "wp (\<lambda>s. rec (f s) s) s Q"
proof -
  have "wp (rec (f s)) s Q" by (rule wp_rec [OF assms(1,2,3)]) (rule assms(4))
  then show ?thesis by (simp add: wp_def)
qed

lemmas steps = wp_next wp_rec wp_rec_e wp_Expect wp_Expect_msg wp_lookahead wp_skip_tokens

lemmas contract = okd_def tree_ok_def post_def is_op_live is_id_live

lemma wp_ParseOr: "40 * R s + 24 < Suc n \<Longrightarrow> sigs_ok s \<Longrightarrow> wp (ParseOr rec) s (post NOr s)"
  unfolding ParseOr_def by (auto intro!: steps simp: contract)

lemma wp_ParseAnd: "40 * R s + 23 < Suc n \<Longrightarrow> sigs_ok s \<Longrightarrow> wp (ParseAnd rec) s (post NAnd s)"
  unfolding ParseAnd_def by (auto intro!: steps simp: contract)

lemma wp_ParseConditional: "40 * R s + 25 < Suc n \<Longrightarrow> sigs_ok s \<Longrightarrow> wp (ParseConditional rec) s (post NConditional s)"
  unfolding ParseConditional_def by (auto intro!: steps simp: contract)

lemma wp_ParseAssignmentWithRet:
  "40 * R s + 26 < Suc n \<Longrightarrow> sigs_ok s \<Longrightarrow> wp (ParseAssignmentWithRet rec) s (post NAssignmentWithRet s)"
  unfolding ParseAssignmentWithRet_def by (auto intro!: steps simp: contract split: option.split)

lemma wp_ParseAssignment: "40 * R s + 27 < Suc n \<Longrightarrow> sigs_ok s \<Longrightarrow> wp (ParseAssignment rec) s (post NAssignment s)"
  unfolding ParseAssignment_def [abs_def] by (auto intro!: steps simp: contract split: option.split token.split)

lemma wp_ParseComparison: "40 * R s + 22 < Suc n \<Longrightarrow> sigs_ok s \<Longrightarrow> wp (ParseComparison rec) s (post NComparison s)"
  unfolding ParseComparison_def by (auto intro!: steps simp: contract)

lemma comparison_live: "GetTokenAsComparisonOperator s = Some x \<Longrightarrow> cur s \<noteq> TEOF"
  unfolding GetTokenAsComparisonOperator_def by (auto simp: find_Some_iff is_op_live)

lemma comparison_term_ok:
  "loops_ok b l \<Longrightarrow> loops_ok b r \<Longrightarrow> loops_ok b (comparison_term x l r)"
  "good_expr C F l \<Longrightarrow> good_expr C F r \<Longrightarrow> good_expr C F (comparison_term x l r)"
  by (simp_all add: comparison_term_def)

lemma wp_ParseComparisonLoop:
  "pre (NComparisonLoop r l) s \<Longrightarrow> 40 * R s < Suc n \<Longrightarrow> sigs_ok s \<Longrightarrow> wp (ParseComparisonLoop rec r l) s (post (NComparisonLoop r l) s)"
  unfolding ParseComparisonLoop_def [abs_def] Let_def
  by (auto intro!: steps simp: contract comparison_live comparison_term_ok split: option.split)

lemma wp_ParseAddition: "40 * R s + 21 < Suc n \<Longrightarrow> sigs_ok s \<Longrightarrow> wp (ParseAddition rec neg) s (post (NAddition neg) s)"
  unfolding ParseAddition_def Let_def by (auto intro!: steps simp: contract)

lemma wp_ParseMultiplication: "40 * R s + 20 < Suc n \<Longrightarrow> sigs_ok s \<Longrightarrow> wp (ParseMultiplication rec neg) s (post (NMultiplication neg) s)"
  unfolding ParseMultiplication_def by (auto intro!: steps simp: contract)

lemma wp_ParseMultiplicationLoop:
  "okd s l \<Longrightarrow> 40 * R s < Suc n \<Longrightarrow> sigs_ok s \<Longrightarrow> wp (ParseMultiplicationLoop rec neg l) s (post (NMultiplicationLoop neg l) s)"
  unfolding ParseMultiplicationLoop_def [abs_def] Let_def by (auto intro!: steps simp: contract)

lemma wp_ParseUnary: "40 * R s + 19 < Suc n \<Longrightarrow> sigs_ok s \<Longrightarrow> wp (ParseUnary rec) s (post NUnary s)"
  unfolding ParseUnary_def by (auto intro!: steps simp: contract)

lemma wp_ParseOOP: "40 * R s + 18 < Suc n \<Longrightarrow> sigs_ok s \<Longrightarrow> wp (ParseOOP rec) s (post NOOP s)"
  unfolding ParseOOP_def [abs_def] ParseArray_def by (auto intro!: steps simp: contract)

lemma wp_ParseOOPLoop: "okd s l \<Longrightarrow> 40 * R s < Suc n \<Longrightarrow> sigs_ok s \<Longrightarrow> wp (ParseOOPLoop rec l) s (post (NOOPLoop l) s)"
  unfolding ParseOOPLoop_def [abs_def] ParseArray_def by (auto intro!: steps simp: contract)

lemma wp_ParseFunction: "pre (NFunction c) s \<Longrightarrow> 40 * R s + 17 < Suc n \<Longrightarrow> sigs_ok s \<Longrightarrow> wp (ParseFunction rec c) s (post (NFunction c) s)"
  unfolding ParseFunction_def by (auto intro!: steps simp: contract split: if_splits)

lemma wp_finish_call:
  assumes "okd s l" "list_all (\<lambda>x. okd s (fst x)) args" "40 * R s + 11 < Suc n" "sigs_ok s"
    and Q: "\<And>e s'. okd s e \<Longrightarrow> loopDepth s' = loopDepth s \<and> sigs_ok s' \<Longrightarrow> R s' \<le> R s \<Longrightarrow> Q (Some e, False) s'"
      "\<And>e b s'. okd s e \<Longrightarrow> loopDepth s' = loopDepth s \<and> sigs_ok s' \<Longrightarrow> R s' < R s \<Longrightarrow> Q (Some e, b) s'"
  shows "wp (finish_call rec l c a args k) s Q"
proof -
  have ok: "okd s (call_expr l c a args)" using assms(1,2) unfolding call_expr_def okd_def tree_ok_def
    by (auto simp: Let_def list_all_iff split: option.splits list.splits)
  have "wp (rec (NCall (call_expr l c a args) None False)) s Q" if "is_op ''('' s"
    by (rule wp_rec) (use that ok assms in auto)
  then show ?thesis using Q(1) [OF ok] assms(4) unfolding finish_call_def [abs_def] Let_def by simp
qed

lemma wp_ParseCall:
  "pre (NCall l c a) s \<Longrightarrow> 40 * R s + rank (NCall l c a) < Suc n \<Longrightarrow> sigs_ok s \<Longrightarrow> wp (ParseCall rec l c a) s (post (NCall l c a) s)"
  unfolding ParseCall_def [abs_def] Let_def
  by (cases c) (auto intro!: steps wp_finish_call simp: contract split: if_splits)

lemma wp_arg_name:
  assumes "\<And>x s'. R s' \<le> R s \<Longrightarrow> loopDepth s' = loopDepth s \<and> sigs_ok s' \<Longrightarrow> Q x s'" "sigs_ok s"
  shows "wp (arg_name a) s Q"
  unfolding arg_name_def [abs_def]
  by (cases a; cases "cur s") (auto intro!: wp_next_le wp_lookahead assms simp: wp_def [of "\<lambda>s. case _ s of _ \<Rightarrow> _"])

lemma wp_ParseCallLoop:
  "pre (NCallLoop l c a m args k) s \<Longrightarrow> 40 * R s + 31 < Suc n \<Longrightarrow> sigs_ok s \<Longrightarrow>
   wp (ParseCallLoop rec l c a m args k) s (post (NCallLoop l c a m args k) s)"
  unfolding ParseCallLoop_def [abs_def]
  by (auto intro!: steps wp_finish_call wp_arg_name simp: contract list_all_iff)

lemma wp_ParseAtom: "40 * R s + 16 < Suc n \<Longrightarrow> sigs_ok s \<Longrightarrow> wp (ParseAtom rec) s (post NAtom s)"
  unfolding ParseAtom_def [abs_def] by (auto intro!: steps simp: contract sigs_ok_number split: token.split)

lemma wp_ParseParamType:
  assumes "\<And>f ty kind s'. R s' \<le> R s \<Longrightarrow> loopDepth s' = loopDepth s \<and> sigs_ok s' \<Longrightarrow> wf_param (Param None ty kind) \<Longrightarrow> Q (f, ty, kind) s'"
    and "sigs_ok s"
  shows "wp ParseParamType s Q"
  unfolding ParseParamType_def using assms(2)
  by (auto intro!: wp_lookahead wp_next_le assms dest: find_in_table param_table_ok simp: IsParameterTypeSpecifier_def split: option.split)

lemma signature_tail_length: "length (signature_tail ty kind) \<le> 2"
  by (simp add: signature_tail_def split: option.split)

lemma wp_finish_definition:
  assumes "40 * R s + 31 < Suc n" "sigs_ok s" "length types < 4096" "def_ok types names floats"
    and "\<And>e s'. okd s e \<Longrightarrow> loopDepth s' = loopDepth s \<and> sigs_ok s' \<Longrightarrow> R s' < R s \<Longrightarrow> Q (Some e, False) s'"
  shows "wp (finish_definition rec fn name vars types floats names) s Q"
  unfolding finish_definition_def [abs_def] Let_def
  using assms by (auto intro!: wp_rec_e simp: okd_def tree_ok_def function_ok_def ret_e_def return_p_def split: option.split)

lemma wp_ParseParamLoop:
  "sig_room nf ty ns \<Longrightarrow> def_ok ty ns fl \<Longrightarrow> 40 * R s < Suc n \<Longrightarrow> sigs_ok s \<Longrightarrow> wp (ParseParamLoop rec fn name vars nc nf ty fl ns) s (post (NParamLoop name vars nc nf ty fl ns) s)"
  unfolding ParseParamLoop_def [abs_def]
  by (auto intro!: steps wp_finish_definition wp_ParseParamType def_ok_steps
      simp: contract sig_room_def max_args_def signature_tail_def split: token.split option.split if_splits)

lemma wp_ParseParams:
  assumes "40 * R s + 32 < Suc n" "sigs_ok s"
    and "\<And>e b s'. okd s e \<Longrightarrow> loopDepth s' = loopDepth s \<and> sigs_ok s' \<Longrightarrow> R s' < R s \<Longrightarrow> Q (Some e, b) s'"
  shows "wp (ParseParams rec fn name vars) s Q"
  unfolding ParseParams_def [abs_def]
  using assms by (auto intro!: steps wp_finish_definition simp: okd_def sig_room_def def_ok_Nil)

lemma wp_ParseCaptureLoop:
  "40 * R s < Suc n \<Longrightarrow> sigs_ok s \<Longrightarrow> wp (ParseCaptureLoop rec fn nc vars) s (post (NCaptureLoop nc vars) s)"
  unfolding ParseCaptureLoop_def [abs_def]
  by (auto intro!: steps wp_ParseParams simp: contract split: token.split)

lemma wp_ParseFunctionDefinition:
  "40 * R s + 33 < Suc n \<Longrightarrow> sigs_ok s \<Longrightarrow> wp (ParseFunctionDefinition rec fn) s (post NFunctionDefinition s)"
  unfolding ParseFunctionDefinition_def [abs_def]
  by (auto intro!: steps wp_ParseParams simp: contract split: token.split)

lemma wp_in_loop:
  assumes "40 * R s + 30 < n" "sigs_ok s"
    and "\<And>e b s'. tree_ok True e \<Longrightarrow> loopDepth s' = loopDepth s \<and> sigs_ok s' \<Longrightarrow> R s' < R s \<Longrightarrow> Q (Some e, b) s'"
  shows "wp (in_loop (rec (NBlock True))) s Q"
proof -
  let ?s = "s\<lparr>loopDepth := loopDepth s + 1\<rparr>"
  have "wp (rec (NBlock True)) ?s (\<lambda>x s'. Q x (s'\<lparr>loopDepth := loopDepth s' - 1\<rparr>))"
    by (rule wp_rec) (use assms in \<open>auto simp: okd_def tree_ok_def dest: loops_ok_mono\<close>)
  then have "wp (bind_p (rec (NBlock True)) (\<lambda>x s. Inr (x, s\<lparr>loopDepth := loopDepth s - 1\<rparr>))) ?s Q" by simp
  then show ?thesis unfolding wp_def in_loop_def .
qed

lemma or_null_simps [simp]: "or_null (e, b) = (if b then None else e)"
  by (simp add: or_null_def)

lemma wp_ParseIf: "cur s \<noteq> TEOF \<Longrightarrow> 40 * R s + 27 < Suc n \<Longrightarrow> sigs_ok s \<Longrightarrow> wp (ParseIf rec) s (post NIf s)"
  unfolding ParseIf_def by (auto intro!: steps simp: contract)

lemma wp_ParseWhile: "cur s \<noteq> TEOF \<Longrightarrow> 40 * R s + 27 < Suc n \<Longrightarrow> sigs_ok s \<Longrightarrow> wp (ParseWhile rec) s (post NStatement s)"
  unfolding ParseWhile_def by (auto intro!: steps wp_in_loop simp: contract)

lemma wp_ParseFor: "cur s \<noteq> TEOF \<Longrightarrow> 40 * R s + 27 < Suc n \<Longrightarrow> sigs_ok s \<Longrightarrow> wp (ParseFor rec) s (post NStatement s)"
  unfolding ParseFor_def by (auto intro!: steps wp_in_loop simp: contract split: token.split)

lemma wp_ParseTry: "cur s \<noteq> TEOF \<Longrightarrow> 40 * R s + 27 < Suc n \<Longrightarrow> sigs_ok s \<Longrightarrow> wp (ParseTry rec) s (post NStatement s)"
  unfolding ParseTry_def by (auto intro!: steps simp: contract split: token.split)

lemma wp_ParseStatement: "pre NStatement s \<Longrightarrow> 40 * R s + 28 < Suc n \<Longrightarrow> sigs_ok s \<Longrightarrow> wp (ParseStatement rec) s (post NStatement s)"
  unfolding ParseStatement_def [abs_def] loop_statement_def [abs_def]
  using wp_ParseIf wp_ParseWhile [of s] wp_ParseFor [of s] wp_ParseTry [of s]
  by (auto intro!: steps simp: contract)

lemma wp_ParseBlock: "40 * R s + 30 < Suc n \<Longrightarrow> sigs_ok s \<Longrightarrow> wp (ParseBlock rec b) s (post (NBlock b) s)"
  unfolding ParseBlock_def
  by (cases b) (auto intro!: steps simp: contract no_trees_def)

end

section \<open>The tree of a block keeps what its statements have\<close>

lemma insert_tree_ok:
  "(\<forall>t. Some t \<in> set ts \<longrightarrow> tree_ok b t) \<Longrightarrow> tree_ok b e \<Longrightarrow> Some t \<in> set (insert_tree e ts) \<Longrightarrow> tree_ok b t"
  by (induction e ts rule: insert_tree.induct) (auto split: if_splits)

lemma join_trees_ok:
  "(\<forall>t. Some t \<in> set ts \<longrightarrow> tree_ok b t) \<Longrightarrow> (\<forall>t. r = Some t \<longrightarrow> tree_ok b t) \<Longrightarrow> join_trees r ts = Some e \<Longrightarrow> tree_ok b e"
  by (induction r ts rule: join_trees.induct) (auto split: option.splits)

lemma block_result_ok: "(\<forall>t. Some t \<in> set ts \<longrightarrow> tree_ok b t) \<Longrightarrow> block_result ts = Some e \<Longrightarrow> tree_ok b e"
  by (cases ts) (auto simp: block_result_def intro: join_trees_ok [of "tl ts" b "hd ts"])

lemma wp_finish_block:
  assumes "\<forall>t. Some t \<in> set ts \<longrightarrow> okd s t"
    and "\<And>e x. okd s e \<Longrightarrow> Q (Some e, x) s"
  shows "wp (finish_block ts) s Q"
  unfolding finish_block_def using assms block_result_ok [of ts "0 < loopDepth s"]
  by (auto simp: okd_def tree_ok_def split: option.split)

context recursive_parser
begin

lemma wp_ParseBlockLoop:
  assumes "pre (NBlockLoop b i ts) s" "40 * R s + 29 < Suc n" "sigs_ok s"
  shows "wp (ParseBlockLoop rec fn b i ts) s (post (NBlockLoop b i ts) s)"
proof -
  have ok: "okd s t" if "Some t \<in> set ts" for t using assms(1) that by simp
  have "okd s (with_line fn l e)" if "okd s e" for l e using that by (simp add: with_line_def okd_def tree_ok_def split: option.split)
  then have ins: "okd s t" if "okd s e" "Some t \<in> set (insert_tree (with_line fn l e) ts)" for t l e
    using insert_tree_ok [of ts "0 < loopDepth s" "with_line fn l e" t] that ok by (auto simp: okd_def)
  show ?thesis
    unfolding ParseBlockLoop_def [abs_def] Let_def
    using assms(2,3) ok ins
    by (auto intro!: steps wp_rec_state wp_finish_block simp: post_def is_op_live okd_def split: option.splits if_splits)
qed

lemma parse_body_ok:
  assumes "pre nt s" "40 * R s + rank nt < Suc n" "sigs_ok s"
  shows "wp (parse_body fn rec nt) s (post nt s)"
  using assms wp_ParseOr wp_ParseAnd wp_ParseConditional wp_ParseAssignmentWithRet wp_ParseAssignment wp_ParseComparison
    wp_ParseComparisonLoop wp_ParseAddition wp_ParseMultiplication wp_ParseMultiplicationLoop wp_ParseUnary wp_ParseOOP
    wp_ParseOOPLoop wp_ParseFunction wp_ParseCall wp_ParseCallLoop wp_ParseAtom wp_ParseParamLoop wp_ParseCaptureLoop
    wp_ParseFunctionDefinition wp_ParseIf wp_ParseStatement wp_ParseBlock wp_ParseBlockLoop
  by (cases nt) simp_all

end

section \<open>The parser as a whole\<close>

lemma parse_meets: "recursive_parser (parse fn n) n"
proof (induction n)
  case 0
  show ?case by unfold_locales simp
next
  case (Suc n)
  have "wp (parse fn (Suc n) nt) s (post nt s)" if "pre nt s" "sigs_ok s" "40 * R s + rank nt < Suc n" for nt s
    using recursive_parser.parse_body_ok [OF Suc that(1,3,2), of fn] by (simp add: wp_def)
  then show ?case by unfold_locales
qed

interpretation script: recursive_parser "parse fn n" n fn for fn n
  by (rule parse_meets)

lemma Parse_block_ok:
  assumes "ScriptParser_new code = Inr s"
  shows "wp (rec_e (parse fn (parse_fuel code)) (NBlock False)) s (\<lambda>e s'. tree_ok False e \<and> loopDepth s' = 0 \<and> sigs_ok s')"
proof -
  from assms obtain t where t: "Tokenizer_new code = Inr t" "s = \<lparr>tokenizer = t, loopDepth = 0, registered = []\<rparr>"
    unfolding ScriptParser_new_def by (auto simp: bind_r_Inr)
  have "remaining t \<le> length (cstr code) + 1"
    using NextToken_progress(1) [of "\<lparr>pc = cstr code, line = 1, tok = TEOF\<rparr>" t] t(1)
    by (auto simp: Tokenizer_new_def remaining_def)
  then show ?thesis
    by (intro script.wp_rec_e) (use t(2) NextToken_ok [OF t(1) [unfolded Tokenizer_new_def]] in \<open>auto simp: parse_fuel_def okd_def sigs_ok_def regs_ok_def cur_def\<close>)
qed

lemma Parse_ends:
  "Parse filename code \<noteq> Inl NotTerminated \<and> Parse filename code \<noteq> Inl Crashed"
proof (cases "ScriptParser_new code")
  case (Inr s)
  from Parse_block_ok [OF Inr, of filename] Inr show ?thesis
    by (auto simp: Parse_def wp_def split: sum.splits parse_error.splits prod.splits)
qed (simp add: Parse_def)

text \<open>
  C6: parsing always ends with a script or an error.  Whatever the text, the fuel that
  \<open>Parse\<close> starts with is enough for all loops and recursive calls of the parser, and no null
  expression is ever dereferenced.
\<close>

theorem parser_terminates:
  "Parse filename code \<noteq> Inl NotTerminated \<and> Parse filename code \<noteq> Inl Crashed"
  by (rule Parse_ends)

text \<open>
  \<^verbatim>\<open>break\<close> and \<^verbatim>\<open>continue\<close> need a loop.  In every script that parses, each
  \<^verbatim>\<open>break\<close> and \<^verbatim>\<open>continue\<close> stands in the body of a \<^verbatim>\<open>while\<close> or
  \<^verbatim>\<open>for\<close>, possibly of one around a function literal, and the count of open loops is back
  at zero.
\<close>

theorem break_needs_loop:
  assumes "Parse filename code = Inr (e, s)"
  shows "loops_ok False e \<and> loopDepth s = 0"
proof (cases "ScriptParser_new code")
  case (Inr s0)
  from Parse_block_ok [OF Inr, of filename] Inr assms show ?thesis
    by (auto simp: Parse_def wp_def tree_ok_def split: sum.splits parse_error.splits prod.splits)
qed (use assms in \<open>simp add: Parse_def\<close>)

theorem break_needs_loop_witness:
  "\<exists>e s. Parse None ''while (x) { break }'' = Inr (e, s) \<and> loops_ok False e \<and> loopDepth s = 0"
proof -
  obtain e s where "Parse None ''while (x) { break }'' = Inr (e, s)"
    by (cases "Parse None ''while (x) { break }''") (code_simp, fastforce)
  with break_needs_loop [OF this] show ?thesis by blast
qed

text \<open>
  The signature buffer does not overflow.  Whatever the parameter lists of a script, the
  signature that \<^verbatim>\<open>ParseFunctionDefinition\<close> writes for each function it registers fits,
  with its terminating NUL, into the 4096 characters of \<^verbatim>\<open>param_types\<close>.
\<close>

theorem signatures_fit:
  assumes "Parse filename code = Inr (e, s)" "f \<in> set (registered s)"
  shows "length (sf_params f) + 1 \<le> 4096"
proof (cases "ScriptParser_new code")
  case (Inr s0)
  from Parse_block_ok [OF Inr, of filename] Inr assms(1) have "sigs_ok s"
    by (auto simp: Parse_def wp_def split: sum.splits parse_error.splits prod.splits)
  with assms(2) show ?thesis by (auto simp: sigs_ok_def regs_ok_def function_ok_def)
qed (use assms in \<open>simp add: Parse_def\<close>)

theorem signatures_fit_witness:
  "\<exists>e s. Parse None ''function f(int a) { a }'' = Inr (e, s) \<and> (\<forall>f \<in> set (registered s). length (sf_params f) + 1 \<le> 4096)
     \<and> registered s \<noteq> []"
proof -
  have "case Parse None ''function f(int a) { a }'' of Inr (e, s) \<Rightarrow> registered s \<noteq> [] | Inl e \<Rightarrow> False" by code_simp
  then obtain e s where "Parse None ''function f(int a) { a }'' = Inr (e, s)" "registered s \<noteq> []"
    by (auto split: sum.splits)
  with signatures_fit [OF this(1)] show ?thesis by blast
qed

lemma Parse_error_functions:
  assumes "Parse filename code = Inl (Located err)"
  shows "\<forall>f \<in> set (lregistered err). function_ok f"
proof (cases "ScriptParser_new code")
  case (Inr s)
  from Parse_block_ok [OF Inr, of filename] Inr assms show ?thesis
    by (auto simp: Parse_def wp_def regs_ok_def split: sum.splits parse_error.splits prod.splits)
qed (use assms in \<open>simp add: Parse_def\<close>)

lemma parsed_ok:
  assumes "Parse filename code = Inr (e, s)"
  shows "good_expr const_ok def_ok e" "\<forall>f \<in> set (registered s). function_ok f"
proof -
  have "good_expr const_ok def_ok e \<and> (\<forall>f \<in> set (registered s). function_ok f)"
  proof (cases "ScriptParser_new code")
    case (Inr s0)
    from Parse_block_ok [OF Inr, of filename] Inr assms show ?thesis
      by (auto simp: Parse_def wp_def tree_ok_def sigs_ok_def regs_ok_def split: sum.splits parse_error.splits prod.splits)
  qed (use assms in \<open>simp add: Parse_def\<close>)
  then show "good_expr const_ok def_ok e" "\<forall>f \<in> set (registered s). function_ok f" by simp_all
qed

text \<open>
  The count of open loops is not reset for a function body, so the parser accepts a
  \<^verbatim>\<open>break\<close> that is directly in the body of a function literal when the literal stands in a
  loop, although calling that function elsewhere leaves no loop to break out of.
\<close>

theorem break_in_function_literal:
  "\<exists>s. Parse None ''while (true) { g = function () { break } }'' = Inr (
     ExpRootBlock (ExpWhileLoop (ExpVariableReference ''true'')
       (Some (ExpAssignment ''g'' (ExpFunctionDefinition (ExpRootBlock ExpBreak) None [] [] [] [] None 1) False))), s)"
proof -
  have "map_sum id fst (Parse None ''while (true) { g = function () { break } }'') = Inr (
     ExpRootBlock (ExpWhileLoop (ExpVariableReference ''true'')
       (Some (ExpAssignment ''g'' (ExpFunctionDefinition (ExpRootBlock ExpBreak) None [] [] [] [] None 1) False))))"
    by code_simp
  then show ?thesis by (cases "Parse None ''while (true) { g = function () { break } }''") auto
qed

end
