(* ===== verification/Script_Run.thy ===== *)
theory Script_Run
  imports Eval_Types Eval_Ops Parser_Correct
begin

text \<open>
  A script from its text to its value: \<^verbatim>\<open>Eval\<close> and \<^verbatim>\<open>EvalOop\<close> of
  \<^verbatim>\<open>core/parser/script.cpp\<close>.  The parser registers the named functions of the script while
  it reads them; since it looks at nothing else of the environment, they are registered here in
  one go before the script is evaluated, or before the error is reported.
\<close>


section \<open>Eval\<close>

definition register_function :: "script_function \<Rightarrow> unit ev" where
  "register_function f =
     AddFunction (sf_name f) (sf_params f) (ScriptFunctionExecute f) (Some ''$UserFunctions$'') False False"

fun register_functions :: "script_function list \<Rightarrow> unit ev" where
  "register_functions [] = return_e ()"
| "register_functions (f # fs) = bind_e (register_function f) (\<lambda>_. register_functions fs)"

definition located_text :: "located_error \<Rightarrow> string" where
  "located_text e = lmsg e @ [LF] @ ''('' @ printf_s (lfile e) @ '', line '' @ show_int (lline e)
     @ '', column '' @ show_int (lcolumn e) @ '')''"

definition Eval_text :: "world \<Rightarrow> nat \<Rightarrow> string \<Rightarrow> string option \<Rightarrow> AVSValue ev" where
  "Eval_text w n code filename =
     (case Parse filename code of
        Inr (e, p) \<Rightarrow> bind_e (register_functions (registered p)) (\<lambda>_. run w n (Eval e))
      | Inl (Located err) \<Rightarrow> bind_e (register_functions (lregistered err)) (\<lambda>_. error_e (located_text err))
      | Inl (Raw msg) \<Rightarrow> error_e msg
      | Inl Crashed \<Rightarrow> raise_e Crash
      | Inl NotTerminated \<Rightarrow> raise_e NoFuel)"

text \<open>\<^verbatim>\<open>catch (...) { SetVar("last", prev_last); throw; }\<close> with the \<^verbatim>\<open>SetVar\<close> of
  the normal end.\<close>

definition finally_set :: "string \<Rightarrow> AVSValue \<Rightarrow> 'a ev \<Rightarrow> 'a ev" where
  "finally_set name v p s = (case p s of (r, s') \<Rightarrow>
     if r = Raise NoFuel \<or> r = Raise Trap then (r, s')
     else (case SetVar name v s' of (Value _, s'') \<Rightarrow> (r, s'') | (Raise e, s'') \<Rightarrow> (Raise e, s'')))"

definition EvalOop :: "world \<Rightarrow> nat \<Rightarrow> AVSValue \<Rightarrow> string \<Rightarrow> string option \<Rightarrow> AVSValue ev" where
  "EvalOop w n clip code filename =
     bind_e (get_e (GetVarDef ''last'' VUndefined)) (\<lambda>prev_last.
     bind_e (SetVar ''last'' clip) (\<lambda>_.
       finally_set ''last'' prev_last (Eval_text w n code filename)))"


section \<open>Registering a function\<close>

lemma UpdateFunctionExports_returns:
  "\<exists>s'. UpdateFunctionExports n p v s = (Value (), s') \<and> ExternalFunctions s' = ExternalFunctions s
     \<and> AutoloadedFunctions s' = AutoloadedFunctions s \<and> Autoloading s' = Autoloading s \<and> PluginInLoad s' = PluginInLoad s"
  by (auto simp: UpdateFunctionExports_def Let_def bind_e_def get_e_def SetGlobalVar_def return_e_def split: prod.splits)

lemma AddFunction_tables:
  assumes "IsValidParameterString params" "\<not> Autoloading s" and f_def: "f = new_function name params ap b1 b2 (PluginInLoad s)"
  shows "\<exists>s' cn. AddFunction name params ap v b1 b2 s = (Value (), s') \<and> canon_name f = Some cn
     \<and> ExternalFunctions s' = map_push cn f (map_push name f (ExternalFunctions s))
     \<and> AutoloadedFunctions s' = AutoloadedFunctions s"
proof -
  obtain cn where cn: "canon_name f = Some cn"
    by (cases "PluginInLoad s") (auto simp: f_def new_function_def AVSFunction_new_def)
  let ?s1 = "s\<lparr>ExternalFunctions := map_push name f (ExternalFunctions s)\<rparr>"
  obtain s2 where 2: "UpdateFunctionExports name params v ?s1 = (Value (), s2)" "ExternalFunctions s2 = ExternalFunctions ?s1"
    "AutoloadedFunctions s2 = AutoloadedFunctions s" "\<not> Autoloading s2"
    using UpdateFunctionExports_returns [of name params v ?s1] assms(2) by auto
  let ?s3 = "s2\<lparr>ExternalFunctions := map_push cn f (ExternalFunctions s2)\<rparr>"
  obtain s4 where 4: "UpdateFunctionExports cn params v ?s3 = (Value (), s4)" "ExternalFunctions s4 = ExternalFunctions ?s3"
    "AutoloadedFunctions s4 = AutoloadedFunctions s"
    using UpdateFunctionExports_returns [of cn params v ?s3] 2 by auto
  have "AddFunction name params ap v b1 b2 s = (Value (), s4)"
    using assms(1,2) cn 2 4 by (simp add: AddFunction_def Let_def f_def [symmetric] bind_e_def get_e_def push_function_def)
  then show ?thesis using cn 2 4 by auto
qed




section \<open>Scripts are type safe\<close>

lemma types_I_tables:
  assumes "types_I s" "vars s' = vars s" "fobjs s' = fobjs s"
    and "\<forall>n. \<forall>f \<in> set (ExternalFunctions s' n) \<union> set (AutoloadedFunctions s' n). fn_ok s f"
  shows "types_I s' \<and> types_R s s'"
proof -
  have g: "grows s s'" using assms(3) by (simp add: grows_def)
  show ?thesis using assms obj_ok_mono [OF _ g] fn_ok_mono [OF _ g] types_V_mono [OF _ g]
    by (auto simp: types_I_def types_R_def frames_I_def frames_R_def only_newest_refl g)
qed

lemma types_push_function:
  assumes "types_I s \<Longrightarrow> fn_ok s f"
  shows "types_ok (push_function n f) s (\<lambda>_ _. True)"
proof -
  let ?s = "snd (push_function n f s)"
  have "types_I ?s \<and> types_R s ?s" if "types_I s"
    by (rule types_I_tables [OF that])
       (use that assms [OF that] in \<open>auto simp: push_function_def map_push_def types_I_def\<close>)
  then show ?thesis by (simp add: ev_ok_def push_function_def)
qed

lemma types_UpdateFunctionExports: "types_ok (UpdateFunctionExports n p v) s (\<lambda>_ _. True)"
  unfolding UpdateFunctionExports_def Let_def
  by (auto intro!: types_rel.ok_bind types_rel.ok_get types_rel.ok_return types_rel.ok_conseq [OF types_SetGlobalVar]
      simp: types_V_def)

lemma types_AddFunction:
  assumes "\<And>loading s. types_I s \<Longrightarrow> fn_ok s (new_function name params ap b1 b2 loading)"
  shows "types_ok (AddFunction name params ap v b1 b2) s (\<lambda>_ _. True)"
  unfolding AddFunction_def Let_def
  by (auto intro!: types_rel.ok_bind types_rel.ok_get types_rel.ok_error types_rel.ok_return
        types_rel.ok_conseq [OF types_push_function] types_rel.ok_conseq [OF types_UpdateFunctionExports] types_UpdateFunctionExports assms
      split: option.split)

text \<open>Quoted parameter names without a closing bracket.\<close>

definition plain_name :: "string \<Rightarrow> bool" where
  "plain_name n \<longleftrightarrow> CHR '']'' \<notin> set n"

definition plain_names :: "expr \<Rightarrow> bool" where
  "plain_names = good_expr (\<lambda>_. True) (\<lambda>_ names _. list_all plain_name names)"

definition plain_function :: "script_function \<Rightarrow> bool" where
  "plain_function f \<longleftrightarrow> list_all plain_name (sf_param_names f) \<and> plain_names (sf_body f)"

lemma good_expr_plain: "good_expr const_ok def_ok e \<Longrightarrow> plain_names e \<Longrightarrow> good_script e"
  unfolding plain_names_def
  by (induction e) (force simp: list_all_iff def_ok_def plain_name_def split: option.splits)+

lemma register_functions_ok:
  "\<forall>f \<in> set fs. function_ok f \<and> plain_function f \<Longrightarrow> types_ok (register_functions fs) s (\<lambda>_ _. True)"
proof (induction fs arbitrary: s)
  case (Cons f fs)
  then have f: "good_script (sf_body f)" "sig_ok (sf_params f) (sf_param_names f) (sf_floats f)"
    using good_expr_plain by (auto simp: function_ok_def plain_function_def def_ok_def plain_name_def list_all_iff)
  have "types_ok (register_function f) s (\<lambda>_ _. True)" unfolding register_function_def
    by (rule types_AddFunction) (use f in \<open>simp add: fn_ok_def new_function_def AVSFunction_new_def split: option.split\<close>)
  then show ?case using Cons by (auto intro!: types_rel.ok_bind elim!: types_rel.ok_conseq)
qed (auto intro: types_rel.ok_return)


definition plain_script :: "string option \<Rightarrow> string \<Rightarrow> bool" where
  "plain_script filename code \<longleftrightarrow> (case Parse filename code of
     Inr (e, p) \<Rightarrow> plain_names e \<and> list_all plain_function (registered p)
   | Inl (Located err) \<Rightarrow> list_all plain_function (lregistered err)
   | Inl _ \<Rightarrow> True)"

lemma types_Eval_text:
  assumes w: "types_world w" and p: "plain_script filename code"
  shows "types_ok (Eval_text w n code filename) s (\<lambda>v s'. types_V s' v)"
proof (cases "Parse filename code")
  case (Inr x)
  obtain e q where x: "x = (e, q)" by fastforce
  have "good_script e" "\<forall>f \<in> set (registered q). function_ok f \<and> plain_function f"
    using parsed_ok [of filename code e q] p Inr x good_expr_plain by (auto simp: plain_script_def list_all_iff)
  then show ?thesis using Inr x run_types [OF w]
    by (auto simp: Eval_text_def intro!: types_rel.ok_bind types_rel.ok_conseq [OF register_functions_ok])
next
  case (Inl err)
  have "types_ok (bind_e (register_functions (lregistered l)) (\<lambda>_. error_e (located_text l))) s (\<lambda>v s'. types_V s' v)"
    if "err = Located l" for l
    using Parse_error_functions [of filename code l] p Inl that
    by (intro types_rel.ok_bind types_rel.ok_conseq [OF register_functions_ok] types_rel.ok_error)
       (auto simp: plain_script_def list_all_iff)
  moreover have "err \<noteq> Crashed" "err \<noteq> NotTerminated" using Parse_ends [of filename code] Inl by auto
  ultimately show ?thesis using Inl
    by (cases err) (auto simp: Eval_text_def intro: types_rel.ok_error)
qed



text \<open>
  \<^verbatim>\<open>EvalOop\<close> restores \<^verbatim>\<open>last\<close>.  However the text it is given ends, by value
  or by exception, \<^verbatim>\<open>last\<close> has the value from before the call.
\<close>

theorem eval_oop_restores_last:
  assumes "EvalOop w n clip code filename s = (r, s')" "\<not> closing s'"
    and "r \<noteq> Raise NoFuel" "r \<noteq> Raise Trap" "r \<noteq> Raise Crash"
  shows "GetVarDef ''last'' VUndefined s' = GetVarDef ''last'' VUndefined s"
proof -
  let ?prev = "GetVarDef ''last'' VUndefined s"
  have get: "VarFrame_Set m v f = (b, f') \<Longrightarrow> VarFrame_Get m f' = Some v" for m v b and f f' :: "AVSValue var_frame"
    using VarFrame_Set_map [of m v f] by (simp add: VarFrame_Get_map)
  have set: "SetVar ''last'' v s1 = (o1, s2) \<Longrightarrow> o1 = Raise Crash \<or> (\<exists>b. o1 = Value b) \<and> (closing s2 \<or> GetVarTry ''last'' s2 = Some v)"
    for v s1 s2 o1
    by (auto simp: SetVar_def GetVarTry_def VarTable_Set_def VarTable_Get_def get
        split: if_splits option.splits list.splits prod.splits)
  obtain o1 s1 where 1: "SetVar ''last'' clip s = (o1, s1)" by fastforce
  obtain o2 s2 where 2: "Eval_text w n code filename s1 = (o2, s2)" by fastforce
  obtain o3 s3 where 3: "SetVar ''last'' ?prev s2 = (o3, s3)" by fastforce
  from 1 set have "o1 = Raise Crash \<or> (\<exists>b. o1 = Value b)" by blast
  then show ?thesis using assms 1 2 3 set [OF 3]
    by (auto simp: EvalOop_def bind_e_def get_e_def finally_set_def GetVarDef_def split: if_splits)
qed


theorem eval_oop_restores_last_witness:
  "\<exists>s'. EvalOop (script_world []) 9 (VClip 1) ''1'' None empty_env = (Value (VInt 1), s') \<and> GetVarDef ''last'' VUndefined s' = VUndefined"
proof -
  have "map_sum id (\<lambda>(e, p). (e, registered p)) (Parse None ''1'') = Inr (ExpRootBlock (ExpConstant (VInt 1)), [])" by code_simp
  then obtain p where p: "Parse None ''1'' = Inr (ExpRootBlock (ExpConstant (VInt 1)), p)" "registered p = []"
    by (cases "Parse None ''1''") auto
  obtain b s1 where 1: "SetVar ''last'' (VClip 1) empty_env = (Value b, s1)" "open_frame s1" using SetVar_open [OF open_empty_env] by blast
  obtain b' s' where 2: "SetVar ''last'' (GetVarDef ''last'' VUndefined empty_env) s1 = (Value b', s')" "open_frame s'"
    using SetVar_open [OF 1(2)] by blast
  have "Eval_text (script_world []) 9 ''1'' None s1 = (Value (VInt 1), s1)"
    using p by (simp add: Eval_text_def run_simps del: run.simps)
  then have s': "EvalOop (script_world []) 9 (VClip 1) ''1'' None empty_env = (Value (VInt 1), s')" "\<not> closing s'"
    using 1 2 by (simp_all add: EvalOop_def finally_set_def bind_e_def get_e_def open_frame_def)
  have "GetVarDef ''last'' VUndefined s' = GetVarDef ''last'' VUndefined empty_env"
    by (rule eval_oop_restores_last [OF s']) simp_all
  moreover have "GetVarDef ''last'' VUndefined empty_env = VUndefined"
    by (simp add: GetVarDef_def GetVarTry_def empty_env_def VarTable_new_def VarTable_Push_def VarTable_Get_def VarFrame_Get_def string_frame_new_def)
  ultimately have "GetVarDef ''last'' VUndefined s' = VUndefined" by simp
  then show ?thesis by (intro exI [of _ s'] conjI s'(1))
qed

text \<open>
  A closing bracket in a quoted parameter name breaks that.  The parser copies the name into the
  signature, where it ends the name early: the signature is valid but has more parameters than
  there are names, and a call that gives them all reads past the names.
\<close>

theorem bracket_in_parameter_name:
  "\<exists>e p sf. Parse None (''function f(int '' @ [DQ] @ ''a]b[c'' @ [DQ] @ '') { a }'') = Inr (e, p)
     \<and> registered p = [sf] \<and> sf_params sf = ''[a]b[c]i'' \<and> sf_param_names sf = [''a]b[c'']
     \<and> TypeMatch ''[a]b[c]i'' [VBool True, VInt 1] True = Inr True
     \<and> bind_arguments ''[a]b[c]i'' True [VBool True, VInt 1] [] = Inr [VBool True, VInt 1]
     \<and> (\<forall>rec s. \<exists>s'. ScriptFunction_Execute rec sf [VBool True, VInt 1] s = (Raise Crash, s'))"
proof -
  have "case Parse None (''function f(int '' @ [DQ] @ ''a]b[c'' @ [DQ] @ '') { a }'') of
      Inr (e, p) \<Rightarrow> map (\<lambda>sf. (sf_params sf, sf_param_names sf, sf_floats sf)) (registered p)
        = [(''[a]b[c]i'', [''a]b[c''], [False])] | Inl _ \<Rightarrow> False" by code_simp
  then obtain e p sf where p: "Parse None (''function f(int '' @ [DQ] @ ''a]b[c'' @ [DQ] @ '') { a }'') = Inr (e, p)"
    "registered p = [sf]" "sf_params sf = ''[a]b[c]i''" "sf_param_names sf = [''a]b[c'']" "sf_floats sf = [False]"
    by (auto split: sum.splits simp: map_eq_Cons_conv)
  have "TypeMatch ''[a]b[c]i'' [VBool True, VInt 1] True = Inr True"
    "bind_arguments ''[a]b[c]i'' True [VBool True, VInt 1] [] = Inr [VBool True, VInt 1]" by code_simp+
  moreover have "\<exists>s'. ScriptFunction_Execute rec sf [VBool True, VInt 1] s = (Raise Crash, s')" for rec s
    using p(4,5) by (auto simp: ScriptFunction_Execute_def bind_e_def PushContext_def raise_e_def SetVar_def split: option.splits)
  ultimately show ?thesis using p by blast
qed

end
