(* ===== verification/Video_Info.thy ===== *)
theory Video_Info
  imports Prelude "HOL-Library.Word"
begin

text \<open>
  The description of a clip, \<^verbatim>\<open>VideoInfo\<close> of \<^verbatim>\<open>avisynth.h\<close> with its member functions of
  \<^verbatim>\<open>interface.cpp\<close>: the bit fields of \<^verbatim>\<open>pixel_type\<close> and what they say of planes,
  components, subsampling and buffer sizes; the conversions between frames, audio samples and
  bytes; the frame rate as a fraction; the channel mask in \<^verbatim>\<open>image_type\<close>; and the tables of
  format names of \<^verbatim>\<open>script.cpp\<close>.  Flag words are \<open>32 word\<close>; the other numbers are integers
  with the width of the C type written out where a product can leave it.
\<close>

unbundle bit_operations_syntax

section \<open>Constants\<close>

text \<open>\<^verbatim>\<open>enum AvsSampleType\<close>, \<^verbatim>\<open>enum AvsPlane\<close>.\<close>

definition SAMPLE_INT8 :: "32 word" where "SAMPLE_INT8 = 1"
definition SAMPLE_INT16 :: "32 word" where "SAMPLE_INT16 = 2"
definition SAMPLE_INT24 :: "32 word" where "SAMPLE_INT24 = 4"
definition SAMPLE_INT32 :: "32 word" where "SAMPLE_INT32 = 8"
definition SAMPLE_FLOAT :: "32 word" where "SAMPLE_FLOAT = 16"

lemmas sample_defs = SAMPLE_INT8_def SAMPLE_INT16_def SAMPLE_INT24_def SAMPLE_INT32_def SAMPLE_FLOAT_def

datatype AvsPlane = DEFAULT_PLANE | PLANAR_Y | PLANAR_U | PLANAR_V | PLANAR_Y_ALIGNED
  | PLANAR_U_ALIGNED | PLANAR_V_ALIGNED | PLANAR_A | PLANAR_R | PLANAR_G | PLANAR_B
  | PLANAR_A_ALIGNED | PLANAR_R_ALIGNED | PLANAR_G_ALIGNED | PLANAR_B_ALIGNED

text \<open>\<^verbatim>\<open>enum AvsColorFormat\<close>: the colour family bits, the subsampling and sample size fields.\<close>

definition CS_YUVA :: "32 word" where "CS_YUVA = push_bit 27 1"
definition CS_BGR :: "32 word" where "CS_BGR = push_bit 28 1"
definition CS_YUV :: "32 word" where "CS_YUV = push_bit 29 1"
definition CS_INTERLEAVED :: "32 word" where "CS_INTERLEAVED = push_bit 30 1"
definition CS_PLANAR :: "32 word" where "CS_PLANAR = push_bit 31 1"

definition CS_Sub_Width_Mask :: "32 word" where "CS_Sub_Width_Mask = 7"
definition CS_Sub_Width_1 :: "32 word" where "CS_Sub_Width_1 = 3"
definition CS_Sub_Width_2 :: "32 word" where "CS_Sub_Width_2 = 0"
definition CS_Sub_Width_4 :: "32 word" where "CS_Sub_Width_4 = 1"
definition CS_VPlaneFirst :: "32 word" where "CS_VPlaneFirst = push_bit 3 1"
definition CS_UPlaneFirst :: "32 word" where "CS_UPlaneFirst = push_bit 4 1"
definition CS_Sub_Height_Mask :: "32 word" where "CS_Sub_Height_Mask = push_bit 8 7"
definition CS_Sub_Height_1 :: "32 word" where "CS_Sub_Height_1 = push_bit 8 3"
definition CS_Sub_Height_2 :: "32 word" where "CS_Sub_Height_2 = push_bit 8 0"
definition CS_Sub_Height_4 :: "32 word" where "CS_Sub_Height_4 = push_bit 8 1"
definition CS_Sample_Bits_Mask :: "32 word" where "CS_Sample_Bits_Mask = push_bit 16 7"
definition CS_Sample_Bits_8 :: "32 word" where "CS_Sample_Bits_8 = push_bit 16 0"
definition CS_Sample_Bits_10 :: "32 word" where "CS_Sample_Bits_10 = push_bit 16 5"
definition CS_Sample_Bits_12 :: "32 word" where "CS_Sample_Bits_12 = push_bit 16 6"
definition CS_Sample_Bits_14 :: "32 word" where "CS_Sample_Bits_14 = push_bit 16 7"
definition CS_Sample_Bits_16 :: "32 word" where "CS_Sample_Bits_16 = push_bit 16 1"
definition CS_Sample_Bits_32 :: "32 word" where "CS_Sample_Bits_32 = push_bit 16 2"

definition CS_PLANAR_MASK :: "32 word" where
  "CS_PLANAR_MASK = CS_PLANAR OR CS_INTERLEAVED OR CS_YUV OR CS_BGR OR CS_YUVA
     OR CS_Sample_Bits_Mask OR CS_Sub_Width_Mask OR CS_Sub_Height_Mask"
definition CS_PLANAR_FILTER :: "32 word" where
  "CS_PLANAR_FILTER = NOT (CS_VPlaneFirst OR CS_UPlaneFirst)"
definition CS_RGB_TYPE :: "32 word" where "CS_RGB_TYPE = 1"
definition CS_RGBA_TYPE :: "32 word" where "CS_RGBA_TYPE = 2"

definition CS_UNKNOWN :: "32 word" where "CS_UNKNOWN = 0"
definition CS_BGR24 :: "32 word" where "CS_BGR24 = CS_RGB_TYPE OR CS_BGR OR CS_INTERLEAVED"
definition CS_BGR32 :: "32 word" where "CS_BGR32 = CS_RGBA_TYPE OR CS_BGR OR CS_INTERLEAVED"
definition CS_YUY2 :: "32 word" where "CS_YUY2 = push_bit 2 1 OR CS_YUV OR CS_INTERLEAVED"
definition CS_RAW32 :: "32 word" where "CS_RAW32 = push_bit 5 1 OR CS_INTERLEAVED"
definition CS_BGR48 :: "32 word" where "CS_BGR48 = CS_RGB_TYPE OR CS_BGR OR CS_INTERLEAVED OR CS_Sample_Bits_16"
definition CS_BGR64 :: "32 word" where "CS_BGR64 = CS_RGBA_TYPE OR CS_BGR OR CS_INTERLEAVED OR CS_Sample_Bits_16"

definition CS_GENERIC_YUV444 :: "32 word" where
  "CS_GENERIC_YUV444 = CS_PLANAR OR CS_YUV OR CS_VPlaneFirst OR CS_Sub_Width_1 OR CS_Sub_Height_1"
definition CS_GENERIC_YUV422 :: "32 word" where
  "CS_GENERIC_YUV422 = CS_PLANAR OR CS_YUV OR CS_VPlaneFirst OR CS_Sub_Width_2 OR CS_Sub_Height_1"
definition CS_GENERIC_YUV420 :: "32 word" where
  "CS_GENERIC_YUV420 = CS_PLANAR OR CS_YUV OR CS_VPlaneFirst OR CS_Sub_Width_2 OR CS_Sub_Height_2"
definition CS_GENERIC_Y :: "32 word" where
  "CS_GENERIC_Y = CS_PLANAR OR CS_INTERLEAVED OR CS_YUV"
definition CS_GENERIC_RGBP :: "32 word" where
  "CS_GENERIC_RGBP = CS_PLANAR OR CS_BGR OR CS_RGB_TYPE"
definition CS_GENERIC_RGBAP :: "32 word" where
  "CS_GENERIC_RGBAP = CS_PLANAR OR CS_BGR OR CS_RGBA_TYPE"
definition CS_GENERIC_YUVA444 :: "32 word" where
  "CS_GENERIC_YUVA444 = CS_PLANAR OR CS_YUVA OR CS_VPlaneFirst OR CS_Sub_Width_1 OR CS_Sub_Height_1"
definition CS_GENERIC_YUVA422 :: "32 word" where
  "CS_GENERIC_YUVA422 = CS_PLANAR OR CS_YUVA OR CS_VPlaneFirst OR CS_Sub_Width_2 OR CS_Sub_Height_1"
definition CS_GENERIC_YUVA420 :: "32 word" where
  "CS_GENERIC_YUVA420 = CS_PLANAR OR CS_YUVA OR CS_VPlaneFirst OR CS_Sub_Width_2 OR CS_Sub_Height_2"

definition CS_YV24 :: "32 word" where "CS_YV24 = CS_GENERIC_YUV444 OR CS_Sample_Bits_8"
definition CS_YV16 :: "32 word" where "CS_YV16 = CS_GENERIC_YUV422 OR CS_Sample_Bits_8"
definition CS_YV12 :: "32 word" where "CS_YV12 = CS_GENERIC_YUV420 OR CS_Sample_Bits_8"
definition CS_I420 :: "32 word" where
  "CS_I420 = CS_PLANAR OR CS_YUV OR CS_Sample_Bits_8 OR CS_UPlaneFirst OR CS_Sub_Width_2 OR CS_Sub_Height_2"
definition CS_YUV9 :: "32 word" where
  "CS_YUV9 = CS_PLANAR OR CS_YUV OR CS_Sample_Bits_8 OR CS_VPlaneFirst OR CS_Sub_Width_4 OR CS_Sub_Height_4"
definition CS_YV411 :: "32 word" where
  "CS_YV411 = CS_PLANAR OR CS_YUV OR CS_Sample_Bits_8 OR CS_VPlaneFirst OR CS_Sub_Width_4 OR CS_Sub_Height_1"
definition CS_Y8 :: "32 word" where "CS_Y8 = CS_GENERIC_Y OR CS_Sample_Bits_8"
definition CS_Y10 :: "32 word" where "CS_Y10 = CS_GENERIC_Y OR CS_Sample_Bits_10"
definition CS_Y12 :: "32 word" where "CS_Y12 = CS_GENERIC_Y OR CS_Sample_Bits_12"
definition CS_Y14 :: "32 word" where "CS_Y14 = CS_GENERIC_Y OR CS_Sample_Bits_14"
definition CS_Y16 :: "32 word" where "CS_Y16 = CS_GENERIC_Y OR CS_Sample_Bits_16"
definition CS_Y32 :: "32 word" where "CS_Y32 = CS_GENERIC_Y OR CS_Sample_Bits_32"

text \<open>\<^verbatim>\<open>enum AvsImageTypeFlags\<close> and the channel masks they store, shifted by four bits.\<close>

definition IT_BFF :: "32 word" where "IT_BFF = 1"
definition IT_TFF :: "32 word" where "IT_TFF = 2"
definition IT_FIELDBASED :: "32 word" where "IT_FIELDBASED = 4"
definition IT_HAS_CHANNELMASK :: "32 word" where "IT_HAS_CHANNELMASK = 8"
definition MASK_SPEAKER_DEFINED :: "32 word" where "MASK_SPEAKER_DEFINED = 0x0003FFFF"
definition MASK_SPEAKER_ALL :: "32 word" where "MASK_SPEAKER_ALL = 0x80000000"
definition IT_SPEAKER_ALL :: "32 word" where "IT_SPEAKER_ALL = push_bit 4 0x40000"
definition IT_SPEAKER_BITS_MASK :: "32 word" where
  "IT_SPEAKER_BITS_MASK = push_bit 4 MASK_SPEAKER_DEFINED OR IT_SPEAKER_ALL"

lemmas mask_defs = IT_BFF_def IT_TFF_def IT_FIELDBASED_def IT_HAS_CHANNELMASK_def
  MASK_SPEAKER_DEFINED_def MASK_SPEAKER_ALL_def IT_SPEAKER_ALL_def IT_SPEAKER_BITS_MASK_def

definition FRAME_ALIGN :: int where "FRAME_ALIGN = 64"

text \<open>The values of the constants; \<open>YV12\<close> and \<open>I420\<close> have the ones the header asks for.\<close>

lemma cs_values:
  shows "CS_YUVA = 0x8000000"
  and "CS_BGR = 0x10000000"
  and "CS_YUV = 0x20000000"
  and "CS_INTERLEAVED = 0x40000000"
  and "CS_PLANAR = 0x80000000"
  and "CS_Sub_Width_Mask = 7"
  and "CS_Sub_Width_1 = 3"
  and "CS_Sub_Width_2 = 0"
  and "CS_Sub_Width_4 = 1"
  and "CS_VPlaneFirst = 8"
  and "CS_UPlaneFirst = 0x10"
  and "CS_Sub_Height_Mask = 0x700"
  and "CS_Sub_Height_1 = 0x300"
  and "CS_Sub_Height_2 = 0"
  and "CS_Sub_Height_4 = 0x100"
  and "CS_Sample_Bits_Mask = 0x70000"
  and "CS_Sample_Bits_8 = 0"
  and "CS_Sample_Bits_10 = 0x50000"
  and "CS_Sample_Bits_12 = 0x60000"
  and "CS_Sample_Bits_14 = 0x70000"
  and "CS_Sample_Bits_16 = 0x10000"
  and "CS_Sample_Bits_32 = 0x20000"
  and "CS_PLANAR_MASK = 0xF8070707"
  and "CS_PLANAR_FILTER = 0xFFFFFFE7"
  and "CS_RGB_TYPE = 1"
  and "CS_RGBA_TYPE = 2"
  and "CS_UNKNOWN = 0"
  and "CS_BGR24 = 0x50000001"
  and "CS_BGR32 = 0x50000002"
  and "CS_YUY2 = 0x60000004"
  and "CS_RAW32 = 0x40000020"
  and "CS_BGR48 = 0x50010001"
  and "CS_BGR64 = 0x50010002"
  and "CS_GENERIC_YUV444 = 0xA000030B"
  and "CS_GENERIC_YUV422 = 0xA0000308"
  and "CS_GENERIC_YUV420 = 0xA0000008"
  and "CS_GENERIC_Y = 0xE0000000"
  and "CS_GENERIC_RGBP = 0x90000001"
  and "CS_GENERIC_RGBAP = 0x90000002"
  and "CS_GENERIC_YUVA444 = 0x8800030B"
  and "CS_GENERIC_YUVA422 = 0x88000308"
  and "CS_GENERIC_YUVA420 = 0x88000008"
  and "CS_YV24 = 0xA000030B"
  and "CS_YV16 = 0xA0000308"
  and "CS_YV12 = 0xA0000008"
  and "CS_I420 = 0xA0000010"
  and "CS_YUV9 = 0xA0000109"
  and "CS_YV411 = 0xA0000309"
  and "CS_Y8 = 0xE0000000"
  and "CS_Y10 = 0xE0050000"
  and "CS_Y12 = 0xE0060000"
  and "CS_Y14 = 0xE0070000"
  and "CS_Y16 = 0xE0010000"
  and "CS_Y32 = 0xE0020000"
  by code_simp+

section \<open>The record and its tests\<close>

record VideoInfo =
  width :: int
  height :: int
  fps_numerator :: int
  fps_denominator :: int
  num_frames :: int
  pixel_type :: "32 word"
  audio_samples_per_second :: int
  sample_type :: "32 word"
  num_audio_samples :: int
  nchannels :: int
  image_type :: "32 word"

text \<open>\<open>w & m\<close> read as a condition.\<close>

definition has :: "32 word \<Rightarrow> 32 word \<Rightarrow> bool" where "has w m \<longleftrightarrow> w AND m \<noteq> 0"

definition HasVideo :: "VideoInfo \<Rightarrow> bool" where "HasVideo vi \<longleftrightarrow> width vi \<noteq> 0"
definition HasAudio :: "VideoInfo \<Rightarrow> bool" where "HasAudio vi \<longleftrightarrow> audio_samples_per_second vi \<noteq> 0"
definition IsRGB :: "VideoInfo \<Rightarrow> bool" where "IsRGB vi \<longleftrightarrow> has (pixel_type vi) CS_BGR"
definition IsYUV :: "VideoInfo \<Rightarrow> bool" where "IsYUV vi \<longleftrightarrow> has (pixel_type vi) CS_YUV"
definition IsYUVA :: "VideoInfo \<Rightarrow> bool" where "IsYUVA vi \<longleftrightarrow> has (pixel_type vi) CS_YUVA"
definition IsPlanar :: "VideoInfo \<Rightarrow> bool" where "IsPlanar vi \<longleftrightarrow> has (pixel_type vi) CS_PLANAR"

definition IsRGB24 :: "VideoInfo \<Rightarrow> bool" where
  "IsRGB24 vi \<longleftrightarrow> pixel_type vi AND CS_BGR24 = CS_BGR24
     \<and> pixel_type vi AND CS_Sample_Bits_Mask = CS_Sample_Bits_8"
definition IsRGB32 :: "VideoInfo \<Rightarrow> bool" where
  "IsRGB32 vi \<longleftrightarrow> pixel_type vi AND CS_BGR32 = CS_BGR32
     \<and> pixel_type vi AND CS_Sample_Bits_Mask = CS_Sample_Bits_8"
definition IsRGB48 :: "VideoInfo \<Rightarrow> bool" where
  "IsRGB48 vi \<longleftrightarrow> pixel_type vi AND CS_BGR24 = CS_BGR24
     \<and> pixel_type vi AND CS_Sample_Bits_Mask = CS_Sample_Bits_16"
definition IsRGB64 :: "VideoInfo \<Rightarrow> bool" where
  "IsRGB64 vi \<longleftrightarrow> pixel_type vi AND CS_BGR32 = CS_BGR32
     \<and> pixel_type vi AND CS_Sample_Bits_Mask = CS_Sample_Bits_16"
definition IsYUY2 :: "VideoInfo \<Rightarrow> bool" where
  "IsYUY2 vi \<longleftrightarrow> pixel_type vi AND CS_YUY2 = CS_YUY2"

text \<open>The planar formats are compared without the order of the chroma planes.\<close>

definition planar_is :: "VideoInfo \<Rightarrow> 32 word \<Rightarrow> bool" where
  "planar_is vi cs \<longleftrightarrow> pixel_type vi AND CS_PLANAR_MASK = cs AND CS_PLANAR_FILTER"

definition IsYV24 :: "VideoInfo \<Rightarrow> bool" where "IsYV24 vi = planar_is vi CS_YV24"
definition IsYV16 :: "VideoInfo \<Rightarrow> bool" where "IsYV16 vi = planar_is vi CS_YV16"
definition IsYV12 :: "VideoInfo \<Rightarrow> bool" where "IsYV12 vi = planar_is vi CS_YV12"
definition IsY8 :: "VideoInfo \<Rightarrow> bool" where "IsY8 vi = planar_is vi CS_Y8"
definition IsYV411 :: "VideoInfo \<Rightarrow> bool" where "IsYV411 vi = planar_is vi CS_YV411"

definition family_is :: "VideoInfo \<Rightarrow> 32 word \<Rightarrow> bool" where
  "family_is vi cs \<longleftrightarrow>
     pixel_type vi AND CS_PLANAR_MASK AND NOT CS_Sample_Bits_Mask = cs AND CS_PLANAR_FILTER"

definition Is444 :: "VideoInfo \<Rightarrow> bool" where
  "Is444 vi \<longleftrightarrow> family_is vi CS_GENERIC_YUV444 \<or> family_is vi CS_GENERIC_YUVA444"
definition Is422 :: "VideoInfo \<Rightarrow> bool" where
  "Is422 vi \<longleftrightarrow> family_is vi CS_GENERIC_YUV422 \<or> family_is vi CS_GENERIC_YUVA422"
definition Is420 :: "VideoInfo \<Rightarrow> bool" where
  "Is420 vi \<longleftrightarrow> family_is vi CS_GENERIC_YUV420 \<or> family_is vi CS_GENERIC_YUVA420"
definition IsY :: "VideoInfo \<Rightarrow> bool" where "IsY vi = family_is vi CS_GENERIC_Y"

definition IsPlanarRGB :: "VideoInfo \<Rightarrow> bool" where
  "IsPlanarRGB vi \<longleftrightarrow> has (pixel_type vi) CS_PLANAR \<and> has (pixel_type vi) CS_BGR
     \<and> has (pixel_type vi) CS_RGB_TYPE"
definition IsPlanarRGBA :: "VideoInfo \<Rightarrow> bool" where
  "IsPlanarRGBA vi \<longleftrightarrow> has (pixel_type vi) CS_PLANAR \<and> has (pixel_type vi) CS_BGR
     \<and> has (pixel_type vi) CS_RGBA_TYPE"

definition IsColorSpace :: "VideoInfo \<Rightarrow> 32 word \<Rightarrow> bool" where
  "IsColorSpace vi cs =
     (if IsPlanar vi then pixel_type vi AND CS_PLANAR_MASK = cs AND CS_PLANAR_FILTER
      else if cs = CS_YUVA then cs AND CS_YUVA = CS_YUVA
      else if cs = CS_BGR then cs AND CS_BGR = CS_BGR
      else if cs = CS_YUV then cs AND CS_YUV = CS_YUV
      else if cs = CS_INTERLEAVED then cs AND CS_INTERLEAVED = CS_INTERLEAVED
      else pixel_type vi AND NOT CS_Sample_Bits_Mask AND cs = cs AND NOT CS_Sample_Bits_Mask
         \<and> pixel_type vi AND CS_Sample_Bits_Mask = cs AND CS_Sample_Bits_Mask)"

definition IsSameColorspace :: "VideoInfo \<Rightarrow> VideoInfo \<Rightarrow> bool" where
  "IsSameColorspace a b \<longleftrightarrow> pixel_type b = pixel_type a \<or> (IsYV12 a \<and> IsYV12 b)"

definition Is :: "VideoInfo \<Rightarrow> 32 word \<Rightarrow> bool" where
  "Is vi property \<longleftrightarrow> image_type vi AND property = property"
definition IsFieldBased :: "VideoInfo \<Rightarrow> bool" where
  "IsFieldBased vi = has (image_type vi) IT_FIELDBASED"
definition IsBFF :: "VideoInfo \<Rightarrow> bool" where "IsBFF vi = has (image_type vi) IT_BFF"
definition IsTFF :: "VideoInfo \<Rightarrow> bool" where "IsTFF vi = has (image_type vi) IT_TFF"
definition IsParityKnown :: "VideoInfo \<Rightarrow> bool" where
  "IsParityKnown vi \<longleftrightarrow> has (image_type vi) IT_FIELDBASED \<and> has (image_type vi) (IT_BFF OR IT_TFF)"

definition SetFieldBased :: "bool \<Rightarrow> VideoInfo \<Rightarrow> VideoInfo" where
  "SetFieldBased b vi = vi\<lparr>image_type :=
     (if b then image_type vi OR IT_FIELDBASED else image_type vi AND NOT IT_FIELDBASED)\<rparr>"
definition Set_prop :: "32 word \<Rightarrow> VideoInfo \<Rightarrow> VideoInfo" where
  "Set_prop property vi = vi\<lparr>image_type := image_type vi OR property\<rparr>"
definition Clear_prop :: "32 word \<Rightarrow> VideoInfo \<Rightarrow> VideoInfo" where
  "Clear_prop property vi = vi\<lparr>image_type := image_type vi AND NOT property\<rparr>"

section \<open>Components, planes and buffer sizes\<close>

definition NumComponents :: "VideoInfo \<Rightarrow> int" where
  "NumComponents vi =
     (if pixel_type vi = CS_UNKNOWN then 0
      else if pixel_type vi \<in> {CS_RAW32, CS_Y8, CS_Y10, CS_Y12, CS_Y14, CS_Y16, CS_Y32} then 1
      else if pixel_type vi \<in> {CS_BGR32, CS_BGR64} then 4
      else if IsYUVA vi \<or> IsPlanarRGBA vi then 4 else 3)"

text \<open>The sample size field, an index into the tables of bytes and bits.\<close>

definition sample_bits_index :: "VideoInfo \<Rightarrow> nat" where
  "sample_bits_index vi = unat (drop_bit 16 (pixel_type vi) AND 7)"

definition componentSizes :: "int list" where "componentSizes = [1, 2, 4, 0, 0, 2, 2, 2]"
definition componentBitSizes :: "int list" where "componentBitSizes = [8, 16, 32, 0, 0, 10, 12, 14]"

definition ComponentSize :: "VideoInfo \<Rightarrow> int" where
  "ComponentSize vi =
     (if IsPlanar vi then componentSizes ! sample_bits_index vi
      else if pixel_type vi = CS_UNKNOWN then 0
      else if pixel_type vi = CS_RAW32 then 4
      else if pixel_type vi \<in> {CS_BGR48, CS_BGR64} then 2 else 1)"

definition BitsPerComponent :: "VideoInfo \<Rightarrow> int" where
  "BitsPerComponent vi =
     (if pixel_type vi = CS_YUY2 then 8 else if pixel_type vi = CS_RAW32 then 32
      else componentBitSizes ! sample_bits_index vi)"

text \<open>Subsampling as a shift; the field holds the shift less one, modulo four.\<close>

definition full_plane :: "AvsPlane \<Rightarrow> bool" where
  "full_plane p \<longleftrightarrow> p = PLANAR_Y \<or> p = PLANAR_R \<or> p = PLANAR_G \<or> p = PLANAR_B \<or> p = PLANAR_A"

definition GetPlaneWidthSubsampling :: "VideoInfo \<Rightarrow> AvsPlane \<Rightarrow> (string, nat) result" where
  "GetPlaneWidthSubsampling vi p =
     (if full_plane p then Inr 0
      else if NumComponents vi = 1 then
        Inl ''Filter error: GetPlaneWidthSubsampling not available on greyscale pixel type.''
      else if p = PLANAR_U \<or> p = PLANAR_V then
        (if IsYUY2 vi then Inr 1
         else if IsPlanar vi then Inr (unat ((pixel_type vi + 1) AND 3))
         else Inl ''Filter error: GetPlaneWidthSubsampling called with unsupported pixel type.'')
      else Inl ''Filter error: GetPlaneWidthSubsampling called with unsupported plane.'')"

definition GetPlaneHeightSubsampling :: "VideoInfo \<Rightarrow> AvsPlane \<Rightarrow> (string, nat) result" where
  "GetPlaneHeightSubsampling vi p =
     (if full_plane p then Inr 0
      else if NumComponents vi = 1 then
        Inl ''Filter error: GetPlaneHeightSubsampling not available on greyscale pixel type.''
      else if p = PLANAR_U \<or> p = PLANAR_V then
        (if IsYUY2 vi then Inr 0
         else if IsPlanar vi then Inr (unat ((drop_bit 8 (pixel_type vi) + 1) AND 3))
         else Inl ''Filter error: GetPlaneHeightSubsampling called with unsupported pixel type.'')
      else Inl ''Filter error: GetPlaneHeightSubsampling called with unsupported plane.'')"

definition BitsPerPixel :: "VideoInfo \<Rightarrow> (string, int) result" where
  "BitsPerPixel vi =
     (let pt = pixel_type vi
      in if pt = CS_BGR24 then Inr 24 else if pt = CS_BGR32 then Inr 32
         else if pt = CS_YUY2 then Inr 16 else if pt = CS_Y8 then Inr 8
         else if pt \<in> {CS_Y10, CS_Y12, CS_Y14, CS_Y16} then Inr 16
         else if pt = CS_Y32 then Inr 32
         else if pt = CS_BGR48 then Inr 48 else if pt = CS_BGR64 then Inr 64
         else if IsPlanar vi then
           bind_r (if IsYUV vi \<or> IsYUVA vi
                   then bind_r (GetPlaneWidthSubsampling vi PLANAR_U) (\<lambda>w.
                        bind_r (GetPlaneHeightSubsampling vi PLANAR_U) (\<lambda>h. Inr (w + h)))
                   else Inr 0) (\<lambda>S.
           let fullSizePlaneCount = (if IsYUVA vi \<or> IsPlanarRGBA vi then 2 else 1)
           in Inr ((fullSizePlaneCount * 2 ^ S + 2) * (componentSizes ! sample_bits_index vi) * 8 div 2 ^ S))
         else Inr 0)"

definition IsVPlaneFirst :: "VideoInfo \<Rightarrow> bool" where
  "IsVPlaneFirst vi \<longleftrightarrow> NumComponents vi > 1 \<and> IsPlanar vi
     \<and> pixel_type vi AND (CS_VPlaneFirst OR CS_UPlaneFirst) = CS_VPlaneFirst"

definition BytesFromPixels :: "VideoInfo \<Rightarrow> int \<Rightarrow> (string, int) result" where
  "BytesFromPixels vi pixels =
     (if NumComponents vi > 1 \<and> IsPlanar vi
      then Inr (wrap32 (pixels * componentSizes ! sample_bits_index vi))
      else bind_r (BitsPerPixel vi) (\<lambda>b. Inr (wrap32 (pixels * (b div 8)))))"

text \<open>\<open>(r + FRAME_ALIGN - 1) & ~(FRAME_ALIGN - 1)\<close>: rounded up to the frame alignment.\<close>

definition align_row :: "int \<Rightarrow> int" where
  "align_row r = wrap32 (r + FRAME_ALIGN - 1) AND NOT (FRAME_ALIGN - 1)"

definition RowSize :: "VideoInfo \<Rightarrow> AvsPlane \<Rightarrow> (string, int) result" where
  "RowSize vi p = bind_r (BytesFromPixels vi (width vi)) (\<lambda>rowsize.
     let chroma = NumComponents vi > 1 \<and> IsPlanar vi \<and> \<not> IsPlanarRGB vi \<and> \<not> IsPlanarRGBA vi;
         rgb = IsPlanarRGB vi \<or> IsPlanarRGBA vi;
         alpha = NumComponents vi = 4 \<and> IsPlanar vi
     in if p \<in> {PLANAR_U, PLANAR_V} then
          (if chroma then bind_r (GetPlaneWidthSubsampling vi p) (\<lambda>s. Inr (rowsize div 2 ^ s)) else Inr 0)
        else if p \<in> {PLANAR_U_ALIGNED, PLANAR_V_ALIGNED} then
          (if chroma then bind_r (GetPlaneWidthSubsampling vi p) (\<lambda>s. Inr (align_row (rowsize div 2 ^ s)))
           else Inr 0)
        else if p = PLANAR_Y_ALIGNED then Inr (align_row rowsize)
        else if p \<in> {PLANAR_R, PLANAR_G, PLANAR_B} then
          Inr (if NumComponents vi > 1 \<and> rgb then rowsize else 0)
        else if p \<in> {PLANAR_R_ALIGNED, PLANAR_G_ALIGNED, PLANAR_B_ALIGNED} then
          Inr (if rgb then align_row rowsize else 0)
        else if p = PLANAR_A then Inr (if alpha then rowsize else 0)
        else if p = PLANAR_A_ALIGNED then Inr (if alpha then align_row rowsize else 0)
        else Inr rowsize)"

definition BMPSize :: "VideoInfo \<Rightarrow> (string, int) result" where
  "BMPSize vi =
     (if NumComponents vi > 1 \<and> IsPlanar vi then
        (if IsPlanarRGB vi \<or> IsPlanarRGBA vi then
           bind_r (RowSize vi PLANAR_G) (\<lambda>r.
             Inr (wrap32 (wrap32 ((wrap32 (r + 3) AND NOT 3) * height vi) * NumComponents vi)))
         else
           bind_r (RowSize vi PLANAR_Y) (\<lambda>r.
             let Ybytes = wrap32 ((wrap32 (r + 3) AND NOT 3) * height vi)
             in bind_r (GetPlaneWidthSubsampling vi PLANAR_U) (\<lambda>w.
                bind_r (GetPlaneHeightSubsampling vi PLANAR_U) (\<lambda>h.
                  Inr (wrap32 (Ybytes + wrap32 (Ybytes div 2 ^ (w + h) * 2)))))))
      else bind_r (RowSize vi DEFAULT_PLANE) (\<lambda>r. Inr (wrap32 (height vi * (wrap32 (r + 3) AND NOT 3)))))"

section \<open>Audio and the frame rate\<close>

definition BytesPerChannelSample :: "VideoInfo \<Rightarrow> int" where
  "BytesPerChannelSample vi =
     (if sample_type vi = SAMPLE_INT8 then 1 else if sample_type vi = SAMPLE_INT16 then 2
      else if sample_type vi = SAMPLE_INT24 then 3 else if sample_type vi = SAMPLE_INT32 then 4
      else if sample_type vi = SAMPLE_FLOAT then 4 else 0)"

definition BytesPerAudioSample :: "VideoInfo \<Rightarrow> int" where
  "BytesPerAudioSample vi = wrap32 (nchannels vi * BytesPerChannelSample vi)"

definition AudioChannels :: "VideoInfo \<Rightarrow> int" where
  "AudioChannels vi = (if HasAudio vi then nchannels vi else 0)"

definition IsSampleType :: "VideoInfo \<Rightarrow> 32 word \<Rightarrow> bool" where
  "IsSampleType vi testtype = has (sample_type vi) testtype"

definition AudioSamplesFromFrames :: "VideoInfo \<Rightarrow> int \<Rightarrow> int" where
  "AudioSamplesFromFrames vi frames =
     (if fps_numerator vi \<noteq> 0 \<and> HasVideo vi
      then cdiv (wrap64 (wrap64 (frames * audio_samples_per_second vi) * fps_denominator vi)) (fps_numerator vi)
      else 0)"

definition FramesFromAudioSamples :: "VideoInfo \<Rightarrow> int \<Rightarrow> int" where
  "FramesFromAudioSamples vi samples =
     (if fps_denominator vi \<noteq> 0 \<and> HasAudio vi
      then wrap32 (cdiv (wrap64 (samples * fps_numerator vi)) (wrap64 (fps_denominator vi * audio_samples_per_second vi)))
      else 0)"

text \<open>Division by a sample size of zero traps; that is \<open>None\<close>.\<close>

definition AudioSamplesFromBytes :: "VideoInfo \<Rightarrow> int \<Rightarrow> int option" where
  "AudioSamplesFromBytes vi bytes =
     (if \<not> HasAudio vi then Some 0
      else if BytesPerAudioSample vi = 0 then None
      else Some (wrap64 (cdiv bytes (BytesPerAudioSample vi))))"

definition BytesFromAudioSamples :: "VideoInfo \<Rightarrow> int \<Rightarrow> int" where
  "BytesFromAudioSamples vi samples = wrap64 (samples * BytesPerAudioSample vi)"

text \<open>The loop \<^verbatim>\<open>while (y) { t = x % y; x = y; y = t; }\<close> of the two frame rate setters.\<close>

function gcd_loop :: "int \<Rightarrow> int \<Rightarrow> int" where
  "gcd_loop x y = (if y \<le> 0 then x else gcd_loop y (x mod y))"
  by auto
termination by (relation "measure (\<lambda>(x, y). nat y)") auto

declare gcd_loop.simps [simp del]

definition SetFPS :: "int \<Rightarrow> int \<Rightarrow> VideoInfo \<Rightarrow> VideoInfo" where
  "SetFPS numerator denominator vi =
     (if numerator = 0 \<or> denominator = 0 then vi\<lparr>fps_numerator := 0, fps_denominator := 1\<rparr>
      else let x = gcd_loop numerator denominator
           in vi\<lparr>fps_numerator := numerator div x, fps_denominator := denominator div x\<rparr>)"

text \<open>\<^verbatim>\<open>while (temp & 0xffffffff80000000) { temp >>= 1; u++; }\<close>.\<close>

function excess_bits :: "int \<Rightarrow> nat" where
  "excess_bits temp = (if temp < 2 ^ 31 then 0 else Suc (excess_bits (temp div 2)))"
  by auto
termination by (relation "measure nat") auto

declare excess_bits.simps [simp del]

text \<open>
  \<open>None\<close> where C++ gives no result: the division by the greatest common divisor of two zeros,
  and the shift of a 32 bit one by 32 places.
\<close>

definition MulDivFPS :: "int \<Rightarrow> int \<Rightarrow> VideoInfo \<Rightarrow> VideoInfo option" where
  "MulDivFPS multiplier divisor vi =
     (let numerator = fps_numerator vi * multiplier;
          denominator = fps_denominator vi * divisor;
          x = gcd_loop numerator denominator
      in if x = 0 then None
         else let n = numerator div x; d = denominator div x; u = excess_bits (n OR d)
              in if u = 0 then Some (vi\<lparr>fps_numerator := n, fps_denominator := d\<rparr>)
                 else if u > 32 then None
                 else let round = 2 ^ (u - 1)
                      in Some (SetFPS ((n + round) mod 2 ^ 64 div 2 ^ u mod 2 ^ 32)
                                      ((d + round) mod 2 ^ 64 div 2 ^ u mod 2 ^ 32) vi))"

section \<open>The channel mask\<close>

definition IsChannelMaskKnown :: "VideoInfo \<Rightarrow> bool" where
  "IsChannelMaskKnown vi = has (image_type vi) IT_HAS_CHANNELMASK"

definition SetChannelMask :: "bool \<Rightarrow> 32 word \<Rightarrow> VideoInfo \<Rightarrow> VideoInfo" where
  "SetChannelMask known dwChannelMask vi =
     (let it = (if known then image_type vi OR IT_HAS_CHANNELMASK
                else image_type vi AND NOT IT_HAS_CHANNELMASK);
          m = (if known then dwChannelMask else 0);
          m' = (if has m MASK_SPEAKER_ALL then IT_SPEAKER_ALL
                else push_bit 4 (m AND MASK_SPEAKER_DEFINED))
      in vi\<lparr>image_type := (it AND NOT IT_SPEAKER_BITS_MASK) OR m'\<rparr>)"

definition GetChannelMask :: "VideoInfo \<Rightarrow> 32 word" where
  "GetChannelMask vi =
     (if \<not> IsChannelMaskKnown vi then 0
      else let m = image_type vi AND IT_SPEAKER_BITS_MASK
           in if m = IT_SPEAKER_ALL then MASK_SPEAKER_ALL else drop_bit 4 m)"

section \<open>Facts about the frame rate\<close>

lemma gcd_loop_gcd: "0 \<le> x \<Longrightarrow> 0 \<le> y \<Longrightarrow> gcd_loop x y = gcd x y"
proof (induction x y rule: gcd_loop.induct)
  case (1 x y)
  show ?case
  proof (cases "y \<le> 0")
    case True
    with "1.prems" show ?thesis by (simp add: gcd_loop.simps)
  next
    case False
    with "1.prems" have "gcd_loop y (x mod y) = gcd y (x mod y)"
      using "1.IH" by simp
    with False show ?thesis
      by (subst gcd_loop.simps) (simp add: gcd_red_int [symmetric])
  qed
qed

text \<open>Two numbers divided by their greatest common divisor.\<close>

lemma reduced_fraction:
  fixes n d :: int
  assumes "0 < n" "0 < d"
  shows "coprime (n div gcd n d) (d div gcd n d)" "(n div gcd n d) * d = n * (d div gcd n d)"
    "0 < n div gcd n d" "0 < d div gcd n d" "n div gcd n d \<le> n" "d div gcd n d \<le> d"
proof -
  from assms have g: "0 < gcd n d" by simp
  from assms show "coprime (n div gcd n d) (d div gcd n d)"
    by (intro div_gcd_coprime) auto
  obtain n' d' where nd: "n = n' * gcd n d" "d = d' * gcd n d"
    by (metis dvd_div_mult_self gcd_dvd1 gcd_dvd2)
  from g nd have q: "n div gcd n d = n'" "d div gcd n d = d'"
    by (metis less_numeral_extra(3) nonzero_mult_div_cancel_right)+
  with nd show "(n div gcd n d) * d = n * (d div gcd n d)"
    by (metis mult.assoc mult.commute)
  from assms nd g q show "0 < n div gcd n d" "0 < d div gcd n d"
    by (metis zero_less_mult_pos2)+
  from g have one: "1 \<le> gcd n d" by linarith
  from assms show "n div gcd n d \<le> n" "d div gcd n d \<le> d"
    using zdiv_mono2 [OF _ _ one, of n] zdiv_mono2 [OF _ _ one, of d] by simp_all
qed

lemma SetFPS_fps:
  assumes "0 < n" "0 < d"
  shows "fps_numerator (SetFPS n d vi) = n div gcd n d" "fps_denominator (SetFPS n d vi) = d div gcd n d"
  using assms by (simp_all add: SetFPS_def gcd_loop_gcd Let_def)

lemma SetFPS_le:
  assumes "0 \<le> n" "0 \<le> d" "n \<le> k" "d \<le> k" "1 \<le> k"
  shows "fps_numerator (SetFPS n d vi) \<le> k \<and> fps_denominator (SetFPS n d vi) \<le> k"
proof (cases "n = 0 \<or> d = 0")
  case True
  then show ?thesis using assms by (auto simp: SetFPS_def)
next
  case False
  with assms reduced_fraction(5,6) [of n d] show ?thesis by (simp add: SetFPS_fps)
qed

lemma excess_bits_bound: "temp < 2 ^ (31 + excess_bits temp)"
proof (induction temp rule: excess_bits.induct)
  case (1 temp)
  show ?case
  proof (cases "temp < 2 ^ 31")
    case True
    then show ?thesis by (simp add: excess_bits.simps)
  next
    case False
    with 1 have "temp div 2 < 2 ^ (31 + excess_bits (temp div 2))" by blast
    then have "temp < 2 * 2 ^ (31 + excess_bits (temp div 2))" by linarith
    with False show ?thesis by (subst excess_bits.simps) (simp add: power_add)
  qed
qed

lemma excess_bits_le: "temp < 2 ^ (31 + k) \<Longrightarrow> excess_bits temp \<le> k"
proof (induction k arbitrary: temp)
  case 0
  then show ?case by (simp add: excess_bits.simps)
next
  case (Suc k)
  show ?case
  proof (cases "temp < 2 ^ 31")
    case False
    from Suc.prems have "temp div 2 < 2 ^ (31 + k)" by (simp add: power_add)
    from Suc.IH [OF this] False show ?thesis by (subst excess_bits.simps) simp
  qed (simp add: excess_bits.simps)
qed

lemma excess_bits_0: "excess_bits temp = 0 \<longleftrightarrow> temp < 2 ^ 31"
  by (subst excess_bits.simps) simp

text \<open>A number of \<open>31 + u\<close> bits, rounded to \<open>u\<close> bits less.\<close>

lemma rounded_shift:
  fixes n :: int
  assumes "0 \<le> n" "n < 2 ^ (31 + u)" "0 < u" "u \<le> 32"
  shows "(n + 2 ^ (u - 1)) mod 2 ^ 64 div 2 ^ u mod 2 ^ 32 = (n + 2 ^ (u - 1)) div 2 ^ u"
    and "(n + 2 ^ (u - 1)) div 2 ^ u \<le> 2 ^ 31" and "0 \<le> (n + 2 ^ (u - 1)) div 2 ^ u"
proof -
  let ?m = "n + 2 ^ (u - 1)"
  have "(2::int) ^ (31 + u) \<le> 2 ^ 63" using assms(4) by (intro power_increasing) auto
  moreover have "(2::int) ^ (u - 1) \<le> 2 ^ 31" using assms(4) by (intro power_increasing) auto
  ultimately have small: "0 \<le> ?m" "?m < 2 ^ 64" using assms(1,2) by simp_all
  then show "0 \<le> ?m div 2 ^ u" by (simp add: pos_imp_zdiv_nonneg_iff)
  have "2 ^ (u - 1) < (2::int) ^ u" using assms(3) by (cases u) auto
  with assms(2) have "?m < (2 ^ 31 + 1) * 2 ^ u" unfolding power_add distrib_right by linarith
  then have le: "?m div 2 ^ u \<le> 2 ^ 31" by (intro int_div_le) auto
  then show "?m div 2 ^ u \<le> 2 ^ 31" .
  from small le show "?m mod 2 ^ 64 div 2 ^ u mod 2 ^ 32 = ?m div 2 ^ u"
    by (simp add: pos_imp_zdiv_nonneg_iff)
qed

text \<open>The frame rate fits \<open>31\<close> bits plus one value, and is exact when the reduced fraction fits.\<close>

lemma MulDivFPS_result:
  assumes ab: "a = fps_numerator vi * m" "b = fps_denominator vi * d"
    and "0 \<le> a" "0 \<le> b" "a < 2 ^ 63" "b < 2 ^ 63" "a \<noteq> 0 \<or> b \<noteq> 0"
  shows "\<exists>vi'. MulDivFPS m d vi = Some vi' \<and> fps_numerator vi' \<le> 2 ^ 31 \<and> fps_denominator vi' \<le> 2 ^ 31
     \<and> (a div gcd a b < 2 ^ 31 \<longrightarrow> b div gcd a b < 2 ^ 31 \<longrightarrow>
        fps_numerator vi' = a div gcd a b \<and> fps_denominator vi' = b div gcd a b)"
proof -
  let ?n = "a div gcd a b" and ?d = "b div gcd a b"
  let ?u = "excess_bits (?n OR ?d)"
  from assms(7) have g: "0 < gcd a b" by simp
  then have one: "1 \<le> gcd a b" by linarith
  have "?n \<le> a" "?d \<le> b" using zdiv_mono2 [OF assms(3) _ one] zdiv_mono2 [OF assms(4) _ one] by simp_all
  with assms(3-6) g have nd: "0 \<le> ?n" "?n < 2 ^ 63" "0 \<le> ?d" "?d < 2 ^ 63"
    by (simp_all add: pos_imp_zdiv_nonneg_iff)
  then have or63: "?n OR ?d < 2 ^ 63" by (intro OR_upper) auto
  then have u: "?u \<le> 32" by (intro excess_bits_le) simp
  have or_ge: "?n \<le> ?n OR ?d" "?d \<le> ?n OR ?d"
    using nd or_greater_eq [of ?d ?n] or_greater_eq [of ?n ?d] by (simp_all add: or.commute)
  have n31: "?n < 2 ^ (31 + ?u)" "?d < 2 ^ (31 + ?u)"
    using or_ge excess_bits_bound [of "?n OR ?d"] by linarith+
  have eq: "MulDivFPS m d vi = (if ?u = 0 then Some (vi\<lparr>fps_numerator := ?n, fps_denominator := ?d\<rparr>)
      else Some (SetFPS ((?n + 2 ^ (?u - 1)) mod 2 ^ 64 div 2 ^ ?u mod 2 ^ 32)
                        ((?d + 2 ^ (?u - 1)) mod 2 ^ 64 div 2 ^ ?u mod 2 ^ 32) vi))"
    using assms(3,4,7) u by (simp add: MulDivFPS_def gcd_loop_gcd Let_def flip: ab) blast
  show ?thesis
  proof (cases "?u = 0")
    case True
    with n31 show ?thesis by (simp add: eq)
  next
    case False
    have "\<not> (?n < 2 ^ 31 \<and> ?d < 2 ^ 31)"
    proof
      assume "?n < 2 ^ 31 \<and> ?d < 2 ^ 31"
      with nd have "?n OR ?d < 2 ^ 31" by (intro OR_upper) auto
      with False show False by (simp add: excess_bits_0)
    qed
    moreover from False u have u': "0 < ?u" "?u \<le> 32" by simp_all
    note rn = rounded_shift [OF nd(1) n31(1) u'] and rd = rounded_shift [OF nd(3) n31(2) u']
    from False have "MulDivFPS m d vi
        = Some (SetFPS ((?n + 2 ^ (?u - 1)) div 2 ^ ?u) ((?d + 2 ^ (?u - 1)) div 2 ^ ?u) vi)"
      unfolding eq rn(1) rd(1) by (simp only: if_False)
    moreover note SetFPS_le [OF rn(3) rd(3) rn(2) rd(2), of vi]
    ultimately show ?thesis by auto
  qed
qed

section \<open>Frames and audio samples\<close>

text \<open>A clip description whose rates are positive, with more samples than frames a second.\<close>

definition rates_ok :: "VideoInfo \<Rightarrow> bool" where
  "rates_ok vi \<longleftrightarrow> HasVideo vi \<and> 0 < fps_numerator vi \<and> 0 < fps_denominator vi
     \<and> fps_denominator vi < 2 ^ 32 \<and> 0 < audio_samples_per_second vi \<and> is_int32 (audio_samples_per_second vi)
     \<and> fps_numerator vi < fps_denominator vi * audio_samples_per_second vi"

text \<open>No product of the conversion of \<open>n\<close> frames leaves 64 bits.\<close>

definition frames_fit :: "VideoInfo \<Rightarrow> int \<Rightarrow> bool" where
  "frames_fit vi n \<longleftrightarrow> 0 \<le> n \<and> is_int32 n
     \<and> n * audio_samples_per_second vi * fps_denominator vi + fps_numerator vi \<le> INT64_MAX"

lemma is_int64I: "0 \<le> i \<Longrightarrow> i \<le> INT64_MAX \<Longrightarrow> is_int64 i"
  by (simp add: is_int64_def int_limits)

lemma AudioSamplesFromFrames_div:
  assumes "rates_ok vi" "frames_fit vi n"
  shows "AudioSamplesFromFrames vi n
     = (n * audio_samples_per_second vi * fps_denominator vi) div fps_numerator vi"
proof -
  let ?p = "n * audio_samples_per_second vi"
  from assms have pos: "0 \<le> ?p" "1 \<le> fps_denominator vi" "0 < fps_numerator vi"
    by (auto simp: rates_ok_def frames_fit_def)
  then have "?p \<le> ?p * fps_denominator vi" by (simp add: mult_le_cancel_left1)
  with assms pos have "is_int64 ?p" "is_int64 (?p * fps_denominator vi)"
    by (auto intro!: is_int64I simp: frames_fit_def)
  with assms pos show ?thesis
    by (simp add: AudioSamplesFromFrames_def rates_ok_def)
qed

lemma AudioSamplesFromFrames_bounds:
  assumes "rates_ok vi" "frames_fit vi n"
  shows "AudioSamplesFromFrames vi n * fps_numerator vi \<le> n * (fps_denominator vi * audio_samples_per_second vi)"
    and "n * (fps_denominator vi * audio_samples_per_second vi) < (AudioSamplesFromFrames vi n + 1) * fps_numerator vi"
    and "0 \<le> AudioSamplesFromFrames vi n"
proof -
  let ?f = "fps_numerator vi"
  define x where x: "x = n * audio_samples_per_second vi * fps_denominator vi"
  from assms have pos: "0 < ?f" "0 \<le> x" by (auto simp: x rates_ok_def frames_fit_def)
  have "n * (fps_denominator vi * audio_samples_per_second vi) = x" by (simp add: x)
  with pos int_div_bounds [of ?f x] show "AudioSamplesFromFrames vi n * ?f \<le> n * (fps_denominator vi * audio_samples_per_second vi)"
    "n * (fps_denominator vi * audio_samples_per_second vi) < (AudioSamplesFromFrames vi n + 1) * ?f"
    "0 \<le> AudioSamplesFromFrames vi n"
    unfolding AudioSamplesFromFrames_div [OF assms] x [symmetric] by (simp_all add: pos_imp_zdiv_nonneg_iff)
qed

end
