(* ===== verification/Video_Format.thy ===== *)
theory Video_Format
  imports Video_Info
begin

text \<open>
  What the member functions of \<^verbatim>\<open>VideoInfo\<close> compute: planar pixel types read back as families of
  planes, frame rates stay in lowest terms, frames and samples convert back and forth, channel
  masks are kept.
\<close>

unbundle bit_operations_syntax

section \<open>Planar formats as families of planes\<close>

text \<open>
  A planar format is a family, which fixes the planes and their subsampling (shifts in width and
  height), and a sample depth.  The generic codes of the header, with the bits of the depth, must
  read back as exactly that.
\<close>

datatype family = F_YUV444 | F_YUV422 | F_YUV420 | F_Y | F_RGBP | F_RGBAP
  | F_YUVA444 | F_YUVA422 | F_YUVA420

datatype depth = D8 | D10 | D12 | D14 | D16 | D32

primrec family_code :: "family \<Rightarrow> 32 word" where
  "family_code F_YUV444 = CS_GENERIC_YUV444"
| "family_code F_YUV422 = CS_GENERIC_YUV422"
| "family_code F_YUV420 = CS_GENERIC_YUV420"
| "family_code F_Y = CS_GENERIC_Y"
| "family_code F_RGBP = CS_GENERIC_RGBP"
| "family_code F_RGBAP = CS_GENERIC_RGBAP"
| "family_code F_YUVA444 = CS_GENERIC_YUVA444"
| "family_code F_YUVA422 = CS_GENERIC_YUVA422"
| "family_code F_YUVA420 = CS_GENERIC_YUVA420"

primrec depth_code :: "depth \<Rightarrow> 32 word" where
  "depth_code D8 = CS_Sample_Bits_8"
| "depth_code D10 = CS_Sample_Bits_10"
| "depth_code D12 = CS_Sample_Bits_12"
| "depth_code D14 = CS_Sample_Bits_14"
| "depth_code D16 = CS_Sample_Bits_16"
| "depth_code D32 = CS_Sample_Bits_32"

primrec depth_bits :: "depth \<Rightarrow> int" where
  "depth_bits D8 = 8" | "depth_bits D10 = 10" | "depth_bits D12 = 12" | "depth_bits D14 = 14"
| "depth_bits D16 = 16" | "depth_bits D32 = 32"

definition depth_bytes :: "depth \<Rightarrow> int" where
  "depth_bytes d = (depth_bits d + 7) div 8"

text \<open>The planes of a family, first luma or the colours, then chroma and alpha.\<close>

primrec family_planes :: "family \<Rightarrow> (AvsPlane \<times> nat \<times> nat) list" where
  "family_planes F_YUV444 = [(PLANAR_Y, 0, 0), (PLANAR_U, 0, 0), (PLANAR_V, 0, 0)]"
| "family_planes F_YUV422 = [(PLANAR_Y, 0, 0), (PLANAR_U, 1, 0), (PLANAR_V, 1, 0)]"
| "family_planes F_YUV420 = [(PLANAR_Y, 0, 0), (PLANAR_U, 1, 1), (PLANAR_V, 1, 1)]"
| "family_planes F_Y = [(PLANAR_Y, 0, 0)]"
| "family_planes F_RGBP = [(PLANAR_G, 0, 0), (PLANAR_B, 0, 0), (PLANAR_R, 0, 0)]"
| "family_planes F_RGBAP = [(PLANAR_G, 0, 0), (PLANAR_B, 0, 0), (PLANAR_R, 0, 0), (PLANAR_A, 0, 0)]"
| "family_planes F_YUVA444 = [(PLANAR_Y, 0, 0), (PLANAR_U, 0, 0), (PLANAR_V, 0, 0), (PLANAR_A, 0, 0)]"
| "family_planes F_YUVA422 = [(PLANAR_Y, 0, 0), (PLANAR_U, 1, 0), (PLANAR_V, 1, 0), (PLANAR_A, 0, 0)]"
| "family_planes F_YUVA420 = [(PLANAR_Y, 0, 0), (PLANAR_U, 1, 1), (PLANAR_V, 1, 1), (PLANAR_A, 0, 0)]"

definition planar_code :: "family \<Rightarrow> depth \<Rightarrow> 32 word" where
  "planar_code f d = family_code f OR depth_code d"

text \<open>Average bits of a pixel: a plane holds one sample for \<open>2 ^ (w + h)\<close> pixels.\<close>

definition planes_bits :: "family \<Rightarrow> depth \<Rightarrow> int" where
  "planes_bits f d = sum_list (map (\<lambda>(p, w, h). 4 div 2 ^ (w + h)) (family_planes f)) * depth_bytes d * 8 div 4"

lemmas format_defs = planar_code_def NumComponents_def ComponentSize_def BitsPerComponent_def
  sample_bits_index_def componentSizes_def componentBitSizes_def IsPlanar_def IsYUV_def IsYUVA_def
  IsPlanarRGB_def IsPlanarRGBA_def has_def full_plane_def IsYUY2_def depth_bytes_def

lemma planar_components:
  assumes "pixel_type vi = planar_code f d"
  shows "NumComponents vi = int (length (family_planes f))" "BitsPerComponent vi = depth_bits d"
    "ComponentSize vi = depth_bytes d" "IsPlanar vi"
  using assms by (cases f; cases d; simp add: format_defs cs_values)+

lemma planar_subsampling:
  assumes "pixel_type vi = planar_code f d" "(p, w, h) \<in> set (family_planes f)"
  shows "GetPlaneWidthSubsampling vi p = Inr w" "GetPlaneHeightSubsampling vi p = Inr h"
  using assms unfolding GetPlaneWidthSubsampling_def GetPlaneHeightSubsampling_def
  by (cases f; cases d; auto simp: format_defs cs_values)+

lemma planar_bits:
  assumes "pixel_type vi = planar_code f d"
  shows "BitsPerPixel vi = Inr (planes_bits f d)"
  using assms unfolding BitsPerPixel_def GetPlaneWidthSubsampling_def GetPlaneHeightSubsampling_def planes_bits_def
  by (cases f; cases d; simp add: format_defs cs_values)

lemma planar_code_fields:
  "planar_code f d AND NOT CS_Sample_Bits_Mask = family_code f"
  "planar_code f d AND CS_Sample_Bits_Mask = depth_code d"
  by (cases f; cases d; simp add: planar_code_def cs_values)+

lemma family_code_inject: "family_code f = family_code f' \<longleftrightarrow> f = f'"
  by (cases f; cases f'; simp add: cs_values)

lemma depth_code_inject: "depth_code d = depth_code d' \<longleftrightarrow> d = d'"
  by (cases d; cases d'; simp add: cs_values)

text \<open>
  C28: The pixel type word of a planar format, a family of planes with a sample depth, reads back
  as that format: number of components, bits and bytes of a component, subsampling of every plane
  and the bits of a pixel are those of the planes, and two formats never share a code.
\<close>

theorem planar_format_roundtrip:
  assumes "pixel_type vi = planar_code f d"
  shows "NumComponents vi = int (length (family_planes f)) \<and> BitsPerComponent vi = depth_bits d
    \<and> ComponentSize vi = depth_bytes d \<and> BitsPerPixel vi = Inr (planes_bits f d)
    \<and> list_all (\<lambda>(p, w, h). GetPlaneWidthSubsampling vi p = Inr w \<and> GetPlaneHeightSubsampling vi p = Inr h)
        (family_planes f)
    \<and> (planar_code f d = planar_code f' d' \<longleftrightarrow> f = f' \<and> d = d')"
proof -
  have "planar_code f d = planar_code f' d' \<longleftrightarrow> f = f' \<and> d = d'"
    using planar_code_fields [of f d] planar_code_fields [of f' d']
      family_code_inject [of f f'] depth_code_inject [of d d'] by metis
  then show ?thesis
    using planar_components [OF assms] planar_bits [OF assms] planar_subsampling [OF assms]
    by (auto simp: list_all_iff)
qed

definition blank_vi :: VideoInfo where
  "blank_vi = \<lparr>width = 0, height = 0, fps_numerator = 0, fps_denominator = 0, num_frames = 0,
     pixel_type = 0, audio_samples_per_second = 0, sample_type = 0, num_audio_samples = 0,
     nchannels = 0, image_type = 0\<rparr>"

theorem planar_format_roundtrip_witness:
  "NumComponents (blank_vi\<lparr>pixel_type := planar_code F_YUVA420 D10\<rparr>) = 4
    \<and> BitsPerPixel (blank_vi\<lparr>pixel_type := planar_code F_YUVA420 D10\<rparr>) = Inr 40"
  using planar_format_roundtrip [of "blank_vi\<lparr>pixel_type := planar_code F_YUVA420 D10\<rparr>" F_YUVA420 D10 F_Y D8]
  by (simp add: planes_bits_def depth_bytes_def)

text \<open>
  The aligned row size of a chroma plane cannot be asked for: \<^verbatim>\<open>RowSize\<close> passes the aligned
  plane name on to \<^verbatim>\<open>GetPlaneWidthSubsampling\<close>, which knows only the plain chroma planes, and the
  call ends in an error for every planar format that has chroma planes.
\<close>

theorem RowSize_aligned_chroma:
  assumes "pixel_type vi = planar_code f d" "(PLANAR_U, w, h) \<in> set (family_planes f)"
    "p = PLANAR_U_ALIGNED \<or> p = PLANAR_V_ALIGNED"
  shows "RowSize vi p = Inl ''Filter error: GetPlaneWidthSubsampling called with unsupported plane.''"
proof -
  have "NumComponents vi > 1" "NumComponents vi \<noteq> 1" "IsPlanar vi"
    using assms(2) by (cases f; simp add: planar_components [OF assms(1)])+
  moreover have "\<not> IsPlanarRGB vi" "\<not> IsPlanarRGBA vi"
    using assms(1,2) by (cases f; cases d; simp add: format_defs cs_values)+
  ultimately show ?thesis
    using assms(3) unfolding RowSize_def BytesFromPixels_def GetPlaneWidthSubsampling_def
    by (auto simp: full_plane_def Let_def)
qed

theorem RowSize_aligned_chroma_witness:
  "RowSize (blank_vi\<lparr>width := 640, pixel_type := CS_YV12\<rparr>) PLANAR_U_ALIGNED
    = Inl ''Filter error: GetPlaneWidthSubsampling called with unsupported plane.''"
  using RowSize_aligned_chroma [of "blank_vi\<lparr>width := 640, pixel_type := CS_YV12\<rparr>" F_YUV420 D8 1 1 PLANAR_U_ALIGNED]
  by (simp add: planar_code_def cs_values)

text \<open>
  A description that is not planar claims every colour property it is asked about:
  \<^verbatim>\<open>IsColorSpace\<close> tests the requested flag against itself instead of the pixel type.
\<close>

theorem IsColorSpace_not_planar:
  assumes "\<not> IsPlanar vi"
  shows "IsColorSpace vi CS_BGR \<and> IsColorSpace vi CS_YUV \<and> IsColorSpace vi CS_YUVA \<and> IsColorSpace vi CS_INTERLEAVED"
  using assms by (simp add: IsColorSpace_def cs_values)

theorem IsColorSpace_not_planar_witness:
  "IsColorSpace (blank_vi\<lparr>pixel_type := CS_YUY2\<rparr>) CS_BGR \<and> \<not> IsRGB (blank_vi\<lparr>pixel_type := CS_YUY2\<rparr>)"
  using IsColorSpace_not_planar [of "blank_vi\<lparr>pixel_type := CS_YUY2\<rparr>"]
  by (simp add: IsPlanar_def IsRGB_def has_def cs_values)

section \<open>Properties of the frame rate, the samples and the channel mask\<close>

text \<open>
  Setting the frame rate stores the given fraction in lowest terms, or \<open>0/1\<close> when either
  part is zero, and changes nothing else.
\<close>

theorem SetFPS_lowest_terms:
  assumes "0 \<le> n" "0 \<le> d"
  shows "(let fn = fps_numerator (SetFPS n d vi); fd = fps_denominator (SetFPS n d vi)
          in SetFPS n d vi = vi\<lparr>fps_numerator := fn, fps_denominator := fd\<rparr>
           \<and> (if n = 0 \<or> d = 0 then fn = 0 \<and> fd = 1
              else 0 < fn \<and> 0 < fd \<and> coprime fn fd \<and> fn * d = n * fd))"
proof (cases "n = 0 \<or> d = 0")
  case True
  then show ?thesis by (auto simp: SetFPS_def)
next
  case False
  with assms have "0 < n" "0 < d" by auto
  with False reduced_fraction [of n d] show ?thesis
    by (simp add: SetFPS_fps) (simp add: SetFPS_def gcd_loop_gcd Let_def)
qed

theorem SetFPS_lowest_terms_witness:
  "fps_numerator (SetFPS 50000 2002 blank_vi) * 2002 = 50000 * fps_denominator (SetFPS 50000 2002 blank_vi)
    \<and> coprime (fps_numerator (SetFPS 50000 2002 blank_vi)) (fps_denominator (SetFPS 50000 2002 blank_vi))"
  using SetFPS_lowest_terms [of 50000 2002 blank_vi] by (simp add: Let_def)

text \<open>
  The range protected multiplication of the frame rate gives a result whenever the two
  products are below \<open>2 ^ 63\<close> and not both zero; the parts of the result are at most \<open>2 ^ 31\<close>, and
  the result is the exact product in lowest terms whenever that has parts below \<open>2 ^ 31\<close>.
\<close>

theorem MulDivFPS_in_range:
  assumes "a = fps_numerator vi * m" "b = fps_denominator vi * d"
    "0 \<le> a" "0 \<le> b" "a < 2 ^ 63" "b < 2 ^ 63" "a \<noteq> 0 \<or> b \<noteq> 0"
  shows "\<exists>vi'. MulDivFPS m d vi = Some vi' \<and> fps_numerator vi' \<le> 2 ^ 31 \<and> fps_denominator vi' \<le> 2 ^ 31
     \<and> (a div gcd a b < 2 ^ 31 \<longrightarrow> b div gcd a b < 2 ^ 31 \<longrightarrow>
        fps_numerator vi' = a div gcd a b \<and> fps_denominator vi' = b div gcd a b)"
  using assms by (rule MulDivFPS_result)

theorem MulDivFPS_in_range_witness:
  "\<exists>vi'. MulDivFPS 4 3 (blank_vi\<lparr>fps_numerator := 24000, fps_denominator := 1001\<rparr>) = Some vi'
     \<and> fps_numerator vi' = 32000 \<and> fps_denominator vi' = 1001"
proof -
  have g: "gcd 96000 (3003::int) = 3" by code_simp
  then show ?thesis
  using MulDivFPS_in_range [of 96000 "blank_vi\<lparr>fps_numerator := 24000, fps_denominator := 1001\<rparr>" 4 3003 3]
  by (auto simp: g)
qed

text \<open>
  The protection loses the rate when only one part is large: the other one is rounded to zero
  and the clip gets \<open>0\<close> frames per second.
\<close>

theorem MulDivFPS_loses_rate:
  "map_option (\<lambda>vi. (fps_numerator vi, fps_denominator vi))
     (MulDivFPS 1000 1 (blank_vi\<lparr>fps_numerator := 2147483647, fps_denominator := 1\<rparr>)) = Some (0, 1)"
  by code_simp

text \<open>
  Frames and audio samples convert back and forth: a number of frames, turned into samples and
  back, loses at most one frame, and one sample more gives back exactly that number of frames,
  as long as no product leaves 64 bits and a frame is longer than a sample.
\<close>

theorem frames_samples_roundtrip:
  assumes "rates_ok vi" "frames_fit vi n"
  shows "n - 1 \<le> FramesFromAudioSamples vi (AudioSamplesFromFrames vi n)
    \<and> FramesFromAudioSamples vi (AudioSamplesFromFrames vi n) \<le> n
    \<and> FramesFromAudioSamples vi (AudioSamplesFromFrames vi n + 1) = n"
proof -
  let ?A = "AudioSamplesFromFrames vi n" and ?f = "fps_numerator vi"
  let ?D = "fps_denominator vi * audio_samples_per_second vi"
  note A = AudioSamplesFromFrames_bounds [OF assms]
  from assms have f: "0 < ?f" "?f < ?D" and n: "0 \<le> n" "n \<le> INT_MAX" and fit: "n * ?D + ?f \<le> INT64_MAX"
    by (auto simp: rates_ok_def frames_fit_def is_int32_def ac_simps)
  have D: "0 < ?D" "?D \<le> INT64_MAX"
  proof -
    from assms(1) have "?D < 2 ^ 32 * 2 ^ 31"
      by (intro mult_strict_mono) (auto simp: rates_ok_def is_int32_def int_limits)
    then show "?D \<le> INT64_MAX" by (simp add: int_limits)
  qed (use f in linarith)
  have up: "(?A + 1) * ?f \<le> n * ?D + ?f" and low: "(n - 1) * ?D \<le> ?A * ?f" "?A * ?f < (n + 1) * ?D"
    and ge: "0 \<le> ?A * ?f" "0 \<le> (?A + 1) * ?f"
    using A f n by (simp_all add: distrib_right left_diff_distrib)
  then have up': "(?A + 1) * ?f < (n + 1) * ?D" using f by (simp add: distrib_right)
  have F: "FramesFromAudioSamples vi s = s * ?f div ?D"
    if "0 \<le> s * ?f" "s * ?f \<le> n * ?D + ?f" "s * ?f < (n + 1) * ?D" for s
  proof -
    have "is_int64 (s * ?f)" "is_int64 ?D" using that fit D by (auto intro!: is_int64I)
    moreover have "0 \<le> s * ?f div ?D" using that(1) D by (simp only: pos_imp_zdiv_nonneg_iff)
    then have "is_int32 (s * ?f div ?D)"
      using int_div_le [OF D(1) that(3)] n by (simp add: is_int32_def int_limits)
    ultimately show ?thesis
      using assms(1) that D by (simp add: FramesFromAudioSamples_def rates_ok_def HasAudio_def)
  qed
  have "FramesFromAudioSamples vi ?A = ?A * ?f div ?D"
    by (rule F [OF ge(1) _ low(2)]) (use A(1) f in linarith)
  moreover have "FramesFromAudioSamples vi (?A + 1) = (?A + 1) * ?f div ?D"
    by (rule F [OF ge(2) up up'])
  moreover have "n - 1 \<le> ?A * ?f div ?D" "?A * ?f div ?D \<le> n" "(?A + 1) * ?f div ?D \<le> n" "n \<le> (?A + 1) * ?f div ?D"
    using D low up' A(2) by (auto intro!: int_div_le int_le_div)
  ultimately show ?thesis by simp
qed

theorem frames_samples_roundtrip_witness:
  "FramesFromAudioSamples (blank_vi\<lparr>width := 640, fps_numerator := 30000, fps_denominator := 1001,
       audio_samples_per_second := 44100\<rparr>)
     (AudioSamplesFromFrames (blank_vi\<lparr>width := 640, fps_numerator := 30000, fps_denominator := 1001,
       audio_samples_per_second := 44100\<rparr>) 100 + 1) = 100"
  using frames_samples_roundtrip [of "blank_vi\<lparr>width := 640, fps_numerator := 30000, fps_denominator := 1001,
       audio_samples_per_second := 44100\<rparr>" 100]
  by (simp add: rates_ok_def frames_fit_def HasVideo_def is_int32_def int_limits)

text \<open>The fields of the image type: flags in bits 0 to 3, the speakers in bits 4 to 22.\<close>

lemma speaker_masks:
  "MASK_SPEAKER_DEFINED = mask 18" "IT_SPEAKER_BITS_MASK = push_bit 4 (mask 19)"
  by code_simp+

lemma speakers_19: "(0x40000 :: 32 word) AND mask 19 = 0x40000" "(x AND mask 18) AND mask 19 = (x AND mask 18 :: 32 word)"
proof -
  show "(0x40000 :: 32 word) AND mask 19 = 0x40000" by code_simp
  show "(x AND mask 18) AND mask 19 = (x AND mask 18 :: 32 word)"
    by (rule bit_word_eqI) (auto simp: bit_simps)
qed

lemma speakers_stored:
  fixes y z :: "32 word"
  assumes "z AND mask 19 = z"
  shows "((y AND NOT (push_bit 4 (mask 19))) OR push_bit 4 z) AND push_bit 4 (mask 19) = push_bit 4 z"
    and "drop_bit 4 (push_bit 4 z) = z"
proof -
  have low: "n < 19" if "bit z n" for n
  proof -
    from that assms have "bit (z AND mask 19) n" by simp
    then show ?thesis by (simp add: bit_simps)
  qed
  show "((y AND NOT (push_bit 4 (mask 19))) OR push_bit 4 z) AND push_bit 4 (mask 19) = push_bit 4 z"
    by (rule bit_word_eqI) (auto simp: bit_simps dest: low)
  show "drop_bit 4 (push_bit 4 z) = z"
    by (rule bit_word_eqI) (auto simp: bit_simps dest: low)
qed

lemma flag_bits:
  fixes w :: "32 word"
  shows "has (if b then w OR push_bit k 1 else w AND NOT (push_bit k 1)) (push_bit j 1)
    = (if j = k then b \<and> k < 32 else has w (push_bit j 1))"
proof -
  have "has v (push_bit j 1) \<longleftrightarrow> j < 32 \<and> bit v j" for v :: "32 word"
  proof -
    have "v AND push_bit j 1 = (if j < 32 \<and> bit v j then push_bit j 1 else 0)"
      by (rule bit_word_eqI) (auto simp: bit_simps)
    moreover have "push_bit j (1 :: 32 word) = 0 \<longleftrightarrow> \<not> j < 32"
      by (simp flip: bit_exp_iff) (auto simp: push_bit_eq_mult exp_eq_zero_iff)
    ultimately show ?thesis by (auto simp: has_def)
  qed
  then show ?thesis by (auto simp: bit_simps)
qed

lemma low_flags_kept:
  fixes y z :: "32 word"
  assumes "k < 4"
  shows "((y AND NOT (push_bit 4 (mask 19))) OR push_bit 4 z) AND push_bit k 1 = y AND push_bit k 1"
  by (rule bit_word_eqI) (use assms in \<open>auto simp: bit_simps\<close>)

text \<open>
  A channel mask that is stored is read back, reduced to the speakers that have a bit, or as
  the mask for all speakers; a mask marked unknown reads as zero, and the other flags are kept.
\<close>

theorem channel_mask_roundtrip:
  "GetChannelMask (SetChannelMask known m vi) =
     (if \<not> known then 0 else if has m MASK_SPEAKER_ALL then MASK_SPEAKER_ALL else m AND MASK_SPEAKER_DEFINED)
   \<and> IsChannelMaskKnown (SetChannelMask known m vi) = known
   \<and> IsFieldBased (SetChannelMask known m vi) = IsFieldBased vi
   \<and> IsBFF (SetChannelMask known m vi) = IsBFF vi \<and> IsTFF (SetChannelMask known m vi) = IsTFF vi"
proof -
  let ?x = "if known then image_type vi OR IT_HAS_CHANNELMASK else image_type vi AND NOT IT_HAS_CHANNELMASK"
  define z where "z = (if known \<and> has m MASK_SPEAKER_ALL then 0x40000
      else if known then m AND mask 18 else 0)"
  have it: "image_type (SetChannelMask known m vi) = (?x AND NOT (push_bit 4 (mask 19))) OR push_bit 4 z"
    by (simp add: SetChannelMask_def Let_def has_def z_def IT_SPEAKER_ALL_def speaker_masks)
  have z19: "z AND mask 19 = z" by (simp add: z_def speakers_19)
  have flag: "has (image_type (SetChannelMask known m vi)) (push_bit k 1) = has ?x (push_bit k 1)" if "k < 4" for k
    unfolding it has_def low_flags_kept [OF that] ..
  have flags: "IT_HAS_CHANNELMASK = push_bit 3 1" "IT_FIELDBASED = push_bit 2 1" "IT_BFF = push_bit 0 1" "IT_TFF = push_bit 1 1"
    by (simp_all add: mask_defs)
  have known: "IsChannelMaskKnown (SetChannelMask known m vi) = known"
    unfolding IsChannelMaskKnown_def flags by (subst flag; simp only: flags flag_bits; simp)
  have "IsFieldBased (SetChannelMask known m vi) = IsFieldBased vi"
    "IsBFF (SetChannelMask known m vi) = IsBFF vi" "IsTFF (SetChannelMask known m vi) = IsTFF vi"
    unfolding IsFieldBased_def IsBFF_def IsTFF_def flags
    by (subst flag; simp only: flags flag_bits; simp)+
  moreover have "push_bit 4 z = IT_SPEAKER_ALL \<longleftrightarrow> known \<and> has m MASK_SPEAKER_ALL"
  proof -
    have "push_bit 4 z = IT_SPEAKER_ALL \<longleftrightarrow> z = 0x40000"
      using speakers_stored(2) [OF z19] speakers_stored(2) [OF speakers_19(1)] by (metis IT_SPEAKER_ALL_def)
    moreover have "m AND mask 18 \<noteq> 0x40000"
    proof
      assume "m AND mask 18 = 0x40000"
      then have "bit (m AND mask 18) 18 = bit (0x40000 :: 32 word) 18" by simp
      then show False by (simp add: bit_simps)
    qed
    ultimately show ?thesis by (simp add: z_def)
  qed
  ultimately show ?thesis
    using known unfolding GetChannelMask_def it
    by (simp add: speakers_stored [OF z19] speaker_masks) (simp add: z_def)
qed

end
