(* ===== verification/Edit_Filters.thy ===== *)
theory Edit_Filters
  imports Video_Info Fp_Arith
begin

text \<open>
  The editing filters of \<^verbatim>\<open>filters/edit.cpp\<close>: \<^verbatim>\<open>Trim\<close>, \<^verbatim>\<open>AudioTrim\<close>, \<^verbatim>\<open>FreezeFrame\<close>,
  \<^verbatim>\<open>DeleteFrame\<close>, \<^verbatim>\<open>DuplicateFrame\<close>, \<^verbatim>\<open>Splice\<close>, \<^verbatim>\<open>Dissolve\<close>, \<^verbatim>\<open>AudioDub\<close>, \<^verbatim>\<open>Reverse\<close>,
  \<^verbatim>\<open>Loop\<close> and the fades.  A clip is an object with the methods of \<^verbatim>\<open>IClip\<close>; a filter builds a
  clip from its children.  A constructor that throws gives \<open>Inl\<close> of the message; a request for
  audio can also fail to return.  Arithmetic on \<^verbatim>\<open>int\<close> and \<^verbatim>\<open>int64_t\<close> wraps.  The sample converters
  of \<^verbatim>\<open>modules/audio_convert\<close> come from a library and are a parameter of \<^verbatim>\<open>EnsureAudioFormat\<close>.
\<close>

section \<open>Clips\<close>

text \<open>A channel sample of audio, integer or floating point; a sample of all channels is a list.\<close>

datatype sample = S_int int | S_float fp

text \<open>A call that returns a value, throws, or does not return (a trap or an endless loop).\<close>

type_synonym 'a call = "(string, 'a) result option"

abbreviation ret :: "'a \<Rightarrow> 'a call" where "ret x \<equiv> Some (Inr x)"
abbreviation throw :: "string \<Rightarrow> 'a call" where "throw msg \<equiv> Some (Inl msg)"

definition call_bind :: "'a call \<Rightarrow> ('a \<Rightarrow> 'b call) \<Rightarrow> 'b call" where
  "call_bind m f = Option.bind m (\<lambda>r. case r of Inl msg \<Rightarrow> throw msg | Inr x \<Rightarrow> f x)"

lemma call_bind_simps [simp]:
  "call_bind (ret x) f = f x" "call_bind (throw msg) f = throw msg" "call_bind None f = None"
  by (simp_all add: call_bind_def)

lemma call_bind_mono [partial_function_mono]:
  assumes "mono_option m" "\<And>y. mono_option (\<lambda>f. g y f)"
  shows "mono_option (\<lambda>f. call_bind (m f) (\<lambda>y. g y f))"
proof -
  have "mono_option (\<lambda>f. case r of Inl msg \<Rightarrow> throw msg | Inr x \<Rightarrow> g x f)" for r
    using assms(2) by (cases r) (auto intro: option.const_mono)
  with assms(1) show ?thesis unfolding call_bind_def by (intro bind_mono)
qed

record 'f clip =
  GetVideoInfo :: VideoInfo
  GetFrame :: "int \<Rightarrow> 'f"
  GetParity :: "int \<Rightarrow> bool"
  GetAudio :: "int \<Rightarrow> int \<Rightarrow> sample list list call"

text \<open>The cast of a \<^verbatim>\<open>double\<close> to \<^verbatim>\<open>int64_t\<close>; out of range it is the value the conversion
  instruction gives.\<close>

definition fp_to_int64 :: "fp \<Rightarrow> int" where
  "fp_to_int64 x = (case fp_trunc x of Some i \<Rightarrow> (if is_int64 i then i else INT64_MIN) | None \<Rightarrow> INT64_MIN)"

definition half_fp :: fp where "half_fp = Fin False (2 ^ 52) (- 53)"

section \<open>AudioTrim and Trim\<close>

datatype trim_mode_e = Trim_Invalid | Trim_Default | Trim_Length | Trim_End

text \<open>The object both constructors build: an offset in frames and one in samples.\<close>

definition Trim_clip :: "VideoInfo \<Rightarrow> int \<Rightarrow> int \<Rightarrow> 'f clip \<Rightarrow> 'f clip" where
  "Trim_clip vi firstframe audio_offset child =
     \<lparr>GetVideoInfo = vi,
      GetFrame = (\<lambda>n. GetFrame child (wrap32 (n + firstframe))),
      GetParity = (\<lambda>n. GetParity child (wrap32 (n + firstframe))),
      GetAudio = (\<lambda>start count. GetAudio child (wrap64 (start + audio_offset)) count)\<rparr>"

text \<open>\<open>int64_t(t * vi.audio_samples_per_second + 0.5)\<close>.\<close>

definition time_to_samples :: "VideoInfo \<Rightarrow> fp \<Rightarrow> int" where
  "time_to_samples vi t =
     fp_to_int64 (fp_add binary64 (fp_mul binary64 t (fp_of_int binary64 (audio_samples_per_second vi))) half_fp)"

definition AudioTrim_end :: "trim_mode_e \<Rightarrow> VideoInfo \<Rightarrow> fp \<Rightarrow> fp \<Rightarrow> (string, int) result" where
  "AudioTrim_end mode vi starttime endtime =
     (case mode of
        Trim_Default \<Rightarrow>
          Inr (if fp_eq endtime (Zero False) then num_audio_samples vi
               else if fp_less endtime (Zero False)
                 then time_to_samples vi (fp_sub binary64 starttime endtime)
               else time_to_samples vi endtime)
      | Trim_Length \<Rightarrow>
          if fp_less endtime (Zero False) then Inl ''AudioTrim: Length must be >= 0''
          else Inr (time_to_samples vi (fp_add binary64 starttime endtime))
      | Trim_End \<Rightarrow>
          if fp_less endtime starttime then Inl ''AudioTrim: End must be >= Start''
          else Inr (time_to_samples vi endtime)
      | Trim_Invalid \<Rightarrow> Inl ''Script error: Invalid arguments to function \"AudioTrim\"'')"

definition AudioTrim :: "trim_mode_e \<Rightarrow> fp \<Rightarrow> fp \<Rightarrow> 'f clip \<Rightarrow> (string, 'f clip) result" where
  "AudioTrim mode starttime endtime child =
     (let vi = GetVideoInfo child
      in if mode = Trim_Invalid then Inl ''Script error: Invalid arguments to function \"AudioTrim\"''
         else if \<not> HasAudio vi then Inl ''AudioTrim: Cannot trim if there is no audio.''
         else
           let audio_offset = clamp (time_to_samples vi starttime) 0 (num_audio_samples vi)
           in bind_r (AudioTrim_end mode vi starttime endtime) (\<lambda>e.
              let esampleno = (if e > num_audio_samples vi then num_audio_samples vi else e);
                  samples = (let s = wrap64 (esampleno - audio_offset) in if s < 0 then 0 else s);
                  vi1 = vi\<lparr>num_audio_samples := samples\<rparr>;
                  firstframe = FramesFromAudioSamples vi1 audio_offset;
                  n = (if fp_eq endtime (Zero False) \<and> mode = Trim_Default
                       then wrap32 (num_frames vi - firstframe)
                       else FramesFromAudioSamples vi1
                              (wrap64 (samples + AudioSamplesFromFrames vi1 1 - 1)))
              in Inr (Trim_clip (vi1\<lparr>num_frames := (if n < 0 then 0 else n)\<rparr>) firstframe audio_offset child)))"

text \<open>The last frame, per mode.\<close>

definition Trim_last :: "trim_mode_e \<Rightarrow> int \<Rightarrow> int \<Rightarrow> int \<Rightarrow> (string, int) result" where
  "Trim_last mode topframe firstframe lastarg =
     (case mode of
        Trim_Default \<Rightarrow>
          Inr (clamp (if lastarg = 0 then topframe
                      else if lastarg < 0 then wrap32 (wrap32 (firstframe - lastarg) - 1)
                      else lastarg) firstframe topframe)
      | Trim_Length \<Rightarrow>
          if lastarg < 0 then Inl ''Trim: Length must be >= 0''
          else Inr (let l = wrap32 (wrap32 (firstframe + lastarg) - 1) in if l > topframe then topframe else l)
      | Trim_End \<Rightarrow>
          if lastarg < firstframe then Inl ''Trim: End must be >= Start''
          else Inr (if lastarg > topframe then topframe else lastarg)
      | Trim_Invalid \<Rightarrow> Inl ''Script error: Invalid arguments to function \"Trim\"'')"

definition Trim :: "trim_mode_e \<Rightarrow> int \<Rightarrow> int \<Rightarrow> bool \<Rightarrow> 'f clip \<Rightarrow> (string, 'f clip) result" where
  "Trim mode firstarg lastarg padaudio child =
     (let vi = GetVideoInfo child
      in if mode = Trim_Invalid then Inl ''Script error: Invalid arguments to function \"Trim\"''
         else if \<not> HasVideo vi then Inl ''Trim: Cannot trim if there is no video.''
         else
           let topframe = wrap32 (num_frames vi - 1);
               firstframe = clamp firstarg 0 topframe
           in bind_r (Trim_last mode topframe firstframe lastarg) (\<lambda>lastframe.
              let audio_offset = AudioSamplesFromFrames vi firstframe;
                  last_sample = AudioSamplesFromFrames vi (wrap32 (lastframe + 1));
                  samples = (if lastarg = 0 \<and> mode = Trim_Default then num_audio_samples vi
                             else if last_sample > num_audio_samples vi then num_audio_samples vi
                             else last_sample);
                  audio = (if padaudio then wrap64 (last_sample - audio_offset)
                           else if audio_offset \<ge> samples then 0
                           else wrap64 (samples - audio_offset))
              in Inr (Trim_clip (vi\<lparr>num_frames := wrap32 (wrap32 (lastframe + 1) - firstframe),
                                   num_audio_samples := audio\<rparr>) firstframe audio_offset child)))"

section \<open>FreezeFrame, DeleteFrame, DuplicateFrame\<close>

definition FreezeFrame :: "int \<Rightarrow> int \<Rightarrow> int \<Rightarrow> 'f clip \<Rightarrow> 'f clip" where
  "FreezeFrame first last_frame source child =
     child\<lparr>GetFrame := (\<lambda>n. GetFrame child (if n \<ge> first \<and> n \<le> last_frame then source else n)),
           GetParity := (\<lambda>n. GetParity child (if n \<ge> first \<and> n \<le> last_frame then source else n))\<rparr>"

definition FreezeFrame_Create :: "int \<Rightarrow> int \<Rightarrow> int \<Rightarrow> 'f clip \<Rightarrow> (string, 'f clip) result" where
  "FreezeFrame_Create first last_frame source child =
     (let n = num_frames (GetVideoInfo child)
      in if first < 0 \<or> first \<ge> n \<or> last_frame < 0 \<or> last_frame \<ge> n \<or> source < 0 \<or> source \<ge> n
         then Inl ''FreezeFrame: frame index out of bounds''
         else Inr (FreezeFrame first last_frame source child))"

text \<open>The clip keeps its description but for the number of frames.\<close>

definition with_num_frames :: "int \<Rightarrow> 'f clip \<Rightarrow> 'f clip" where
  "with_num_frames n c = c\<lparr>GetVideoInfo := (GetVideoInfo c)\<lparr>num_frames := n\<rparr>\<rparr>"

definition DeleteFrame :: "int \<Rightarrow> 'f clip \<Rightarrow> 'f clip" where
  "DeleteFrame frame child =
     (with_num_frames (wrap32 (num_frames (GetVideoInfo child) - 1)) child)
       \<lparr>GetFrame := (\<lambda>n. GetFrame child (wrap32 (n + (if n \<ge> frame then 1 else 0)))),
        GetParity := (\<lambda>n. GetParity child (wrap32 (n + (if n \<ge> frame then 1 else 0))))\<rparr>"

text \<open>
  One round of the insertion: the new frame number bubbles through the numbers kept so far; one
  that is there already ends the round with the marker \<^verbatim>\<open>INT_MAX\<close> in the new place.
\<close>

fun delete_insert :: "int list \<Rightarrow> int \<Rightarrow> int list \<times> bool" where
  "delete_insert [] v = ([v], False)"
| "delete_insert (x # xs) v =
     (if v = x then (x # xs @ [INT_MAX], True)
      else if v < x then (case delete_insert xs x of (r, d) \<Rightarrow> (v # r, d))
      else (case delete_insert xs v of (r, d) \<Rightarrow> (x # r, d)))"

fun delete_sort :: "int list \<Rightarrow> int \<Rightarrow> int list \<Rightarrow> int list \<times> int" where
  "delete_sort frames m [] = (frames, m)"
| "delete_sort frames m (a # as) =
     (case delete_insert frames a of (frames', dup) \<Rightarrow> delete_sort frames' (if dup then m - 1 else m) as)"

text \<open>The filters are stacked from the last index down to the first.\<close>

definition DeleteFrame_Create :: "int list \<Rightarrow> 'f clip \<Rightarrow> (string, 'f clip) result" where
  "DeleteFrame_Create args child =
     (let n = num_frames (GetVideoInfo child)
      in if \<not> list_all (\<lambda>f. 0 \<le> f \<and> f < n) args then Inl ''DeleteFrame: frame index out of bounds''
         else
           let (frames, m) = delete_sort [hd args] (int (length args) - 1) (tl args)
           in if n - (m + 1) \<le> 0 then Inl ''DeleteFrame: cannot delete all frames from a clip''
              else Inr (foldr DeleteFrame (take (nat (m + 1)) frames) child))"

definition DuplicateFrame :: "int \<Rightarrow> 'f clip \<Rightarrow> 'f clip" where
  "DuplicateFrame frame child =
     (with_num_frames (wrap32 (num_frames (GetVideoInfo child) + 1)) child)
       \<lparr>GetFrame := (\<lambda>n. GetFrame child (wrap32 (n - (if n > frame then 1 else 0)))),
        GetParity := (\<lambda>n. GetParity child (wrap32 (n - (if n > frame then 1 else 0))))\<rparr>"

fun bubble_insert :: "int list \<Rightarrow> int \<Rightarrow> int list" where
  "bubble_insert [] v = [v]"
| "bubble_insert (x # xs) v = (if v < x then v # bubble_insert xs x else x # bubble_insert xs v)"

definition DuplicateFrame_Create :: "int list \<Rightarrow> 'f clip \<Rightarrow> (string, 'f clip) result" where
  "DuplicateFrame_Create args child =
     (let n = num_frames (GetVideoInfo child)
      in if \<not> list_all (\<lambda>f. 0 \<le> f \<and> f < n) args then Inl ''DuplicateFrame: frame index out of bounds''
         else Inr (foldr DuplicateFrame (fold (\<lambda>a fs. bubble_insert fs a) (tl args) [hd args]) child))"

section \<open>Splice\<close>

text \<open>
  \<^verbatim>\<open>EnsureAudioFormat\<close> takes the clip, the sample types that are accepted, and the one to convert
  to otherwise.  \<open>convert\<close> stands for the converters of the audio library: from and to a format.
\<close>

type_synonym converters = "32 word \<Rightarrow> 32 word \<Rightarrow> (sample \<Rightarrow> sample) option"

definition ConvertAudio :: "converters \<Rightarrow> 32 word \<Rightarrow> 'f clip \<Rightarrow> 'f clip" where
  "ConvertAudio convert dst_format child =
     (let vi = (GetVideoInfo child)\<lparr>sample_type := dst_format\<rparr>;
          src_format = sample_type (GetVideoInfo child);
          channels = AudioChannels vi
      in child\<lparr>GetVideoInfo := vi,
               GetAudio := (\<lambda>start count.
                 if src_format = dst_format then GetAudio child start count
                 else if count \<le> 0 then ret []
                 else if channels \<le> 0 \<or> count > INT_MAX div channels
                   then throw ''ConvertAudio: audio count is too large.''
                 else if BytesPerChannelSample (GetVideoInfo child) = 0
                   then throw ''ConvertAudio: audio buffer size overflow.''
                 else call_bind (GetAudio child start count) (\<lambda>buf.
                   case convert src_format dst_format of
                     None \<Rightarrow> throw ''ConvertAudio: unsupported audio conversion.''
                   | Some f \<Rightarrow> ret (map (map f) buf)))\<rparr>)"

definition EnsureAudioFormat :: "converters \<Rightarrow> 'f clip \<Rightarrow> 32 word \<Rightarrow> 32 word \<Rightarrow> 'f clip" where
  "EnsureAudioFormat convert clip accepted preferred =
     (if \<not> HasAudio (GetVideoInfo clip) \<or> has (sample_type (GetVideoInfo clip)) (or accepted preferred)
      then clip else ConvertAudio convert preferred clip)"

text \<open>\<open>fabs(fps_v1 - fps_v2) > 0.000001\<close>.\<close>

definition fps_differ :: "VideoInfo \<Rightarrow> VideoInfo \<Rightarrow> bool" where
  "fps_differ a b =
     (let v1 = fp_div binary64 (fp_of_int binary64 (fps_numerator a)) (fp_of_int binary64 (fps_denominator a));
          v2 = fp_div binary64 (fp_of_int binary64 (fps_numerator b)) (fp_of_int binary64 (fps_denominator b));
          d = fp_sub binary64 v1 v2
      in fp_less (Fin False 4722366482869645 (- 72)) (if fp_less d (Zero False) then fp_neg d else d))"

text \<open>The checks common to \<^verbatim>\<open>Splice\<close> and \<^verbatim>\<open>Dissolve\<close>: both children in one audio format.\<close>

definition match_audio :: "string \<Rightarrow> converters \<Rightarrow> 'f clip \<Rightarrow> 'f clip \<Rightarrow> (string, 'f clip \<times> 'f clip) result" where
  "match_audio name convert child child2 =
     (if \<not> HasAudio (GetVideoInfo child) then Inr (child, child2)
      else
        let c2 = EnsureAudioFormat convert child2 (sample_type (GetVideoInfo child)) SAMPLE_FLOAT;
            vi2 = GetVideoInfo c2;
            c1 = EnsureAudioFormat convert child (sample_type vi2) (sample_type vi2);
            vi = GetVideoInfo c1
        in if AudioChannels vi \<noteq> AudioChannels vi2
           then Inl (name @ '': The number of audio channels doesn't match'')
           else if audio_samples_per_second vi \<noteq> audio_samples_per_second vi2
           then Inl (name @ '': The audio of the two clips have different samplerates! Use SSRC()/ResampleAudio()'')
           else Inr (c1, c2))"

definition Splice_clip :: "VideoInfo \<Rightarrow> int \<Rightarrow> int \<Rightarrow> 'f clip \<Rightarrow> 'f clip \<Rightarrow> 'f clip" where
  "Splice_clip vi vswitch aswitch child child2 =
     \<lparr>GetVideoInfo = vi,
      GetFrame = (\<lambda>n. if n < vswitch then GetFrame child n else GetFrame child2 (wrap32 (n - vswitch))),
      GetParity = (\<lambda>n. if n < vswitch then GetParity child n else GetParity child2 (wrap32 (n - vswitch))),
      GetAudio = (\<lambda>start count.
        if wrap64 (start + count) \<le> aswitch then GetAudio child start count
        else if start \<ge> aswitch then GetAudio child2 (wrap64 (start - aswitch)) count
        else let count1 = wrap64 (aswitch - start)
             in call_bind (GetAudio child start count1) (\<lambda>a.
                call_bind (GetAudio child2 0 (wrap64 (count - count1))) (\<lambda>b. ret (a @ b))))\<rparr>"

definition Splice :: "converters \<Rightarrow> bool \<Rightarrow> 'f clip \<Rightarrow> 'f clip \<Rightarrow> (string, 'f clip) result" where
  "Splice convert realign_sound child1 child2 =
     (let vi = GetVideoInfo child1; vi2 = GetVideoInfo child2
      in if HasVideo vi \<noteq> HasVideo vi2
         then Inl ''Splice: one clip has video and the other doesn't (not allowed)''
         else if HasAudio vi \<noteq> HasAudio vi2
         then Inl ''Splice: one clip has audio and the other doesn't (not allowed)''
         else if HasVideo vi \<and> (width vi \<noteq> width vi2 \<or> height vi \<noteq> height vi2)
         then Inl ''Splice: Frame sizes don't match''
         else if HasVideo vi \<and> \<not> IsSameColorspace vi vi2 then Inl ''Splice: Video formats don't match''
         else if HasVideo vi \<and> fps_differ vi vi2 then Inl ''Splice: Video framerate doesn't match''
         else bind_r (match_audio ''Splice'' convert child1 child2) (\<lambda>(c1, c2).
           let vi = GetVideoInfo c1; vi2 = GetVideoInfo c2;
               vswitch = num_frames vi;
               aswitch = (if vswitch \<noteq> 0 \<and> realign_sound then AudioSamplesFromFrames vi vswitch
                          else num_audio_samples vi);
               n = wrap32 (num_frames vi + num_frames vi2)
           in if n < 0 then Inl ''Splice: Maximum number of frames exceeded.''
              else Inr (Splice_clip (vi\<lparr>num_frames := n,
                          num_audio_samples := wrap64 (aswitch + num_audio_samples vi2)\<rparr>) vswitch aswitch c1 c2)))"

fun Splice_Create :: "converters \<Rightarrow> bool \<Rightarrow> 'f clip \<Rightarrow> 'f clip list \<Rightarrow> (string, 'f clip) result" where
  "Splice_Create convert realign c [] = Inr c"
| "Splice_Create convert realign c (d # ds) =
     bind_r (Splice convert realign c d) (\<lambda>r. Splice_Create convert realign r ds)"

section \<open>AudioDub and Reverse\<close>

definition AudioDub_clip :: "'f clip \<Rightarrow> 'f clip \<Rightarrow> 'f clip" where
  "AudioDub_clip vchild achild =
     (let va = GetVideoInfo achild
      in \<lparr>GetVideoInfo = SetChannelMask (IsChannelMaskKnown va) (GetChannelMask va)
            ((GetVideoInfo vchild)\<lparr>audio_samples_per_second := audio_samples_per_second va,
               num_audio_samples := num_audio_samples va, sample_type := sample_type va,
               nchannels := nchannels va\<rparr>),
          GetFrame = GetFrame vchild, GetParity = GetParity vchild, GetAudio = GetAudio achild\<rparr>)"

definition AudioDub :: "bool \<Rightarrow> 'f clip \<Rightarrow> 'f clip \<Rightarrow> (string, 'f clip) result" where
  "AudioDub mode child1 child2 =
     (let vi1 = GetVideoInfo child1; vi2 = GetVideoInfo child2
      in if mode \<or> (HasVideo vi1 \<and> HasAudio vi2) then Inr (AudioDub_clip child1 child2)
         else if HasVideo vi2 \<and> HasAudio vi1 then Inr (AudioDub_clip child2 child1)
         else Inl ''AudioDub: need an audio and a video track'')"

text \<open>
  \<^verbatim>\<open>std::swap(a_ptr[c], b_ptr[c])\<close> for every channel of the samples at both ends of the buffer; the
  branches for the sample sizes differ in the type of what is swapped only.
\<close>

definition swap_channel :: "'c list list \<Rightarrow> nat \<Rightarrow> nat \<Rightarrow> nat \<Rightarrow> 'c list list" where
  "swap_channel buf i j c = buf[i := (buf ! i)[c := buf ! j ! c], j := (buf ! j)[c := buf ! i ! c]]"

fun swap_samples :: "nat \<Rightarrow> 'c list list \<Rightarrow> nat \<Rightarrow> nat \<Rightarrow> 'c list list" where
  "swap_samples 0 buf i j = buf"
| "swap_samples (Suc c) buf i j = swap_channel (swap_samples c buf i j) i j c"

fun reverse_loop :: "nat \<Rightarrow> nat \<Rightarrow> nat \<Rightarrow> 'c list list \<Rightarrow> 'c list list" where
  "reverse_loop nch count 0 buf = buf"
| "reverse_loop nch count (Suc i) buf = swap_samples nch (reverse_loop nch count i buf) i (count - 1 - i)"

definition Reverse :: "'f clip \<Rightarrow> 'f clip" where
  "Reverse child =
     (let vi = GetVideoInfo child
      in child\<lparr>GetFrame := (\<lambda>n. GetFrame child (wrap32 (num_frames vi - n - 1))),
               GetParity := (\<lambda>n. GetParity child (wrap32 (num_frames vi - n - 1))),
               GetAudio := (\<lambda>start count.
                 call_bind (GetAudio child (wrap64 (num_audio_samples vi - start - count)) count) (\<lambda>buf.
                   ret (reverse_loop (nat (AudioChannels vi)) (nat count) (nat count div 2) buf)))\<rparr>)"

section \<open>Loop\<close>

record loop_state =
  lstart :: int
  lend :: int
  lframes :: int
  aud_start :: int
  aud_end :: int
  aud_count :: int

definition loop_convert :: "loop_state \<Rightarrow> int \<Rightarrow> int" where
  "loop_convert l n =
     (if n > lend l then wrap32 (n - lend l + lstart l + lframes l - 1)
      else if n \<ge> lstart l then cmod (n - lstart l) (lframes l) + lstart l
      else n)"

text \<open>One turn of the loop of \<^verbatim>\<open>Loop::GetAudio\<close>: where to read and how much; \<open>None\<close> is the
  division by a loop length of zero.  Positions and counts are \<^verbatim>\<open>int64_t\<close> sums of sample numbers
  and are not wrapped here.\<close>

definition loop_chunk :: "loop_state \<Rightarrow> int \<Rightarrow> int \<Rightarrow> (int \<times> int) option" where
  "loop_chunk l start count =
     (if start > aud_end l then Some (aud_start l + aud_count l + start - (aud_end l + 1), count)
      else if start > aud_start l \<and> aud_count l = 0 then None
      else
        let get_start = (if start > aud_start l then cmod (start - aud_start l) (aud_count l) + aud_start l
                         else start);
            c1 = aud_count l - (get_start - aud_start l);
            c2 = (if get_start + c1 > aud_end l + 1 then aud_end l + 1 - get_start
                  else if start + c1 > aud_end l then count else c1)
        in Some (get_start, if c2 > count then count else c2))"

text \<open>\<^verbatim>\<open>while (count > 0)\<close>, which does not end when a turn reads nothing; that is \<open>None\<close> as well.\<close>

partial_function (option) loop_audio :: "loop_state \<Rightarrow> (int \<Rightarrow> int \<Rightarrow> 'c list call) \<Rightarrow> int \<Rightarrow> int \<Rightarrow> 'c list call" where
  "loop_audio l audio start count =
     (if count \<le> 0 then ret []
      else case loop_chunk l start count of
             None \<Rightarrow> None
           | Some (get_start, get_count) \<Rightarrow>
               call_bind (audio get_start get_count) (\<lambda>xs.
               call_bind (loop_audio l audio (start + get_count) (count - get_count)) (\<lambda>rest.
                 ret (xs @ rest))))"

definition Loop_state :: "VideoInfo \<Rightarrow> int \<Rightarrow> int \<Rightarrow> int \<Rightarrow> (string, VideoInfo \<times> loop_state) result" where
  "Loop_state vi ntimes startarg endarg =
     (let topframe = wrap32 (num_frames vi - 1);
          start = clamp startarg 0 topframe;
          end0 = clamp endarg start topframe;
          frames = wrap32 (wrap32 (end0 - start) + 1);
          audio = (\<lambda>last no_video_end.
            if \<not> HasAudio vi then (0, 0, 0)
            else if HasVideo vi then
              (AudioSamplesFromFrames vi start, wrap64 (AudioSamplesFromFrames vi (wrap32 (last + 1)) - 1),
               AudioSamplesFromFrames vi frames)
            else (0, no_video_end, num_audio_samples vi))
      in if ntimes < 0 then
           let last = 10000000;
               (as, ae, ac) = audio last (400000 * audio_samples_per_second vi);
               vi' = vi\<lparr>num_frames := 10000000\<rparr>
           in Inr (if HasAudio vi then vi'\<lparr>num_audio_samples := wrap64 (ae + 1)\<rparr> else vi',
                   \<lparr>lstart = start, lend = last, lframes = frames, aud_start = as, aud_end = ae, aud_count = ac\<rparr>)
         else
           let n = wrap32 (num_frames vi + wrap32 (wrap32 (ntimes - 1) * frames))
           in if n < 0 then Inl ''Loop: Maximum number of frames exceeded.''
              else
                let last = wrap32 (wrap32 (start + wrap32 (ntimes * frames)) - 1);
                    (as, ae, ac) = audio last (wrap64 (num_audio_samples vi * ntimes));
                    vi' = vi\<lparr>num_frames := n\<rparr>
                in Inr (if HasAudio vi
                          then vi'\<lparr>num_audio_samples := wrap64 (num_audio_samples vi + wrap64 (wrap32 (ntimes - 1) * ac))\<rparr>
                          else vi',
                        \<lparr>lstart = start, lend = last, lframes = frames, aud_start = as, aud_end = ae, aud_count = ac\<rparr>))"

definition Loop_clip :: "VideoInfo \<Rightarrow> loop_state \<Rightarrow> 'f clip \<Rightarrow> 'f clip" where
  "Loop_clip vi l child =
     \<lparr>GetVideoInfo = vi,
      GetFrame = (\<lambda>n. GetFrame child (loop_convert l n)),
      GetParity = (\<lambda>n. GetParity child (loop_convert l n)),
      GetAudio = loop_audio l (GetAudio child)\<rparr>"

definition Loop_Create :: "int option \<Rightarrow> int option \<Rightarrow> int option \<Rightarrow> 'f clip \<Rightarrow> (string, 'f clip) result" where
  "Loop_Create ntimes start endframe child =
     (if \<not> HasVideo (GetVideoInfo child) \<and> (start \<noteq> None \<or> endframe \<noteq> None)
      then Inl ''Loop: cannot use start or end frame numbers without a video track''
      else
        let int_or = (\<lambda>d v. case v of Some i \<Rightarrow> i | None \<Rightarrow> d)
        in bind_r (Loop_state (GetVideoInfo child) (int_or (- 1) ntimes) (int_or 0 start) (int_or 10000000 endframe))
             (\<lambda>(vi, l). Inr (Loop_clip vi l child)))"

section \<open>Dissolve and the fades\<close>

text \<open>\<^verbatim>\<open>MulDiv\<close> of \<^verbatim>\<open>posix.h\<close>, and the cast to \<^verbatim>\<open>short\<close>.\<close>

definition MulDiv :: "int \<Rightarrow> int \<Rightarrow> int \<Rightarrow> int" where
  "MulDiv nNumber nNumerator nDenominator =
     wrap32 (cdiv (nNumber * nNumerator + cdiv nDenominator 2) nDenominator)"

definition to_short :: "int \<Rightarrow> int" where
  "to_short i = (i + 32768) mod 65536 - 32768"

fun mix_int16 :: "int \<Rightarrow> int \<Rightarrow> sample \<Rightarrow> sample \<Rightarrow> sample" where
  "mix_int16 numerator denominator (S_int a) (S_int b) = S_int (to_short (b + MulDiv (a - b) numerator denominator))"
| "mix_int16 numerator denominator a b = a"

fun mix_float :: "int \<Rightarrow> int \<Rightarrow> sample \<Rightarrow> sample \<Rightarrow> sample" where
  "mix_float numerator denominator (S_float a) (S_float b) =
     (let frdenominator = fp_convert binary32 (fp_div binary64 (fp_of_int binary64 1) (fp_of_int binary64 denominator));
          w = fp_mul binary32 (fp_of_int binary32 numerator) frdenominator
      in S_float (fp_add binary32 b (fp_mul binary32 w (fp_sub binary32 a b))))"
| "mix_float numerator denominator a b = a"

text \<open>The loop over the samples: before, in, and past the end of the dissolve.\<close>

fun dissolve_loop :: "(int \<Rightarrow> int \<Rightarrow> sample \<Rightarrow> sample \<Rightarrow> sample) \<Rightarrow> int \<Rightarrow> int
    \<Rightarrow> sample list list \<Rightarrow> sample list list \<Rightarrow> sample list list" where
  "dissolve_loop mix numerator denominator (a # as) (b # bs) =
     (if numerator \<le> 0 then b # bs
      else (if numerator < denominator then map2 (mix numerator denominator) a b else a)
             # dissolve_loop mix (wrap32 (numerator - 1)) denominator as bs)"
| "dissolve_loop mix numerator denominator as bs = as"

record dissolve_state =
  overlap :: int
  video_fade_start :: int
  video_fade_end :: int
  audio_fade_start :: int
  audio_fade_end :: int
  audio_overlap :: int

text \<open>The end of \<^verbatim>\<open>GetAudio\<close>, once both children have delivered.\<close>

definition dissolve_mix :: "VideoInfo \<Rightarrow> dissolve_state \<Rightarrow> int \<Rightarrow> int
    \<Rightarrow> sample list list \<Rightarrow> sample list list \<Rightarrow> sample list list call" where
  "dissolve_mix vi d start count a b =
     (let nch = AudioChannels vi;
          n = (if nch = 0 then 0 else nat (cdiv (wrap32 (wrap32 count * nch)) nch));
          numerator = wrap32 (audio_fade_end d - start);
          run = (\<lambda>mix. ret (dissolve_loop mix numerator (audio_overlap d) (take n a) (take n b) @ drop n a))
      in if IsSampleType vi SAMPLE_INT16 then run mix_int16
         else if IsSampleType vi SAMPLE_FLOAT then run mix_float
         else throw ''Dissolve: Wow - this should never happend!'')"

definition Dissolve_weight :: "dissolve_state \<Rightarrow> int \<Rightarrow> fp" where
  "Dissolve_weight d n =
     fp_convert binary32 (fp_div binary64
       (fp_of_int binary64 (wrap32 (n - video_fade_end d + overlap d)))
       (fp_add binary64 (fp_of_int binary64 (overlap d)) (fp_of_int binary64 1)))"

text \<open>\<open>merge\<close> stands for \<^verbatim>\<open>avs_composite::MergePlane\<close> on every plane, with its weight.\<close>

definition Dissolve_clip :: "(fp \<Rightarrow> 'f \<Rightarrow> 'f \<Rightarrow> 'f) \<Rightarrow> VideoInfo \<Rightarrow> dissolve_state \<Rightarrow> 'f clip \<Rightarrow> 'f clip \<Rightarrow> 'f clip" where
  "Dissolve_clip merge vi d child child2 =
     \<lparr>GetVideoInfo = vi,
      GetFrame = (\<lambda>n.
        if n < video_fade_start d then GetFrame child n
        else if n > video_fade_end d then GetFrame child2 (wrap32 (n - video_fade_start d))
        else merge (Dissolve_weight d n) (GetFrame child n) (GetFrame child2 (wrap32 (n - video_fade_start d)))),
      GetParity = (\<lambda>n. if n < video_fade_start d then GetParity child n
                        else GetParity child2 (wrap32 (n - video_fade_start d))),
      GetAudio = (\<lambda>start count.
        if wrap64 (start + count) \<le> audio_fade_start d then GetAudio child start count
        else if start > audio_fade_end d then GetAudio child2 (wrap64 (start - audio_fade_start d)) count
        else call_bind (GetAudio child start count) (\<lambda>a.
             call_bind (GetAudio child2 (wrap64 (start - audio_fade_start d)) count) (\<lambda>b.
               dissolve_mix vi d start count a b)))\<rparr>"

definition Dissolve_state :: "VideoInfo \<Rightarrow> int \<Rightarrow> fp \<Rightarrow> dissolve_state" where
  "Dissolve_state vi ov fps =
     (let (vs, ve, as, ae) =
        (if HasVideo vi then
           let vs = wrap32 (num_frames vi - ov); ve = wrap32 (num_frames vi - 1)
           in (vs, ve, AudioSamplesFromFrames vi vs, wrap64 (AudioSamplesFromFrames vi (wrap32 (ve + 1)) - 1))
         else
           (0, 0,
            wrap64 (num_audio_samples vi - fp_to_int64 (fp_add binary64
              (fp_div binary64 (fp_of_int binary64 (audio_samples_per_second vi * ov)) fps) half_fp)),
            wrap64 (num_audio_samples vi - 1)))
      in \<lparr>overlap = ov, video_fade_start = (if vs < 0 then 0 else vs), video_fade_end = ve,
          audio_fade_start = (if as < 0 then 0 else as), audio_fade_end = ae,
          audio_overlap = wrap32 (wrap64 (ae - as))\<rparr>)"

definition Dissolve :: "converters \<Rightarrow> (fp \<Rightarrow> 'f \<Rightarrow> 'f \<Rightarrow> 'f) \<Rightarrow> int \<Rightarrow> fp \<Rightarrow> 'f clip \<Rightarrow> 'f clip \<Rightarrow> (string, 'f clip) result" where
  "Dissolve convert merge ov fps child1 child2 =
     (let c1 = EnsureAudioFormat convert child1 (or SAMPLE_INT16 SAMPLE_FLOAT) SAMPLE_FLOAT;
          vi = GetVideoInfo c1; vi2 = GetVideoInfo child2
      in if HasVideo vi \<noteq> HasVideo vi2
         then Inl ''Dissolve: one clip has video and the other doesn't (not allowed)''
         else if HasAudio vi \<noteq> HasAudio vi2
         then Inl ''Dissolve: one clip has audio and the other doesn't (not allowed)''
         else if ov < 0 then Inl ''Dissolve: Cannot dissolve if overlap is less than zero''
         else bind_r (match_audio ''Dissolve'' convert c1 child2) (\<lambda>(c1, c2).
           let vi = GetVideoInfo c1; vi2 = GetVideoInfo c2
           in if HasVideo vi \<and> (width vi \<noteq> width vi2 \<or> height vi \<noteq> height vi2)
              then Inl ''Dissolve: frame sizes don't match''
              else if HasVideo vi \<and> \<not> IsSameColorspace vi vi2 then Inl ''Dissolve: video formats don't match''
              else
                let d = Dissolve_state vi ov fps; n = wrap32 (video_fade_start d + num_frames vi2)
                in if n < 0 then Inl ''Dissolve: Maximum number of frames exceeded.''
                   else Inr (Dissolve_clip merge
                     (vi\<lparr>num_frames := n, num_audio_samples := wrap64 (audio_fade_start d + num_audio_samples vi2)\<rparr>)
                     d c1 c2)))"

fun Dissolve_Create :: "converters \<Rightarrow> (fp \<Rightarrow> 'f \<Rightarrow> 'f \<Rightarrow> 'f) \<Rightarrow> int \<Rightarrow> fp \<Rightarrow> 'f clip \<Rightarrow> 'f clip list \<Rightarrow> (string, 'f clip) result" where
  "Dissolve_Create convert merge ov fps c [] = Inr c"
| "Dissolve_Create convert merge ov fps c (d # ds) =
     bind_r (Dissolve convert merge ov fps c d) (\<lambda>r. Dissolve_Create convert merge ov fps r ds)"

datatype fade_end = FADE_OUT | FADE_IN | FADE_IO

text \<open>The fade modes are an end and an offset of 0, 1 or 2 frames; \<open>blank\<close> stands for the
  \<^verbatim>\<open>BlankClip\<close> that \<^verbatim>\<open>ColorClip\<close> invokes with the clip and a duration.\<close>

definition Create_Fade :: "converters \<Rightarrow> (fp \<Rightarrow> 'f \<Rightarrow> 'f \<Rightarrow> 'f) \<Rightarrow> ('f clip \<Rightarrow> int \<Rightarrow> (string, 'f clip) result)
    \<Rightarrow> fade_end \<Rightarrow> int \<Rightarrow> int \<Rightarrow> fp \<Rightarrow> 'f clip \<Rightarrow> (string, 'f clip) result" where
  "Create_Fade convert merge blank fade_type offset duration fps a =
     bind_r (blank a (wrap32 (duration + offset))) (\<lambda>b.
       case fade_type of
         FADE_OUT \<Rightarrow> Dissolve convert merge duration fps a b
       | FADE_IN \<Rightarrow> Dissolve convert merge duration fps b a
       | FADE_IO \<Rightarrow> Dissolve_Create convert merge duration fps b [a, b])"

end
