(* ===== verification/Edit_Frames.thy ===== *)
theory Edit_Frames
  imports Edit_Filters "HOL-Library.Multiset"
begin

text \<open>
  What the editing filters do to the frames of a clip, seen as a list: \<^verbatim>\<open>Trim\<close> is a segment,
  \<^verbatim>\<open>DeleteFrame\<close> and \<^verbatim>\<open>DuplicateFrame\<close> drop and repeat elements, \<^verbatim>\<open>Splice\<close> appends,
  \<^verbatim>\<open>Reverse\<close> reverses, \<^verbatim>\<open>Loop\<close> repeats a segment and \<^verbatim>\<open>Dissolve\<close> merges the end of one
  clip with the beginning of the other.
\<close>

section \<open>The frames of a clip\<close>

definition frames :: "'f clip \<Rightarrow> 'f list" where
  "frames c = map (GetFrame c) [0..num_frames (GetVideoInfo c) - 1]"

definition clip_ok :: "'f clip \<Rightarrow> bool" where
  "clip_ok c \<longleftrightarrow> 0 \<le> num_frames (GetVideoInfo c) \<and> num_frames (GetVideoInfo c) \<le> INT_MAX"

abbreviation nframes :: "'f clip \<Rightarrow> int" where
  "nframes c \<equiv> num_frames (GetVideoInfo c)"

lemma length_frames [simp]: "length (frames c) = nat (nframes c)"
  by (simp add: frames_def)

lemma nth_frames [simp]: "i < nat (nframes c) \<Longrightarrow> frames c ! i = GetFrame c (int i)"
  by (simp add: frames_def)

lemma clip_ok_length: "clip_ok c \<Longrightarrow> int (length (frames c)) = nframes c"
  by (simp add: clip_ok_def)

lemma frames_eqI:
  assumes "nframes c = int (length ys)" "\<And>i. i < length ys \<Longrightarrow> GetFrame c (int i) = ys ! i"
  shows "frames c = ys"
  by (rule nth_equalityI) (use assms in simp_all)

lemma wrap32_small [simp]: "0 \<le> i \<Longrightarrow> i \<le> INT_MAX \<Longrightarrow> wrap32 i = i"
  by (rule wrap32_id) (simp add: is_int32_def int_limits)

section \<open>Trim and FreezeFrame\<close>

text \<open>Where a trim starts, and how many frames it keeps; \<open>None\<close> is an error.\<close>

definition trim_first :: "int \<Rightarrow> int \<Rightarrow> int" where
  "trim_first n a = min (max a 0) (n - 1)"

fun trim_count :: "trim_mode_e \<Rightarrow> int \<Rightarrow> int \<Rightarrow> int \<Rightarrow> int option" where
  "trim_count Trim_Default rest f b =
     Some (if b = 0 then rest else if b < 0 then min (- b) rest else max 1 (min (b + 1 - f) rest))"
| "trim_count Trim_Length rest f b = (if b < 0 then None else Some (min b rest))"
| "trim_count Trim_End rest f b = (if b < f then None else Some (min (b + 1 - f) rest))"
| "trim_count Trim_Invalid rest f b = None"

lemma clamp_first: "0 < n \<Longrightarrow> clamp a 0 (n - 1) = trim_first n a"
  by (auto simp: clamp_def trim_first_def)

lemma Trim_last_count:
  assumes "0 \<le> f" "f < n" "n \<le> INT_MAX" "f + \<bar>b\<bar> \<le> INT_MAX"
  shows "(case trim_count mode (n - f) f b of
            None \<Rightarrow> \<exists>msg. Trim_last mode (n - 1) f b = Inl msg
          | Some k \<Rightarrow> Trim_last mode (n - 1) f b = Inr (f + k - 1) \<and> 0 \<le> k \<and> k \<le> n - f)"
proof -
  have w: "wrap32 (f + b) = f + b" "wrap32 (f + b - 1) = f + b - 1" if "0 \<le> b"
    using that assms by (auto intro!: wrap32_id simp: is_int32_def int_limits)
  moreover have "wrap32 (f - b) = f - b" "wrap32 (f - b - 1) = f - b - 1" if "b < 0"
    using that assms by (auto intro!: wrap32_id simp: is_int32_def int_limits)
  ultimately show ?thesis
    using assms by (cases mode) (auto simp: Trim_last_def clamp_def Let_def)
qed


definition test_clip :: "int \<Rightarrow> int clip" where
  "test_clip n = \<lparr>GetVideoInfo = \<lparr>width = 640, height = 480, fps_numerator = 25, fps_denominator = 1,
     num_frames = n, pixel_type = CS_YV12, audio_samples_per_second = 48000, sample_type = SAMPLE_INT16,
     num_audio_samples = n * 1920, nchannels = 1, image_type = 0\<rparr>,
     GetFrame = (\<lambda>n. n), GetParity = (\<lambda>n. False),
     GetAudio = (\<lambda>start count. ret (map (\<lambda>i. [S_int (i mod 1000)]) [start..start + count - 1]))\<rparr>"


text \<open>
  Without the bound on the length, the last frame wraps around and the clip claims more frames
  than it was cut from.
\<close>

theorem Trim_length_overflow:
  "map_sum id (\<lambda>c. nframes c) (Trim Trim_Length 10 2147483647 True (test_clip 100)) = Inr 2147483647"
  by code_simp

text \<open>
  \<^verbatim>\<open>FreezeFrame\<close> shows the source frame in place of every frame of the range, and refuses
  frame numbers outside the clip.
\<close>

theorem FreezeFrame_replaces:
  assumes "clip_ok c"
  shows "(case FreezeFrame_Create x y s c of
      Inl msg \<Rightarrow> \<not> (0 \<le> x \<and> x < nframes c \<and> 0 \<le> y \<and> y < nframes c \<and> 0 \<le> s \<and> s < nframes c)
    | Inr c' \<Rightarrow> frames c' = map (\<lambda>i. if x \<le> int i \<and> int i \<le> y then frames c ! nat s else frames c ! i)
                 [0..<length (frames c)])"
  using assms
  by (auto simp: FreezeFrame_Create_def FreezeFrame_def clip_ok_def Let_def intro!: frames_eqI)

theorem FreezeFrame_replaces_witness:
  "map_sum id frames (FreezeFrame_Create 1 2 0 (test_clip 4)) = Inr [0, 0, 0, 3]"
  using FreezeFrame_replaces [of "test_clip 4" 1 2 0]
  by (simp add: test_clip_def clip_ok_def FreezeFrame_Create_def FreezeFrame_def frames_def int_limits upto.simps)

section \<open>DeleteFrame\<close>

lemma DeleteFrame_frames:
  assumes "clip_ok c" "0 \<le> k" "k < nframes c"
  shows "frames (DeleteFrame k c) = take (nat k) (frames c) @ drop (Suc (nat k)) (frames c)"
    and "clip_ok (DeleteFrame k c)"
proof -
  let ?n = "nframes c"
  from assms have n: "nframes (DeleteFrame k c) = ?n - 1"
    by (simp add: DeleteFrame_def with_num_frames_def clip_ok_def)
  with assms show "clip_ok (DeleteFrame k c)" by (simp add: clip_ok_def)
  show "frames (DeleteFrame k c) = take (nat k) (frames c) @ drop (Suc (nat k)) (frames c)"
  proof (rule frames_eqI, goal_cases)
    case 1
    show ?case using assms n by simp
  next
    case (2 i)
    then have "int i + 1 \<le> ?n - 1 + 1" "i < nat ?n - 1" using assms by auto
    then have w: "wrap32 (int i + 1) = int i + 1" "wrap32 (int i) = int i" using assms by (auto simp: clip_ok_def)
    have G: "GetFrame (DeleteFrame k c) (int i) = GetFrame c (wrap32 (int i + (if int i \<ge> k then 1 else 0)))"
      by (simp add: DeleteFrame_def)
    show ?case
    proof (cases "int i \<ge> k")
      case True
      with assms \<open>i < nat ?n - 1\<close> have "nat k \<le> i" "Suc i < nat ?n" by linarith+
      then show ?thesis using True w by (simp add: G nth_append add.commute)
    next
      case False
      then have "i < nat k" "i < nat ?n" using assms by linarith+
      then show ?thesis using False w by (simp add: G nth_append)
    qed
  qed
qed

text \<open>Deleting a position below all the ones deleted so far.\<close>

lemma nths_delete:
  assumes "k < length xs" "\<And>i. i \<in> S \<Longrightarrow> k < i"
  shows "take k (nths xs (- S)) @ drop (Suc k) (nths xs (- S)) = nths xs (- insert k S)"
proof -
  have keep: "nths ys A = ys" if "{..<length ys} \<subseteq> A" for ys :: "'a list" and A
    using that by (metis nths_all subsetD lessThan_iff)
  from assms(1) have xs: "xs = take k xs @ xs ! k # drop (Suc k) xs" by (simp add: id_take_nth_drop)
  have len: "length (take k xs) = k" using assms(1) by simp
  have S: "{..<k} \<subseteq> - S" "k \<notin> S" "{..<k} \<subseteq> - insert k S" using assms(2) by (auto dest: assms(2))
  have rest: "{j. Suc (j + k) \<in> - S} = {j. Suc (j + k) \<in> - insert k S}" by auto
  have 1: "nths xs (- S) = take k xs @ xs ! k # nths (drop (Suc k) xs) {j. Suc (j + k) \<in> - S}"
    using S len by (subst xs) (simp add: nths_append nths_Cons keep)
  have 2: "nths xs (- insert k S) = take k xs @ nths (drop (Suc k) xs) {j. Suc (j + k) \<in> - insert k S}"
    using S len by (subst xs) (simp add: nths_append nths_Cons keep)
  show ?thesis unfolding 1 2 rest using len by simp
qed

lemma foldr_DeleteFrame:
  assumes "clip_ok c" "sorted D" "distinct D" "\<And>d. d \<in> set D \<Longrightarrow> 0 \<le> d \<and> d < nframes c"
  shows "frames (foldr DeleteFrame D c) = nths (frames c) (- nat ` set D) \<and> clip_ok (foldr DeleteFrame D c)"
  using assms(2-)
proof (induction D)
  case Nil
  then show ?case using assms(1) by (simp add: nths_all)
next
  case (Cons d D)
  let ?c = "foldr DeleteFrame D c"
  from Cons have IH: "frames ?c = nths (frames c) (- nat ` set D)" "clip_ok ?c" by auto
  have d: "0 \<le> d" "d < nframes c" using Cons.prems by auto
  have "d < e" if "e \<in> set D" for e using Cons.prems that by (auto simp: less_le)
  with d have above: "\<And>i. i \<in> nat ` set D \<Longrightarrow> nat d < i" by fastforce
  note del = nths_delete [of "nat d" "frames c" "nat ` set D"]
  have "nat d < length (frames ?c)"
  proof -
    have "nths (frames c) (- nat ` set D) = nths (take (Suc (nat d)) (frames c)) (- nat ` set D)
        @ nths (drop (Suc (nat d)) (frames c)) {j. j + length (take (Suc (nat d)) (frames c)) \<in> - nat ` set D}"
      by (subst append_take_drop_id [of "Suc (nat d)", symmetric]) (rule nths_append)
    moreover have "nths (take (Suc (nat d)) (frames c)) (- nat ` set D) = take (Suc (nat d)) (frames c)"
      by (intro nths_all allI impI ComplI) (drule above, simp)
    ultimately show ?thesis using d IH(1) by simp
  qed
  then have "d < nframes ?c" using IH(2) d by (simp add: clip_ok_def)
  from DeleteFrame_frames [OF IH(2) d(1) this] show ?case
    using del d above by (simp add: IH(1))
qed

section \<open>Sorting the numbers of DeleteFrame\<close>

abbreviation marked :: "int list \<Rightarrow> nat \<Rightarrow> int list" where
  "marked D k \<equiv> D @ replicate k INT_MAX"

lemma delete_insert_known:
  "sorted D \<Longrightarrow> distinct D \<Longrightarrow> v \<in> set D \<Longrightarrow> delete_insert (marked D k) v = (marked D (Suc k), True)"
proof (induction D)
  case (Cons x D)
  then show ?case
  proof (cases "v = x")
    case True
    then show ?thesis by (simp flip: replicate_append_same)
  next
    case False
    with Cons have "x < v" by auto
    with Cons False show ?thesis by auto
  qed
qed simp

lemma delete_insert_new:
  "sorted D \<Longrightarrow> distinct D \<Longrightarrow> v \<notin> set D \<Longrightarrow> (\<And>d. d \<in> insert v (set D) \<Longrightarrow> d < INT_MAX) \<Longrightarrow> k \<le> 1
    \<Longrightarrow> delete_insert (marked D k) v = (marked (insort v D) k, False)"
proof (induction D arbitrary: v)
  case Nil
  then show ?case by (cases k) auto
next
  case (Cons x D)
  show ?case
  proof (cases "v < x")
    case True
    from Cons.prems have "insort x D = x # D" by (cases D) auto
    with Cons True show ?thesis by auto
  next
    case False
    with Cons.prems have "delete_insert (marked D k) v = (marked (insort v D) k, False)"
      by (intro Cons.IH) auto
    with Cons.prems False show ?thesis by auto
  qed
qed

lemma delete_sort_correct:
  assumes "sorted D" "distinct D" "\<And>d. d \<in> set D \<union> set as \<Longrightarrow> d < INT_MAX"
    "length D + k + length as \<le> card (set D \<union> set as) + 1"
  shows "\<exists>D' k'. delete_sort (marked D k) m as = (marked D' k', m - int (k' - k)) \<and> k \<le> k'
    \<and> sorted D' \<and> distinct D' \<and> set D' = set D \<union> set as \<and> length D' + k' = length D + k + length as"
  using assms
proof (induction as arbitrary: D k m)
  case Nil
  then show ?case by (intro exI [of _ D] exI [of _ k]) simp
next
  case (Cons a as)
  have step: ?case
    if s: "delete_insert (marked D k) a = (marked D1 k1, dup)" "sorted D1" "distinct D1"
      "set D1 = insert a (set D)" "length D1 + k1 = Suc (length D + k)" "k1 = (if dup then Suc k else k)" for D1 k1 dup
  proof -
    have set1: "set D1 \<union> set as = set D \<union> set (a # as)" using s(4) by auto
    then obtain D' k' where D': "delete_sort (marked D1 k1) (if dup then m - 1 else m) as
          = (marked D' k', (if dup then m - 1 else m) - int (k' - k1))" "k1 \<le> k'"
      "sorted D'" "distinct D'" "set D' = set D1 \<union> set as" "length D' + k' = length D1 + k1 + length as"
      using Cons.IH [of D1 k1 "if dup then m - 1 else m"] Cons.prems(3,4) s(2,3,5) by auto
    show ?thesis
    proof (intro exI conjI)
      show "delete_sort (marked D k) m (a # as) = (marked D' k', m - int (k' - k))"
        using D'(1,2) s(1,6) by (cases dup) (auto simp: of_nat_diff)
    qed (use D' s set1 in \<open>auto split: if_splits\<close>)
  qed
  show ?case
  proof (cases "a \<in> set D")
    case True
    with Cons.prems(1,2) show ?thesis
      by (intro step [of D "Suc k" True]) (auto simp: delete_insert_known)
  next
    case False
    have "card (set D \<union> set (a # as)) \<le> length D + length (a # as)"
      using card_length [of "D @ a # as"] by simp
    with Cons.prems(4) have k: "k \<le> 1" by simp
    with False Cons.prems have "delete_insert (marked D k) a = (marked (insort a D) k, False)"
      by (intro delete_insert_new) auto
    with Cons.prems(1,2) False show ?thesis
      by (intro step [of "insort a D" k False]) (auto simp: sorted_insort distinct_insort set_insort_key)
  qed
qed

text \<open>
  C4: \<^verbatim>\<open>DeleteFrame\<close> removes exactly the frames it is given, in any order, when at most one of the
  numbers is given twice; it refuses numbers outside the clip and the deletion of all frames.
\<close>

theorem DeleteFrame_removes:
  assumes "clip_ok c" "args \<noteq> []" "length args \<le> card (set args) + 1"
  shows "(case DeleteFrame_Create args c of
      Inl msg \<Rightarrow> (\<exists>f \<in> set args. f < 0 \<or> nframes c \<le> f) \<or> nframes c \<le> int (card (set args))
    | Inr c' \<Rightarrow> frames c' = nths (frames c) {i. int i \<notin> set args} \<and> int (card (set args)) < nframes c)"
proof (cases "list_all (\<lambda>f. 0 \<le> f \<and> f < nframes c) args")
  case False
  then have "\<exists>f \<in> set args. f < 0 \<or> nframes c \<le> f" unfolding list_all_iff by (meson not_le)
  with False show ?thesis by (simp add: DeleteFrame_Create_def)
next
  case True
  then have range: "0 \<le> f" "f < nframes c" if "f \<in> set args" for f
    using that by (auto simp: list_all_iff)
  obtain a as where args: "args = a # as" using assms(2) by (cases args) auto
  have "\<And>d. d \<in> set [a] \<union> set as \<Longrightarrow> d < INT_MAX" using range assms(1) by (fastforce simp: args clip_ok_def)
  then obtain D k where D: "delete_sort [a] (int (length as)) as = (marked D k, int (length as) - int k)"
    "sorted D" "distinct D" "set D = set args" "length D + k = length args"
    using delete_sort_correct [of "[a]" as 0 "int (length as)"] assms(3) args by auto
  have card: "card (set args) = length D" using D(3,4) by (metis distinct_card)
  have len: "int (length as) - int k + 1 = int (length D)" using D(5) args by simp
  have "frames (foldr DeleteFrame D c) = nths (frames c) (- nat ` set D)"
    using foldr_DeleteFrame [OF assms(1) D(2,3)] range D(4) by simp
  moreover have "- nat ` set D = {i. int i \<notin> set args}"
    using range unfolding D(4) by force
  ultimately show ?thesis
    using True len card by (simp add: DeleteFrame_Create_def args D(1) Let_def)
qed

theorem DeleteFrame_removes_witness:
  "map_sum id frames (DeleteFrame_Create [4, 1, 4] (test_clip 6)) = Inr (nths [0, 1, 2, 3, 4, 5] {i. int i \<notin> {4, 1}})"
proof -
  have f: "frames (test_clip 6) = [0, 1, 2, 3, 4, 5]" by code_simp
  have n: "nframes (test_clip 6) = 6" by (simp add: test_clip_def)
  show ?thesis
    using DeleteFrame_removes [of "test_clip 6" "[4, 1, 4]"]
    by (cases "DeleteFrame_Create [4, 1, 4] (test_clip 6)") (simp_all add: clip_ok_def n f int_limits insert_commute card_insert_if)
qed

text \<open>
  With two repetitions before a new, smaller number the markers of the removed repetitions meet,
  and the count of frames to delete is lowered once too often: frame 5 stays in the clip.
\<close>

theorem DeleteFrame_repeated:
  "map_sum id frames (DeleteFrame_Create [5, 5, 5, 3] (test_clip 8)) = Inr [0, 1, 2, 4, 5, 6, 7]"
  by code_simp

section \<open>DuplicateFrame\<close>

lemma DuplicateFrame_frames:
  assumes "0 \<le> k" "k < nframes c" "nframes c + 1 \<le> INT_MAX"
  shows "frames (DuplicateFrame k c) = take (Suc (nat k)) (frames c) @ drop (nat k) (frames c)"
    and "nframes (DuplicateFrame k c) = nframes c + 1"
proof -
  let ?n = "nframes c"
  from assms show n: "nframes (DuplicateFrame k c) = ?n + 1"
    by (simp add: DuplicateFrame_def with_num_frames_def)
  show "frames (DuplicateFrame k c) = take (Suc (nat k)) (frames c) @ drop (nat k) (frames c)"
  proof (rule frames_eqI, goal_cases)
    case 1
    show ?case using assms n by simp
  next
    case (2 i)
    then have i: "int i \<le> ?n" using assms by auto
    have G: "GetFrame (DuplicateFrame k c) (int i) = GetFrame c (wrap32 (int i - (if int i > k then 1 else 0)))"
      by (simp add: DuplicateFrame_def)
    show ?case
    proof (cases "int i > k")
      case True
      then obtain j where j: "i = Suc j" "nat k \<le> j" using assms(1) by (cases i) auto
      then have "GetFrame (DuplicateFrame k c) (int i) = GetFrame c (int j)" using G True i assms by simp
      with j i assms True show ?thesis by (simp add: nth_append)
    next
      case False
      then have "i < Suc (nat k)" "i < nat ?n" using assms by linarith+
      then show ?thesis using False assms by (simp add: G nth_append)
    qed
  qed
qed

text \<open>Every frame as often as it is named, and once more.\<close>

definition repeated :: "int list \<Rightarrow> 'f list \<Rightarrow> 'f list" where
  "repeated D xs = concat (map (\<lambda>i. replicate (Suc (count (mset D) (int i))) (xs ! i)) [0..<length xs])"

lemma repeated_step:
  assumes "k < length xs" "\<And>d. d \<in> set D \<Longrightarrow> int k \<le> d"
  shows "take (Suc k) (repeated D xs) @ drop k (repeated D xs) = repeated (int k # D) xs"
    and "k < length (repeated D xs)"
proof -
  let ?f = "\<lambda>D i. replicate (Suc (count (mset D) (int i))) (xs ! i)"
  have split: "[0..<length xs] = [0..<k] @ k # [Suc k..<length xs]"
    using assms(1) upt_add_eq_append [of 0 k "length xs - k"] by (simp add: upt_conv_Cons)
  have low: "concat (map (?f E) [0..<k]) = take k xs" if "\<And>d. d \<in> set E \<Longrightarrow> int k \<le> d" for E
  proof -
    have "count (mset E) (int i) = 0" if "i < k" for i
      using \<open>\<And>d. d \<in> set E \<Longrightarrow> int k \<le> d\<close> [of "int i"] that by (auto simp: count_eq_zero_iff)
    then have "map (?f E) [0..<k] = map (\<lambda>i. [xs ! i]) [0..<k]" by simp
    then have "concat (map (?f E) [0..<k]) = map ((!) xs) [0..<k]" by (simp only: concat_map_singleton)
    also have "\<dots> = take k xs" using assms(1) by (simp add: list_eq_iff_nth_eq)
    finally show ?thesis .
  qed
  have high: "map (?f (int k # D)) [Suc k..<length xs] = map (?f D) [Suc k..<length xs]" by simp
  have D: "repeated D xs = take k xs @ ?f D k @ concat (map (?f D) [Suc k..<length xs])"
    unfolding repeated_def split using low [OF assms(2)] by simp
  have kD: "repeated (int k # D) xs = take k xs @ (xs ! k # ?f D k) @ concat (map (?f D) [Suc k..<length xs])"
  proof -
    have "concat (map (?f (int k # D)) [0..<k]) = take k xs" by (rule low) (use assms(2) in auto)
    then show ?thesis unfolding repeated_def split map_append list.map concat_append concat.simps high by simp
  qed
  show "take (Suc k) (repeated D xs) @ drop k (repeated D xs) = repeated (int k # D) xs"
    unfolding D kD using assms(1) by simp
  show "k < length (repeated D xs)" unfolding D using assms(1) by simp
qed

lemma foldr_DuplicateFrame:
  assumes "sorted D" "\<And>d. d \<in> set D \<Longrightarrow> 0 \<le> d \<and> d < nframes c" "nframes c + int (length D) \<le> INT_MAX"
  shows "frames (foldr DuplicateFrame D c) = repeated D (frames c)
    \<and> nframes (foldr DuplicateFrame D c) = nframes c + int (length D)"
  using assms
proof (induction D)
  case Nil
  have "concat (map (\<lambda>i. [frames c ! i]) [0..<length (frames c)]) = frames c"
    by (simp only: concat_map_singleton map_nth)
  then show ?case by (simp add: repeated_def)
next
  case (Cons d D)
  let ?c = "foldr DuplicateFrame D c"
  from Cons have IH: "frames ?c = repeated D (frames c)" "nframes ?c = nframes c + int (length D)" by auto
  have dc: "0 \<le> d" "d < nframes c" using Cons.prems(2) by auto
  with Cons.prems(3) have d: "0 \<le> d" "d < nframes ?c" "nframes ?c + 1 \<le> INT_MAX" "nat d < length (frames c)"
    by (simp_all add: IH(2))
  from dc Cons.prems(1) have above: "\<And>e. e \<in> set D \<Longrightarrow> int (nat d) \<le> e" by simp
  show ?case
    using DuplicateFrame_frames [OF d(1-3)] repeated_step(1) [OF d(4) above] d(1) by (simp add: IH)
qed

lemma bubble_insert_sorts:
  "mset (bubble_insert xs v) = add_mset v (mset xs)" "sorted xs \<Longrightarrow> sorted (bubble_insert xs v)"
proof -
  show m: "mset (bubble_insert xs v) = add_mset v (mset xs)" for xs v
    by (induction xs arbitrary: v) auto
  have set: "set (bubble_insert xs v) = insert v (set xs)" for xs v
    using m [of xs v] by (metis set_mset_add_mset_insert set_mset_mset)
  show "sorted xs \<Longrightarrow> sorted (bubble_insert xs v)"
    by (induction xs arbitrary: v) (auto simp: set)
qed

lemma fold_bubble_insert:
  "sorted fs \<Longrightarrow> sorted (fold (\<lambda>a fs. bubble_insert fs a) as fs)
    \<and> mset (fold (\<lambda>a fs. bubble_insert fs a) as fs) = mset fs + mset as"
  by (induction as arbitrary: fs) (simp_all add: bubble_insert_sorts)

text \<open>
  \<^verbatim>\<open>DuplicateFrame\<close> repeats each frame as often as it is named, in any order and with
  repetitions, and refuses numbers outside the clip.
\<close>

theorem DuplicateFrame_repeats:
  assumes "args \<noteq> []" "nframes c + int (length args) \<le> INT_MAX"
  shows "(case DuplicateFrame_Create args c of
      Inl msg \<Rightarrow> \<exists>f \<in> set args. f < 0 \<or> nframes c \<le> f
    | Inr c' \<Rightarrow> frames c' = repeated args (frames c) \<and> nframes c' = nframes c + int (length args))"
proof (cases "list_all (\<lambda>f. 0 \<le> f \<and> f < nframes c) args")
  case False
  then have "\<exists>f \<in> set args. f < 0 \<or> nframes c \<le> f" unfolding list_all_iff by (meson not_le)
  with False show ?thesis by (simp add: DuplicateFrame_Create_def)
next
  case True
  obtain a as where args: "args = a # as" using assms(1) by (cases args) auto
  let ?D = "fold (\<lambda>a fs. bubble_insert fs a) as [a]"
  have D: "sorted ?D" "mset ?D = mset args" using fold_bubble_insert [of "[a]" as] args by auto
  then have "set ?D = set args" "length ?D = length args" by (metis set_mset_mset, metis size_mset)
  with foldr_DuplicateFrame [OF D(1), of c] True assms D(2) show ?thesis
    by (auto simp: DuplicateFrame_Create_def args list_all_iff repeated_def)
qed

theorem DuplicateFrame_repeats_witness:
  "map_sum id frames (DuplicateFrame_Create [2, 0, 2] (test_clip 3)) = Inr (repeated [2, 0, 2] [0, 1, 2])"
proof -
  have f: "frames (test_clip 3) = [0, 1, 2]" by code_simp
  have n: "nframes (test_clip 3) = 3" by (simp add: test_clip_def)
  show ?thesis
    using DuplicateFrame_repeats [of "[2, 0, 2]" "test_clip 3"]
    by (cases "DuplicateFrame_Create [2, 0, 2] (test_clip 3)") (simp_all add: n f int_limits)
qed

section \<open>Splice\<close>

text \<open>A conversion of the audio leaves the video alone.\<close>

lemma EnsureAudioFormat_video:
  "frames (EnsureAudioFormat cv c a p) = frames c" "nframes (EnsureAudioFormat cv c a p) = nframes c"
  "GetFrame (EnsureAudioFormat cv c a p) = GetFrame c" "GetParity (EnsureAudioFormat cv c a p) = GetParity c"
  by (simp_all add: EnsureAudioFormat_def ConvertAudio_def frames_def Let_def)

lemma match_audio_video:
  assumes "match_audio name cv c1 c2 = Inr (d1, d2)"
  shows "frames d1 = frames c1" "frames d2 = frames c2" "nframes d1 = nframes c1" "nframes d2 = nframes c2"
    "GetFrame d1 = GetFrame c1" "GetFrame d2 = GetFrame c2"
  using assms by (auto simp: match_audio_def Let_def EnsureAudioFormat_video split: if_splits)

lemma Splice_clip_frames:
  assumes "clip_ok c1" "clip_ok c2" "nframes c1 + nframes c2 \<le> INT_MAX" "num_frames vi = nframes c1 + nframes c2"
  shows "frames (Splice_clip vi (nframes c1) a c1 c2) = frames c1 @ frames c2"
proof (rule frames_eqI, goal_cases)
  case 1
  then show ?case using assms by (simp add: Splice_clip_def clip_ok_def)
next
  case (2 i)
  show ?case
  proof (cases "int i < nframes c1")
    case True
    then have "i < nat (nframes c1)" by linarith
    with True show ?thesis by (simp add: Splice_clip_def nth_append)
  next
    case False
    with 2 assms have "wrap32 (int i - nframes c1) = int (i - nat (nframes c1))" "i - nat (nframes c1) < nat (nframes c2)"
      by (auto simp: clip_ok_def of_nat_diff)
    moreover have "\<not> i < nat (nframes c1)" using False by linarith
    ultimately show ?thesis using False by (simp add: Splice_clip_def nth_append)
  qed
qed

lemma wrap32_sum_negative:
  assumes "0 \<le> a" "a \<le> INT_MAX" "0 \<le> b" "b \<le> INT_MAX"
  shows "wrap32 (a + b) < 0 \<longleftrightarrow> a + b > INT_MAX"
proof (cases "a + b > INT_MAX")
  case True
  with assms have "(a + b + 2147483648) mod 4294967296 = a + b + 2147483648 - 4294967296"
    by (subst minus_mod_self2 [symmetric], intro mod_pos_pos_trivial) (simp_all add: int_limits)
  with True assms show ?thesis by (simp add: wrap32_def int_limits)
qed (use assms in simp)

lemma Splice_frames:
  assumes "clip_ok c1" "clip_ok c2" "Splice cv realign c1 c2 = Inr c'"
  shows "frames c' = frames c1 @ frames c2 \<and> clip_ok c'"
proof -
  from assms(3) obtain d1 d2 where m: "match_audio ''Splice'' cv c1 c2 = Inr (d1, d2)"
    by (auto simp: Splice_def Let_def bind_r_Inr split: if_splits)
  note v = match_audio_video [OF m]
  let ?n = "nframes c1 + nframes c2"
  from assms(3) v have n: "\<not> wrap32 ?n < 0"
    and c': "\<exists>vi a. c' = Splice_clip vi (nframes d1) a d1 d2 \<and> num_frames vi = wrap32 ?n"
    by (auto simp: Splice_def Let_def bind_r_Inr m split: if_splits)
  from n assms(1,2) have le: "?n \<le> INT_MAX" "0 \<le> ?n" by (simp_all add: clip_ok_def wrap32_sum_negative)
  from c' obtain vi a where c': "c' = Splice_clip vi (nframes d1) a d1 d2" "num_frames vi = ?n"
    using le by auto
  with Splice_clip_frames [of d1 d2 vi a] v assms(1,2) le show ?thesis
    by (simp add: clip_ok_def Splice_clip_def)
qed

text \<open>
  C17: Splicing a list of clips, with or without aligned sound, gives the clip whose frames are
  those of all the clips one after the other, and never more frames than an integer can count.
\<close>

theorem Splice_appends:
  assumes "clip_ok c" "list_all clip_ok ds" "Splice_Create cv realign c ds = Inr c'"
  shows "frames c' = concat (map frames (c # ds)) \<and> clip_ok c'"
  using assms
proof (induction ds arbitrary: c)
  case (Cons d ds)
  then obtain r where r: "Splice cv realign c d = Inr r" "Splice_Create cv realign r ds = Inr c'"
    by (auto simp: bind_r_Inr)
  with Cons Splice_frames [of c d cv realign r] show ?case by auto
qed simp

theorem Splice_appends_witness:
  "map_sum id frames (Splice_Create (\<lambda>_ _. None) True (test_clip 2) [test_clip 1, test_clip 2]) = Inr [0, 1, 0, 0, 1]"
proof -
  have "map_sum id frames (Splice_Create (\<lambda>_ _. None) True (test_clip 2) [test_clip 1, test_clip 2]) = Inr [0, 1, 0, 0, 1]"
    by code_simp
  then obtain c' where "Splice_Create (\<lambda>_ _. None) True (test_clip 2) [test_clip 1, test_clip 2] = Inr c'"
    by (cases "Splice_Create (\<lambda>_ _. None) True (test_clip 2) [test_clip 1, test_clip 2]") auto
  moreover have "frames (test_clip 2) = [0, 1]" "frames (test_clip 1) = [0]" by code_simp+
  ultimately show ?thesis
    using Splice_appends [of "test_clip 2" "[test_clip 1, test_clip 2]" "\<lambda>_ _. None" True c']
    by (simp add: clip_ok_def test_clip_def int_limits)
qed

section \<open>Reverse\<close>

lemma Reverse_frames: "clip_ok c \<Longrightarrow> frames (Reverse c) = rev (frames c)"
  by (rule frames_eqI) (auto simp: Reverse_def Let_def clip_ok_def rev_nth of_nat_diff algebra_simps)

section \<open>Loop\<close>

lemma nth_concat_replicate:
  "i < t * length ys \<Longrightarrow> concat (replicate t ys) ! i = ys ! (i mod length ys)"
proof (induction t arbitrary: i)
  case (Suc t)
  show ?case
  proof (cases "i < length ys")
    case False
    with Suc have "concat (replicate t ys) ! (i - length ys) = ys ! ((i - length ys) mod length ys)" by simp
    with False show ?thesis by (simp add: nth_append le_mod_geq)
  qed (simp add: nth_append)
qed simp

lemma length_concat_replicate: "length (concat (replicate t ys)) = t * length ys"
  by (induction t) simp_all

text \<open>The part of a clip from \<open>s\<close> to \<open>e\<close>, played \<open>t\<close> times.\<close>

definition looped :: "nat \<Rightarrow> nat \<Rightarrow> nat \<Rightarrow> 'f list \<Rightarrow> 'f list" where
  "looped t s e xs = take s xs @ concat (replicate t (take (Suc e - s) (drop s xs))) @ drop (Suc e) xs"

lemma length_looped:
  "s \<le> e \<Longrightarrow> e < length xs \<Longrightarrow> length (looped t s e xs) + (Suc e - s) = length xs + t * (Suc e - s)"
  by (simp add: looped_def length_concat_replicate)

lemma nth_looped:
  assumes "s \<le> e" "e < length xs" "i < length (looped t s e xs)"
  shows "looped t s e xs ! i =
    (if i < s then xs ! i else if i < s + t * (Suc e - s) then xs ! (s + (i - s) mod (Suc e - s))
     else xs ! (i - t * (Suc e - s) + (Suc e - s)))"
proof -
  let ?m = "Suc e - s"
  have mid: "length (take ?m (drop s xs)) = ?m" using assms(1,2) by simp
  then have len: "length (concat (replicate t (take ?m (drop s xs)))) = t * ?m" by (simp add: length_concat_replicate)
  consider "i < s" | "s \<le> i" "i < s + t * ?m" | "s + t * ?m \<le> i" by linarith
  then show ?thesis
  proof cases
    case 2
    then have "concat (replicate t (take ?m (drop s xs))) ! (i - s) = take ?m (drop s xs) ! ((i - s) mod ?m)"
      using nth_concat_replicate [of "i - s" t "take ?m (drop s xs)"] mid by simp
    moreover have "(i - s) mod ?m < ?m" using assms(1) by simp
    moreover have "i - s < t * ?m" using 2 by linarith
    ultimately show ?thesis using 2 assms(1,2) len by (simp add: looped_def nth_append)
  next
    case 3
    moreover have "i - t * ?m + ?m < length xs"
      using assms 3 length_looped [OF assms(1,2), of t] by linarith
    moreover have "Suc e + (i - s - t * ?m) = i - t * ?m + ?m" using 3 assms(1) by linarith
    moreover have "\<not> i - s < t * ?m" using 3 by linarith
    ultimately show ?thesis using assms(1,2) len by (simp add: looped_def nth_append)
  qed (use assms in \<open>simp add: looped_def nth_append\<close>)
qed

lemma loop_convert_frames:
  assumes "l = \<lparr>lstart = s, lend = s + t * m - 1, lframes = m, aud_start = a, aud_end = b, aud_count = k\<rparr>"
    "0 \<le> s" "0 < m" "0 \<le> t" "n \<le> INT_MAX" "0 \<le> i" "i < n + (t - 1) * m"
  shows "loop_convert l i = (if i < s then i else if i < s + t * m then s + (i - s) mod m else i - t * m + m)"
proof -
  define T where T: "T = t * m"
  then have "0 \<le> T" "i - T + m < n" using assms by (simp_all add: left_diff_distrib)
  with assms(2-6) show ?thesis
    unfolding T [symmetric] by (auto simp: loop_convert_def assms(1) T [symmetric] intro!: wrap32_small)
qed

lemma Loop_state_frames:
  assumes "clip_ok c" "0 < nframes c" "0 \<le> t" "s = clamp x 0 (nframes c - 1)" "e = clamp y s (nframes c - 1)"
    "m = e - s + 1" "nframes c + (t - 1) * m \<le> INT_MAX" "t \<le> INT_MAX"
  shows "\<exists>vi as ae ac. Loop_state (GetVideoInfo c) t x y = Inr (vi,
      \<lparr>lstart = s, lend = s + t * m - 1, lframes = m, aud_start = as, aud_end = ae, aud_count = ac\<rparr>)
    \<and> num_frames vi = nframes c + (t - 1) * m
    \<and> (HasVideo (GetVideoInfo c) \<and> HasAudio (GetVideoInfo c) \<longrightarrow>
         as = AudioSamplesFromFrames (GetVideoInfo c) s \<and> ac = AudioSamplesFromFrames (GetVideoInfo c) m
         \<and> ae = wrap64 (AudioSamplesFromFrames (GetVideoInfo c) (s + t * m) - 1))"
proof -
  let ?n = "nframes c"
  have se: "0 \<le> s" "s \<le> e" "e < ?n" using assms(2,4,5) by (auto simp: clamp_def)
  then have m: "0 < m" "m \<le> ?n" "s + m \<le> ?n" using assms(6) by auto
  have n: "?n \<le> INT_MAX" using assms(1) by (simp add: clip_ok_def)
  have tm: "0 \<le> t * m" "(t - 1) * m = t * m - m" using assms(3) m by (auto simp: left_diff_distrib)
  then have T: "\<And>k. - 2147483648 \<le> t * m - m \<and> - 2147483648 \<le> s + t * m - 1" using se m n by (simp add: int_limits)
  have w: "wrap32 (?n - 1) = ?n - 1" "wrap32 (e - s) = e - s" "wrap32 (e - s + 1) = m" "wrap32 (t * m) = t * m"
    "wrap32 (s + t * m) = s + t * m"
    using se m n tm assms(2,6,7) by auto
  moreover have "wrap32 (t - 1) = t - 1" "wrap32 ((t - 1) * m) = (t - 1) * m" "wrap32 (s + t * m - 1) = s + t * m - 1"
    using se m n tm T assms(3,7,8) by (auto intro!: wrap32_id simp: is_int32_def int_limits)
  moreover have "wrap32 (?n + (t - 1) * m) = ?n + (t - 1) * m" "\<not> ?n + (t - 1) * m < 0"
    using m tm assms(7) by auto
  ultimately show ?thesis
    using assms(3) by (simp add: Loop_state_def Let_def flip: assms(4,5) split: prod.split)
qed



text \<open>
  The test for too many frames misses a product that wraps around to a small number: 65537
  repetitions of 65536 frames are accepted, and the clip has 65536 frames.
\<close>

theorem Loop_count_wraps:
  "map_sum id nframes (Loop_Create (Some 65537) (Some 0) (Some 65535) (test_clip 65536)) = Inr 65536"
  by code_simp

section \<open>Dissolve\<close>

text \<open>The frames before the overlap, the merged ones, and the rest of the second clip.\<close>

definition dissolved :: "(nat \<Rightarrow> 'f \<Rightarrow> 'f \<Rightarrow> 'f) \<Rightarrow> nat \<Rightarrow> 'f list \<Rightarrow> 'f list \<Rightarrow> 'f list" where
  "dissolved merge v xs ys = take v xs
     @ map (\<lambda>(i, x, y). merge i x y) (zip [v..<length xs] (zip (drop v xs) ys)) @ drop (length xs - v) ys"

lemma length_dissolved: "v \<le> length xs \<Longrightarrow> length (dissolved merge v xs ys) = v + length ys"
  by (simp add: dissolved_def)

lemma nth_dissolved:
  assumes "v \<le> length xs" "i < v + length ys"
  shows "dissolved merge v xs ys ! i =
    (if i < v then xs ! i else if i < length xs then merge i (xs ! i) (ys ! (i - v)) else ys ! (i - v))"
proof -
  let ?z = "map (\<lambda>(i, x, y). merge i x y) (zip [v..<length xs] (zip (drop v xs) ys))"
  have len: "length ?z = min (length xs - v) (length ys)" using assms(1) by simp
  consider "i < v" | "v \<le> i" "i < length xs" | "length xs \<le> i" by linarith
  then show ?thesis
  proof cases
    case 2
    with assms have "i - v < length xs - v" "i - v < length ys" by linarith+
    with len have "i - v < length ?z" by simp
    with 2 assms show ?thesis by (simp add: dissolved_def nth_append)
  next
    case 3
    then have "length xs - v \<le> length ys" "\<not> i - v < length ?z" "length xs - v + (i - v - length ?z) = i - v"
      using len assms by auto
    moreover have "\<not> i - v < length xs - v" using 3 by linarith
    ultimately show ?thesis using 3 assms by (simp add: dissolved_def nth_append)
  qed (use assms in \<open>simp add: dissolved_def nth_append\<close>)
qed

lemma Dissolve_clip_frames:
  assumes "clip_ok c1" "clip_ok c2" "video_fade_start d = int v" "int v \<le> nframes c1"
    "video_fade_end d = nframes c1 - 1" "num_frames vi = int v + nframes c2" "int v + nframes c2 \<le> INT_MAX"
  shows "frames (Dissolve_clip merge vi d c1 c2)
    = dissolved (\<lambda>i. merge (Dissolve_weight d (int i))) v (frames c1) (frames c2)"
proof (rule frames_eqI, goal_cases)
  case 1
  then show ?case using assms by (simp add: length_dissolved Dissolve_clip_def clip_ok_def)
next
  case (2 i)
  have v: "v \<le> length (frames c1)" using assms(4) by simp
  with 2 have i: "i < v + length (frames c2)" by (simp only: length_dissolved)
  consider "i < v" | "v \<le> i" "int i < nframes c1" | "v \<le> i" "nframes c1 \<le> int i"
    using assms(4) by linarith
  then show ?case
  proof cases
    case 1
    with v i nth_dissolved [OF v i] show ?thesis by (simp add: Dissolve_clip_def assms(3))
  next
    case 2
    then have "i < nat (nframes c1)" "i - v < nat (nframes c2)" "wrap32 (int i - int v) = int (i - v)"
      using i assms(1,2) by (auto simp: clip_ok_def of_nat_diff)
    with 2 nth_dissolved [OF v i] show ?thesis by (simp add: Dissolve_clip_def assms(3,5))
  next
    case 3
    then have "\<not> i < nat (nframes c1)" "i - v < nat (nframes c2)" "wrap32 (int i - int v) = int (i - v)"
      using i assms(1,2) by (auto simp: clip_ok_def of_nat_diff)
    with 3 nth_dissolved [OF v i] show ?thesis by (simp add: Dissolve_clip_def assms(3,5))
  qed
qed

text \<open>
  C19: Dissolving two clips over \<open>ov\<close> frames gives the frames of the first one up to the overlap,
  then each remaining frame of the first merged with the next one of the second, with the
  weight of its place in the overlap, and then the rest of the second clip.
\<close>

theorem Dissolve_merges:
  assumes "clip_ok c1" "clip_ok c2" "HasVideo (GetVideoInfo c1)" "ov \<le> INT_MAX"
    "Dissolve cv merge ov fps c1 c2 = Inr c'" "v = nat (max 0 (nframes c1 - ov))"
  shows "frames c' = dissolved
      (\<lambda>i. merge (fp_convert binary32 (fp_div binary64 (fp_of_int binary64 (wrap32 (int i - (nframes c1 - 1) + ov)))
          (fp_add binary64 (fp_of_int binary64 ov) (fp_of_int binary64 1)))))
      v (frames c1) (frames c2)"
proof -
  let ?c = "EnsureAudioFormat cv c1 (or SAMPLE_INT16 SAMPLE_FLOAT) SAMPLE_FLOAT"
  from assms(5) obtain d1 d2 where m: "match_audio ''Dissolve'' cv ?c c2 = Inr (d1, d2)" and ov: "0 \<le> ov"
    by (auto simp: Dissolve_def Let_def bind_r_Inr split: if_splits)
  note w = match_audio_video [OF m, unfolded EnsureAudioFormat_video]
  define d where "d = Dissolve_state (GetVideoInfo d1) ov fps"
  have hv: "HasVideo (GetVideoInfo d1)"
    using m assms(3) by (auto simp: match_audio_def Let_def EnsureAudioFormat_def ConvertAudio_def HasVideo_def split: if_splits)
  have "wrap32 (nframes c1 - 1) = nframes c1 - 1" "wrap32 (nframes c1 - ov) = nframes c1 - ov"
    using assms(1,4) ov by (auto intro!: wrap32_id simp: is_int32_def int_limits clip_ok_def)
  then have d: "video_fade_start d = int v" "video_fade_end d = nframes c1 - 1" "overlap d = ov"
    using hv w assms(6) by (auto simp: d_def Dissolve_state_def Let_def)
  have v: "0 \<le> int v" "int v \<le> nframes c1" "int v \<le> INT_MAX" using assms(1,6) ov by (auto simp: clip_ok_def)
  from assms(5) w d have n: "\<not> wrap32 (int v + nframes c2) < 0"
    and c': "\<exists>vi. c' = Dissolve_clip merge vi d d1 d2 \<and> num_frames vi = wrap32 (int v + nframes c2)"
    by (auto simp: Dissolve_def Let_def bind_r_Inr m d_def split: if_splits)
  from n v assms(2) have "int v + nframes c2 \<le> INT_MAX" by (simp add: clip_ok_def wrap32_sum_negative)
  with c' v assms(1,2) obtain vi where c': "c' = Dissolve_clip merge vi d d1 d2" "num_frames vi = int v + nframes c2"
    "int v + nframes c2 \<le> INT_MAX" by (auto simp: clip_ok_def)
  from Dissolve_clip_frames [of d1 d2 d v vi merge] show ?thesis
    using c' d w v assms(1,2) by (simp add: clip_ok_def Dissolve_weight_def)
qed

theorem Dissolve_merges_witness:
  "map_sum id frames (Dissolve (\<lambda>_ _. None) (\<lambda>w x y. 100 * x + y) 2 (fp_of_int binary64 24) (test_clip 4) (test_clip 3))
    = Inr (dissolved (\<lambda>i x y. 100 * x + y) 2 [0, 1, 2, 3] [0, 1, 2])"
proof -
  let ?D = "Dissolve (\<lambda>_ _. None) (\<lambda>w x y. 100 * x + y) 2 (fp_of_int binary64 24) (test_clip 4) (test_clip 3)"
  have "map_sum id nframes ?D = Inr 5" by code_simp
  then obtain c' where c': "?D = Inr c'" by (cases ?D) auto
  have "frames (test_clip 4) = [0, 1, 2, 3]" "frames (test_clip 3) = [0, 1, 2]" by code_simp+
  moreover have "clip_ok (test_clip 4)" "clip_ok (test_clip 3)" "HasVideo (GetVideoInfo (test_clip 4))" "nframes (test_clip 4) = 4"
    by (simp_all add: test_clip_def clip_ok_def HasVideo_def int_limits)
  ultimately show ?thesis
    using Dissolve_merges [OF _ _ _ _ c' refl] by (simp add: c' int_limits)
qed

end
