(* ===== verification/Edit_Audio.thy ===== *)
theory Edit_Audio
  imports Edit_Frames
begin

text \<open>
  The audio of the editing filters.  A clip delivers its audio in whatever pieces it is asked for;
  it is described by the sample at each position.  The filters turn clips that deliver consistently
  into one that does, with the samples of the first clip continued by those of the second, reversed
  or repeated.  Where rounding makes the loop filter or the dissolve depend on how the audio is
  requested, that is shown as well.
\<close>

section \<open>Clips that deliver consistently\<close>

text \<open>Every request below position \<open>B\<close> gives the samples \<open>a\<close>.\<close>

definition audio_upto :: "int \<Rightarrow> 'f clip \<Rightarrow> (int \<Rightarrow> sample list) \<Rightarrow> bool" where
  "audio_upto B c a \<longleftrightarrow> (\<forall>s n. 0 \<le> s \<and> 0 \<le> n \<and> s + n \<le> B \<longrightarrow> GetAudio c s n = ret (map a [s..s + n - 1]))"

lemma audio_uptoD: "audio_upto B c a \<Longrightarrow> 0 \<le> s \<Longrightarrow> 0 \<le> n \<Longrightarrow> s + n \<le> B \<Longrightarrow> GetAudio c s n = ret (map a [s..s + n - 1])"
  by (simp add: audio_upto_def)

lemma wrap64_small [simp]: "0 \<le> i \<Longrightarrow> i \<le> INT64_MAX \<Longrightarrow> wrap64 i = i"
  by (rule wrap64_id) (simp add: is_int64_def int_limits)

lemma map_upto_shift: "map f [i + k..j + k] = map (\<lambda>x. f (x + k)) [i..j]"
  for i j k :: int
  by (rule nth_equalityI) (auto simp: algebra_simps)

lemma map_upto_append:
  fixes i j k :: int
  assumes "i \<le> j" "j \<le> k"
  shows "map f [i..j - 1] @ map f [j..k - 1] = map f [i..k - 1]"
proof (rule nth_equalityI, goal_cases)
  case 1
  then show ?case using assms by simp
next
  case (2 x)
  then show ?case using assms by (auto simp: nth_append add.commute)
qed

lemma map_upto_cong: "(\<And>x. i \<le> x \<Longrightarrow> x \<le> j \<Longrightarrow> f x = g x) \<Longrightarrow> map f [i..j] = map g [i..j]"
  for i j :: int
  by simp

lemma Trim_clip_audio:
  assumes "audio_upto B c a" "0 \<le> off" "B \<le> INT64_MAX"
  shows "audio_upto (B - off) (Trim_clip vi f off c) (\<lambda>i. a (i + off))"
  unfolding audio_upto_def
proof (intro allI impI)
  fix s n assume sn: "0 \<le> s \<and> 0 \<le> n \<and> s + n \<le> B - off"
  then have "GetAudio (Trim_clip vi f off c) s n = GetAudio c (s + off) n"
    using assms by (simp add: Trim_clip_def)
  also have "\<dots> = ret (map a [s + off..s + off + n - 1])"
    using sn assms(2) by (intro audio_uptoD [OF assms(1)]) auto
  also have "[s + off..s + off + n - 1] = [s + off..(s + n - 1) + off]" by (simp add: algebra_simps)
  finally show "GetAudio (Trim_clip vi f off c) s n = ret (map (\<lambda>i. a (i + off)) [s..s + n - 1])"
    by (simp add: map_upto_shift)
qed

lemma Splice_clip_audio:
  assumes "audio_upto B c1 a1" "audio_upto B c2 a2" "0 \<le> w" "B \<le> INT64_MAX" "w \<le> INT64_MAX"
  shows "audio_upto B (Splice_clip vi v w c1 c2) (\<lambda>i. if i < w then a1 i else a2 (i - w))"
  unfolding audio_upto_def
proof (intro allI impI)
  fix s n assume sn: "0 \<le> s \<and> 0 \<le> n \<and> s + n \<le> B"
  let ?a = "\<lambda>i. if i < w then a1 i else a2 (i - w)"
  let ?G = "GetAudio (Splice_clip vi v w c1 c2) s n"
  have wrap: "wrap64 (s + n) = s + n" using sn assms(4) by simp
  consider "s + n \<le> w" | "\<not> s + n \<le> w" "w \<le> s" | "\<not> s + n \<le> w" "s < w" by linarith
  then show "?G = ret (map ?a [s..s + n - 1])"
  proof cases
    case 1
    then have "?G = ret (map a1 [s..s + n - 1])"
      using sn wrap by (simp add: Splice_clip_def audio_uptoD [OF assms(1)])
    also have "map a1 [s..s + n - 1] = map ?a [s..s + n - 1]" using 1 by (intro map_upto_cong) auto
    finally show ?thesis .
  next
    case 2
    then have "?G = ret (map a2 [s - w..s - w + n - 1])"
      using sn wrap assms(3,4) by (simp add: Splice_clip_def audio_uptoD [OF assms(2)])
    also have "map a2 [s - w..s - w + n - 1] = map (\<lambda>i. a2 (i - w)) [s..s + n - 1]"
      using map_upto_shift [of a2 s "- w" "s + n - 1"] by (simp add: algebra_simps)
    also have "\<dots> = map ?a [s..s + n - 1]" using 2 by (intro map_upto_cong) auto
    finally show ?thesis .
  next
    case 3
    then have "?G = ret (map a1 [s..w - 1] @ map a2 [0..n - (w - s) - 1])"
      using sn wrap assms(3-5) audio_uptoD [OF assms(1), of s "w - s"] audio_uptoD [OF assms(2), of 0 "n - (w - s)"]
      by (simp add: Splice_clip_def Let_def)
    also have "map a1 [s..w - 1] = map ?a [s..w - 1]" by (intro map_upto_cong) auto
    also have "map a2 [0..n - (w - s) - 1] = map (\<lambda>i. a2 (i - w)) [w..s + n - 1]"
      using map_upto_shift [of a2 w "- w" "s + n - 1"] by (simp add: algebra_simps)
    also have "\<dots> = map ?a [w..s + n - 1]" by (intro map_upto_cong) auto
    also have "map ?a [s..w - 1] @ map ?a [w..s + n - 1] = map ?a [s..s + n - 1]"
      using 3 by (intro map_upto_append) auto
    finally show ?thesis .
  qed
qed

section \<open>Reverse\<close>

lemma swap_samples_rows:
  assumes "i < length buf" "j < length buf" "i \<noteq> j" "length (buf ! i) = nch" "length (buf ! j) = nch" "c \<le> nch"
  shows "swap_samples c buf i j
    = buf[i := take c (buf ! j) @ drop c (buf ! i), j := take c (buf ! i) @ drop c (buf ! j)]"
  using assms(6)
proof (induction c)
  case 0
  then show ?case by simp
next
  case (Suc c)
  have upd: "(take c xs @ drop c ys)[c := xs ! c] = take (Suc c) xs @ drop (Suc c) ys"
    if "length xs = nch" "length ys = nch" for xs ys :: "'a list"
    using that Suc.prems by (simp add: list_update_append take_Suc_conv_app_nth Cons_nth_drop_Suc [symmetric])
  have nth: "(take c xs @ drop c ys) ! c = ys ! c" if "length xs = nch" "length ys = nch" for xs ys :: "'a list"
    using that Suc.prems by (simp add: nth_append)
  have twice: "buf[i := p, j := q, i := r, j := t] = buf[i := r, j := t]" for p q r t
    using assms(3) by (metis list_update_overwrite list_update_swap)
  show ?case
    using Suc assms(1-5) upd [of "buf ! j" "buf ! i"] upd [of "buf ! i" "buf ! j"]
      nth [of "buf ! j" "buf ! i"] nth [of "buf ! i" "buf ! j"]
    by (simp add: swap_channel_def twice)
qed

lemma reverse_loop_nth:
  assumes "length buf = n" "\<And>i. i < n \<Longrightarrow> length (buf ! i) = nch" "k \<le> n div 2"
  shows "length (reverse_loop nch n k buf) = n
    \<and> (\<forall>x < n. reverse_loop nch n k buf ! x = buf ! (if x < k \<or> n - k \<le> x then n - 1 - x else x))"
  using assms(3)
proof (induction k)
  case 0
  then show ?case using assms(1) by simp
next
  case (Suc k)
  let ?r = "reverse_loop nch n k buf"
  from Suc have len: "length ?r = n" and nth: "\<And>x. x < n \<Longrightarrow> ?r ! x = buf ! (if x < k \<or> n - k \<le> x then n - 1 - x else x)"
    by auto
  from Suc.prems have k: "k < n - 1 - k" "n - 1 - k < n" by linarith+
  then have "?r ! k = buf ! k" "?r ! (n - 1 - k) = buf ! (n - 1 - k)" using nth [of k] nth [of "n - 1 - k"] by auto
  moreover have "swap_samples nch ?r k (n - 1 - k) = ?r[k := ?r ! (n - 1 - k), n - 1 - k := ?r ! k]"
    using swap_samples_rows [of k ?r "n - 1 - k" nch nch] k len assms(2) calculation by simp
  ultimately have "reverse_loop nch n (Suc k) buf = ?r[k := buf ! (n - 1 - k), n - 1 - k := buf ! k]" by simp
  then show ?case using k len nth by (auto simp: nth_list_update)
qed

lemma reverse_loop_rev:
  assumes "length buf = n" "\<And>i. i < n \<Longrightarrow> length (buf ! i) = nch"
  shows "reverse_loop nch n (n div 2) buf = rev buf"
proof (rule nth_equalityI, goal_cases)
  case 1
  then show ?case using reverse_loop_nth [OF assms, of "n div 2"] assms(1) by simp
next
  case (2 x)
  then have x: "x < n" using reverse_loop_nth [OF assms, of "n div 2"] by simp
  have "x = n - 1 - x" if "\<not> (x < n div 2 \<or> n - n div 2 \<le> x)" using that by linarith
  with x have "reverse_loop nch n (n div 2) buf ! x = buf ! (n - 1 - x)"
    using reverse_loop_nth [OF assms, of "n div 2"] by (auto split: if_splits)
  with x assms(1) show ?case by (simp add: rev_nth)
qed

text \<open>
  C29: \<^verbatim>\<open>Reverse\<close> plays a clip backwards: its frames are those of the clip in reverse order, and every
  request for audio inside the clip gives the samples of the mirrored range in reverse order, with
  the channels of each sample kept together.
\<close>

theorem Reverse_mirrors:
  assumes "clip_ok c" "N = num_audio_samples (GetVideoInfo c)" "N \<le> INT64_MAX" "audio_upto N c a"
    "\<And>i. length (a i) = nat (AudioChannels (GetVideoInfo c))"
  shows "frames (Reverse c) = rev (frames c) \<and> audio_upto N (Reverse c) (\<lambda>i. a (N - 1 - i))"
proof
  show "frames (Reverse c) = rev (frames c)" using assms(1) by (rule Reverse_frames)
  show "audio_upto N (Reverse c) (\<lambda>i. a (N - 1 - i))"
    unfolding audio_upto_def
  proof (intro allI impI)
    fix s n assume sn: "0 \<le> s \<and> 0 \<le> n \<and> s + n \<le> N"
    let ?buf = "map a [N - s - n..N - s - n + n - 1]"
    have "GetAudio c (wrap64 (N - s - n)) n = ret ?buf"
      using sn assms(3) by (simp add: audio_uptoD [OF assms(4)])
    then have "GetAudio (Reverse c) s n = ret (rev ?buf)"
      using sn assms(5) by (simp add: Reverse_def Let_def reverse_loop_rev flip: assms(2))
    also have "rev ?buf = map (\<lambda>i. a (N - 1 - i)) [s..s + n - 1]"
      using sn by (intro nth_equalityI) (auto simp: rev_nth of_nat_diff algebra_simps)
    finally show "GetAudio (Reverse c) s n = ret (map (\<lambda>i. a (N - 1 - i)) [s..s + n - 1])" .
  qed
qed

lemma test_clip_audio: "audio_upto B (test_clip n) (\<lambda>i. [S_int (i mod 1000)])"
  by (simp add: audio_upto_def test_clip_def)

theorem Reverse_mirrors_witness:
  "GetAudio (Reverse (test_clip 2)) 0 2 = ret [[S_int 839], [S_int 838]] \<and> frames (Reverse (test_clip 2)) = [1, 0]"
proof -
  let ?c = "test_clip 2"
  have c: "num_audio_samples (GetVideoInfo ?c) = 3840" "AudioChannels (GetVideoInfo ?c) = 1" "clip_ok ?c"
    by (simp_all add: test_clip_def AudioChannels_def HasAudio_def clip_ok_def int_limits)
  have "frames ?c = [0, 1]" by code_simp
  moreover from Reverse_mirrors [of ?c 3840 "\<lambda>i. [S_int (i mod 1000)]"]
  have "frames (Reverse ?c) = rev (frames ?c)" "audio_upto 3840 (Reverse ?c) (\<lambda>i. [S_int ((3840 - 1 - i) mod 1000)])"
    using c test_clip_audio by (simp_all add: int_limits)
  ultimately show ?thesis
    using audio_uptoD [of 3840 "Reverse ?c" _ 0 2] by (simp add: upto.simps)
qed

section \<open>Splice and Loop\<close>

text \<open>
  The audio of two spliced clips is that of the first up to the point of the splice, then that
  of the second from its beginning, however the samples are requested: in one piece or in
  several, on one side of the splice or across it.
\<close>

theorem Splice_audio:
  assumes "audio_upto B c1 a1" "audio_upto B c2 a2" "B \<le> INT64_MAX"
    "sample_type (GetVideoInfo c1) = sample_type (GetVideoInfo c2)" "sample_type (GetVideoInfo c1) \<noteq> 0"
    "Splice cv realign c1 c2 = Inr c'"
    "w = (if nframes c1 \<noteq> 0 \<and> realign then AudioSamplesFromFrames (GetVideoInfo c1) (nframes c1)
          else num_audio_samples (GetVideoInfo c1))" "0 \<le> w" "w \<le> INT64_MAX"
  shows "audio_upto B c' (\<lambda>i. if i < w then a1 i else a2 (i - w))"
proof -
  have ens: "EnsureAudioFormat cv c2 (sample_type (GetVideoInfo c1)) SAMPLE_FLOAT = c2"
    "EnsureAudioFormat cv c1 (sample_type (GetVideoInfo c2)) (sample_type (GetVideoInfo c2)) = c1"
    using assms(4,5) by (simp_all add: EnsureAudioFormat_def has_def or_eq_0_iff bit.conj_disj_distrib)
  then have m: "match_audio ''Splice'' cv c1 c2 = Inr (d1, d2) \<Longrightarrow> d1 = c1 \<and> d2 = c2" for d1 d2
    by (auto simp: match_audio_def Let_def split: if_splits)
  from assms(6) obtain d1 d2 where d: "match_audio ''Splice'' cv c1 c2 = Inr (d1, d2)"
    by (auto simp: Splice_def Let_def bind_r_Inr split: if_splits)
  with m have "match_audio ''Splice'' cv c1 c2 = Inr (c1, c2)" by blast
  with assms(6) have "\<exists>vi. c' = Splice_clip vi (nframes c1) w c1 c2"
    by (auto simp: Splice_def Let_def bind_r_Inr assms(7) split: if_splits)
  then show ?thesis using Splice_clip_audio [OF assms(1,2,8,3,9)] by auto
qed

theorem Splice_audio_witness:
  "map_sum id (\<lambda>c. GetAudio c 1919 2) (Splice (\<lambda>_ _. None) True (test_clip 1) (test_clip 1))
     = Inr (ret [[S_int 919], [S_int 0]])"
proof -
  let ?S = "Splice (\<lambda>_ _. None) True (test_clip 1) (test_clip 1)"
  have "map_sum id nframes ?S = Inr 2" by code_simp
  then obtain c' where c': "?S = Inr c'" by (cases ?S) auto
  have w: "AudioSamplesFromFrames (GetVideoInfo (test_clip 1)) 1 = 1920" by code_simp
  have t: "nframes (test_clip 1) = 1" "sample_type (GetVideoInfo (test_clip 1)) \<noteq> 0"
    by (simp_all add: test_clip_def sample_defs)
  have "audio_upto 100000 c' (\<lambda>i. if i < 1920 then [S_int (i mod 1000)] else [S_int ((i - 1920) mod 1000)])"
    using w t by (intro Splice_audio [OF test_clip_audio test_clip_audio _ refl _ c']) (simp_all add: int_limits)
  from audio_uptoD [OF this, of 1919 2] show ?thesis by (simp add: c' upto.simps)
qed

text \<open>The position in the child of a sample of the loop, \<open>t\<close> turns of \<open>aud_count\<close> samples.\<close>

definition loop_sample :: "loop_state \<Rightarrow> int \<Rightarrow> int \<Rightarrow> int" where
  "loop_sample l t i =
     (if i < aud_start l then i
      else if i \<le> aud_end l then aud_start l + (i - aud_start l) mod aud_count l
      else i - (t - 1) * aud_count l)"

text \<open>Inside one turn the position only moves on.\<close>

lemma mod_in_turn:
  fixes x k m :: int
  assumes "0 < m" "0 \<le> k" "k < m - x mod m"
  shows "(x + k) mod m = x mod m + k"
proof -
  have "0 \<le> x mod m + k" "x mod m + k < m" using assms by simp_all
  then have "(x mod m + k) mod m = x mod m + k" by (rule mod_pos_pos_trivial)
  then show ?thesis by (simp add: mod_add_left_eq)
qed

lemma loop_chunk_reads:
  assumes "0 \<le> aud_start l" "0 < aud_count l" "0 \<le> t" "aud_end l + 1 = aud_start l + t * aud_count l"
    "0 \<le> s" "0 < n"
  shows "\<exists>gs gc. loop_chunk l s n = Some (gs, gc) \<and> 0 < gc \<and> gc \<le> n \<and> 0 \<le> gs \<and> gs + gc \<le> s + n + aud_count l
    \<and> (\<forall>k. 0 \<le> k \<and> k < gc \<longrightarrow> loop_sample l t (s + k) = gs + k)"
proof -
  let ?a = "aud_start l" and ?m = "aud_count l" and ?e = "aud_end l"
  define T where T: "T = t * ?m"
  have T0: "0 \<le> T" "(t - 1) * ?m = T - ?m" "?e + 1 = ?a + T" using assms by (simp_all add: T left_diff_distrib)
  have Tm: "t = 0 \<and> T = 0 \<or> t = 1 \<and> T = ?m \<or> 2 \<le> t \<and> 2 * ?m \<le> T"
  proof -
    have "t = 0 \<or> t = 1 \<or> 2 \<le> t" using assms(3) by linarith
    moreover have "2 * ?m \<le> T" if "2 \<le> t" using that assms(2) by (simp add: T)
    ultimately show ?thesis by (auto simp: T)
  qed
  consider (tail) "?e < s" | (head) "s \<le> ?e" "s \<le> ?a" | (loop) "s \<le> ?e" "?a < s" by linarith
  then show ?thesis
  proof cases
    case tail
    then have "loop_sample l t (s + k) = ?a + ?m + s - (?e + 1) + k" if "0 \<le> k" for k
      using that assms(1) T0 by (simp add: loop_sample_def)
    moreover have "?a + T \<le> s" using tail T0(3) by linarith
    ultimately show ?thesis using tail assms(1,2,6) T0 by (simp add: loop_chunk_def)
  next
    case head
    have small: "(s + k - ?a) mod ?m = s + k - ?a" if "?a \<le> s + k" "s + k < ?a + ?m" for k
      using that by (intro mod_pos_pos_trivial) auto
    consider "t = 0" "T = 0" | "t = 1" "T = ?m" | "2 \<le> t" "2 * ?m \<le> T" using Tm by blast
    then show ?thesis
    proof cases
      case 1
      with head T0 assms(2,5,6) show ?thesis by (auto simp: loop_chunk_def loop_sample_def Let_def)
    next
      case 2
      with head T0 assms(2,5,6) small show ?thesis by (auto simp: loop_chunk_def loop_sample_def Let_def)
    next
      case 3
      with head T0 assms(2,5,6) small show ?thesis by (auto simp: loop_chunk_def loop_sample_def Let_def)
    qed
  next
    case loop
    define r where r: "r = (s - ?a) mod ?m"
    have r_bound: "0 \<le> r" "r < ?m" using assms(2) by (simp_all add: r)
    have turn: "(s + k - ?a) mod ?m = r + k" if "0 \<le> k" "k < ?m - r" for k
      using mod_in_turn [of ?m k "s - ?a"] that assms(2) by (simp add: r algebra_simps)
    from loop T0(3) have "0 < T" by linarith
    with Tm assms(2) have mT: "?m \<le> T" by auto
    have gs: "cmod (s - ?a) ?m + ?a = ?a + r" using loop assms(2) by (simp add: r)
    show ?thesis
    proof (cases "s + (?m - r) > ?e")
      case True
      define q where q: "q = (s - ?a) div ?m"
      have sq: "s - ?a = q * ?m + r" by (simp add: q r)
      have "q * ?m < t * ?m" "t * ?m \<le> (q + 1) * ?m"
        using sq loop T0(3) r_bound True unfolding T [symmetric] distrib_right by linarith+
      then have "t = q + 1" using assms(2) by (simp add: mult_less_cancel_right mult_le_cancel_right)
      then have sT: "s - ?a = T - ?m + r" using sq by (simp add: T distrib_right)
      then have "loop_sample l t (s + k) = ?a + r + k" if "0 \<le> k" for k
        using that loop T0 turn [OF that] by (auto simp: loop_sample_def)
      moreover have "loop_chunk l s n = Some (?a + r, n)"
        using loop gs True mT T0(3) assms(2) by (simp add: loop_chunk_def Let_def)
      ultimately show ?thesis using r_bound assms loop by auto
    next
      case False
      have "loop_sample l t (s + k) = ?a + r + k" if "0 \<le> k" "k < ?m - r" for k
        using that loop False turn [OF that] by (auto simp: loop_sample_def)
      moreover have "loop_chunk l s n = Some (?a + r, if ?m - r > n then n else ?m - r)"
        using loop gs False mT T0(3) assms(2) by (simp add: loop_chunk_def Let_def)
      ultimately show ?thesis using r_bound assms loop by auto
    qed
  qed
qed

lemma Loop_clip_audio:
  assumes "0 \<le> aud_start l" "0 < aud_count l" "0 \<le> t" "aud_end l + 1 = aud_start l + t * aud_count l"
    "audio_upto B c a"
  shows "audio_upto (B - aud_count l) (Loop_clip vi l c) (\<lambda>i. a (loop_sample l t i))"
proof -
  have "loop_audio l (GetAudio c) s n = ret (map (\<lambda>i. a (loop_sample l t i)) [s..s + n - 1])"
    if "0 \<le> s" "0 \<le> n" "s + n + aud_count l \<le> B" for s n
    using that
  proof (induction "nat n" arbitrary: s n rule: less_induct)
    case less
    show ?case
    proof (cases "n = 0")
      case True
      then show ?thesis by (simp add: loop_audio.simps)
    next
      case False
      with less.prems have n: "0 < n" by simp
      from loop_chunk_reads [OF assms(1-4) less.prems(1) n] obtain gs gc where
        g: "loop_chunk l s n = Some (gs, gc)" "0 < gc" "gc \<le> n" "0 \<le> gs" "gs + gc \<le> s + n + aud_count l"
          "\<And>k. 0 \<le> k \<Longrightarrow> k < gc \<Longrightarrow> loop_sample l t (s + k) = gs + k" by auto
      let ?f = "\<lambda>i. a (loop_sample l t i)"
      have "GetAudio c gs gc = ret (map a [gs..gs + gc - 1])"
        using g less.prems by (intro audio_uptoD [OF assms(5)]) auto
      also have "map a [gs..gs + gc - 1] = map ?f [s..s + gc - 1]"
        using g(6) by (intro nth_equalityI) auto
      finally have "GetAudio c gs gc = ret (map ?f [s..s + gc - 1])" .
      moreover have "loop_audio l (GetAudio c) (s + gc) (n - gc) = ret (map ?f [s + gc..s + gc + (n - gc) - 1])"
        using g less.prems n by (intro less.hyps) auto
      moreover have "map ?f [s..s + gc - 1] @ map ?f [s + gc..s + n - 1] = map ?f [s..s + n - 1]"
        using g by (intro map_upto_append) auto
      ultimately show ?thesis using n g(1) by (subst loop_audio.simps) simp
    qed
  qed
  then show ?thesis by (auto simp: audio_upto_def Loop_clip_def)
qed

text \<open>A frame of exactly \<open>k\<close> samples.\<close>

definition whole_frames :: "VideoInfo \<Rightarrow> int \<Rightarrow> bool" where
  "whole_frames vi k \<longleftrightarrow> HasVideo vi \<and> HasAudio vi \<and> 0 < k \<and> 0 < fps_numerator vi \<and> 0 < fps_denominator vi
     \<and> 0 < audio_samples_per_second vi \<and> audio_samples_per_second vi * fps_denominator vi = k * fps_numerator vi
     \<and> INT_MAX * (k * fps_numerator vi) \<le> INT64_MAX"

lemma whole_frames_samples:
  assumes "whole_frames vi k" "0 \<le> x" "x \<le> INT_MAX"
  shows "AudioSamplesFromFrames vi x = x * k" "0 \<le> x * k" "x * k \<le> INT64_MAX"
proof -
  let ?r = "audio_samples_per_second vi" and ?d = "fps_denominator vi" and ?n = "fps_numerator vi"
  from assms(1) have vi: "?r * ?d = k * ?n" "0 < k" "0 < ?n" "0 < ?d" "0 < ?r" "INT_MAX * (k * ?n) \<le> INT64_MAX" "HasVideo vi"
    by (auto simp: whole_frames_def)
  have 1: "x * ?r * ?d = x * k * ?n" using vi(1) by (simp add: mult.assoc)
  have "x * k * ?n \<le> INT_MAX * k * ?n" using vi assms(2,3) by (intro mult_right_mono) auto
  then have 2: "x * k * ?n \<le> INT64_MAX" using vi(6) by (simp add: mult.assoc)
  have 3: "0 \<le> x * k" "0 \<le> x * ?r" using vi assms(2) by simp_all
  then have 4: "0 \<le> x * k * ?n" using vi by simp
  have "x * ?r * 1 \<le> x * ?r * ?d" using 3 vi by (intro mult_left_mono) auto
  with 1 2 have 5: "x * ?r \<le> INT64_MAX" by linarith
  have w: "wrap64 (x * ?r) = x * ?r" using 3 5 by simp
  have w2: "wrap64 (x * ?r * ?d) = x * k * ?n" unfolding 1 using 2 4 by simp
  show "AudioSamplesFromFrames vi x = x * k"
    unfolding AudioSamplesFromFrames_def w w2 using vi 4 by simp
  show "0 \<le> x * k" by (rule 3)
  have "x * k * 1 \<le> x * k * ?n" using 3 vi by (intro mult_left_mono) auto
  with 2 show "x * k \<le> INT64_MAX" by simp
qed



text \<open>
  When a frame is not a whole number of samples, the same audio comes out differently in one
  request and in two: one frame of 29.97 fps looped a thousand times.
\<close>

definition ntsc_clip :: "int clip" where
  "ntsc_clip = (test_clip 10)\<lparr>GetVideoInfo := (GetVideoInfo (test_clip 10))\<lparr>fps_numerator := 30000,
     fps_denominator := 1001, audio_samples_per_second := 44100\<rparr>\<rparr>"

declare loop_audio.simps [code]

theorem Loop_audio_depends_on_request:
  "map_sum id (\<lambda>c. (GetAudio c 1471469 2, GetAudio c 1471470 1)) (Loop_Create (Some 1000) (Some 0) (Some 0) ntsc_clip)
     = Inr (ret [[S_int 469], [S_int 470]], ret [[S_int 471]])"
  by code_simp

section \<open>Dissolve\<close>

text \<open>The mixed sample lies between the two it is mixed from, so that nothing is cut off.\<close>

lemma MulDiv_between:
  assumes "0 < k" "k < m" "is_int32 d" "is_int32 m"
  shows "(0 \<le> d \<longrightarrow> 0 \<le> MulDiv d k m \<and> MulDiv d k m \<le> d) \<and> (d \<le> 0 \<longrightarrow> d \<le> MulDiv d k m \<and> MulDiv d k m \<le> 0)"
proof -
  have m: "cdiv m 2 = m div 2" "0 \<le> m div 2" "m div 2 < m" using assms by simp_all
  let ?x = "d * k + m div 2"
  have pos: "0 \<le> ?x div m \<and> ?x div m \<le> d" if "0 \<le> d"
  proof
    show "0 \<le> ?x div m" using that assms m by (simp add: pos_imp_zdiv_nonneg_iff)
    have "d * k \<le> d * m" using that assms by (intro mult_left_mono) auto
    then show "?x div m \<le> d" using assms m by (intro int_div_le) (auto simp: distrib_right)
  qed
  have neg: "d \<le> cdiv ?x m \<and> cdiv ?x m \<le> 0" if "d \<le> 0"
  proof (cases "0 \<le> ?x")
    case True
    have "d * k \<le> 0" using that assms(1) by (simp add: mult_le_0_iff)
    then have "?x < m" using m by linarith
    then have "?x div m = 0" using True by (rule div_pos_pos_trivial [rotated])
    with True that assms show ?thesis by simp
  next
    case False
    have "d * m \<le> d * k" using that assms(2) by (intro mult_left_mono_neg) auto
    then have "- ?x < (- d + 1) * m" using m assms unfolding distrib_right by simp
    then have "(- ?x) div m \<le> - d" using assms by (intro int_div_le) auto
    moreover have "0 \<le> (- ?x) div m" using False assms by (simp add: pos_imp_zdiv_nonneg_iff del: minus_add_distrib)
    ultimately show ?thesis using False assms by (simp add: cdiv_def)
  qed
  have "MulDiv d k m = wrap32 (cdiv ?x m)" using m(1) by (simp add: MulDiv_def)
  moreover have "wrap32 (cdiv ?x m) = cdiv ?x m"
  proof (rule wrap32_id, cases "0 \<le> d")
    case True
    then have "0 \<le> ?x" using assms m by simp
    with True pos assms(1-3) show "is_int32 (cdiv ?x m)" by (simp add: is_int32_def int_limits)
  next
    case False
    with neg assms(3) show "is_int32 (cdiv ?x m)" by (simp add: is_int32_def int_limits)
  qed
  moreover have "cdiv ?x m = ?x div m" if "0 \<le> d" using that assms m by simp
  ultimately show ?thesis using pos neg by simp
qed

text \<open>
  In the 16 bit crossfade every mixed sample lies between the two samples it is mixed from, for
  every position in the overlap, so the conversion back to 16 bits never cuts anything off.
\<close>

theorem mix_int16_between:
  assumes "0 < k" "k < m" "is_int32 m" "- 32768 \<le> a" "a \<le> 32767" "- 32768 \<le> b" "b \<le> 32767"
  shows "\<exists>x. mix_int16 k m (S_int a) (S_int b) = S_int x \<and> min a b \<le> x \<and> x \<le> max a b"
proof -
  let ?x = "b + MulDiv (a - b) k m"
  have "is_int32 (a - b)" using assms by (simp add: is_int32_def int_limits)
  from MulDiv_between [OF assms(1,2) this assms(3)] have x: "min a b \<le> ?x" "?x \<le> max a b" by auto
  then have "to_short ?x = ?x" using assms(4-) by (simp add: to_short_def mod_pos_pos_trivial)
  with x show ?thesis by simp
qed

theorem mix_int16_between_witness:
  "mix_int16 1 4 (S_int (- 7)) (S_int 9) = S_int 6 \<and> mix_int16 3 4 (S_int 32767) (S_int (- 32768)) = S_int 16383"
proof -
  from mix_int16_between [of 1 4 "- 7" 9] mix_int16_between [of 3 4 32767 "- 32768"]
  show ?thesis by (simp add: is_int32_def int_limits MulDiv_def to_short_def cdiv_def wrap32_def)
qed

lemma dissolve_loop_nth:
  assumes "length as = length bs" "num \<le> INT_MAX"
  shows "length (dissolve_loop mix num den as bs) = length as
    \<and> (\<forall>j < length as. dissolve_loop mix num den as bs ! j =
        (if num - int j \<le> 0 then bs ! j
         else if num - int j < den then map2 (mix (num - int j) den) (as ! j) (bs ! j) else as ! j))"
  using assms
proof (induction mix num den as bs rule: dissolve_loop.induct)
  case (1 mix num den a as b bs)
  show ?case
  proof (cases "num \<le> 0")
    case True
    with 1 show ?thesis by auto
  next
    case False
    with 1 show ?thesis by (auto simp: nth_Cons less_Suc_eq_0_disj diff_diff_eq split: nat.split)
  qed
qed auto

text \<open>A clip that also answers requests before its start, as the dissolve makes them.\<close>

definition audio_around :: "int \<Rightarrow> 'f clip \<Rightarrow> (int \<Rightarrow> sample list) \<Rightarrow> bool" where
  "audio_around B c a \<longleftrightarrow> (\<forall>s n. - B \<le> s \<and> 0 \<le> n \<and> s + n \<le> B \<longrightarrow> GetAudio c s n = ret (map a [s..s + n - 1]))"

text \<open>
  The audio of a dissolve whose overlap has at least one sample is that of the first clip up to
  the beginning of the overlap, that of the second from its end on, and in between the mix of the
  two with the weight of the position, however it is requested.
\<close>

theorem Dissolve_audio:
  assumes "audio_upto B c1 a" "audio_around B c2 b" "B \<le> INT_MAX"
    "fs = audio_fade_start d" "fe = audio_fade_end d" "audio_overlap d = fe - fs" "0 \<le> fs" "fs \<le> fe" "fe \<le> B"
    "nch = AudioChannels vi" "0 < nch" "IsSampleType vi SAMPLE_INT16 \<or> IsSampleType vi SAMPLE_FLOAT"
    "mix = (if IsSampleType vi SAMPLE_INT16 then mix_int16 else mix_float)"
    "0 \<le> s" "0 \<le> n" "s + n \<le> B" "n * nch \<le> INT_MAX"
  shows "GetAudio (Dissolve_clip merge vi d c1 c2) s n = ret (map
     (\<lambda>i. if i \<ge> fe then b (i - fs) else if i \<le> fs then a i else map2 (mix (fe - i) (fe - fs)) (a i) (b (i - fs)))
     [s..s + n - 1])"
proof -
  let ?f = "\<lambda>i. if i \<ge> fe then b (i - fs) else if i \<le> fs then a i else map2 (mix (fe - i) (fe - fs)) (a i) (b (i - fs))"
  let ?G = "GetAudio (Dissolve_clip merge vi d c1 c2) s n"
  have big: "INT_MAX \<le> INT64_MAX" by (simp add: int_limits)
  have wrap: "wrap64 (s + n) = s + n" "wrap64 (s - fs) = s - fs"
    using assms(3,7-9,14-16) big by (auto intro!: wrap64_id simp: is_int64_def int_limits)
  have A: "GetAudio c1 s n = ret (map a [s..s + n - 1])" using assms by (intro audio_uptoD [OF assms(1)])
  have B: "GetAudio c2 (s - fs) n = ret (map (\<lambda>i. b (i - fs)) [s..s + n - 1])"
  proof -
    have "GetAudio c2 (s - fs) n = ret (map b [s - fs..s - fs + n - 1])"
      using assms(2,3,7-9,14-16) by (simp add: audio_around_def)
    also have "[s - fs..s - fs + n - 1] = [s + - fs..(s + n - 1) + - fs]" by (simp add: algebra_simps)
    finally show ?thesis by (simp only: map_upto_shift) simp
  qed
  consider "s + n \<le> fs" | "\<not> s + n \<le> fs" "fe < s" | "\<not> s + n \<le> fs" "s \<le> fe" by linarith
  then show ?thesis
  proof cases
    case 1
    then have "?G = ret (map a [s..s + n - 1])" using A wrap assms(4) by (simp add: Dissolve_clip_def)
    also have "map a [s..s + n - 1] = map ?f [s..s + n - 1]" using 1 assms(8) by (intro map_upto_cong) auto
    finally show ?thesis .
  next
    case 2
    then have "?G = ret (map (\<lambda>i. b (i - fs)) [s..s + n - 1])" using B wrap assms(4,5) by (simp add: Dissolve_clip_def)
    also have "map (\<lambda>i. b (i - fs)) [s..s + n - 1] = map ?f [s..s + n - 1]" using 2 by (intro map_upto_cong) auto
    finally show ?thesis .
  next
    case 3
    let ?as = "map a [s..s + n - 1]" and ?bs = "map (\<lambda>i. b (i - fs)) [s..s + n - 1]"
    have "n \<le> n * nch" using assms(11,15) by (simp add: mult_le_cancel_left1)
    then have "wrap32 n = n" "wrap32 (n * nch) = n * nch" using assms(11,15,17) by auto
    then have cnt: "cdiv (wrap32 (wrap32 n * nch)) nch = n" using assms(11,15) by simp
    have num: "wrap32 (fe - s) = fe - s" "fe - s \<le> INT_MAX" using 3 assms(3,9,14) by auto
    have "dissolve_mix vi d s n ?as ?bs = ret (dissolve_loop mix (fe - s) (fe - fs) ?as ?bs)"
      using assms(11,12) cnt num by (auto simp: dissolve_mix_def Let_def assms(6,13) simp flip: assms(5,10))
    moreover have "dissolve_loop mix (fe - s) (fe - fs) ?as ?bs = map ?f [s..s + n - 1]"
      using dissolve_loop_nth [of ?as ?bs "fe - s" mix "fe - fs"] num
      by (intro nth_equalityI) (auto simp: algebra_simps)
    ultimately show ?thesis using 3 A B wrap assms(4,5) by (simp add: Dissolve_clip_def)
  qed
qed

theorem Dissolve_audio_witness:
  "GetAudio (Dissolve_clip (\<lambda>w x y. x) (GetVideoInfo (test_clip 2))
      \<lparr>overlap = 1, video_fade_start = 1, video_fade_end = 1, audio_fade_start = 1920, audio_fade_end = 3839,
        audio_overlap = 1919\<rparr> (test_clip 2) (test_clip 2)) 1920 2
     = ret [[S_int 920], [S_int 921]]"
proof -
  let ?d = "\<lparr>overlap = 1, video_fade_start = 1, video_fade_end = 1, audio_fade_start = 1920, audio_fade_end = 3839,
        audio_overlap = 1919\<rparr>"
  have "audio_around 100000 (test_clip 2) (\<lambda>i. [S_int (i mod 1000)])"
    by (simp add: audio_around_def test_clip_def)
  moreover have "AudioChannels (GetVideoInfo (test_clip 2)) = 1" "IsSampleType (GetVideoInfo (test_clip 2)) SAMPLE_INT16"
    by (simp_all add: test_clip_def AudioChannels_def HasAudio_def IsSampleType_def has_def sample_defs)
  ultimately show ?thesis
    using Dissolve_audio [of 100000 "test_clip 2" "\<lambda>i. [S_int (i mod 1000)]" "test_clip 2" "\<lambda>i. [S_int (i mod 1000)]"
        1920 ?d 3839 1 "GetVideoInfo (test_clip 2)" mix_int16 1920 2 "\<lambda>w x y. x"] test_clip_audio [of 100000 2]
    by (simp add: int_limits upto.simps MulDiv_def to_short_def cdiv_def wrap32_def)
qed

text \<open>
  With an overlap of no frames the last sample of the first clip is the end of the fade: a request
  across the cut takes that sample from before the start of the second clip.
\<close>

theorem Dissolve_no_overlap:
  "map_sum id (\<lambda>c. (GetAudio c 3839 1, GetAudio c 3839 2))
     (Dissolve (\<lambda>_ _. None) (\<lambda>w x y. x) 0 (fp_of_int binary64 24) (test_clip 2) (test_clip 2))
     = Inr (ret [[S_int 839]], ret [[S_int 999], [S_int 0]])"
  by code_simp

section \<open>AudioTrim and AudioDub\<close>

text \<open>
  \<^verbatim>\<open>AudioTrim\<close> never reads outside its clip: whatever the times, the trimmed clip starts at a
  sample of the clip, and its samples end where those of the clip do or before, as long as the end
  time is not converted to a negative number of samples.
\<close>

theorem AudioTrim_within:
  assumes "AudioTrim mode t1 t2 c = Inr c'" "N = num_audio_samples (GetVideoInfo c)" "0 \<le> N" "N \<le> INT64_MAX"
    "AudioTrim_end mode (GetVideoInfo c) t1 t2 = Inr e" "0 \<le> e"
  shows "\<exists>off. 0 \<le> off \<and> 0 \<le> num_audio_samples (GetVideoInfo c') \<and> off + num_audio_samples (GetVideoInfo c') \<le> N
    \<and> 0 \<le> nframes c' \<and> (\<forall>s n. GetAudio c' s n = GetAudio c (wrap64 (s + off)) n)"
proof -
  let ?off = "clamp (time_to_samples (GetVideoInfo c) t1) 0 N"
  have off: "0 \<le> ?off" "?off \<le> N" using assms(3) by (auto simp: clamp_def Let_def)
  let ?e = "if e > N then N else e"
  have "wrap64 (?e - ?off) = ?e - ?off"
    using off assms(3,4,6) by (intro wrap64_id) (auto simp: is_int64_def int_limits)
  moreover have "?e \<le> N" by simp
  ultimately show ?thesis
    using assms(1,5) off
    by (intro exI [of _ ?off]) (simp add: AudioTrim_def Trim_clip_def Let_def split: if_splits flip: assms(2); force)
qed

theorem AudioTrim_within_witness:
  "map_sum id (\<lambda>c. num_audio_samples (GetVideoInfo c))
     (AudioTrim Trim_Length (Fin False (2 ^ 52) (- 54)) (Fin False (2 ^ 52) (- 54)) (test_clip 25)) = Inr 12000"
proof -
  let ?t = "Fin False (2 ^ 52) (- 54)"
  have run: "map_sum id (\<lambda>c. num_audio_samples (GetVideoInfo c)) (AudioTrim Trim_Length ?t ?t (test_clip 25)) = Inr 12000"
    and e: "AudioTrim_end Trim_Length (GetVideoInfo (test_clip 25)) ?t ?t = Inr 24000" by code_simp+
  then obtain c' where "AudioTrim Trim_Length ?t ?t (test_clip 25) = Inr c'"
    by (cases "AudioTrim Trim_Length ?t ?t (test_clip 25)") auto
  from AudioTrim_within [OF this refl _ _ e] run show ?thesis by (simp add: test_clip_def int_limits)
qed

text \<open>
  An end time beyond the range of a 64 bit sample number turns into the most negative one, and the
  length of the clip wraps around.
\<close>

theorem AudioTrim_end_overflow:
  "map_sum id (\<lambda>c. num_audio_samples (GetVideoInfo c))
     (AudioTrim Trim_Default (Fin False (2 ^ 52) (- 52)) (Fin False (2 ^ 52) 100) (test_clip 100)) = Inr 9223372036854727808"
  by code_simp

lemma AudioDub_clip_tracks:
  "frames (AudioDub_clip v a) = frames v" "GetAudio (AudioDub_clip v a) = GetAudio a"
  "num_audio_samples (GetVideoInfo (AudioDub_clip v a)) = num_audio_samples (GetVideoInfo a)"
  by (simp_all add: AudioDub_clip_def Let_def frames_def SetChannelMask_def)

lemma AudioDub_tracks:
  assumes "AudioDub mode c1 c2 = Inr c'"
  shows "c' = AudioDub_clip c1 c2 \<or> c' = AudioDub_clip c2 c1"
  using assms by (auto simp: AudioDub_def Let_def split: if_splits)

end
