(* ===== verification/Intrusive_Ptr.thy ===== *)
theory Intrusive_Ptr
  imports Main
begin

text \<open>
  The counted pointer \<^verbatim>\<open>vs_intrusive_ptr\<close> of \<^verbatim>\<open>AVSMap.h\<close> with the counters \<^verbatim>\<open>add_ref\<close> and
  \<^verbatim>\<open>release\<close> of the objects it points to.  A state has the live pointers, each null or at an
  object, and the live objects with their counts; the two type parameters are the places a pointer
  can be in and the addresses of objects.  The steps are the members of the pointer class; in every
  reachable state the count of an object is the number of pointers at it, so \<^verbatim>\<open>unique\<close> means one
  owner, an object lives exactly as long as it has an owner, and no pointer dangles.

  The counters are \<^verbatim>\<open>std::atomic\<close>, each step of one is one step here; what else two threads do
  to the same pointer is not modelled.
\<close>

record ('c, 'o) ptr_state =
  cells :: "'c \<Rightarrow> 'o option option"
  counts :: "'o \<Rightarrow> nat option"

definition no_pointers :: "('c, 'o) ptr_state" where
  "no_pointers = \<lparr>cells = (\<lambda>_. None), counts = (\<lambda>_. None)\<rparr>"

text \<open>\<open>++refcount\<close>, and \<open>--refcount\<close> with \<open>delete this\<close> at zero.  A new object starts with one.\<close>

definition first_ref :: "'o \<Rightarrow> ('c, 'o) ptr_state \<Rightarrow> ('c, 'o) ptr_state" where
  "first_ref x s = s\<lparr>counts := (counts s)(x := Some 1)\<rparr>"

definition add_ref :: "'o \<Rightarrow> ('c, 'o) ptr_state \<Rightarrow> ('c, 'o) ptr_state" where
  "add_ref x s = s\<lparr>counts := (counts s)(x := map_option Suc (counts s x))\<rparr>"

definition release :: "'o \<Rightarrow> ('c, 'o) ptr_state \<Rightarrow> ('c, 'o) ptr_state" where
  "release x s = s\<lparr>counts := (counts s)(x :=
     (case counts s x of None \<Rightarrow> None | Some n \<Rightarrow> if n \<le> 1 then None else Some (n - 1)))\<rparr>"

definition unique :: "'o \<Rightarrow> ('c, 'o) ptr_state \<Rightarrow> bool" where
  "unique x s \<longleftrightarrow> counts s x = Some 1"

text \<open>The \<^verbatim>\<open>obj\<close> of a pointer, and a call through it that is guarded by \<open>if (obj)\<close>.\<close>

definition obj :: "'c \<Rightarrow> ('c, 'o) ptr_state \<Rightarrow> 'o option" where
  "obj c s = (case cells s c of Some p \<Rightarrow> p | None \<Rightarrow> None)"

definition set_obj :: "'c \<Rightarrow> 'o option \<Rightarrow> ('c, 'o) ptr_state \<Rightarrow> ('c, 'o) ptr_state" where
  "set_obj c p s = s\<lparr>cells := (cells s)(c := Some p)\<rparr>"

definition if_obj :: "'o option \<Rightarrow> ('o \<Rightarrow> ('c, 'o) ptr_state \<Rightarrow> ('c, 'o) ptr_state)
    \<Rightarrow> ('c, 'o) ptr_state \<Rightarrow> ('c, 'o) ptr_state" where
  "if_obj p f s = (case p of None \<Rightarrow> s | Some x \<Rightarrow> f x s)"

text \<open>The members of the class: the constructor from an object, with and without its own
  reference; copy and move; the destructor; assignment; \<^verbatim>\<open>reset\<close>; \<^verbatim>\<open>swap\<close>.\<close>

definition ptr_init :: "'c \<Rightarrow> 'o option \<Rightarrow> bool \<Rightarrow> ('c, 'o) ptr_state \<Rightarrow> ('c, 'o) ptr_state" where
  "ptr_init c p own s = (let s = set_obj c p s in if own then if_obj p add_ref s else s)"

definition ptr_copy :: "'c \<Rightarrow> 'c \<Rightarrow> ('c, 'o) ptr_state \<Rightarrow> ('c, 'o) ptr_state" where
  "ptr_copy c c' s = if_obj (obj c' s) add_ref (set_obj c (obj c' s) s)"

definition ptr_move :: "'c \<Rightarrow> 'c \<Rightarrow> ('c, 'o) ptr_state \<Rightarrow> ('c, 'o) ptr_state" where
  "ptr_move c c' s = set_obj c' None (set_obj c (obj c' s) s)"

definition ptr_destroy :: "'c \<Rightarrow> ('c, 'o) ptr_state \<Rightarrow> ('c, 'o) ptr_state" where
  "ptr_destroy c s = (if_obj (obj c s) release s)\<lparr>cells := (cells s)(c := None)\<rparr>"

definition ptr_assign :: "'c \<Rightarrow> 'c \<Rightarrow> ('c, 'o) ptr_state \<Rightarrow> ('c, 'o) ptr_state" where
  "ptr_assign c c' s =
     set_obj c (obj c' s) (if_obj (obj c s) release (if_obj (obj c' s) add_ref s))"

definition ptr_reset :: "'c \<Rightarrow> ('c, 'o) ptr_state \<Rightarrow> ('c, 'o) ptr_state" where
  "ptr_reset c s = (case obj c s of None \<Rightarrow> s | Some x \<Rightarrow> set_obj c None (release x s))"

definition ptr_swap :: "'c \<Rightarrow> 'c \<Rightarrow> ('c, 'o) ptr_state \<Rightarrow> ('c, 'o) ptr_state" where
  "ptr_swap c c' s = set_obj c' (obj c s) (set_obj c (obj c' s) s)"

text \<open>\<open>p = new T(...)\<close>: the raw pointer becomes a temporary that owns the object's first
  reference, the assignment takes another one and releases what \<open>p\<close> had, and the temporary
  releases its own.\<close>

definition ptr_assign_new :: "'c \<Rightarrow> 'o \<Rightarrow> ('c, 'o) ptr_state \<Rightarrow> ('c, 'o) ptr_state" where
  "ptr_assign_new c x s =
     release x (set_obj c (Some x) (if_obj (obj c s) release (add_ref x (first_ref x s))))"

inductive ptr_step :: "('c, 'o) ptr_state \<Rightarrow> ('c, 'o) ptr_state \<Rightarrow> bool" where
  new: "cells s c = None \<Longrightarrow> counts s x = None
    \<Longrightarrow> ptr_step s (ptr_init c (Some x) False (first_ref x s))"
| null: "cells s c = None \<Longrightarrow> ptr_step s (ptr_init c None own s)"
| share: "cells s c = None \<Longrightarrow> counts s x \<noteq> None \<Longrightarrow> ptr_step s (ptr_init c (Some x) True s)"
| copy: "cells s c = None \<Longrightarrow> cells s c' \<noteq> None \<Longrightarrow> ptr_step s (ptr_copy c c' s)"
| move: "cells s c = None \<Longrightarrow> cells s c' \<noteq> None \<Longrightarrow> ptr_step s (ptr_move c c' s)"
| destroy: "cells s c \<noteq> None \<Longrightarrow> ptr_step s (ptr_destroy c s)"
| assign: "cells s c \<noteq> None \<Longrightarrow> cells s c' \<noteq> None \<Longrightarrow> ptr_step s (ptr_assign c c' s)"
| assign_new: "cells s c \<noteq> None \<Longrightarrow> counts s x = None \<Longrightarrow> ptr_step s (ptr_assign_new c x s)"
| reset: "cells s c \<noteq> None \<Longrightarrow> ptr_step s (ptr_reset c s)"
| swap: "cells s c \<noteq> None \<Longrightarrow> cells s c' \<noteq> None \<Longrightarrow> ptr_step s (ptr_swap c c' s)"

inductive reachable_ptrs :: "('c, 'o) ptr_state \<Rightarrow> bool" where
  start: "reachable_ptrs no_pointers"
| step: "reachable_ptrs s \<Longrightarrow> ptr_step s t \<Longrightarrow> reachable_ptrs t"

section \<open>Counts are numbers of owners\<close>

definition owners :: "('c, 'o) ptr_state \<Rightarrow> 'o \<Rightarrow> 'c set" where
  "owners s x = {c. cells s c = Some (Some x)}"

definition counted :: "('c, 'o) ptr_state \<Rightarrow> bool" where
  "counted s \<longleftrightarrow> (\<forall>x. finite (owners s x)
     \<and> counts s x = (if owners s x = {} then None else Some (card (owners s x))))"

lemmas ptr_defs = first_ref_def add_ref_def release_def if_obj_def set_obj_def obj_def Let_def
  ptr_init_def ptr_copy_def ptr_move_def ptr_destroy_def ptr_assign_def ptr_reset_def ptr_swap_def
  ptr_assign_new_def

text \<open>What the members do to the pointers themselves.\<close>

lemma cells_ptr [simp]:
  "cells (first_ref x s) = cells s" "cells (add_ref x s) = cells s" "cells (release x s) = cells s"
  "cells (ptr_init c p own s) = (cells s)(c := Some p)"
  "cells (ptr_copy c c' s) = (cells s)(c := Some (obj c' s))"
  "cells (ptr_destroy c s) = (cells s)(c := None)"
  "cells (ptr_assign c c' s) = (cells s)(c := Some (obj c' s))"
  "cells (ptr_assign_new c x s) = (cells s)(c := Some (Some x))"
  by (auto simp: ptr_defs split: option.splits)

lemma countedD:
  assumes "counted s"
  shows "finite (owners s x)" "counts s x = None \<longleftrightarrow> owners s x = {}"
    "counts s x = Some n \<Longrightarrow> card (owners s x) = n \<and> 0 < n"
  using assms by (auto simp: counted_def card_gt_0_iff split: if_splits)

lemma counted_live: "counted s \<Longrightarrow> cells s c = Some (Some x) \<Longrightarrow> \<exists>n. counts s x = Some (Suc n)"
  using countedD(2,3) [of s x] by (cases "counts s x") (auto simp: owners_def gr0_conv_Suc)

lemma counted_unique:
  assumes "counted s" "unique x s" "cells s c = Some (Some x)" "cells s c' = Some (Some x)"
  shows "c = c'"
proof -
  have "card (owners s x) = 1" using countedD(3) [OF assms(1)] assms(2) by (simp add: unique_def)
  then obtain d where "owners s x = {d}" by (auto simp: card_1_singleton_iff)
  moreover have "c \<in> owners s x" "c' \<in> owners s x" using assms(3,4) by (auto simp: owners_def)
  ultimately show ?thesis by simp
qed

text \<open>A pointer takes the value \<open>v\<close>: one owner more or less for the objects involved.\<close>

lemma counted_change:
  assumes "counted s" "cells s c = u" "cells t = (cells s)(c := v)"
    "\<And>x. u = Some (Some x) \<Longrightarrow> v \<noteq> Some (Some x) \<Longrightarrow>
       counts t x = (case counts s x of None \<Rightarrow> None | Some n \<Rightarrow> if n \<le> 1 then None else Some (n - 1))"
    "\<And>x. v = Some (Some x) \<Longrightarrow> u \<noteq> Some (Some x) \<Longrightarrow>
       counts t x = Some (Suc (case counts s x of None \<Rightarrow> 0 | Some n \<Rightarrow> n))"
    "\<And>x. (u = Some (Some x)) = (v = Some (Some x)) \<Longrightarrow> counts t x = counts s x"
  shows "counted t"
  unfolding counted_def
proof
  fix x
  let ?A = "owners s x"
  have A: "finite ?A" "counts s x = (if ?A = {} then None else Some (card ?A))"
    using assms(1) by (auto simp: counted_def)
  have B: "owners t x = (if v = Some (Some x) then insert c ?A else ?A - {c})"
    using assms(3) by (auto simp: owners_def)
  have h: "c \<in> ?A \<longleftrightarrow> u = Some (Some x)" using assms(2) by (auto simp: owners_def)
  consider "u = Some (Some x)" "v \<noteq> Some (Some x)" | "v = Some (Some x)" "u \<noteq> Some (Some x)"
    | "(u = Some (Some x)) = (v = Some (Some x))" by blast
  then show "finite (owners t x) \<and> counts t x = (if owners t x = {} then None else Some (card (owners t x)))"
  proof cases
    case 1
    with h have "c \<in> ?A" by simp
    then have "?A - {c} = {} \<longleftrightarrow> card ?A \<le> 1" "card (?A - {c}) = card ?A - 1" "?A \<noteq> {}"
      using A(1) by (auto simp: card_le_Suc0_iff_eq)
    with 1 A B assms(4) [OF 1] show ?thesis by auto
  next
    case 2
    with h A B assms(5) [OF 2] show ?thesis by auto
  next
    case 3
    with h have "owners t x = ?A" using B by auto
    with A assms(6) [OF 3] show ?thesis by simp
  qed
qed

text \<open>Pointers that exchange their objects leave every count alone: their places are renamed.\<close>

lemma counted_rename:
  assumes "counted s" "counts t = counts s" "bij f" "\<And>c x. cells t c = Some (Some x) \<longleftrightarrow> cells s (f c) = Some (Some x)"
  shows "counted t"
proof -
  have "owners s x = f ` owners t x" for x
    using assms(3,4) by (auto simp: owners_def image_iff bij_iff) metis
  moreover have "inj_on f A" for A using assms(3) by (meson bij_is_inj inj_on_subset subset_UNIV)
  ultimately show ?thesis
    using assms(1,2) unfolding counted_def by (metis card_image finite_imageD image_is_empty)
qed

lemma counted_init_new:
  "counted s \<Longrightarrow> cells s c = None \<Longrightarrow> counts s x = None \<Longrightarrow> counted (ptr_init c (Some x) False (first_ref x s))"
  by (rule counted_change [of s c None _ "Some (Some x)"]) (auto simp: ptr_defs)

lemma counted_init_null: "counted s \<Longrightarrow> cells s c = None \<Longrightarrow> counted (ptr_init c None own s)"
  by (rule counted_change [of s c None _ "Some None"]) (auto simp: ptr_defs)

lemma counted_init_share:
  "counted s \<Longrightarrow> cells s c = None \<Longrightarrow> counts s x \<noteq> None \<Longrightarrow> counted (ptr_init c (Some x) True s)"
  by (rule counted_change [of s c None _ "Some (Some x)"]) (auto simp: ptr_defs)

lemma counted_copy: "counted s \<Longrightarrow> cells s c = None \<Longrightarrow> counted (ptr_copy c c' s)"
  by (rule counted_change [of s c None _ "Some (obj c' s)"])
    (auto simp: ptr_defs dest!: counted_live split: option.splits)

lemma counted_move:
  assumes "counted s" "cells s c = None"
  shows "counted (ptr_move c c' s)"
  by (rule counted_rename [OF assms(1), of _ "\<lambda>d. if d = c then c' else if d = c' then c else d"])
    (use assms(2) in \<open>auto simp: ptr_defs bij_def inj_def surj_def split: option.splits\<close>)

lemma counted_destroy: "counted s \<Longrightarrow> counted (ptr_destroy c s)"
  by (rule counted_change [of s c "cells s c" _ None]) (auto simp: ptr_defs split: option.splits)

lemma counted_assign: "counted s \<Longrightarrow> counted (ptr_assign c c' s)"
  by (rule counted_change [of s c "cells s c" _ "Some (obj c' s)"])
    (auto simp: ptr_defs dest!: counted_live split: option.splits if_splits)

lemma counted_assign_new: "counted s \<Longrightarrow> counts s x = None \<Longrightarrow> counted (ptr_assign_new c x s)"
  by (rule counted_change [of s c "cells s c" _ "Some (Some x)"])
    (auto simp: ptr_defs dest!: counted_live split: option.splits if_splits)

lemma counted_reset: "counted s \<Longrightarrow> counted (ptr_reset c s)"
  by (cases "obj c s", simp add: ptr_reset_def)
    (rule counted_change [of s c "cells s c" _ "Some None"], auto simp: ptr_defs split: option.splits)

lemma counted_swap: "counted s \<Longrightarrow> counted (ptr_swap c c' s)"
  by (rule counted_rename [of s _ "\<lambda>d. if d = c then c' else if d = c' then c else d"])
    (auto simp: ptr_defs bij_def inj_def surj_def split: option.splits)

lemmas counted_intros = counted_init_new counted_init_null counted_init_share counted_copy
  counted_move counted_destroy counted_assign counted_assign_new counted_reset counted_swap

lemma counted_reachable: "reachable_ptrs s \<Longrightarrow> counted s"
proof (induction rule: reachable_ptrs.induct)
  case start
  show ?case by (simp add: counted_def no_pointers_def owners_def)
next
  case (step s t)
  from step.hyps(2) step.IH show ?case
    by (cases rule: ptr_step.cases) (auto intro: counted_intros)
qed

text \<open>
  C25: whatever the members of counted pointers do to each other, self assignment and
  self swap included, an object lives exactly as long as some pointer has it, its count is the
  number of those pointers, and \<^verbatim>\<open>unique\<close> holds exactly when there is one.
\<close>

theorem counted_pointers_own:
  assumes "reachable_ptrs s"
  shows "counts s x = (if \<exists>c. obj c s = Some x then Some (card {c. obj c s = Some x}) else None)
    \<and> (unique x s \<longleftrightarrow> (\<exists>!c. obj c s = Some x))"
proof -
  have c: "counted s" using assms by (rule counted_reachable)
  have o: "{c. obj c s = Some x} = owners s x"
    by (auto simp: owners_def obj_def split: option.splits)
  have "unique x s \<longleftrightarrow> card (owners s x) = 1"
    using c by (auto simp: unique_def counted_def)
  also have "\<dots> \<longleftrightarrow> (\<exists>c. {c. obj c s = Some x} = {c})" by (simp add: o card_1_singleton_iff)
  also have "\<dots> \<longleftrightarrow> (\<exists>!c. obj c s = Some x)"
    by (simp add: set_eq_iff Ex1_def) metis
  finally show ?thesis using c o by (auto simp: counted_def)
qed

definition two_owners :: "(nat, nat) ptr_state" where
  "two_owners = ptr_copy 1 0 (ptr_init 0 (Some 7) False (first_ref 7 no_pointers))"

theorem counted_pointers_own_witness:
  "counts two_owners 7 = Some 2 \<and> card {c. obj c two_owners = Some 7} = 2
   \<and> (unique 7 two_owners \<longleftrightarrow> (\<exists>!c. obj c two_owners = Some 7))"
proof -
  have "reachable_ptrs (ptr_init 0 (Some 7) False (first_ref 7 no_pointers) :: (nat, nat) ptr_state)"
    by (rule reachable_ptrs.step [OF reachable_ptrs.start]) (rule ptr_step.new; simp add: no_pointers_def)
  then have "reachable_ptrs two_owners" unfolding two_owners_def
    by (rule reachable_ptrs.step) (rule ptr_step.copy; simp add: no_pointers_def ptr_defs)
  moreover have "counts two_owners 7 = Some 2" by code_simp
  ultimately show ?thesis using counted_pointers_own [of two_owners 7] by (auto split: if_splits)
qed

end
