(* ===== verification/Prop_Map.thy ===== *)
theory Prop_Map
  imports Prelude Fp_Arith Intrusive_Ptr "HOL-Library.List_Lexorder" "HOL-Library.Char_ord"
begin

text \<open>
  Frame properties: the arrays \<^verbatim>\<open>VSArray\<close>, the shared storages \<^verbatim>\<open>VSMapStorage\<close> and the copy on
  write maps \<^verbatim>\<open>AVSMap\<close> of \<^verbatim>\<open>AVSMap.h\<close>.  A heap has the counted pointers of the maps to their
  storages and of the entries of the storages to their arrays, in the model of
  \<^verbatim>\<open>Intrusive_Ptr\<close>, and the contents of storages and arrays.  Maps, storages and arrays have
  numbers for addresses; a new storage or array takes a number that was never used.

  The main result: every operation acts on the map it is called on as on a value of its own, and
  no other map changes, however the maps share storages and arrays.
\<close>

section \<open>Arrays\<close>

datatype AVSPropertyType = PROPERTYTYPE_UNSET | PROPERTYTYPE_INT | PROPERTYTYPE_FLOAT
  | PROPERTYTYPE_DATA | PROPERTYTYPE_CLIP | PROPERTYTYPE_FRAME

text \<open>An element: \<^verbatim>\<open>int64_t\<close>, \<^verbatim>\<open>double\<close>, \<^verbatim>\<open>VSMapData\<close> with its type hint, \<^verbatim>\<open>PClip\<close> and
  \<^verbatim>\<open>PVideoFrame\<close>, the last two null or the address of their object.\<close>

datatype prop_val = P_int int | P_float fp | P_data int string | P_clip "nat option" | P_frame "nat option"

fun prop_type :: "prop_val \<Rightarrow> AVSPropertyType" where
  "prop_type (P_int _) = PROPERTYTYPE_INT"
| "prop_type (P_float _) = PROPERTYTYPE_FLOAT"
| "prop_type (P_data _ _) = PROPERTYTYPE_DATA"
| "prop_type (P_clip _) = PROPERTYTYPE_CLIP"
| "prop_type (P_frame _) = PROPERTYTYPE_FRAME"

text \<open>The value of \<open>T singleData = {}\<close>.\<close>

fun value_init :: "AVSPropertyType \<Rightarrow> prop_val" where
  "value_init PROPERTYTYPE_FLOAT = P_float (Zero False)"
| "value_init PROPERTYTYPE_DATA = P_data 0 []"
| "value_init PROPERTYTYPE_CLIP = P_clip None"
| "value_init PROPERTYTYPE_FRAME = P_frame None"
| "value_init _ = P_int 0"

record VSArray =
  ftype :: AVSPropertyType
  fsize :: nat
  singleData :: prop_val
  data :: "prop_val list"

definition VSArray_new :: "AVSPropertyType \<Rightarrow> VSArray" where
  "VSArray_new ty = \<lparr>ftype = ty, fsize = 0, singleData = value_init ty, data = []\<rparr>"

definition VSArray_copy :: "VSArray \<Rightarrow> VSArray" where
  "VSArray_copy a =
    (let b = (VSArray_new (ftype a))\<lparr>fsize := fsize a\<rparr>
     in if fsize a = 1 then b\<lparr>singleData := singleData a\<rparr>
        else if 1 < fsize a then b\<lparr>data := data a\<rparr> else b)"

definition VSArray_of :: "AVSPropertyType \<Rightarrow> prop_val list \<Rightarrow> VSArray" where
  "VSArray_of ty vals =
    (let a = (VSArray_new ty)\<lparr>fsize := length vals\<rparr>
     in if length vals = 1 then a\<lparr>singleData := hd vals\<rparr> else a\<lparr>data := vals\<rparr>)"

text \<open>The moved-from \<^verbatim>\<open>singleData\<close> is not read again; the reserved capacity of the vector has no
  effect on its elements.\<close>

definition push_back :: "prop_val \<Rightarrow> VSArray \<Rightarrow> VSArray" where
  "push_back v a =
    (let b = (if fsize a = 0 then a\<lparr>singleData := v\<rparr>
              else if fsize a = 1 then a\<lparr>data := data a @ [singleData a] @ [v]\<rparr>
              else a\<lparr>data := data a @ [v]\<rparr>)
     in b\<lparr>fsize := fsize a + 1\<rparr>)"

text \<open>\<^verbatim>\<open>data.at\<close> throws past the end of the vector.\<close>

definition at :: "nat \<Rightarrow> VSArray \<Rightarrow> prop_val option" where
  "at pos a = (if fsize a = 1 then Some (singleData a)
    else if pos < length (data a) then Some (data a ! pos) else None)"

text \<open>The values a reader finds at \<^verbatim>\<open>getDataPointer\<close>.\<close>

definition getDataPointer :: "VSArray \<Rightarrow> prop_val list" where
  "getDataPointer a = (if fsize a = 1 then [singleData a] else data a)"

section \<open>The heap\<close>

text \<open>
  \<open>maps\<close>: the \<^verbatim>\<open>data\<close> pointer of each map to its storage.  \<open>slots\<close>: the pointer in the node of a
  key of a storage's \<^verbatim>\<open>std::map\<close>; \<open>keys\<close> its keys, in the order of the bytes.
\<close>

record prop_heap =
  maps :: "(nat, nat) ptr_state"
  slots :: "(nat \<times> string, nat) ptr_state"
  keys :: "nat \<Rightarrow> string list"
  errs :: "nat \<Rightarrow> bool"
  arrs :: "nat \<Rightarrow> VSArray"
  brk :: nat

definition empty_heap :: prop_heap where
  "empty_heap = \<lparr>maps = no_pointers, slots = no_pointers, keys = (\<lambda>_. []), errs = (\<lambda>_. False),
     arrs = (\<lambda>_. VSArray_new PROPERTYTYPE_UNSET), brk = 0\<rparr>"

definition storage :: "nat \<Rightarrow> prop_heap \<Rightarrow> nat" where
  "storage h H = the (obj h (maps H))"

text \<open>The two constructors of \<^verbatim>\<open>VSMapStorage\<close>, the new storage at \<open>brk\<close>, and what its
  destructor does to its entries.\<close>

definition storage_new :: "prop_heap \<Rightarrow> prop_heap" where
  "storage_new H = H\<lparr>keys := (keys H)(brk H := []), errs := (errs H)(brk H := False), brk := brk H + 1\<rparr>"

definition copy_slots :: "nat \<Rightarrow> nat \<Rightarrow> string list \<Rightarrow> (nat \<times> string, nat) ptr_state
    \<Rightarrow> (nat \<times> string, nat) ptr_state" where
  "copy_slots s s' ks A = fold (\<lambda>k. ptr_copy (s', k) (s, k)) ks A"

definition storage_copy :: "nat \<Rightarrow> prop_heap \<Rightarrow> prop_heap" where
  "storage_copy s H = H\<lparr>slots := copy_slots s (brk H) (keys H s) (slots H),
     keys := (keys H)(brk H := keys H s), errs := (errs H)(brk H := errs H s), brk := brk H + 1\<rparr>"

definition destroy_slots :: "nat \<Rightarrow> string list \<Rightarrow> (nat \<times> string, nat) ptr_state
    \<Rightarrow> (nat \<times> string, nat) ptr_state" where
  "destroy_slots s ks A = fold (\<lambda>k. ptr_destroy (s, k)) ks A"

definition data_clear :: "nat \<Rightarrow> prop_heap \<Rightarrow> prop_heap" where
  "data_clear s H = H\<lparr>slots := destroy_slots s (keys H s) (slots H), keys := (keys H)(s := [])\<rparr>"

definition delete_released :: "nat option \<Rightarrow> prop_heap \<Rightarrow> prop_heap" where
  "delete_released p H = (case p of None \<Rightarrow> H
     | Some s \<Rightarrow> if counts (maps H) s = None then data_clear s H else H)"

definition storage_clear :: "nat \<Rightarrow> prop_heap \<Rightarrow> prop_heap" where
  "storage_clear s H = (data_clear s H)\<lparr>errs := (errs H)(s := False)\<rparr>"

text \<open>\<open>data = new VSMapStorage(...)\<close>, where the new storage is \<open>s\<close>.\<close>

definition data_assign_new :: "nat \<Rightarrow> nat \<Rightarrow> prop_heap \<Rightarrow> prop_heap" where
  "data_assign_new h s H =
     delete_released (obj h (maps H)) (H\<lparr>maps := ptr_assign_new h s (maps H)\<rparr>)"

section \<open>\<^verbatim>\<open>AVSMap\<close>\<close>

definition AVSMap_new :: "nat \<Rightarrow> nat option \<Rightarrow> prop_heap \<Rightarrow> prop_heap" where
  "AVSMap_new h src H = (case src of
       Some h' \<Rightarrow> H\<lparr>maps := ptr_copy h h' (maps H)\<rparr>
     | None \<Rightarrow> (storage_new H)\<lparr>maps := ptr_init h (Some (brk H)) False (first_ref (brk H) (maps H))\<rparr>)"

definition AVSMap_assign :: "nat \<Rightarrow> nat \<Rightarrow> prop_heap \<Rightarrow> prop_heap" where
  "AVSMap_assign h h' H = delete_released (obj h (maps H)) (H\<lparr>maps := ptr_assign h h' (maps H)\<rparr>)"

definition AVSMap_destroy :: "nat \<Rightarrow> prop_heap \<Rightarrow> prop_heap" where
  "AVSMap_destroy h H = delete_released (obj h (maps H)) (H\<lparr>maps := ptr_destroy h (maps H)\<rparr>)"

definition detach :: "nat \<Rightarrow> prop_heap \<Rightarrow> bool \<times> prop_heap" where
  "detach h H = (if \<not> unique (storage h H) (maps H)
     then (True, data_assign_new h (brk H) (storage_copy (storage h H) H)) else (False, H))"

definition find :: "nat \<Rightarrow> string \<Rightarrow> prop_heap \<Rightarrow> nat option" where
  "find h key H = (if key \<in> set (keys H (storage h H)) then obj (storage h H, key) (slots H) else None)"

definition new_array :: "VSArray \<Rightarrow> prop_heap \<Rightarrow> nat \<times> prop_heap" where
  "new_array a H = (brk H, H\<lparr>arrs := (arrs H)(brk H := a), brk := brk H + 1\<rparr>)"

definition detach_key :: "nat \<Rightarrow> string \<Rightarrow> prop_heap \<Rightarrow> nat option \<times> prop_heap" where
  "detach_key h key H =
    (let H = snd (detach h H)
     in case find h key H of
          None \<Rightarrow> (None, H)
        | Some a \<Rightarrow>
            if \<not> unique a (slots H)
            then (let (b, H) = new_array (VSArray_copy (arrs H a)) H
                  in (Some b, H\<lparr>slots := ptr_assign_new (storage h H, key) b (slots H)\<rparr>))
            else (Some a, H))"

definition erase :: "nat \<Rightarrow> string \<Rightarrow> prop_heap \<Rightarrow> bool \<times> prop_heap" where
  "erase h key H =
    (case find h key H of
       None \<Rightarrow> (False, H)
     | Some _ \<Rightarrow>
        (let H = snd (detach h H); s = storage h H
         in (True, H\<lparr>slots := ptr_destroy (s, key) (slots H), keys := (keys H)(s := remove1 key (keys H s))\<rparr>)))"

definition insert_array :: "nat \<Rightarrow> string \<Rightarrow> nat \<Rightarrow> prop_heap \<Rightarrow> prop_heap" where
  "insert_array h key val H =
    (let H = snd (detach h H); s = storage h H
     in case find h key H of
          Some _ \<Rightarrow> H\<lparr>slots := ptr_assign_new (s, key) val (slots H)\<rparr>
        | None \<Rightarrow> H\<lparr>slots := ptr_init (s, key) (Some val) False (first_ref val (slots H)),
                    keys := (keys H)(s := insort key (keys H s))\<rparr>)"

text \<open>\<open>data->data[key] = entry\<close>: \<^verbatim>\<open>operator[]\<close> makes a null entry for a new key first.\<close>

definition copy_entry :: "nat \<Rightarrow> nat \<Rightarrow> string \<Rightarrow> prop_heap \<Rightarrow> prop_heap" where
  "copy_entry s s' key H =
    (let H = (if key \<in> set (keys H s) then H
              else H\<lparr>slots := ptr_init (s, key) None False (slots H), keys := (keys H)(s := insort key (keys H s))\<rparr>)
     in H\<lparr>slots := ptr_assign (s, key) (s', key) (slots H)\<rparr>)"

definition AVSMap_copy :: "nat \<Rightarrow> nat \<Rightarrow> prop_heap \<Rightarrow> prop_heap" where
  "AVSMap_copy h src H = (if src = h then H else
     (let H = snd (detach h H)
      in fold (copy_entry (storage h H) (storage src H)) (keys H (storage src H)) H))"

definition AVSMap_size :: "nat \<Rightarrow> prop_heap \<Rightarrow> nat" where
  "AVSMap_size h H = length (keys H (storage h H))"

definition AVSMap_clear :: "nat \<Rightarrow> prop_heap \<Rightarrow> prop_heap" where
  "AVSMap_clear h H = (if unique (storage h H) (maps H) then storage_clear (storage h H) H
     else data_assign_new h (brk H) (storage_new H))"

definition AVSMap_key :: "nat \<Rightarrow> nat \<Rightarrow> prop_heap \<Rightarrow> string option" where
  "AVSMap_key h n H = (if AVSMap_size h H \<le> n then None else Some (keys H (storage h H) ! n))"

definition setError :: "nat \<Rightarrow> string \<Rightarrow> prop_heap \<Rightarrow> prop_heap" where
  "setError h msg H =
    (let H = AVSMap_clear h H;
         (a, H) = new_array (push_back (P_data 1 msg) (VSArray_new PROPERTYTYPE_DATA)) H;
         s = storage h H
     in H\<lparr>slots := ptr_init (s, ''_Error'') (Some a) False (first_ref a (slots H)),
          keys := (keys H)(s := insort ''_Error'' (keys H s)), errs := (errs H)(s := True)\<rparr>)"

definition hasError :: "nat \<Rightarrow> prop_heap \<Rightarrow> bool" where
  "hasError h H = errs H (storage h H)"

text \<open>\<^verbatim>\<open>data.at("_Error")\<close> throws when the key is gone, \<^verbatim>\<open>at(0)\<close> when its array is empty; the cast
  to an array of data is only right for such an array.\<close>

datatype message_error = No_error_key | No_error_text | Not_a_data_array

definition getErrorMessage :: "nat \<Rightarrow> prop_heap \<Rightarrow> message_error + string option" where
  "getErrorMessage h H = (if errs H (storage h H) then
     (case find h ''_Error'' H of
        None \<Rightarrow> Inl No_error_key
      | Some a \<Rightarrow> (case at 0 (arrs H a) of
          None \<Rightarrow> Inl No_error_text
        | Some (P_data _ msg) \<Rightarrow> Inr (Some msg)
        | Some _ \<Rightarrow> Inl Not_a_data_array))
     else Inr None)"

section \<open>Two uses of these\<close>

text \<open>\<open>map->insert(key, new ...)\<close>\<close>

definition insert_new :: "nat \<Rightarrow> string \<Rightarrow> VSArray \<Rightarrow> prop_heap \<Rightarrow> prop_heap" where
  "insert_new h key a H = (let (p, H) = new_array a H in insert_array h key p H)"

text \<open>\<open>detach(key)\<close> and \<open>push_back\<close> on the array it returns.\<close>

definition push_key :: "nat \<Rightarrow> string \<Rightarrow> prop_val \<Rightarrow> prop_heap \<Rightarrow> prop_heap" where
  "push_key h key v H = (case detach_key h key H of (None, H) \<Rightarrow> H
     | (Some a, H) \<Rightarrow> H\<lparr>arrs := (arrs H)(a := push_back v (arrs H a))\<rparr>)"

end
