(* ===== verification/Prop_Cow.thy ===== *)
theory Prop_Cow
  imports Prop_Map
begin

text \<open>
  The correctness of \<^verbatim>\<open>Prop_Map\<close>: an array represents a list, and maps that share storages and
  arrays behave as independent values.
\<close>

section \<open>Arrays represent lists\<close>

definition array_elems :: "VSArray \<Rightarrow> prop_val list" where
  "array_elems a = (if fsize a = 0 then [] else if fsize a = 1 then [singleData a] else data a)"

definition array_ok :: "VSArray \<Rightarrow> bool" where
  "array_ok a \<longleftrightarrow> (if fsize a \<le> 1 then data a = [] else length (data a) = fsize a)
     \<and> (\<forall>v \<in> set (array_elems a). prop_type v = ftype a)"

lemma array_new: "array_ok (VSArray_new ty)" "array_elems (VSArray_new ty) = []" "ftype (VSArray_new ty) = ty"
  by (simp_all add: VSArray_new_def array_ok_def array_elems_def)

lemma array_copy:
  "array_ok a \<Longrightarrow> array_ok (VSArray_copy a)" "array_elems (VSArray_copy a) = array_elems a" "ftype (VSArray_copy a) = ftype a"
  by (auto simp: VSArray_copy_def VSArray_new_def array_ok_def array_elems_def Let_def)

lemma array_of:
  "\<forall>v \<in> set vals. prop_type v = ty \<Longrightarrow> array_ok (VSArray_of ty vals)" "array_elems (VSArray_of ty vals) = vals"
  "ftype (VSArray_of ty vals) = ty"
  by (auto simp: VSArray_of_def VSArray_new_def array_ok_def array_elems_def Let_def length_Suc_conv le_Suc_eq)

lemma array_push_back:
  "array_ok a \<Longrightarrow> prop_type v = ftype a \<Longrightarrow> array_ok (push_back v a)"
  "array_ok a \<Longrightarrow> array_elems (push_back v a) = array_elems a @ [v]" "ftype (push_back v a) = ftype a"
  by (auto simp: push_back_def array_ok_def array_elems_def Let_def)

lemma array_reads:
  assumes "array_ok a"
  shows "fsize a = length (array_elems a)" "getDataPointer a = array_elems a"
    "i < length (array_elems a) \<Longrightarrow> at i a = Some (array_elems a ! i)"
  using assms by (auto simp: array_ok_def array_elems_def getDataPointer_def at_def split: if_splits)

lemmas array_simps = array_new array_copy array_of array_push_back

section \<open>The heap invariant and the value of a map\<close>

type_synonym prop_value = "(string \<Rightarrow> (AVSPropertyType \<times> prop_val list) option) \<times> bool"

definition array_value :: "VSArray \<Rightarrow> AVSPropertyType \<times> prop_val list" where
  "array_value a = (ftype a, array_elems a)"

definition storage_value :: "nat \<Rightarrow> prop_heap \<Rightarrow> prop_value" where
  "storage_value s H = (\<lambda>k. map_option (\<lambda>a. array_value (arrs H a)) (obj (s, k) (slots H)), errs H s)"

definition map_value :: "nat \<Rightarrow> prop_heap \<Rightarrow> prop_value option" where
  "map_value h H = map_option (\<lambda>s. storage_value s H) (obj h (maps H))"

text \<open>\<open>S\<close> has the storages that are under construction or about to be deleted.\<close>

definition heap_with :: "nat set \<Rightarrow> prop_heap \<Rightarrow> bool" where
  "heap_with S H \<longleftrightarrow> counted (maps H) \<and> counted (slots H)
     \<and> (\<forall>h. cells (maps H) h \<noteq> Some None) \<and> (\<forall>c. cells (slots H) c \<noteq> Some None)
     \<and> (\<forall>s k. cells (slots H) (s, k) \<noteq> None \<longleftrightarrow> k \<in> set (keys H s))
     \<and> (\<forall>s. sorted (keys H s) \<and> distinct (keys H s))
     \<and> (\<forall>s. keys H s \<noteq> [] \<longrightarrow> s \<in> S \<or> (\<exists>h. cells (maps H) h = Some (Some s)))
     \<and> (\<forall>h s. cells (maps H) h = Some (Some s) \<longrightarrow> s < brk H) \<and> (\<forall>s \<in> S. s < brk H)
     \<and> (\<forall>c a. cells (slots H) c = Some (Some a) \<longrightarrow> a < brk H \<and> array_ok (arrs H a))"

abbreviation heap_ok :: "prop_heap \<Rightarrow> bool" where
  "heap_ok \<equiv> heap_with {}"

definition is_map :: "nat \<Rightarrow> prop_heap \<Rightarrow> bool" where
  "is_map h H \<longleftrightarrow> cells (maps H) h \<noteq> None"

lemma heap_withI:
  assumes "counted (maps H)" "counted (slots H)"
    "\<And>h. cells (maps H) h \<noteq> Some None" "\<And>c. cells (slots H) c \<noteq> Some None"
    "\<And>s k. cells (slots H) (s, k) \<noteq> None \<longleftrightarrow> k \<in> set (keys H s)"
    "\<And>s. sorted (keys H s) \<and> distinct (keys H s)"
    "\<And>s. keys H s \<noteq> [] \<Longrightarrow> s \<in> S \<or> (\<exists>h. cells (maps H) h = Some (Some s))"
    "\<And>h s. cells (maps H) h = Some (Some s) \<Longrightarrow> s < brk H" "\<And>s. s \<in> S \<Longrightarrow> s < brk H"
    "\<And>c a. cells (slots H) c = Some (Some a) \<Longrightarrow> a < brk H \<and> array_ok (arrs H a)"
  shows "heap_with S H"
  using assms unfolding heap_with_def by blast

lemma heap_withD:
  assumes "heap_with S H"
  shows "counted (maps H)" "counted (slots H)"
    "cells (maps H) h \<noteq> Some None" "cells (slots H) c \<noteq> Some None"
    "cells (slots H) (s, k) \<noteq> None \<longleftrightarrow> k \<in> set (keys H s)"
    "sorted (keys H s)" "distinct (keys H s)"
    "keys H s \<noteq> [] \<Longrightarrow> s \<in> S \<or> (\<exists>h. cells (maps H) h = Some (Some s))"
    "cells (maps H) h = Some (Some s) \<Longrightarrow> s < brk H" "s \<in> S \<Longrightarrow> s < brk H"
    "cells (slots H) c = Some (Some a) \<Longrightarrow> a < brk H \<and> array_ok (arrs H a)"
  using assms unfolding heap_with_def by blast+

lemma storage_cong: "maps H' = maps H \<Longrightarrow> storage h H' = storage h H"
  by (simp add: storage_def)

lemma is_map_storage: "heap_with S H \<Longrightarrow> is_map h H \<Longrightarrow> cells (maps H) h = Some (Some (storage h H))"
  using heap_withD(3) [of S H h] by (auto simp: is_map_def storage_def obj_def)

lemma is_map_obj: "heap_with S H \<Longrightarrow> is_map h H \<Longrightarrow> obj h (maps H) = Some (storage h H)"
  using is_map_storage [of S H h] by (simp add: obj_def)

lemma map_value_storage: "heap_with S H \<Longrightarrow> is_map h H \<Longrightarrow> map_value h H = Some (storage_value (storage h H) H)"
  by (simp add: map_value_def is_map_obj)

lemma map_value_cong:
  assumes "cells (maps H') h = cells (maps H) h"
    "\<And>s. cells (maps H) h = Some (Some s) \<Longrightarrow> storage_value s H' = storage_value s H"
  shows "map_value h H' = map_value h H"
  using assms by (cases "obj h (maps H)") (auto simp: map_value_def obj_def split: option.splits)

lemma find_obj: "heap_with S H \<Longrightarrow> find h k H = obj (storage h H, k) (slots H)"
  using heap_withD(5) [of S H "storage h H" k] by (auto simp: find_def obj_def split: option.splits)

lemma fresh_storage: "heap_with S H \<Longrightarrow> brk H \<le> s \<Longrightarrow> cells (maps H) h \<noteq> Some (Some s)"
  using heap_withD(9) [of S H h s] by auto

lemma fresh_count:
  "heap_with S H \<Longrightarrow> brk H \<le> s \<Longrightarrow> counts (maps H) s = None"
  "heap_with S H \<Longrightarrow> brk H \<le> a \<Longrightarrow> counts (slots H) a = None"
  using countedD(2) [OF heap_withD(1), of S H s] countedD(2) [OF heap_withD(2), of S H a]
    heap_withD(9) [of S H _ s] heap_withD(11) [of S H _ a] by (fastforce simp: owners_def)+

lemma fresh_keys: "heap_with S H \<Longrightarrow> brk H \<le> s \<Longrightarrow> keys H s = []"
  using heap_withD(8) [of S H s] heap_withD(9) [of S H _ s] heap_withD(10) [of S H s] by force

section \<open>Copying and destroying the entries of a storage\<close>

lemma cells_copy_slots:
  assumes "s \<noteq> s'"
  shows "cells (copy_slots s s' ks A) = (\<lambda>c. if fst c = s' \<and> snd c \<in> set ks then Some (obj (s, snd c) A) else cells A c)"
  unfolding copy_slots_def
proof (induction ks arbitrary: A)
  case (Cons k ks)
  have "obj (s, k') (ptr_copy (s', k) (s, k) A) = obj (s, k') A" for k'
    using assms by (simp add: obj_def)
  with Cons show ?case by (auto simp: fun_eq_iff)
qed simp

lemma counted_copy_slots:
  assumes "counted A" "distinct ks" "s \<noteq> s'" "\<And>k. k \<in> set ks \<Longrightarrow> cells A (s', k) = None"
  shows "counted (copy_slots s s' ks A)"
  using assms unfolding copy_slots_def
proof (induction ks arbitrary: A)
  case (Cons k ks)
  have "counted (ptr_copy (s', k) (s, k) A)" using Cons.prems by (intro counted_copy) auto
  then show ?case using Cons.prems by (auto intro!: Cons.IH)
qed simp

lemma cells_destroy_slots:
  "cells (destroy_slots s ks A) = (\<lambda>c. if fst c = s \<and> snd c \<in> set ks then None else cells A c)"
  unfolding destroy_slots_def by (induction ks arbitrary: A) (auto simp: fun_eq_iff)

lemma counted_destroy_slots: "counted A \<Longrightarrow> counted (destroy_slots s ks A)"
  unfolding destroy_slots_def by (induction ks arbitrary: A) (auto intro: counted_destroy)

lemma obj_fun_upd: "cells A = (cells B)(c := v) \<Longrightarrow> obj d A = (if d = c then (case v of None \<Rightarrow> None | Some p \<Rightarrow> p) else obj d B)"
  by (simp add: obj_def)

lemma heap_data_clear:
  assumes "heap_with S H" "S - {s} \<subseteq> T" "T \<subseteq> S"
  shows "heap_with T (data_clear s H)"
    "s' \<noteq> s \<Longrightarrow> storage_value s' (data_clear s H) = storage_value s' H"
    "storage_value s (data_clear s H) = (\<lambda>_. None, errs H s)"
proof -
  have c: "cells (slots (data_clear s H)) = (\<lambda>c. if fst c = s then None else cells (slots H) c)"
    using heap_withD(5) [OF assms(1), of s] by (force simp: data_clear_def cells_destroy_slots fun_eq_iff)
  have m: "maps (data_clear s H) = maps H" "keys (data_clear s H) = (keys H)(s := [])"
    "errs (data_clear s H) = errs H" "arrs (data_clear s H) = arrs H" "brk (data_clear s H) = brk H"
    by (simp_all add: data_clear_def)
  have n: "counted (slots (data_clear s H))"
    using heap_withD(2) [OF assms(1)] by (simp add: data_clear_def counted_destroy_slots)
  show "heap_with T (data_clear s H)"
    by (rule heap_withI) (use assms n in \<open>auto simp: c m heap_withD(1,3,4,6,7,9,10) dest: heap_withD(5,8,11) split: if_splits\<close>)
  show "s' \<noteq> s \<Longrightarrow> storage_value s' (data_clear s H) = storage_value s' H"
    "storage_value s (data_clear s H) = (\<lambda>_. None, errs H s)"
    by (auto simp: storage_value_def obj_def c m)
qed

section \<open>New storages\<close>

lemma heap_storage_new:
  assumes "heap_ok H"
  shows "heap_with {brk H} (storage_new H)"
    "s \<noteq> brk H \<Longrightarrow> storage_value s (storage_new H) = storage_value s H"
    "storage_value (brk H) (storage_new H) = (\<lambda>_. None, False)"
proof -
  note d = heap_withD [OF assms]
  have k: "keys (storage_new H) = keys H"
    using fresh_keys [OF assms, of "brk H"] by (auto simp: storage_new_def)
  have m: "maps (storage_new H) = maps H" "slots (storage_new H) = slots H" "arrs (storage_new H) = arrs H"
    "brk (storage_new H) = Suc (brk H)" "errs (storage_new H) = (errs H)(brk H := False)"
    by (simp_all add: storage_new_def)
  show "heap_with {brk H} (storage_new H)"
    by (rule heap_withI) (use d in \<open>auto simp: k m less_Suc_eq\<close>)
  have "cells (slots H) (brk H, k) = None" for k using d(5) [of "brk H" k] fresh_keys [OF assms, of "brk H"] by auto
  then show "s \<noteq> brk H \<Longrightarrow> storage_value s (storage_new H) = storage_value s H"
    "storage_value (brk H) (storage_new H) = (\<lambda>_. None, False)"
    by (auto simp: storage_value_def m obj_def)
qed

lemma heap_storage_copy:
  assumes "heap_ok H" "s < brk H"
  shows "heap_with {brk H} (storage_copy s H)"
    "s' \<noteq> brk H \<Longrightarrow> storage_value s' (storage_copy s H) = storage_value s' H"
    "storage_value (brk H) (storage_copy s H) = storage_value s H"
proof -
  note d = heap_withD [OF assms(1)]
  have f: "cells (slots H) (brk H, k) = None" for k using d(5) [of "brk H" k] fresh_keys [OF assms(1), of "brk H"] by auto
  have c: "cells (slots (storage_copy s H)) = (\<lambda>c. if fst c = brk H then cells (slots H) (s, snd c) else cells (slots H) c)"
    using assms(2) d(5) [of s] f by (force simp: storage_copy_def cells_copy_slots fun_eq_iff obj_def split: option.splits)
  have m: "maps (storage_copy s H) = maps H" "keys (storage_copy s H) = (keys H)(brk H := keys H s)"
    "errs (storage_copy s H) = (errs H)(brk H := errs H s)" "arrs (storage_copy s H) = arrs H"
    "brk (storage_copy s H) = Suc (brk H)"
    by (simp_all add: storage_copy_def)
  have n: "counted (slots (storage_copy s H))"
    using assms(2) f d(2,7) by (auto simp: storage_copy_def intro!: counted_copy_slots)
  show "heap_with {brk H} (storage_copy s H)"
    by (rule heap_withI) (use d n in \<open>auto simp: c m less_Suc_eq split: if_splits\<close>)
  show "s' \<noteq> brk H \<Longrightarrow> storage_value s' (storage_copy s H) = storage_value s' H"
    "storage_value (brk H) (storage_copy s H) = storage_value s H"
    by (auto simp: storage_value_def c m obj_def)
qed

lemma heap_delete_released:
  assumes "heap_with {s} H"
  shows "heap_ok (delete_released (Some s) H)" "maps (delete_released (Some s) H) = maps H"
    "cells (maps H) h = Some (Some s') \<Longrightarrow> storage_value s' (delete_released (Some s) H) = storage_value s' H"
proof -
  note d = heap_withD [OF assms]
  have n: "counts (maps H) s = None \<longleftrightarrow> (\<forall>h. cells (maps H) h \<noteq> Some (Some s))"
    using countedD(2) [OF d(1), of s] by (auto simp: owners_def)
  have "heap_ok H" if "counts (maps H) s \<noteq> None"
  proof (rule heap_withI)
    fix s' assume "keys H s' \<noteq> []"
    then show "s' \<in> {} \<or> (\<exists>h. cells (maps H) h = Some (Some s'))" using that d(8) [of s'] n by auto
  qed (use d in auto)
  moreover have "heap_ok (data_clear s H)" by (rule heap_data_clear(1) [OF assms]) auto
  ultimately show "heap_ok (delete_released (Some s) H)" by (simp add: delete_released_def)
  show "maps (delete_released (Some s) H) = maps H" by (simp add: delete_released_def data_clear_def)
  assume "cells (maps H) h = Some (Some s')"
  with n show "storage_value s' (delete_released (Some s) H) = storage_value s' H"
    using heap_data_clear(2) [OF assms, of s "{}" s'] by (cases "s' = s") (auto simp: delete_released_def)
qed

text \<open>A map lets go of its storage: what is left for the others, and the storage is deleted when
  nobody else has it.\<close>

lemma heap_release:
  assumes "heap_with S H" "is_map h H" "S \<subseteq> {s. \<exists>h. cells M h = Some (Some s)} \<union> {storage h H}"
    "counted M" "\<And>h'. h' \<noteq> h \<Longrightarrow> cells M h' = cells (maps H) h'" "cells M h \<noteq> Some None"
    "\<And>s. cells M h = Some (Some s) \<Longrightarrow> s < brk H"
  defines "H' \<equiv> delete_released (Some (storage h H)) (H\<lparr>maps := M\<rparr>)"
  shows "heap_ok H'" "maps H' = M"
    "cells M h' = Some (Some s) \<Longrightarrow> storage_value s H' = storage_value s H"
proof -
  let ?H = "H\<lparr>maps := M\<rparr>"
  note d = heap_withD [OF assms(1)]
  have "cells (maps H) h = Some (Some (storage h H))" using is_map_storage [OF assms(1,2)] .
  then have o: "\<exists>h. cells M h = Some (Some s)" if "s \<noteq> storage h H" "cells (maps H) h' = Some (Some s)" for s h'
    using assms(5) [of h'] that by (cases "h' = h") auto
  have x: "storage h H < brk H" using d(9) is_map_storage [OF assms(1,2)] by blast
  have "heap_with {storage h H} ?H"
  proof (rule heap_withI)
    fix s assume "keys ?H s \<noteq> []"
    then show "s \<in> {storage h H} \<or> (\<exists>h. cells (maps ?H) h = Some (Some s))"
      using d(8) [of s] o assms(3) by auto
  next
    fix h' s assume "cells (maps ?H) h' = Some (Some s)"
    then show "s < brk ?H" using assms(5) [of h'] assms(7) d(9) by (cases "h' = h") auto
  next
    fix h' show "cells (maps ?H) h' \<noteq> Some None" using assms(5) [of h'] assms(6) d(3) by (cases "h' = h") auto
  qed (use d assms(4) x in auto)
  from heap_delete_released [OF this] show "heap_ok H'" "maps H' = M"
    "cells M h' = Some (Some s) \<Longrightarrow> storage_value s H' = storage_value s H"
    by (auto simp: H'_def storage_value_def)
qed

section \<open>Every operation acts on its own map\<close>

definition acts_on :: "nat \<Rightarrow> (prop_value \<Rightarrow> prop_value) \<Rightarrow> prop_heap \<Rightarrow> prop_heap \<Rightarrow> bool" where
  "acts_on h g H H' \<longleftrightarrow> heap_ok H' \<and> (\<forall>h'. is_map h' H' = is_map h' H)
     \<and> (\<forall>h'. map_value h' H' = (if h' = h then map_option g (map_value h H) else map_value h' H))"

lemma acts_on_trans: "acts_on h g H H1 \<Longrightarrow> acts_on h g' H1 H2 \<Longrightarrow> acts_on h (\<lambda>v. g' (g v)) H H2"
  by (auto simp: acts_on_def option.map_comp comp_def)

lemma acts_on_id: "heap_ok H \<Longrightarrow> acts_on h (\<lambda>v. v) H H"
  by (simp add: acts_on_def option.map_ident)

text \<open>An operation on a storage that only the map \<open>h\<close> has.\<close>

lemma acts_local:
  assumes "heap_ok H" "is_map h H" "unique (storage h H) (maps H)" "heap_ok H'" "maps H' = maps H"
    "\<And>s h'. cells (maps H) h' = Some (Some s) \<Longrightarrow> s \<noteq> storage h H \<Longrightarrow> storage_value s H' = storage_value s H"
    "storage_value (storage h H) H' = g (storage_value (storage h H) H)"
  shows "acts_on h g H H'"
proof -
  have st: "cells (maps H) h = Some (Some (storage h H))" using is_map_storage [OF assms(1,2)] .
  have "map_value h' H' = map_value h' H" if "h' \<noteq> h" for h'
  proof (cases "obj h' (maps H)")
    case (Some s)
    then have c: "cells (maps H) h' = Some (Some s)" by (auto simp: obj_def split: option.splits)
    with that st have "s \<noteq> storage h H" using counted_unique [OF heap_withD(1) [OF assms(1)] assms(3) st] by blast
    with Some c assms(5,6) show ?thesis by (simp add: map_value_def)
  qed (simp add: map_value_def assms(5))
  moreover have "map_value h H' = map_option g (map_value h H)"
    using is_map_obj [OF assms(1,2)] assms(5,7) by (simp add: map_value_def)
  ultimately show ?thesis using assms(4,5) by (simp add: acts_on_def is_map_def)
qed

lemma acts_data_assign_new:
  assumes "heap_with {s} H" "is_map h H" "\<And>h. cells (maps H) h \<noteq> Some (Some s)"
  defines "H' \<equiv> data_assign_new h s H"
  shows "heap_ok H'" "storage h H' = s" "unique s (maps H')" "is_map h' H' = is_map h' H"
    "map_value h' H' = (if h' = h then Some (storage_value s H) else map_value h' H)"
proof -
  let ?M = "ptr_assign_new h s (maps H)"
  note d = heap_withD [OF assms(1)]
  have f: "counts (maps H) s = None" using countedD(2) [OF d(1), of s] assms(3) by (auto simp: owners_def)
  have r: "H' = delete_released (Some (storage h H)) (H\<lparr>maps := ?M\<rparr>)"
    using is_map_obj [OF assms(1,2)] by (simp add: H'_def data_assign_new_def)
  have "heap_ok H' \<and> maps H' = ?M \<and> (\<forall>h' s'. cells ?M h' = Some (Some s') \<longrightarrow> storage_value s' H' = storage_value s' H)"
    unfolding r by (intro conjI allI impI heap_release [OF assms(1,2)]) (auto intro: counted_assign_new d(1,10) f)
  then have hr: "heap_ok H'" "maps H' = ?M" "\<And>h' s'. cells ?M h' = Some (Some s') \<Longrightarrow> storage_value s' H' = storage_value s' H"
    by blast+
  show "heap_ok H'" by (rule hr)
  show "storage h H' = s" by (simp add: storage_def obj_def hr(2))
  have "owners ?M s = {h}" using assms(3) by (auto simp: owners_def)
  then show "unique s (maps H')" using heap_withD(1) [OF hr(1)] by (simp add: hr(2) unique_def counted_def)
  show "is_map h' H' = is_map h' H" using assms(2) by (simp add: is_map_def hr(2))
  show "map_value h' H' = (if h' = h then Some (storage_value s H) else map_value h' H)"
  proof (cases "h' = h")
    case True
    then show ?thesis using hr(3) [of h] by (simp add: map_value_def obj_def hr(2))
  next
    case False
    then have "map_value h' H' = map_value h' H" using hr(3) [of h'] by (intro map_value_cong) (auto simp: hr(2))
    with False show ?thesis by simp
  qed
qed

lemma acts_detach:
  assumes "heap_ok H" "is_map h H"
  defines "H' \<equiv> snd (detach h H)"
  shows "acts_on h (\<lambda>v. v) H H'" "unique (storage h H') (maps H')" "is_map h H'"
proof -
  let ?s = "storage h H"
  have *: "acts_on h (\<lambda>v. v) H H' \<and> unique (storage h H') (maps H') \<and> is_map h H'"
  proof (cases "unique ?s (maps H)")
    case True
    with assms show ?thesis by (simp add: detach_def acts_on_id)
  next
    case False
    let ?C = "storage_copy ?s H"
    have "?s < brk H" using is_map_storage heap_withD(9) assms(1,2) by blast
    note c = heap_storage_copy [OF assms(1) this]
    have m: "maps ?C = maps H" by (simp add: storage_copy_def)
    have i: "is_map h ?C" using assms(2) by (simp add: is_map_def m)
    have H': "H' = data_assign_new h (brk H) ?C" using False by (simp add: H'_def detach_def)
    note a = acts_data_assign_new [OF c(1) i, folded H']
    have n: "cells (maps ?C) h' \<noteq> Some (Some (brk H))" for h' using fresh_storage [OF assms(1), of "brk H"] by (simp add: m)
    have v: "map_value h' ?C = map_value h' H" for h'
      using c(2) n [of h'] by (intro map_value_cong) (auto simp: m)
    have v': "map_value h H = Some (storage_value (brk H) ?C)"
      using map_value_storage [OF assms(1,2)] by (simp add: c(3))
    show ?thesis using a(1-5) [OF n] i v v'
      by (simp add: acts_on_def is_map_def m)
  qed
  then show "acts_on h (\<lambda>v. v) H H'" "unique (storage h H') (maps H')" "is_map h H'" by blast+
qed

lemma unique_upd: "unique (storage h H) (maps H) \<Longrightarrow> maps H' = maps H \<Longrightarrow> unique (storage h H') (maps H')"
  by (simp add: storage_def)

lemma acts_clear:
  assumes "heap_ok H" "is_map h H"
  defines "H' \<equiv> AVSMap_clear h H"
  shows "acts_on h (\<lambda>_. (\<lambda>_. None, False)) H H'" "unique (storage h H') (maps H')"
    "keys H' (storage h H') = []"
proof -
  let ?s = "storage h H"
  have *: "acts_on h (\<lambda>_. (\<lambda>_. None, False)) H H' \<and> unique (storage h H') (maps H')"
  proof (cases "unique ?s (maps H)")
    case True
    let ?D = "data_clear ?s H"
    have D: "heap_ok ?D" "\<And>s'. s' \<noteq> ?s \<Longrightarrow> storage_value s' ?D = storage_value s' H"
      using heap_data_clear(1,2) [OF assms(1), of ?s "{}"] by auto
    have H': "H' = ?D\<lparr>errs := (errs H)(?s := False)\<rparr>" using True by (simp add: H'_def AVSMap_clear_def storage_clear_def)
    have "heap_ok H'" by (rule heap_withI) (use heap_withD [OF D(1)] in \<open>auto simp: H'\<close>)
    moreover have m: "maps H' = maps H" by (simp add: H' data_clear_def)
    moreover have "storage_value s H' = storage_value s H" if "s \<noteq> ?s" for s
      using D(2) [OF that] that by (simp add: H' storage_value_def data_clear_def)
    moreover have "storage_value ?s H' = (\<lambda>_. None, False)"
      using heap_data_clear(3) [OF assms(1), of ?s "{}"] by (simp add: H' storage_value_def)
    ultimately have "acts_on h (\<lambda>_. (\<lambda>_. None, False)) H H'" by (intro acts_local [OF assms(1,2) True]) auto
    then show ?thesis using unique_upd [OF True m] by blast
  next
    case False
    let ?C = "storage_new H"
    note c = heap_storage_new [OF assms(1)]
    have m: "maps ?C = maps H" by (simp add: storage_new_def)
    have i: "is_map h ?C" using assms(2) by (simp add: is_map_def m)
    have H': "H' = data_assign_new h (brk H) ?C" using False by (simp add: H'_def AVSMap_clear_def)
    have n: "cells (maps ?C) h' \<noteq> Some (Some (brk H))" for h' using fresh_storage [OF assms(1), of "brk H"] by (simp add: m)
    have v: "map_value h' ?C = map_value h' H" for h' using c(2) n [of h'] by (intro map_value_cong) (auto simp: m)
    show ?thesis using acts_data_assign_new [OF c(1) i n, folded H'] i v c(3) map_value_storage [OF assms(1,2)]
      by (auto simp: acts_on_def is_map_def m)
  qed
  then show a: "acts_on h (\<lambda>_. (\<lambda>_. None, False)) H H'" "unique (storage h H') (maps H')" by blast+
  have ok: "heap_ok H'" "is_map h H'" "map_value h H' = Some (\<lambda>_. None, False)"
    using a(1) assms(2) map_value_storage [OF assms(1,2)] by (auto simp: acts_on_def)
  have n: "obj (storage h H', k) (slots H') = None" for k
    using map_value_storage [OF ok(1,2)] ok(3) by (auto simp: storage_value_def fun_eq_iff)
  have "k \<notin> set (keys H' (storage h H'))" for k
    using heap_withD(5) [OF ok(1), of "storage h H'" k] heap_withD(4) [OF ok(1), of "(storage h H', k)"] n [of k]
    by (auto simp: obj_def)
  then show "keys H' (storage h H') = []" by (cases "keys H' (storage h H')") auto
qed

text \<open>An entry of the map takes a new array.\<close>

definition set_slot :: "nat \<Rightarrow> string \<Rightarrow> nat \<Rightarrow> prop_heap \<Rightarrow> prop_heap" where
  "set_slot s key a H = (if key \<in> set (keys H s) then H\<lparr>slots := ptr_assign_new (s, key) a (slots H)\<rparr>
     else H\<lparr>slots := ptr_init (s, key) (Some a) False (first_ref a (slots H)),
            keys := (keys H)(s := insort key (keys H s))\<rparr>)"

definition upd_key :: "string \<Rightarrow> (AVSPropertyType \<times> prop_val list) option \<Rightarrow> prop_value \<Rightarrow> prop_value" where
  "upd_key k x v = ((fst v)(k := x), snd v)"

lemma upd_key_twice [simp]: "upd_key k x (upd_key k y v) = upd_key k x v"
  by (simp add: upd_key_def)

lemma obj_map_cong:
  "(\<And>a. cells A c = Some (Some a) \<Longrightarrow> f a = g a) \<Longrightarrow> map_option f (obj c A) = map_option g (obj c A)"
  by (cases "obj c A") (auto simp: obj_def split: option.splits)

lemma storage_value_upd:
  assumes "cells (slots H') = (cells (slots H))((s, k) := v)" "errs H' = errs H"
    "\<And>c a. cells (slots H) c = Some (Some a) \<Longrightarrow> arrs H' a = arrs H a"
  shows "storage_value s' H' = (if s' = s then upd_key k (case v of Some (Some a) \<Rightarrow> Some (array_value (arrs H' a)) | _ \<Rightarrow> None)
     (storage_value s H) else storage_value s' H)"
proof -
  have "map_option (\<lambda>a. array_value (arrs H' a)) (obj c (slots H)) = map_option (\<lambda>a. array_value (arrs H a)) (obj c (slots H))" for c
    using assms(3) by (intro obj_map_cong) simp
  then show ?thesis using obj_fun_upd [OF assms(1)] assms(2)
    by (auto simp: storage_value_def upd_key_def fun_eq_iff split: option.splits)
qed

lemma acts_set_slot:
  assumes "heap_ok H" "is_map h H" "unique (storage h H) (maps H)" "counts (slots H) a = None" "a < brk H"
    "array_ok (arrs H a)"
  shows "acts_on h (upd_key k (Some (array_value (arrs H a)))) H (set_slot (storage h H) k a H)"
proof -
  let ?s = "storage h H" and ?H = "set_slot (storage h H) k a H"
  note d = heap_withD [OF assms(1)]
  have c: "cells (slots ?H) = (cells (slots H))((?s, k) := Some (Some a))"
    and m: "maps ?H = maps H" "errs ?H = errs H" "arrs ?H = arrs H" "brk ?H = brk H"
    by (auto simp: set_slot_def)
  have x: "set (keys ?H ?s) = insert k (set (keys H ?s))" "s \<noteq> ?s \<Longrightarrow> keys ?H s = keys H s" for s
    by (auto simp: set_slot_def set_insort_key)
  have y: "sorted (keys ?H s) \<and> distinct (keys ?H s)" for s
    using d(6,7) by (auto simp: set_slot_def sorted_insort distinct_insort)
  have n: "counted (slots ?H)"
    using d(5) [of ?s k] assms(4) d(2) by (auto simp: set_slot_def intro!: counted_assign_new counted_init_new)
  have "heap_ok ?H"
  proof (rule heap_withI)
    fix s k' show "cells (slots ?H) (s, k') \<noteq> None \<longleftrightarrow> k' \<in> set (keys ?H s)"
      using d(5) [of s k'] x by (cases "s = ?s") (auto simp: c)
    show "keys ?H s \<noteq> [] \<Longrightarrow> s \<in> {} \<or> (\<exists>h. cells (maps ?H) h = Some (Some s))"
      using d(8) [of s] x(2) [of s] is_map_storage [OF assms(1,2)] by (cases "s = ?s") (auto simp: m)
  qed (use d n y assms(5,6) in \<open>auto simp: c m split: if_splits\<close>)
  moreover have "storage_value s ?H = (if s = ?s then upd_key k (Some (array_value (arrs H a))) (storage_value ?s H) else storage_value s H)" for s
    using storage_value_upd [OF c m(2)] by (simp add: m)
  ultimately show ?thesis using m(1) by (intro acts_local [OF assms(1-3)]) auto
qed

lemma heap_new_array:
  assumes "heap_ok H" "array_ok a"
  defines "H' \<equiv> snd (new_array a H)"
  shows "acts_on h (\<lambda>v. v) H H'" "storage h H' = storage h H" "maps H' = maps H" "slots H' = slots H"
    "keys H' = keys H" "counts (slots H') (brk H) = None" "brk H < brk H'" "arrs H' (brk H) = a"
proof -
  note d = heap_withD [OF assms(1)]
  have H': "H' = H\<lparr>arrs := (arrs H)(brk H := a), brk := brk H + 1\<rparr>" by (simp add: H'_def new_array_def)
  have "heap_ok H'" by (rule heap_withI) (use d assms(2) in \<open>auto simp: H' less_Suc_eq\<close>)
  moreover have "map_value h' H' = map_value h' H" for h'
  proof (rule map_value_cong)
    have "map_option (\<lambda>x. array_value (arrs H' x)) (obj c (slots H)) = map_option (\<lambda>x. array_value (arrs H x)) (obj c (slots H))" for c
      using d(11) [of c] by (intro obj_map_cong) (fastforce simp: H')
    then show "storage_value s H' = storage_value s H" for s by (simp add: storage_value_def H')
  qed (simp add: H')
  ultimately show "acts_on h (\<lambda>v. v) H H'" by (simp add: acts_on_def is_map_def H' option.map_ident)
  show "storage h H' = storage h H" "maps H' = maps H" "slots H' = slots H" "keys H' = keys H"
    "counts (slots H') (brk H) = None" "brk H < brk H'" "arrs H' (brk H) = a"
    using fresh_count(2) [OF assms(1), of "brk H"] by (simp_all add: H' storage_def)
qed

lemma detach_arrays:
  assumes "heap_ok H" "is_map h H"
  defines "H' \<equiv> snd (detach h H)"
  shows "arrs H' = arrs H" "brk H \<le> brk H'" "counts (slots H) a = None \<Longrightarrow> counts (slots H') a = None"
proof -
  have s: "storage h H \<noteq> brk H" using is_map_storage [OF assms(1,2)] fresh_storage [OF assms(1), of "brk H"] by auto
  have "arrs H' = arrs H \<and> brk H \<le> brk H' \<and>
    (\<forall>c. cells (slots H') c = Some (Some a) \<longrightarrow> (\<exists>c. cells (slots H) c = Some (Some a)))"
    using s by (auto simp: H'_def detach_def data_assign_new_def storage_copy_def delete_released_def
        data_clear_def cells_destroy_slots cells_copy_slots obj_def split: if_splits option.splits) (blast+)
  moreover have "counted (slots H')" "counted (slots H)"
    using acts_detach(1) [OF assms(1,2), folded H'_def] assms(1) by (auto simp: acts_on_def dest: heap_withD(2))
  ultimately show "arrs H' = arrs H" "brk H \<le> brk H'" "counts (slots H) a = None \<Longrightarrow> counts (slots H') a = None"
    by (auto simp: countedD(2) owners_def)
qed

lemma insert_array_slot:
  assumes "heap_ok H" "is_map h H"
  shows "insert_array h k a H = set_slot (storage h (snd (detach h H))) k a (snd (detach h H))"
proof -
  let ?H = "snd (detach h H)"
  have ok: "heap_ok ?H" using acts_detach(1) [OF assms] by (simp add: acts_on_def)
  have "find h k ?H = None \<longleftrightarrow> k \<notin> set (keys ?H (storage h ?H))"
    using find_obj [OF ok, of h k] heap_withD(5) [OF ok, of "storage h ?H" k] heap_withD(4) [OF ok, of "(storage h ?H, k)"]
    by (auto simp: obj_def)
  then show ?thesis by (auto simp: insert_array_def set_slot_def Let_def split: option.splits)
qed

lemma acts_insert_new:
  assumes "heap_ok H" "is_map h H" "array_ok a"
  shows "acts_on h (upd_key k (Some (array_value a))) H (insert_new h k a H)"
proof -
  let ?N = "snd (new_array a H)" let ?D = "snd (detach h ?N)"
  note n = heap_new_array [OF assms(1,3)]
  have ok: "heap_ok ?N" "is_map h ?N" using n(1) [of h] assms(2) by (auto simp: acts_on_def)
  note t = acts_detach [OF ok] and x = detach_arrays [OF ok]
  have "acts_on h (upd_key k (Some (array_value (arrs ?D (brk H))))) ?D (set_slot (storage h ?D) k (brk H) ?D)"
    using t x n(6,7) assms(3) n(8) by (intro acts_set_slot) (auto simp: acts_on_def)
  moreover have "insert_new h k a H = set_slot (storage h ?D) k (brk H) ?D"
    using insert_array_slot [OF ok] by (simp add: insert_new_def new_array_def)
  moreover have "arrs ?D (brk H) = a" using x(1) n(8) by simp
  ultimately show ?thesis using acts_on_trans [OF acts_on_trans [OF n(1) t(1)]] by simp
qed

lemma find_map:
  assumes "heap_ok H" "is_map h H" "map_value h H = Some v"
  shows "fst v k = map_option (\<lambda>a. array_value (arrs H a)) (find h k H)" "snd v = hasError h H"
  using map_value_storage [OF assms(1,2)] assms(3) find_obj [OF assms(1)]
  by (auto simp: storage_value_def hasError_def)

lemma map_keys:
  assumes "heap_ok H" "is_map h H" "map_value h H = Some v"
  shows "set (keys H (storage h H)) = dom (fst v)"
proof -
  have "k \<in> set (keys H (storage h H)) \<longleftrightarrow> find h k H \<noteq> None" for k
    using heap_withD(4) [OF assms(1), of "(storage h H, k)"] heap_withD(5) [OF assms(1), of "storage h H" k]
    by (auto simp: find_def obj_def)
  then show ?thesis using find_map(1) [OF assms] by (auto simp: dom_def)
qed

lemma acts_erase:
  assumes "heap_ok H" "is_map h H"
  shows "acts_on h (upd_key k None) H (snd (erase h k H))"
    "map_value h H = Some v \<Longrightarrow> fst (erase h k H) \<longleftrightarrow> fst v k \<noteq> None"
proof -
  let ?D = "snd (detach h H)"
  let ?s = "storage h ?D" and ?H = "snd (erase h k H)"
  obtain v' where v: "map_value h H = Some v'" using map_value_storage [OF assms] by blast
  show "map_value h H = Some v \<Longrightarrow> fst (erase h k H) \<longleftrightarrow> fst v k \<noteq> None"
    using find_map(1) [OF assms] by (auto simp: erase_def Let_def split: option.splits)
  show "acts_on h (upd_key k None) H (snd (erase h k H))"
  proof (cases "find h k H")
    case None
    then have "upd_key k None v' = v'" using find_map(1) [OF assms v, of k] by (auto simp: upd_key_def prod_eq_iff)
    with None v assms(1) show ?thesis by (simp add: erase_def acts_on_def)
  next
    case (Some a)
    note t = acts_detach [OF assms]
    have ok: "heap_ok ?D" using t(1) by (simp add: acts_on_def)
    note d = heap_withD [OF ok]
    have c: "cells (slots ?H) = (cells (slots ?D))((?s, k) := None)" and m: "maps ?H = maps ?D" "errs ?H = errs ?D"
      "arrs ?H = arrs ?D" "brk ?H = brk ?D" "keys ?H = (keys ?D)(?s := remove1 k (keys ?D ?s))"
      "counted (slots ?H)"
      using Some d(2) by (auto simp: erase_def Let_def intro: counted_destroy)
    have "heap_ok ?H"
    proof (rule heap_withI)
      fix s k' show "cells (slots ?H) (s, k') \<noteq> None \<longleftrightarrow> k' \<in> set (keys ?H s)"
        using d(5) [of s k'] d(7) [of s] by (auto simp: c m set_remove1_eq)
      show "keys ?H s \<noteq> [] \<Longrightarrow> s \<in> {} \<or> (\<exists>h. cells (maps ?H) h = Some (Some s))"
        using d(8) [of s] is_map_storage [OF ok t(3)] by (cases "s = ?s") (auto simp: m)
    qed (use d in \<open>auto simp: c m sorted_remove1 split: if_splits\<close>)
    moreover have "storage_value s ?H = (if s = ?s then upd_key k None (storage_value ?s ?D) else storage_value s ?D)" for s
      using storage_value_upd [OF c m(2)] by (simp add: m)
    ultimately have "acts_on h (upd_key k None) ?D ?H" using m(1) by (intro acts_local [OF ok t(3,2)]) auto
    with acts_on_trans [OF t(1)] show ?thesis by simp
  qed
qed

lemma acts_push_unique:
  assumes "heap_ok H" "is_map h H" "unique (storage h H) (maps H)" "obj (storage h H, k) (slots H) = Some a"
    "unique a (slots H)" "prop_type x = ftype (arrs H a)"
  shows "acts_on h (upd_key k (Some (ftype (arrs H a), array_elems (arrs H a) @ [x]))) H (H\<lparr>arrs := (arrs H)(a := push_back x (arrs H a))\<rparr>)"
proof -
  let ?s = "storage h H" let ?r = "Some (ftype (arrs H a), array_elems (arrs H a) @ [x])"
  define H' where "H' = H\<lparr>arrs := (arrs H)(a := push_back x (arrs H a))\<rparr>"
  have m: "maps H' = maps H" "slots H' = slots H" "keys H' = keys H" "errs H' = errs H" "brk H' = brk H"
    "arrs H' a = push_back x (arrs H a)" "\<And>b. b \<noteq> a \<Longrightarrow> arrs H' b = arrs H b" by (simp_all add: H'_def)
  note d = heap_withD [OF assms(1)]
  have c: "cells (slots H) (?s, k) = Some (Some a)" using assms(4) by (auto simp: obj_def split: option.splits)
  have ok: "array_ok (arrs H a)" using d(11) [OF c] ..
  have "array_ok (arrs H' b)" if "array_ok (arrs H b)" for b
    using that array_push_back(1) [OF ok assms(6)] m(6,7) by (cases "b = a") auto
  then have "heap_ok H'" by (intro heap_withI) (use d in \<open>simp_all add: m\<close>)
  moreover have o: "map_option (\<lambda>b. array_value (arrs H' b)) (obj c (slots H)) = map_option (\<lambda>b. array_value (arrs H b)) (obj c (slots H))"
    if "c \<noteq> (?s, k)" for c
  proof (rule obj_map_cong)
    fix b assume "cells (slots H) c = Some (Some b)"
    with that have "b \<noteq> a" using counted_unique [OF d(2) assms(5) c] by blast
    then show "array_value (arrs H' b) = array_value (arrs H b)" by (simp add: m)
  qed
  have "storage_value s H' = storage_value s H" if "s \<noteq> ?s" for s
    using that by (simp add: storage_value_def m o)
  moreover have v: "array_value (arrs H' a) = (ftype (arrs H a), array_elems (arrs H a) @ [x])"
    using ok by (simp add: m array_value_def array_push_back)
  moreover have "storage_value ?s H' = upd_key k ?r (storage_value ?s H)"
    using assms(4) v by (simp add: storage_value_def upd_key_def fun_eq_iff m(2,4) o)
  ultimately show ?thesis using m(1) unfolding H'_def [symmetric] by (intro acts_local [OF assms(1-3)]) auto
qed

lemma acts_push_key:
  assumes "heap_ok H" "is_map h H" "map_value h H = Some v" "fst v k = Some (ty, xs)" "prop_type x = ty"
  shows "acts_on h (upd_key k (Some (ty, xs @ [x]))) H (push_key h k x H)"
proof -
  let ?D = "snd (detach h H)"
  note t = acts_detach [OF assms(1,2)]
  have ok: "heap_ok ?D" "map_value h ?D = Some v" using t(1) assms(3) by (auto simp: acts_on_def)
  obtain a where a: "find h k ?D = Some a" "array_value (arrs ?D a) = (ty, xs)"
    using find_map(1) [OF ok(1) t(3) ok(2), of k] assms(4) by (cases "find h k ?D") auto
  have o: "obj (storage h ?D, k) (slots ?D) = Some a" using a(1) find_obj [OF ok(1)] by simp
  have A: "array_ok (arrs ?D a)" using o heap_withD(11) [OF ok(1)] by (auto simp: obj_def split: option.splits)
  show ?thesis
  proof (cases "unique a (slots ?D)")
    case True
    then have "push_key h k x H = ?D\<lparr>arrs := (arrs ?D)(a := push_back x (arrs ?D a))\<rparr>"
      using a(1) by (simp add: push_key_def detach_key_def Let_def)
    with acts_on_trans [OF t(1) acts_push_unique [OF ok(1) t(3,2) o True, of x]] a(2) assms(5)
    show ?thesis by (simp add: array_value_def)
  next
    case False
    let ?c = "VSArray_copy (arrs ?D a)"
    let ?N = "snd (new_array ?c ?D)" let ?b = "brk ?D"
    let ?E = "?N\<lparr>slots := ptr_assign_new (storage h ?D, k) ?b (slots ?N)\<rparr>"
    note n = heap_new_array [OF ok(1) array_copy(1) [OF A]]
    have m: "is_map h ?N" "heap_ok ?N" using n(1) [of h] t(3) by (auto simp: acts_on_def)
    have k: "k \<in> set (keys ?D (storage h ?D))" using a(1) by (auto simp: find_def split: if_splits)
    have E: "?E = set_slot (storage h ?N) k ?b ?N" using k n(2,5) by (simp add: set_slot_def)
    have p: "push_key h k x H = ?E\<lparr>arrs := (arrs ?E)(?b := push_back x (arrs ?E ?b))\<rparr>"
      using a(1) False n(2) by (simp add: push_key_def detach_key_def Let_def new_array_def storage_def)
    have e: "acts_on h (upd_key k (Some (ty, xs))) ?N ?E" unfolding E
      using acts_set_slot [OF m(2,1), of ?b k] t(2) n(2,3,6-8) A a(2) by (simp add: array_value_def array_copy)
    have u: "unique (storage h ?E) (maps ?E)" "heap_ok ?E" "is_map h ?E"
      using t(2) n(2,3) e m by (auto simp: storage_def acts_on_def)
    have o': "obj (storage h ?E, k) (slots ?E) = Some ?b" using n(2,3) by (simp add: storage_def obj_def)
    have "\<And>c. cells (slots ?E) c = Some (Some ?b) \<longleftrightarrow> c = (storage h ?D, k)"
      using heap_withD(11) [OF ok(1)] n(4) by (auto split: if_splits)
    then have "owners (slots ?E) ?b = {(storage h ?D, k)}" by (auto simp: owners_def)
    then have w: "unique ?b (slots ?E)" using heap_withD(2) [OF u(2)] by (simp add: unique_def counted_def)
    have "acts_on h (upd_key k (Some (ty, xs @ [x]))) ?E (push_key h k x H)"
      using acts_push_unique [OF u(2,3,1) o' w, of x] n(8) a(2) assms(5) unfolding p by (simp add: array_value_def array_copy)
    from acts_on_trans [OF acts_on_trans [OF t(1) acts_on_trans [OF n(1) e]] this] show ?thesis by simp
  qed
qed

section \<open>Copying between maps\<close>

lemma unique_storages:
  assumes "heap_ok H" "is_map h H" "is_map h' H" "unique (storage h H) (maps H)" "h' \<noteq> h"
  shows "storage h' H \<noteq> storage h H"
  using counted_unique [OF heap_withD(1) [OF assms(1)] assms(4)] is_map_storage [OF assms(1)] assms(2,3,5) by metis

lemma acts_copy_entry:
  assumes "heap_ok H" "is_map h H" "is_map src H" "unique (storage h H) (maps H)" "src \<noteq> h"
    "map_value src H = Some v" "fst v k = Some x"
  shows "acts_on h (upd_key k (fst v k)) H (copy_entry (storage h H) (storage src H) k H)"
    "maps (copy_entry (storage h H) (storage src H) k H) = maps H"
proof -
  let ?s = "storage h H" and ?t = "storage src H"
  define H' where "H' = copy_entry ?s ?t k H"
  note d = heap_withD [OF assms(1)]
  have ne: "?t \<noteq> ?s" using unique_storages [OF assms(1-5)] .
  obtain a where a: "cells (slots H) (?t, k) = Some (Some a)" "fst v k = Some (array_value (arrs H a))"
    using find_map(1) [OF assms(1,3,6), of k] assms(7) find_obj [OF assms(1), of src k]
    by (cases "find src k H") (auto simp: obj_def split: option.splits)
  have c: "cells (slots H') = (cells (slots H))((?s, k) := Some (Some a))"
    and m: "maps H' = maps H" "errs H' = errs H" "arrs H' = arrs H" "brk H' = brk H"
    and n: "counted (slots H')"
    using ne a(1) d(2) d(5) [of ?s k]
    by (auto simp: H'_def copy_entry_def Let_def obj_def intro!: counted_assign counted_init_null)
  have x: "set (keys H' ?s) = insert k (set (keys H ?s))" "s \<noteq> ?s \<Longrightarrow> keys H' s = keys H s" for s
    by (auto simp: H'_def copy_entry_def Let_def set_insort_key)
  have y: "sorted (keys H' s) \<and> distinct (keys H' s)" for s
    using d(6,7) by (auto simp: H'_def copy_entry_def Let_def sorted_insort distinct_insort)
  have "heap_ok H'"
  proof (rule heap_withI)
    fix s k' show "cells (slots H') (s, k') \<noteq> None \<longleftrightarrow> k' \<in> set (keys H' s)"
      using d(5) [of s k'] x by (cases "s = ?s") (auto simp: c)
    show "keys H' s \<noteq> [] \<Longrightarrow> s \<in> {} \<or> (\<exists>h. cells (maps H') h = Some (Some s))"
      using d(8) [of s] x(2) [of s] is_map_storage [OF assms(1,2)] by (cases "s = ?s") (auto simp: m)
  qed (use d n y d(11) [OF a(1)] in \<open>auto simp: c m split: if_splits\<close>)
  moreover have "storage_value s H' = (if s = ?s then upd_key k (fst v k) (storage_value ?s H) else storage_value s H)" for s
    using storage_value_upd [OF c m(2)] by (simp add: m a(2))
  ultimately show "acts_on h (upd_key k (fst v k)) H (copy_entry ?s ?t k H)"
    using m(1) unfolding H'_def [symmetric] by (intro acts_local [OF assms(1,2,4)]) auto
  show "maps (copy_entry ?s ?t k H) = maps H" using m(1) by (simp add: H'_def)
qed

lemma acts_copy_entries:
  assumes "heap_ok H" "is_map h H" "is_map src H" "unique (storage h H) (maps H)" "src \<noteq> h"
    "map_value src H = Some v" "\<And>k. k \<in> set ks \<Longrightarrow> fst v k \<noteq> None"
  shows "acts_on h (\<lambda>u. (fst u ++ fst v |` set ks, snd u)) H (fold (copy_entry (storage h H) (storage src H)) ks H)"
  using assms
proof (induction ks arbitrary: H)
  case Nil
  then show ?case by (simp add: acts_on_id)
next
  case (Cons k ks)
  let ?H = "copy_entry (storage h H) (storage src H) k H"
  obtain x where "fst v k = Some x" using Cons.prems(7) [of k] by auto
  note a = acts_copy_entry [OF Cons.prems(1-6) this]
  have st: "storage h ?H = storage h H" "storage src ?H = storage src H" using a(2) by (auto intro: storage_cong)
  have i: "acts_on h (\<lambda>u. (fst u ++ fst v |` set ks, snd u)) ?H (fold (copy_entry (storage h ?H) (storage src ?H)) ks ?H)"
    using a Cons.prems by (intro Cons.IH) (auto simp: acts_on_def st)
  have "(fst u)(k \<mapsto> x) ++ fst v |` set ks = fst u ++ fst v |` insert k (set ks)" for u :: prop_value
    using \<open>fst v k = Some x\<close> by (auto simp: map_add_def restrict_map_def fun_eq_iff split: option.splits)
  then show ?case using acts_on_trans [OF a(1) i] \<open>fst v k = Some x\<close> by (simp add: st upd_key_def)
qed

lemma acts_copy:
  assumes "heap_ok H" "is_map h H" "is_map src H" "map_value src H = Some v"
  shows "acts_on h (\<lambda>u. (fst u ++ fst v, snd u)) H (AVSMap_copy h src H)"
proof (cases "src = h")
  case True
  moreover have "(fst v ++ fst v, snd v) = v" by (auto simp: prod_eq_iff map_add_def split: option.splits)
  ultimately show ?thesis using assms by (simp add: AVSMap_copy_def acts_on_def)
next
  case False
  let ?D = "snd (detach h H)"
  note t = acts_detach [OF assms(1,2)]
  have D: "heap_ok ?D" "is_map src ?D" "map_value src ?D = Some v"
    using t(1) False assms(3,4) by (auto simp: acts_on_def)
  let ?ks = "keys ?D (storage src ?D)"
  have k: "set ?ks = dom (fst v)" using map_keys [OF D] .
  have "acts_on h (\<lambda>u. (fst u ++ fst v |` set ?ks, snd u)) ?D (fold (copy_entry (storage h ?D) (storage src ?D)) ?ks ?D)"
    by (rule acts_copy_entries [OF D(1) t(3) D(2) t(2) False D(3)]) (simp add: k domIff)
  then have "acts_on h (\<lambda>u. (fst u ++ fst v |` set ?ks, snd u)) ?D (AVSMap_copy h src H)"
    using False by (simp add: AVSMap_copy_def Let_def)
  moreover have "fst v |` dom (fst v) = fst v" by (rule ext) (auto simp: restrict_map_def dom_def simp del: not_None_eq split_paired_All split_paired_Ex)
  ultimately show ?thesis using acts_on_trans [OF t(1)] k by simp
qed

lemma acts_setError:
  assumes "heap_ok H" "is_map h H"
  shows "acts_on h (\<lambda>_. ([''_Error'' \<mapsto> (PROPERTYTYPE_DATA, [P_data 1 msg])], True)) H (setError h msg H)"
proof -
  let ?C = "AVSMap_clear h H" and ?a = "push_back (P_data 1 msg) (VSArray_new PROPERTYTYPE_DATA)"
  let ?N = "snd (new_array ?a ?C)"
  let ?S = "set_slot (storage h ?N) ''_Error'' (brk ?C) ?N"
  note c = acts_clear [OF assms]
  have C: "heap_ok ?C" "is_map h ?C" using c(1) assms(2) by (auto simp: acts_on_def)
  have a: "array_ok ?a" "array_value ?a = (PROPERTYTYPE_DATA, [P_data 1 msg])" by (simp_all add: array_simps array_value_def)
  note n = heap_new_array [OF C(1) a(1)]
  have N: "heap_ok ?N" "is_map h ?N" "unique (storage h ?N) (maps ?N)"
    using n(1) [of h] C(2) c(2) n(2,3) by (auto simp: acts_on_def)
  have s: "acts_on h (upd_key ''_Error'' (Some (array_value ?a))) ?N ?S"
    using acts_set_slot [OF N n(6,7)] a(1) n(8) by simp
  have S: "unique (storage h ?S) (maps ?S)" "heap_ok ?S" "is_map h ?S"
    using N s by (auto simp: acts_on_def set_slot_def storage_def)
  have E: "setError h msg H = ?S\<lparr>errs := (errs ?S)(storage h ?S := True)\<rparr>"
    using c(3) n(2,5) by (auto simp: setError_def Let_def set_slot_def new_array_def storage_def)
  have "acts_on h (\<lambda>v. (fst v, True)) ?S (setError h msg H)" unfolding E
    using S(2) by (intro acts_local [OF S(2,3,1)]) (auto simp: storage_value_def heap_with_def)
  from acts_on_trans [OF acts_on_trans [OF acts_on_trans [OF c(1) n(1)] s] this] show ?thesis
    by (simp add: upd_key_def a(2))
qed

section \<open>Making, assigning and destroying maps\<close>

lemma AVSMap_new_value:
  assumes "heap_ok H" "\<not> is_map h H" "\<And>h'. src = Some h' \<Longrightarrow> is_map h' H"
  defines "H' \<equiv> AVSMap_new h src H"
  shows "heap_ok H'" "is_map h' H' \<longleftrightarrow> h' = h \<or> is_map h' H"
    "map_value h' H' = (if h' = h then (case src of None \<Rightarrow> Some (\<lambda>_. None, False) | Some h1 \<Rightarrow> map_value h1 H)
       else map_value h' H)"
proof -
  note d = heap_withD [OF assms(1)]
  have n: "cells (maps H) h = None" using assms(2) by (simp add: is_map_def)
  have *: "heap_ok H' \<and> (is_map h' H' \<longleftrightarrow> h' = h \<or> is_map h' H) \<and>
    map_value h' H' = (if h' = h then (case src of None \<Rightarrow> Some (\<lambda>_. None, False) | Some h1 \<Rightarrow> map_value h1 H) else map_value h' H)"
  proof (cases src)
    case (Some h1)
    then have s: "cells (maps H) h1 = Some (Some (storage h1 H))" using is_map_storage [OF assms(1)] assms(3) by blast
    have H': "H' = H\<lparr>maps := ptr_copy h h1 (maps H)\<rparr>" by (simp add: H'_def AVSMap_new_def Some)
    have "heap_ok H'"
    proof (rule heap_withI)
      fix s assume "keys H' s \<noteq> []"
      then obtain h' where "cells (maps H) h' = Some (Some s)" using d(8) [of s] by (auto simp: H')
      with n show "s \<in> {} \<or> (\<exists>h. cells (maps H') h = Some (Some s))" by (auto simp: H' intro!: exI [of _ h'])
    qed (use d s n in \<open>auto simp: H' obj_def intro!: counted_copy split: if_splits\<close>)
    moreover have "storage_value s H' = storage_value s H" for s by (simp add: H' storage_value_def)
    ultimately show ?thesis using n s by (auto simp: is_map_def map_value_def Some H' obj_def)
  next
    case None
    let ?N = "storage_new H"
    note c = heap_storage_new [OF assms(1)]
    have m: "maps ?N = maps H" by (simp add: storage_new_def)
    note e = heap_withD [OF c(1)]
    have H': "H' = ?N\<lparr>maps := ptr_init h (Some (brk H)) False (first_ref (brk H) (maps H))\<rparr>"
      by (simp add: H'_def AVSMap_new_def None)
    have "heap_ok H'"
    proof (rule heap_withI)
      fix s assume "keys H' s \<noteq> []"
      then show "s \<in> {} \<or> (\<exists>h. cells (maps H') h = Some (Some s))"
        using e(8) [of s] n by (cases "s = brk H") (auto simp: H' m, metis option.distinct(1))
    qed (use e d(1) n fresh_count(1) [OF assms(1), of "brk H"] in
        \<open>auto simp: H' m intro!: counted_init_new split: if_splits\<close>)
    moreover have "storage_value s H' = storage_value s ?N" for s by (simp add: H' storage_value_def)
    moreover have "h' \<noteq> h \<Longrightarrow> map_value h' H' = map_value h' H"
      using c(2) fresh_storage [OF assms(1), of "brk H" h'] calculation(2) by (intro map_value_cong) (auto simp: H')
    ultimately show ?thesis using c(3) by (auto simp: is_map_def map_value_def None H' obj_def)
  qed
  then show "heap_ok H'" "is_map h' H' \<longleftrightarrow> h' = h \<or> is_map h' H"
    "map_value h' H' = (if h' = h then (case src of None \<Rightarrow> Some (\<lambda>_. None, False) | Some h1 \<Rightarrow> map_value h1 H)
       else map_value h' H)" by blast+
qed

lemma AVSMap_assign_value:
  assumes "heap_ok H" "is_map h H" "is_map src H"
  defines "H' \<equiv> AVSMap_assign h src H"
  shows "heap_ok H'" "is_map h' H' \<longleftrightarrow> is_map h' H"
    "map_value h' H' = (if h' = h then map_value src H else map_value h' H)"
proof -
  let ?M = "ptr_assign h src (maps H)"
  note d = heap_withD [OF assms(1)]
  have s: "obj src (maps H) = Some (storage src H)" "cells (maps H) src = Some (Some (storage src H))"
    using is_map_obj is_map_storage assms(1,3) by blast+
  have r: "H' = delete_released (Some (storage h H)) (H\<lparr>maps := ?M\<rparr>)"
    using is_map_obj [OF assms(1,2)] by (simp add: H'_def AVSMap_assign_def)
  have "heap_ok H' \<and> maps H' = ?M \<and> (\<forall>h' s'. cells ?M h' = Some (Some s') \<longrightarrow> storage_value s' H' = storage_value s' H)"
    unfolding r by (intro conjI allI impI heap_release [OF assms(1,2)]) (use s in \<open>auto intro: counted_assign d(1,9)\<close>)
  then have hr: "heap_ok H'" "maps H' = ?M" "\<And>h' s'. cells ?M h' = Some (Some s') \<Longrightarrow> storage_value s' H' = storage_value s' H"
    by blast+
  show "heap_ok H'" by (rule hr)
  show "is_map h' H' \<longleftrightarrow> is_map h' H" using assms(2) by (simp add: is_map_def hr(2))
  show "map_value h' H' = (if h' = h then map_value src H else map_value h' H)"
  proof (cases "h' = h")
    case True
    then show ?thesis using hr(3) [of h] s by (simp add: map_value_def hr(2) obj_def)
  next
    case False
    then have "map_value h' H' = map_value h' H" using hr(3) [of h'] by (intro map_value_cong) (auto simp: hr(2))
    with False show ?thesis by simp
  qed
qed

lemma AVSMap_destroy_value:
  assumes "heap_ok H" "is_map h H"
  defines "H' \<equiv> AVSMap_destroy h H"
  shows "heap_ok H'" "is_map h' H' \<longleftrightarrow> h' \<noteq> h \<and> is_map h' H"
    "h' \<noteq> h \<Longrightarrow> map_value h' H' = map_value h' H"
proof -
  let ?M = "ptr_destroy h (maps H)"
  have r: "H' = delete_released (Some (storage h H)) (H\<lparr>maps := ?M\<rparr>)"
    using is_map_obj [OF assms(1,2)] by (simp add: H'_def AVSMap_destroy_def)
  have "heap_ok H' \<and> maps H' = ?M \<and> (\<forall>h' s'. cells ?M h' = Some (Some s') \<longrightarrow> storage_value s' H' = storage_value s' H)"
    unfolding r by (intro conjI allI impI heap_release [OF assms(1,2)])
      (auto intro: counted_destroy heap_withD(1) [OF assms(1)])
  then have hr: "heap_ok H'" "maps H' = ?M" "\<And>h' s'. cells ?M h' = Some (Some s') \<Longrightarrow> storage_value s' H' = storage_value s' H"
    by blast+
  show "heap_ok H'" by (rule hr)
  show "is_map h' H' \<longleftrightarrow> h' \<noteq> h \<and> is_map h' H" by (simp add: is_map_def hr(2))
  show "h' \<noteq> h \<Longrightarrow> map_value h' H' = map_value h' H"
    using hr(3) [of h'] by (intro map_value_cong) (auto simp: hr(2))
qed

end
