(* ===== verification/Prop_Api.thy ===== *)
theory Prop_Api
  imports Prop_Cow
begin

text \<open>
  The functions of \<^verbatim>\<open>ScriptEnvironment\<close> on frame properties (\<^verbatim>\<open>avisynth.cpp\<close>, \<open>prop...\<close>,
  \<^verbatim>\<open>createMap\<close>, \<^verbatim>\<open>freeMap\<close>, \<^verbatim>\<open>clearMap\<close>, \<^verbatim>\<open>copyFrameProps\<close>) over the heap of \<^verbatim>\<open>Prop_Map\<close>.  They are
  \<^verbatim>\<open>noexcept\<close>: an exception inside one of them ends the process, which is \<open>Terminates\<close>.  The
  pointer \<^verbatim>\<open>int* error\<close> is \<open>None\<close> for null, otherwise the value of the variable it points to, and
  the functions return it as they leave it.  A key is the text of a C string.
\<close>

datatype 'a prop_outcome = Returns 'a | Terminates

definition bind_o :: "'a prop_outcome \<Rightarrow> ('a \<Rightarrow> 'b prop_outcome) \<Rightarrow> 'b prop_outcome" where
  "bind_o r f = (case r of Returns x \<Rightarrow> f x | Terminates \<Rightarrow> Terminates)"

lemma bind_o_simps [simp]: "bind_o (Returns x) f = f x" "bind_o Terminates f = Terminates"
  by (simp_all add: bind_o_def)

definition GETPROPERROR_SUCCESS :: int where "GETPROPERROR_SUCCESS = 0"
definition GETPROPERROR_UNSET :: int where "GETPROPERROR_UNSET = 1"
definition GETPROPERROR_TYPE :: int where "GETPROPERROR_TYPE = 2"
definition GETPROPERROR_ERROR :: int where "GETPROPERROR_ERROR = 3"
definition GETPROPERROR_INDEX :: int where "GETPROPERROR_INDEX = 4"

definition PROPAPPENDMODE_REPLACE :: int where "PROPAPPENDMODE_REPLACE = 0"
definition PROPAPPENDMODE_APPEND :: int where "PROPAPPENDMODE_APPEND = 1"
definition PROPAPPENDMODE_TOUCH :: int where "PROPAPPENDMODE_TOUCH = 2"

lemmas prop_codes = GETPROPERROR_SUCCESS_def GETPROPERROR_UNSET_def GETPROPERROR_TYPE_def
  GETPROPERROR_ERROR_def GETPROPERROR_INDEX_def PROPAPPENDMODE_REPLACE_def
  PROPAPPENDMODE_APPEND_def PROPAPPENDMODE_TOUCH_def

section \<open>Reading\<close>

definition propNumKeys :: "nat \<Rightarrow> prop_heap \<Rightarrow> int" where
  "propNumKeys m H = wrap32 (int (AVSMap_size m H))"

definition propGetKey :: "nat \<Rightarrow> int \<Rightarrow> prop_heap \<Rightarrow> string option prop_outcome" where
  "propGetKey m index H = (if index < 0 \<or> int (AVSMap_size m H) \<le> index then Terminates
     else Returns (AVSMap_key m (nat index) H))"

definition propNumElements :: "nat \<Rightarrow> string \<Rightarrow> prop_heap \<Rightarrow> int" where
  "propNumElements m key H =
     (case find m key H of Some a \<Rightarrow> wrap32 (int (fsize (arrs H a))) | None \<Rightarrow> - 1)"

definition type_char :: "AVSPropertyType \<Rightarrow> char" where
  "type_char ty = (case ty of PROPERTYTYPE_UNSET \<Rightarrow> CHR ''u'' | PROPERTYTYPE_INT \<Rightarrow> CHR ''i''
     | PROPERTYTYPE_FLOAT \<Rightarrow> CHR ''f'' | PROPERTYTYPE_DATA \<Rightarrow> CHR ''s'' | PROPERTYTYPE_CLIP \<Rightarrow> CHR ''c''
     | PROPERTYTYPE_FRAME \<Rightarrow> CHR ''v'')"

definition propGetType :: "nat \<Rightarrow> string \<Rightarrow> prop_heap \<Rightarrow> char" where
  "propGetType m key H = (case find m key H of Some a \<Rightarrow> type_char (ftype (arrs H a)) | None \<Rightarrow> CHR ''u'')"

text \<open>\<open>if (error) *error = code; else env->ThrowError(...); return nullptr;\<close>\<close>

definition prop_fail :: "int option \<Rightarrow> int \<Rightarrow> (nat option \<times> int option) prop_outcome" where
  "prop_fail error code = (case error of Some _ \<Rightarrow> Returns (None, Some code) | None \<Rightarrow> Terminates)"

definition propGetShared :: "nat \<Rightarrow> string \<Rightarrow> int \<Rightarrow> int option \<Rightarrow> AVSPropertyType \<Rightarrow> prop_heap
    \<Rightarrow> (nat option \<times> int option) prop_outcome" where
  "propGetShared m key index error propType H =
    (if hasError m H then prop_fail error GETPROPERROR_ERROR
     else case find m key H of
       None \<Rightarrow> prop_fail error GETPROPERROR_UNSET
     | Some arr \<Rightarrow>
        if index < 0 \<or> wrap32 (int (fsize (arrs H arr))) \<le> index then prop_fail error GETPROPERROR_INDEX
        else if ftype (arrs H arr) \<noteq> propType then prop_fail error GETPROPERROR_TYPE
        else Returns (Some arr, map_option (\<lambda>_. GETPROPERROR_SUCCESS) error))"

text \<open>The common form of the getters: \<open>arr->at(index)\<close> through the cast, or a default.  \<open>read\<close> is
  undefined on elements of another type.\<close>

definition prop_read :: "(prop_val \<Rightarrow> 'a option) \<Rightarrow> 'a \<Rightarrow> AVSPropertyType \<Rightarrow> nat \<Rightarrow> string \<Rightarrow> int \<Rightarrow> int option
    \<Rightarrow> prop_heap \<Rightarrow> ('a \<times> int option) prop_outcome" where
  "prop_read read dflt ty m key index error H =
     bind_o (propGetShared m key index error ty H) (\<lambda>(arr, error).
       case arr of
         Some a \<Rightarrow> (case Option.bind (at (nat index) (arrs H a)) read of Some x \<Rightarrow> Returns (x, error) | None \<Rightarrow> Terminates)
       | None \<Rightarrow> Returns (dflt, error))"

definition propGetInt :: "nat \<Rightarrow> string \<Rightarrow> int \<Rightarrow> int option \<Rightarrow> prop_heap \<Rightarrow> (int \<times> int option) prop_outcome" where
  "propGetInt = prop_read (\<lambda>v. case v of P_int i \<Rightarrow> Some i | _ \<Rightarrow> None) 0 PROPERTYTYPE_INT"

definition propGetIntSaturated :: "nat \<Rightarrow> string \<Rightarrow> int \<Rightarrow> int option \<Rightarrow> prop_heap \<Rightarrow> (int \<times> int option) prop_outcome" where
  "propGetIntSaturated m key index error H =
     bind_o (propGetInt m key index (Some 0) H) (\<lambda>(v, internalError).
       let error = (case error of None \<Rightarrow> None | Some _ \<Rightarrow> internalError)
       in if internalError = Some 0 \<and> INT_MAX < v then Returns (INT_MAX, error)
          else if internalError = Some 0 \<and> v < INT_MIN then Returns (INT_MIN, error)
          else Returns (wrap32 v, error))"

definition propGetFloat :: "nat \<Rightarrow> string \<Rightarrow> int \<Rightarrow> int option \<Rightarrow> prop_heap \<Rightarrow> (fp \<times> int option) prop_outcome" where
  "propGetFloat = prop_read (\<lambda>v. case v of P_float x \<Rightarrow> Some x | _ \<Rightarrow> None) (Zero False) PROPERTYTYPE_FLOAT"

definition FLT_MAX :: fp where "FLT_MAX = Fin False (2 ^ 24 - 1) 104"

definition propGetFloatSaturated :: "nat \<Rightarrow> string \<Rightarrow> int \<Rightarrow> int option \<Rightarrow> prop_heap \<Rightarrow> (fp \<times> int option) prop_outcome" where
  "propGetFloatSaturated m key index error H =
     bind_o (propGetFloat m key index (Some 0) H) (\<lambda>(v, internalError).
       let error = (case error of None \<Rightarrow> None | Some _ \<Rightarrow> internalError)
       in if internalError = Some 0 \<and> v = NaN then Returns (NaN, error)
          else if internalError = Some 0 \<and> fp_less FLT_MAX v then Returns (FLT_MAX, error)
          else if internalError = Some 0 \<and> fp_less v (fp_neg FLT_MAX) then Returns (fp_neg FLT_MAX, error)
          else Returns (fp_convert binary32 v, error))"

definition propGetData :: "nat \<Rightarrow> string \<Rightarrow> int \<Rightarrow> int option \<Rightarrow> prop_heap \<Rightarrow> (string option \<times> int option) prop_outcome" where
  "propGetData = prop_read (\<lambda>v. case v of P_data _ d \<Rightarrow> Some (Some d) | _ \<Rightarrow> None) None PROPERTYTYPE_DATA"

definition propGetDataSize :: "nat \<Rightarrow> string \<Rightarrow> int \<Rightarrow> int option \<Rightarrow> prop_heap \<Rightarrow> (int \<times> int option) prop_outcome" where
  "propGetDataSize = prop_read (\<lambda>v. case v of P_data _ d \<Rightarrow> Some (wrap32 (int (length d))) | _ \<Rightarrow> None) (- 1) PROPERTYTYPE_DATA"

definition propGetDataTypeHint :: "nat \<Rightarrow> string \<Rightarrow> int \<Rightarrow> int option \<Rightarrow> prop_heap \<Rightarrow> (int \<times> int option) prop_outcome" where
  "propGetDataTypeHint = prop_read (\<lambda>v. case v of P_data t _ \<Rightarrow> Some t | _ \<Rightarrow> None) (- 1) PROPERTYTYPE_DATA"

text \<open>These two pass a variable of their own and leave the caller's \<^verbatim>\<open>*error\<close> as it is.\<close>

definition propGetClip :: "nat \<Rightarrow> string \<Rightarrow> int \<Rightarrow> int option \<Rightarrow> prop_heap \<Rightarrow> (nat option \<times> int option) prop_outcome" where
  "propGetClip m key index error H =
     bind_o (prop_read (\<lambda>v. case v of P_clip c \<Rightarrow> Some c | _ \<Rightarrow> None) None PROPERTYTYPE_CLIP m key index (Some 0) H)
       (\<lambda>(c, dummyError). Returns (c, error))"

definition propGetFrame :: "nat \<Rightarrow> string \<Rightarrow> int \<Rightarrow> int option \<Rightarrow> prop_heap \<Rightarrow> (nat option \<times> int option) prop_outcome" where
  "propGetFrame m key index error H =
     bind_o (prop_read (\<lambda>v. case v of P_frame c \<Rightarrow> Some c | _ \<Rightarrow> None) None PROPERTYTYPE_FRAME m key index (Some 0) H)
       (\<lambda>(c, dummyError). Returns (c, error))"

definition prop_array :: "AVSPropertyType \<Rightarrow> nat \<Rightarrow> string \<Rightarrow> int option \<Rightarrow> prop_heap
    \<Rightarrow> (prop_val list option \<times> int option) prop_outcome" where
  "prop_array ty m key error H = bind_o (propGetShared m key 0 error ty H) (\<lambda>(arr, error).
     Returns (map_option (\<lambda>a. getDataPointer (arrs H a)) arr, error))"

definition propGetIntArray :: "nat \<Rightarrow> string \<Rightarrow> int option \<Rightarrow> prop_heap \<Rightarrow> (prop_val list option \<times> int option) prop_outcome" where
  "propGetIntArray = prop_array PROPERTYTYPE_INT"

definition propGetFloatArray :: "nat \<Rightarrow> string \<Rightarrow> int option \<Rightarrow> prop_heap \<Rightarrow> (prop_val list option \<times> int option) prop_outcome" where
  "propGetFloatArray = prop_array PROPERTYTYPE_FLOAT"

section \<open>Writing\<close>

definition propDeleteKey :: "nat \<Rightarrow> string \<Rightarrow> prop_heap \<Rightarrow> int \<times> prop_heap" where
  "propDeleteKey m key H = (let (r, H) = erase m key H in (of_bool r, H))"

definition isAlphaUnderscore :: "char \<Rightarrow> bool" where
  "isAlphaUnderscore c \<longleftrightarrow> CHR ''a'' \<le> c \<and> c \<le> CHR ''z'' \<or> CHR ''A'' \<le> c \<and> c \<le> CHR ''Z'' \<or> c = CHR ''_''"

definition isAlphaNumUnderscore :: "char \<Rightarrow> bool" where
  "isAlphaNumUnderscore c \<longleftrightarrow> CHR ''a'' \<le> c \<and> c \<le> CHR ''z'' \<or> CHR ''A'' \<le> c \<and> c \<le> CHR ''Z''
     \<or> CHR ''0'' \<le> c \<and> c \<le> CHR ''9'' \<or> c = CHR ''_''"

definition isValidVSMapKey :: "string \<Rightarrow> bool" where
  "isValidVSMapKey s = (case s of [] \<Rightarrow> False | c # r \<Rightarrow> isAlphaUnderscore c \<and> list_all isAlphaNumUnderscore r)"

text \<open>\<^verbatim>\<open>type\<close> is a value of the enumeration here; \<^verbatim>\<open>PROPERTYTYPE_UNSET\<close> falls into the default.\<close>

definition mapSetEmpty :: "nat \<Rightarrow> string \<Rightarrow> AVSPropertyType \<Rightarrow> prop_heap \<Rightarrow> int \<times> prop_heap" where
  "mapSetEmpty m key type H =
    (if \<not> isValidVSMapKey key then (1, H)
     else if find m key H \<noteq> None then (1, H)
     else if type = PROPERTYTYPE_UNSET then (1, H)
     else (0, insert_new m key (VSArray_new type) H))"

definition propSetShared :: "nat \<Rightarrow> string \<Rightarrow> prop_val \<Rightarrow> int \<Rightarrow> prop_heap \<Rightarrow> (bool \<times> prop_heap) prop_outcome" where
  "propSetShared m key val mode H =
    (let propType = prop_type val
     in if mode \<noteq> PROPAPPENDMODE_REPLACE \<and> mode \<noteq> PROPAPPENDMODE_APPEND \<and> mode \<noteq> PROPAPPENDMODE_TOUCH
        then Terminates
        else if \<not> isValidVSMapKey key then Returns (False, H)
        else if mode = PROPAPPENDMODE_REPLACE
        then Returns (True, insert_new m key (push_back val (VSArray_new propType)) H)
        else if mode = PROPAPPENDMODE_APPEND
        then (case find m key H of
                Some arr \<Rightarrow> if ftype (arrs H arr) = propType then Returns (True, push_key m key val H)
                            else Returns (False, H)
              | None \<Rightarrow> Returns (True, insert_new m key (push_back val (VSArray_new propType)) H))
        else (let (r, H) = mapSetEmpty m key propType H in Returns (r = 0, H)))"

definition prop_set :: "nat \<Rightarrow> string \<Rightarrow> prop_val \<Rightarrow> int \<Rightarrow> prop_heap \<Rightarrow> (int \<times> prop_heap) prop_outcome" where
  "prop_set m key val mode H =
     bind_o (propSetShared m key val mode H) (\<lambda>(r, H). Returns (of_bool (\<not> r), H))"

definition propSetInt :: "nat \<Rightarrow> string \<Rightarrow> int \<Rightarrow> int \<Rightarrow> prop_heap \<Rightarrow> (int \<times> prop_heap) prop_outcome" where
  "propSetInt m key i = prop_set m key (P_int i)"

definition propSetFloat :: "nat \<Rightarrow> string \<Rightarrow> fp \<Rightarrow> int \<Rightarrow> prop_heap \<Rightarrow> (int \<times> prop_heap) prop_outcome" where
  "propSetFloat m key d = prop_set m key (P_float d)"

text \<open>\<open>d\<close> is the memory at the pointer: \<open>length\<close> bytes of it, or up to the terminator.\<close>

definition propSetDataH :: "nat \<Rightarrow> string \<Rightarrow> string \<Rightarrow> int \<Rightarrow> int \<Rightarrow> int \<Rightarrow> prop_heap \<Rightarrow> (int \<times> prop_heap) prop_outcome" where
  "propSetDataH m key d len type =
     prop_set m key (P_data type (if 0 \<le> len then take (nat len) d else cstr d))"

definition propSetData :: "nat \<Rightarrow> string \<Rightarrow> string \<Rightarrow> int \<Rightarrow> int \<Rightarrow> prop_heap \<Rightarrow> (int \<times> prop_heap) prop_outcome" where
  "propSetData m key d len = propSetDataH m key d len (- 1)"

definition propSetClip :: "nat \<Rightarrow> string \<Rightarrow> nat option \<Rightarrow> int \<Rightarrow> prop_heap \<Rightarrow> (int \<times> prop_heap) prop_outcome" where
  "propSetClip m key clip = prop_set m key (P_clip clip)"

definition propSetFrame :: "nat \<Rightarrow> string \<Rightarrow> nat option \<Rightarrow> int \<Rightarrow> prop_heap \<Rightarrow> (int \<times> prop_heap) prop_outcome" where
  "propSetFrame m key frame = prop_set m key (P_frame frame)"

text \<open>\<open>i\<close> is the memory at the pointer, of which \<open>n\<close> elements are taken.\<close>

definition prop_set_array :: "nat \<Rightarrow> string \<Rightarrow> AVSPropertyType \<Rightarrow> prop_val list \<Rightarrow> int \<Rightarrow> prop_heap \<Rightarrow> int \<times> prop_heap" where
  "prop_set_array m key ty vals n H =
    (if n < 0 then (1, H) else if \<not> isValidVSMapKey key then (1, H)
     else (0, insert_new m key (VSArray_of ty (take (nat n) vals)) H))"

definition propSetIntArray :: "nat \<Rightarrow> string \<Rightarrow> int list \<Rightarrow> int \<Rightarrow> prop_heap \<Rightarrow> int \<times> prop_heap" where
  "propSetIntArray h key i = prop_set_array h key PROPERTYTYPE_INT (map P_int i)"

definition propSetFloatArray :: "nat \<Rightarrow> string \<Rightarrow> fp list \<Rightarrow> int \<Rightarrow> prop_heap \<Rightarrow> int \<times> prop_heap" where
  "propSetFloatArray h key d = prop_set_array h key PROPERTYTYPE_FLOAT (map P_float d)"

definition createMap :: "nat \<Rightarrow> prop_heap \<Rightarrow> prop_heap" where
  "createMap m H = AVSMap_new m None H"

definition freeMap :: "nat \<Rightarrow> prop_heap \<Rightarrow> prop_heap" where
  "freeMap m H = AVSMap_destroy m H"

definition clearMap :: "nat \<Rightarrow> prop_heap \<Rightarrow> prop_heap" where
  "clearMap m H = AVSMap_clear m H"

text \<open>The maps \<open>src\<close> and \<open>dst\<close> of two frames.\<close>

definition copyFrameProps :: "nat \<Rightarrow> nat \<Rightarrow> prop_heap \<Rightarrow> prop_heap" where
  "copyFrameProps src dst H = AVSMap_assign dst src H"

end
