(* ===== verification/Prop_Spec.thy ===== *)
theory Prop_Spec
  imports Prop_Api
begin

text \<open>
  What the functions on frame properties promise.  A map is a value: a partial function from keys
  to a type and a list of elements of it, and the error flag.  The functions that change maps
  refine operations on a table of such values, return codes included, for every sequence of calls;
  the getters are functions of the value.
\<close>

section \<open>The table of values\<close>

type_synonym prop_store = "nat \<Rightarrow> prop_value option"

datatype prop_op = New_map nat "nat option" | Free_map nat | Assign_map nat nat | Copy_map nat nat
  | Clear_map nat | Set_error nat string | Delete_key nat string | Set_val nat string prop_val int
  | Set_vals nat string AVSPropertyType "prop_val list" int

fun run_op :: "prop_op \<Rightarrow> prop_heap \<Rightarrow> (int \<times> prop_heap) prop_outcome" where
  "run_op (New_map h src) H = Returns (0, AVSMap_new h src H)"
| "run_op (Free_map h) H = Returns (0, freeMap h H)"
| "run_op (Assign_map h src) H = Returns (0, copyFrameProps src h H)"
| "run_op (Copy_map h src) H = Returns (0, AVSMap_copy h src H)"
| "run_op (Clear_map h) H = Returns (0, clearMap h H)"
| "run_op (Set_error h msg) H = Returns (0, setError h msg H)"
| "run_op (Delete_key h k) H = Returns (propDeleteKey h k H)"
| "run_op (Set_val h k x mode) H = prop_set h k x mode H"
| "run_op (Set_vals h k ty xs n) H = Returns (prop_set_array h k ty xs n H)"

definition set_val :: "string \<Rightarrow> prop_val \<Rightarrow> int \<Rightarrow> prop_value \<Rightarrow> int \<times> prop_value" where
  "set_val k x mode v =
    (if \<not> isValidVSMapKey k then (1, v)
     else if mode = PROPAPPENDMODE_REPLACE then (0, upd_key k (Some (prop_type x, [x])) v)
     else case fst v k of
       None \<Rightarrow> (0, upd_key k (Some (prop_type x, if mode = PROPAPPENDMODE_APPEND then [x] else [])) v)
     | Some (ty, xs) \<Rightarrow>
         if mode = PROPAPPENDMODE_APPEND \<and> ty = prop_type x then (0, upd_key k (Some (ty, xs @ [x])) v)
         else (1, v))"

definition on_value :: "nat \<Rightarrow> (prop_value \<Rightarrow> int \<times> prop_value) \<Rightarrow> prop_store \<Rightarrow> int \<times> prop_store" where
  "on_value h f S = (let (r, v) = f (the (S h)) in (r, S(h := Some v)))"

fun spec_op :: "prop_op \<Rightarrow> prop_store \<Rightarrow> int \<times> prop_store" where
  "spec_op (New_map h src) S = (0, S(h := (case src of None \<Rightarrow> Some (\<lambda>_. None, False) | Some h' \<Rightarrow> S h')))"
| "spec_op (Free_map h) S = (0, S(h := None))"
| "spec_op (Assign_map h src) S = (0, S(h := S src))"
| "spec_op (Copy_map h src) S = on_value h (\<lambda>v. (0, fst v ++ fst (the (S src)), snd v)) S"
| "spec_op (Clear_map h) S = on_value h (\<lambda>_. (0, \<lambda>_. None, False)) S"
| "spec_op (Set_error h msg) S =
     on_value h (\<lambda>_. (0, [''_Error'' \<mapsto> (PROPERTYTYPE_DATA, [P_data 1 msg])], True)) S"
| "spec_op (Delete_key h k) S = on_value h (\<lambda>v. (of_bool (fst v k \<noteq> None), upd_key k None v)) S"
| "spec_op (Set_val h k x mode) S = on_value h (set_val k x mode) S"
| "spec_op (Set_vals h k ty xs n) S = on_value h (\<lambda>v. if n < 0 \<or> \<not> isValidVSMapKey k then (1, v)
     else (0, upd_key k (Some (ty, take (nat n) xs)) v)) S"

text \<open>What the caller has to see to: a new map gets an address of its own, the maps exist, the
  append mode is one of the three, the elements have the type of the array.\<close>

fun allowed :: "prop_op \<Rightarrow> prop_store \<Rightarrow> bool" where
  "allowed (New_map h src) S \<longleftrightarrow> S h = None \<and> (case src of None \<Rightarrow> True | Some h' \<Rightarrow> S h' \<noteq> None)"
| "allowed (Free_map h) S \<longleftrightarrow> S h \<noteq> None"
| "allowed (Assign_map h src) S \<longleftrightarrow> S h \<noteq> None \<and> S src \<noteq> None"
| "allowed (Copy_map h src) S \<longleftrightarrow> S h \<noteq> None \<and> S src \<noteq> None"
| "allowed (Clear_map h) S \<longleftrightarrow> S h \<noteq> None"
| "allowed (Set_error h msg) S \<longleftrightarrow> S h \<noteq> None"
| "allowed (Delete_key h k) S \<longleftrightarrow> S h \<noteq> None"
| "allowed (Set_val h k x mode) S \<longleftrightarrow> S h \<noteq> None \<and> mode \<in> {PROPAPPENDMODE_REPLACE, PROPAPPENDMODE_APPEND, PROPAPPENDMODE_TOUCH}"
| "allowed (Set_vals h k ty xs n) S \<longleftrightarrow> S h \<noteq> None \<and> list_all (\<lambda>x. prop_type x = ty) xs"

definition store_of :: "prop_heap \<Rightarrow> prop_store" where
  "store_of H = (\<lambda>h. map_value h H)"

section \<open>Sequences of calls\<close>

primrec run_all :: "('op \<Rightarrow> 's \<Rightarrow> ('r \<times> 's) prop_outcome) \<Rightarrow> 'op list \<Rightarrow> 's \<Rightarrow> ('r list \<times> 's) prop_outcome" where
  "run_all step [] s = Returns ([], s)"
| "run_all step (p # ps) s = bind_o (step p s) (\<lambda>(r, s). bind_o (run_all step ps s) (\<lambda>(rs, s). Returns (r # rs, s)))"

primrec spec_all :: "('op \<Rightarrow> 'a \<Rightarrow> 'r \<times> 'a) \<Rightarrow> 'op list \<Rightarrow> 'a \<Rightarrow> 'r list \<times> 'a" where
  "spec_all spec [] a = ([], a)"
| "spec_all spec (p # ps) a = (let (r, a) = spec p a; (rs, a) = spec_all spec ps a in (r # rs, a))"

primrec all_allowed :: "('op \<Rightarrow> 'a \<Rightarrow> bool) \<Rightarrow> ('op \<Rightarrow> 'a \<Rightarrow> 'r \<times> 'a) \<Rightarrow> 'op list \<Rightarrow> 'a \<Rightarrow> bool" where
  "all_allowed allow spec [] a \<longleftrightarrow> True"
| "all_allowed allow spec (p # ps) a \<longleftrightarrow> allow p a \<and> all_allowed allow spec ps (snd (spec p a))"

text \<open>An implementation whose allowed calls return, keep its invariant and do on the abstract state
  what the specification says.\<close>

locale refined_calls =
  fixes step :: "'op \<Rightarrow> 's \<Rightarrow> ('r \<times> 's) prop_outcome" and inv :: "'s \<Rightarrow> bool" and abs :: "'s \<Rightarrow> 'a"
    and spec :: "'op \<Rightarrow> 'a \<Rightarrow> 'r \<times> 'a" and allow :: "'op \<Rightarrow> 'a \<Rightarrow> bool"
  assumes step_refines: "inv s \<Longrightarrow> allow p (abs s) \<Longrightarrow>
    \<exists>r s'. step p s = Returns (r, s') \<and> inv s' \<and> spec p (abs s) = (r, abs s')"
begin

lemma calls_refine:
  "inv s \<Longrightarrow> all_allowed allow spec ps (abs s) \<Longrightarrow>
    \<exists>rs s'. run_all step ps s = Returns (rs, s') \<and> inv s' \<and> spec_all spec ps (abs s) = (rs, abs s')"
proof (induction ps arbitrary: s)
  case (Cons p ps)
  then obtain r t where t: "step p s = Returns (r, t)" "inv t" "spec p (abs s) = (r, abs t)"
    using step_refines [of s p] by auto
  with Cons.prems Cons.IH [of t] show ?case by auto
qed simp

end

section \<open>The functions refine the table\<close>

lemma is_map_value: "heap_ok H \<Longrightarrow> is_map h H \<longleftrightarrow> map_value h H \<noteq> None"
  using heap_withD(3) [of "{}" H h] by (auto simp: is_map_def map_value_def obj_def split: option.splits)

lemma acts_on_store:
  "acts_on h g H H' \<Longrightarrow> map_value h H = Some v \<Longrightarrow> heap_ok H' \<and> store_of H' = (store_of H)(h := Some (g v))"
  by (auto simp: acts_on_def store_of_def)

lemma prop_set_value:
  assumes "heap_ok H" "map_value h H = Some v" "mode \<in> {PROPAPPENDMODE_REPLACE, PROPAPPENDMODE_APPEND, PROPAPPENDMODE_TOUCH}"
  shows "\<exists>r H' v'. prop_set h k x mode H = Returns (r, H') \<and> set_val k x mode v = (r, v') \<and> acts_on h (\<lambda>_. v') H H'"
proof -
  have m: "is_map h H" using is_map_value [OF assms(1)] assms(2) by blast
  have new: "acts_on h (\<lambda>_. upd_key k (Some (prop_type x, array_elems a)) v) H (insert_new h k a H)"
    if "array_ok a" "ftype a = prop_type x" for a
    using acts_insert_new [OF assms(1) m that(1), of k] that(2) assms(2) by (simp add: acts_on_def array_value_def)
  have id: "acts_on h (\<lambda>_. v) H H" using assms(1,2) by (simp add: acts_on_def)
  have push: "acts_on h (\<lambda>_. upd_key k (Some (prop_type x, xs @ [x])) v) H (push_key h k x H)"
    if "fst v k = Some (prop_type x, xs)" for xs
    using acts_push_key [OF assms(1) m assms(2) that] assms(2) by (simp add: acts_on_def)
  have ne: "prop_type x \<noteq> PROPERTYTYPE_UNSET" by (cases x) auto
  note f = find_map(1) [OF assms(1) m assms(2), of k]
  have one: "array_ok (push_back x (VSArray_new (prop_type x)))" "array_elems (push_back x (VSArray_new (prop_type x))) = [x]"
    by (simp_all add: array_simps)
  show ?thesis
  proof (cases "isValidVSMapKey k")
    case False
    then show ?thesis using id assms(3) by (auto simp: prop_set_def propSetShared_def set_val_def)
  next
    case True
    then show ?thesis
      using assms(3) new [OF one(1)] new [OF array_new(1)] one(2) f id push ne
      by (cases "find h k H")
        (auto simp: prop_set_def propSetShared_def set_val_def mapSetEmpty_def prop_codes array_simps array_value_def
          simp del: split_paired_Ex)
  qed
qed

lemma prop_set_array_value:
  assumes "heap_ok H" "map_value h H = Some v" "list_all (\<lambda>x. prop_type x = ty) xs"
  shows "\<exists>r H' v'. prop_set_array h k ty xs n H = (r, H') \<and> acts_on h (\<lambda>_. v') H H'
    \<and> (if n < 0 \<or> \<not> isValidVSMapKey k then (1, v) else (0, upd_key k (Some (ty, take (nat n) xs)) v)) = (r, v')"
proof -
  have m: "is_map h H" using is_map_value [OF assms(1)] assms(2) by blast
  have id: "acts_on h (\<lambda>_. v) H H" using assms(1,2) by (simp add: acts_on_def)
  have "array_ok (VSArray_of ty (take (nat n) xs))"
    using assms(3) by (intro array_of) (auto simp: list_all_iff dest: in_set_takeD)
  from acts_insert_new [OF assms(1) m this, of k] id assms(2) show ?thesis
    by (auto simp: prop_set_array_def acts_on_def array_value_def array_of(2,3) simp del: split_paired_Ex)
qed

lemma run_op_refines:
  assumes "heap_ok H" "allowed p (store_of H)"
  shows "\<exists>r H'. run_op p H = Returns (r, H') \<and> heap_ok H' \<and> spec_op p (store_of H) = (r, store_of H')"
proof -
  have m: "is_map h H \<longleftrightarrow> store_of H h \<noteq> None" for h using is_map_value [OF assms(1)] by (simp add: store_of_def)
  have on: "\<exists>H'. heap_ok H' \<and> H1 = H' \<and> on_value h (\<lambda>v. (r, g v)) (store_of H) = (r, store_of H')"
    if "acts_on h g H H1" "is_map h H" for h g r H1
    using acts_on_store [OF that(1)] is_map_value [OF assms(1)] that(2)
    by (auto simp: on_value_def store_of_def)
  show ?thesis
  proof (cases p)
    case (New_map h src)
    have "\<not> is_map h H" "\<And>h'. src = Some h' \<Longrightarrow> is_map h' H" using New_map assms(2) m by auto
    from AVSMap_new_value [OF assms(1) this] New_map show ?thesis
      by (auto simp: store_of_def fun_eq_iff split: option.splits)
  next
    case (Free_map h)
    with assms(2) m have "is_map h H" by simp
    note d = AVSMap_destroy_value [OF assms(1) this]
    have "map_value h (AVSMap_destroy h H) = None" using is_map_value [OF d(1), of h] d(2) [of h] by blast
    with Free_map d show ?thesis by (auto simp: store_of_def fun_eq_iff freeMap_def)
  next
    case (Assign_map h src)
    with assms m AVSMap_assign_value [OF assms(1), of h src] show ?thesis
      by (auto simp: store_of_def fun_eq_iff copyFrameProps_def)
  next
    case (Copy_map h src)
    then obtain v where "store_of H src = Some v" using assms(2) by auto
    with Copy_map assms(2) m on [OF acts_copy [OF assms(1), of h src v]] show ?thesis by (auto simp: store_of_def)
  next
    case (Clear_map h)
    with assms(2) m on [OF acts_clear(1) [OF assms(1)]] show ?thesis by (auto simp: clearMap_def)
  next
    case (Set_error h msg)
    with assms(2) m on [OF acts_setError [OF assms(1)]] show ?thesis by auto
  next
    case (Delete_key h k)
    then have i: "is_map h H" using assms(2) m by simp
    then obtain v where v: "map_value h H = Some v" using is_map_value [OF assms(1)] by auto
    with acts_erase(2) [OF assms(1) i v, of k] acts_on_store [OF acts_erase(1) [OF assms(1) i, of k] v] Delete_key show ?thesis
      by (cases "erase h k H") (auto simp: propDeleteKey_def on_value_def store_of_def)
  next
    case (Set_val h k x mode)
    then obtain v where v: "map_value h H = Some v" using assms(2) by (auto simp: store_of_def)
    with prop_set_value [OF assms(1) v, of mode k x] Set_val assms(2) acts_on_store [OF _ v] show ?thesis
      by (fastforce simp: on_value_def store_of_def)
  next
    case (Set_vals h k ty xs n)
    then obtain v where v: "map_value h H = Some v" using assms(2) by (auto simp: store_of_def)
    with prop_set_array_value [OF assms(1) v, of ty xs k n] Set_vals assms(2) acts_on_store [OF _ v] show ?thesis
      by (fastforce simp: on_value_def store_of_def)
  qed
qed

interpretation prop_calls: refined_calls run_op heap_ok store_of spec_op allowed
  by unfold_locales (rule run_op_refines)

lemma empty_heap_ok: "heap_ok empty_heap" "store_of empty_heap = (\<lambda>_. None)"
  by (auto simp: heap_with_def empty_heap_def no_pointers_def counted_def owners_def store_of_def
      map_value_def obj_def)

text \<open>
  C2: maps of frame properties are independent values.  For every sequence of calls that
  make, free, assign, copy, clear and change maps, however they come to share storages and arrays,
  every call returns, with the code it has on the table of values, and afterwards each map has
  exactly the value it has in the table: a change through one map is seen through no other.
\<close>

theorem props_are_values:
  assumes "all_allowed allowed spec_op ps (\<lambda>_. None)"
  shows "\<exists>rs H. run_all run_op ps empty_heap = Returns (rs, H) \<and> heap_ok H
    \<and> spec_all spec_op ps (\<lambda>_. None) = (rs, \<lambda>h. map_value h H)"
  using prop_calls.calls_refine [OF empty_heap_ok(1), of ps, unfolded empty_heap_ok(2)] assms
  by (simp add: store_of_def)

definition shared_calls :: "prop_op list" where
  "shared_calls = [New_map 0 None, Set_val 0 ''_Matrix'' (P_int 6) 0, New_map 1 (Some 0), New_map 2 (Some 1),
     Set_val 1 ''_Matrix'' (P_int 1) 1, Copy_map 2 1, Set_val 2 ''_Matrix'' (P_int 9) 1, Free_map 1, Delete_key 0 ''_Matrix'']"

lemma allowed_shared_calls: "all_allowed allowed spec_op shared_calls (\<lambda>_. None)"
  by (simp add: shared_calls_def prop_codes on_value_def upd_key_def Let_def split_beta)

theorem props_are_values_witness:
  "(\<exists>rs H. run_all run_op shared_calls empty_heap = Returns (rs, H) \<and> heap_ok H
     \<and> spec_all spec_op shared_calls (\<lambda>_. None) = (rs, \<lambda>h. map_value h H))
   \<and> map_option (\<lambda>v. fst v ''_Matrix'') (snd (spec_all spec_op shared_calls (\<lambda>_. None)) 0) = Some None
   \<and> map_option (\<lambda>v. fst v ''_Matrix'') (snd (spec_all spec_op shared_calls (\<lambda>_. None)) 2)
      = Some (Some (PROPERTYTYPE_INT, [P_int 6, P_int 1, P_int 9]))"
proof -
  have k: "isValidVSMapKey ''_Matrix''" by code_simp
  show ?thesis
    using props_are_values [OF allowed_shared_calls]
    by (simp add: shared_calls_def prop_codes on_value_def upd_key_def Let_def split_beta set_val_def k)
qed

section \<open>The getters are functions of the value\<close>

text \<open>The error code of a read, \<open>0\<close> for success, and the element.\<close>

definition read_code :: "AVSPropertyType \<Rightarrow> string \<Rightarrow> int \<Rightarrow> prop_value \<Rightarrow> int" where
  "read_code ty k i v = (if snd v then GETPROPERROR_ERROR
     else case fst v k of None \<Rightarrow> GETPROPERROR_UNSET
     | Some (t, xs) \<Rightarrow> if i < 0 \<or> int (length xs) \<le> i then GETPROPERROR_INDEX
         else if t \<noteq> ty then GETPROPERROR_TYPE else GETPROPERROR_SUCCESS)"

definition read_elem :: "string \<Rightarrow> int \<Rightarrow> prop_value \<Rightarrow> prop_val" where
  "read_elem k i v = snd (the (fst v k)) ! nat i"

text \<open>The length of the array is an \<^verbatim>\<open>int\<close>.\<close>

definition int_size :: "string \<Rightarrow> prop_value \<Rightarrow> bool" where
  "int_size k v \<longleftrightarrow> (case fst v k of None \<Rightarrow> True | Some (ty, xs) \<Rightarrow> int (length xs) \<le> INT_MAX)"

lemma wrap32_length: "int n \<le> INT_MAX \<Longrightarrow> wrap32 (int n) = int n"
  by (simp add: wrap32_id is_int32_def INT_MIN_def)

lemma find_array:
  assumes "heap_ok H" "map_value h H = Some v" "find h k H = Some a"
  shows "array_ok (arrs H a)" "fst v k = Some (ftype (arrs H a), array_elems (arrs H a))"
proof -
  have "is_map h H" using is_map_value [OF assms(1)] assms(2) by blast
  with find_map(1) [OF assms(1) _ assms(2)] assms(3)
  show "fst v k = Some (ftype (arrs H a), array_elems (arrs H a))" by (simp add: array_value_def)
  show "array_ok (arrs H a)"
    using assms(3) find_obj [OF assms(1)] heap_withD(11) [OF assms(1)] by (auto simp: obj_def split: option.splits)
qed

lemma propGetShared_value:
  assumes "heap_ok H" "map_value h H = Some v" "int_size k v"
  shows "propGetShared h k i error ty H = (let c = read_code ty k i v in
    if c = 0 then Returns (find h k H, map_option (\<lambda>_. 0) error) else prop_fail error c)"
proof -
  have m: "is_map h H" using is_map_value [OF assms(1)] assms(2) by blast
  note f = find_map [OF assms(1) m assms(2)]
  show ?thesis
  proof (cases "find h k H")
    case None
    then show ?thesis using f by (auto simp: propGetShared_def read_code_def prop_codes)
  next
    case (Some a)
    note A = find_array [OF assms(1,2) Some]
    have "int (length (array_elems (arrs H a))) \<le> INT_MAX" using A(2) assms(3) by (auto simp: int_size_def)
    then show ?thesis using Some A f(2) array_reads(1) [OF A(1)]
      by (auto simp: propGetShared_def read_code_def prop_codes wrap32_length Let_def)
  qed
qed

lemma prop_read_value:
  assumes "heap_ok H" "map_value h H = Some v" "int_size k v"
    "\<And>x. prop_type x = ty \<Longrightarrow> read x = Some (get x)"
  shows "prop_read read dflt ty h k i error H = (let c = read_code ty k i v in
    if c = 0 then Returns (get (read_elem k i v), map_option (\<lambda>_. 0) error)
    else if error = None then Terminates else Returns (dflt, Some c))"
proof (cases "read_code ty k i v = 0")
  case True
  then obtain xs where v: "fst v k = Some (ty, xs)" "0 \<le> i" "nat i < length xs"
    by (auto simp: read_code_def prop_codes split: if_splits option.splits)
  have "is_map h H" using is_map_value [OF assms(1)] assms(2) by blast
  from find_map(1) [OF assms(1) this assms(2), of k] v(1) obtain a where a: "find h k H = Some a" by (cases "find h k H") auto
  note A = find_array [OF assms(1,2) a]
  then have e: "array_elems (arrs H a) = xs" "ftype (arrs H a) = ty" using v(1) by auto
  then have "at (nat i) (arrs H a) = Some (xs ! nat i)" using array_reads(3) [OF A(1)] v(3) by simp
  moreover have "prop_type (xs ! nat i) = ty" using A(1) e v(3) by (auto simp: array_ok_def)
  ultimately show ?thesis using True a v assms(4)
    by (simp add: prop_read_def propGetShared_value [OF assms(1-3)] Let_def read_elem_def)
next
  case False
  then show ?thesis
    by (auto simp: prop_read_def propGetShared_value [OF assms(1-3)] Let_def prop_fail_def split: option.splits)
qed


fun int_of_val :: "prop_val \<Rightarrow> int" where
  "int_of_val (P_int i) = i"
| "int_of_val _ = 0"

lemma propGetInt_value:
  assumes "heap_ok H" "map_value h H = Some v" "int_size k v"
  shows "propGetInt h k i error H = (let c = read_code PROPERTYTYPE_INT k i v in
    if c = 0 then Returns (int_of_val (read_elem k i v), map_option (\<lambda>_. 0) error)
    else if error = None then Terminates else Returns (0, Some c))"
  unfolding propGetInt_def by (rule prop_read_value [OF assms]) (auto elim: prop_type.elims)


definition one_map :: prop_heap where
  "one_map = AVSMap_new 0 None empty_heap"

lemma one_map_ok: "heap_ok one_map" "is_map 0 one_map" "map_value 0 one_map = Some (\<lambda>_. None, False)"
proof -
  have "\<not> is_map 0 empty_heap" by (simp add: is_map_def empty_heap_def no_pointers_def)
  from AVSMap_new_value [OF empty_heap_ok(1) this, of None]
  show "heap_ok one_map" "is_map 0 one_map" "map_value 0 one_map = Some (\<lambda>_. None, False)"
    by (simp_all add: one_map_def)
qed


text \<open>
  Reading with saturation always returns, and a value in the range of \<^verbatim>\<open>int\<close>: the
  stored value clamped to that range, or 0 with a code other than 0.
\<close>

theorem propGetIntSaturated_clamps:
  assumes "heap_ok H" "map_value h H = Some v" "int_size k v"
  shows "\<exists>x c. propGetIntSaturated h k i error H = Returns (x, map_option (\<lambda>_. c) error) \<and> is_int32 x
    \<and> c = read_code PROPERTYTYPE_INT k i v
    \<and> x = (if c = 0 then max INT_MIN (min INT_MAX (int_of_val (read_elem k i v))) else 0)"
  unfolding propGetIntSaturated_def propGetInt_value [OF assms]
  by (auto simp: Let_def is_int32_def INT_MIN_def INT_MAX_def wrap32_def split: option.splits)

definition big_prop :: prop_heap where
  "big_prop = snd (propSetIntArray 0 ''big'' [5000000000] 1 one_map)"

lemma insert_array_value:
  assumes "heap_ok H" "map_value h H = Some v" "isValidVSMapKey k"
  shows "heap_ok (snd (propSetIntArray h k xs (int (length xs)) H))"
    "fst (propSetIntArray h k xs (int (length xs)) H) = 0"
    "map_value h (snd (propSetIntArray h k xs (int (length xs)) H)) = Some (upd_key k (Some (PROPERTYTYPE_INT, map P_int xs)) v)"
  using prop_set_array_value [OF assms(1,2), of PROPERTYTYPE_INT "map P_int xs" k "int (length xs)"] assms(2,3)
  by (auto simp: propSetIntArray_def list_all_iff acts_on_def)

lemma big_prop_ok:
  "heap_ok big_prop" "map_value 0 big_prop = Some (upd_key ''big'' (Some (PROPERTYTYPE_INT, [P_int 5000000000])) (\<lambda>_. None, False))"
proof -
  have k: "isValidVSMapKey ''big''" by code_simp
  show "heap_ok big_prop" "map_value 0 big_prop = Some (upd_key ''big'' (Some (PROPERTYTYPE_INT, [P_int 5000000000])) (\<lambda>_. None, False))"
    using insert_array_value [OF one_map_ok(1,3) k, of "[5000000000]"] by (simp_all add: big_prop_def)
qed

theorem propGetIntSaturated_clamps_witness:
  "\<exists>x c. propGetIntSaturated 0 ''big'' 0 None big_prop = Returns (x, map_option (\<lambda>_. c) None) \<and> x = INT_MAX"
  using propGetIntSaturated_clamps [OF big_prop_ok, of "''big''" 0 None]
  by (auto simp: int_size_def upd_key_def read_code_def read_elem_def prop_codes INT_MAX_def INT_MIN_def)

text \<open>
  A nonempty array of integers that is set under a valid key is read back whole and
  element by element, with its length.
\<close>

theorem int_array_roundtrip:
  assumes "heap_ok H" "map_value h H = Some v" "isValidVSMapKey k" "\<not> snd v" "xs \<noteq> []" "int (length xs) \<le> INT_MAX"
  defines "H' \<equiv> snd (propSetIntArray h k xs (int (length xs)) H)"
  shows "propGetIntArray h k error H' = Returns (Some (map P_int xs), map_option (\<lambda>_. GETPROPERROR_SUCCESS) error)
    \<and> propNumElements h k H' = int (length xs)
    \<and> (\<forall>i < length xs. propGetInt h k (int i) error H' = Returns (xs ! i, map_option (\<lambda>_. GETPROPERROR_SUCCESS) error))"
proof -
  let ?v = "upd_key k (Some (PROPERTYTYPE_INT, map P_int xs)) v"
  note w = insert_array_value [OF assms(1-3), of xs, folded H'_def]
  have s: "int_size k ?v" using assms(6) by (simp add: int_size_def upd_key_def)
  have c: "read_code PROPERTYTYPE_INT k (int i) ?v = 0" if "i < length xs" for i
    using that assms(4) by (simp add: read_code_def upd_key_def prop_codes)
  have "is_map h H'" using is_map_value [OF w(1)] w(3) by blast
  from find_map(1) [OF w(1) this w(3), of k] obtain a where a: "find h k H' = Some a"
    by (cases "find h k H'") (auto simp: upd_key_def)
  note A = find_array [OF w(1,3) a]
  have e: "array_elems (arrs H' a) = map P_int xs" using A(2) by (simp add: upd_key_def)
  have "propGetIntArray h k error H' = Returns (Some (map P_int xs), map_option (\<lambda>_. GETPROPERROR_SUCCESS) error)"
    using propGetShared_value [OF w(1,3) s, of 0 error PROPERTYTYPE_INT] c [of 0] assms(5) a array_reads(2) [OF A(1)] e
    by (simp add: propGetIntArray_def prop_array_def Let_def prop_codes)
  moreover have "propNumElements h k H' = int (length xs)"
    using a array_reads(1) [OF A(1)] e assms(6) by (simp add: propNumElements_def wrap32_length)
  moreover have "propGetInt h k (int i) error H' = Returns (xs ! i, map_option (\<lambda>_. GETPROPERROR_SUCCESS) error)"
    if "i < length xs" for i
    using propGetInt_value [OF w(1,3) s, of "int i" error] c [OF that] that
    by (simp add: Let_def read_elem_def upd_key_def prop_codes)
  ultimately show ?thesis by blast
qed

theorem int_array_roundtrip_witness:
  "propGetIntArray 0 ''_SARNum'' None (snd (propSetIntArray 0 ''_SARNum'' [4, 3] 2 one_map)) = Returns (Some [P_int 4, P_int 3], None)"
proof -
  have "isValidVSMapKey ''_SARNum''" by code_simp
  from int_array_roundtrip [OF one_map_ok(1,3) this, of "[4, 3]" None] show ?thesis by (simp add: INT_MAX_def)
qed

section \<open>Behaviour at the edges\<close>

text \<open>After the key of the message is deleted from a map with an error, the message cannot be read:
  \<^verbatim>\<open>std::map::at\<close> throws.\<close>

lemma error_message_deleted:
  "getErrorMessage 0 (snd (propDeleteKey 0 ''_Error'' (setError 0 ''no source'' one_map))) = Inl No_error_key"
proof -
  let ?E = "setError 0 ''no source'' one_map"
  note e = acts_setError [OF one_map_ok(1,2), of "''no source''"]
  have E: "heap_ok ?E" "is_map 0 ?E" using e one_map_ok(2) by (simp_all add: acts_on_def)
  note d = acts_erase(1) [OF E, of "''_Error''"]
  let ?D = "snd (erase 0 ''_Error'' ?E)"
  have D: "heap_ok ?D" "is_map 0 ?D" "map_value 0 ?D = Some (\<lambda>_. None, True)"
    using e d one_map_ok(2,3) by (auto simp: acts_on_def upd_key_def)
  have "snd (propDeleteKey 0 ''_Error'' ?E) = ?D" by (simp add: propDeleteKey_def split_beta)
  then show ?thesis using find_map [OF D] by (simp add: getErrorMessage_def hasError_def)
qed

text \<open>The getter of clips leaves the caller's error variable as it was.\<close>

lemma propGetClip_keeps_error:
  "propGetClip h k i error H = Returns (c, e) \<Longrightarrow> e = error"
  by (auto simp: propGetClip_def bind_o_def split: prop_outcome.splits)

end
