(* ===== verification/Script_Strings.thy ===== *)
theory Script_Strings
  imports Avs_Strings Evaluator
begin

text \<open>
  The built-in functions on strings of \<^verbatim>\<open>core/parser/script.cpp\<close> and the string functions of
  \<^verbatim>\<open>parser/os/win32_string_compat.cpp\<close> below them.  A function takes the array of its bound
  arguments and returns a value or an exception; an accessor that fails its assertion is \<open>Crash\<close>,
  as is a write past the end of a buffer.  Characters are those of the C locale.
\<close>

section \<open>Arguments, results and memory\<close>

type_synonym 'a scr = "(exc, 'a) result"

definition need :: "'a option \<Rightarrow> 'a scr" where
  "need x = (case x of Some a \<Rightarrow> Inr a | None \<Rightarrow> Inl Crash)"

definition script_error :: "string \<Rightarrow> 'a scr" where
  "script_error msg = Inl (AvisynthError msg)"

definition arg :: "AVSValue \<Rightarrow> int \<Rightarrow> AVSValue" where
  "arg args i = operator_index args i"

definition str_arg :: "AVSValue \<Rightarrow> int \<Rightarrow> (string \<Rightarrow> 'a scr) \<Rightarrow> 'a scr" where
  "str_arg args i f = bind_r (need (AsString (arg args i))) f"

definition long_arg :: "AVSValue \<Rightarrow> int \<Rightarrow> (int \<Rightarrow> 'a scr) \<Rightarrow> 'a scr" where
  "long_arg args i f = bind_r (need (AsLong (arg args i))) f"

definition int_arg :: "AVSValue \<Rightarrow> int \<Rightarrow> (int \<Rightarrow> 'a scr) \<Rightarrow> 'a scr" where
  "int_arg args i f = bind_r (need (AsInt (arg args i))) f"

definition SaveString :: "string \<Rightarrow> AVSValue scr" where
  "SaveString s = Inr (VString (cstr s))"

text \<open>\<^verbatim>\<open>new(std::nothrow) char[n]\<close>: \<open>grants n\<close> is whether the allocator has the memory.\<close>

definition alloc :: "(int \<Rightarrow> bool) \<Rightarrow> int \<Rightarrow> string \<Rightarrow> 'a scr \<Rightarrow> 'a scr" where
  "alloc grants n msg r = (if grants n then r else script_error msg)"

definition max_size_t :: int where "max_size_t = 2 ^ 64 - 1"

lemmas scr_defs = need_def script_error_def str_arg_def long_arg_def int_arg_def SaveString_def alloc_def

section \<open>Case, length and reversal\<close>

definition c_toupper :: "char \<Rightarrow> char" where
  "c_toupper c = (if 97 \<le> cc c \<and> cc c \<le> 122 then char_of (cc c - 32) else c)"

text \<open>\<open>for (i = 0; i < nLength/2; i++)\<close> with a swap of the characters at \<open>i\<close> and \<open>nLength - i - 1\<close>.\<close>

definition strrev_swap :: "nat \<Rightarrow> string \<Rightarrow> string" where
  "strrev_swap i str = str[i := str ! (length str - i - 1), length str - i - 1 := str ! i]"

definition strrev :: "string \<Rightarrow> string" where
  "strrev str = fold strrev_swap [0..<length str div 2] str"

definition strupr :: "string \<Rightarrow> string" where "strupr str = map c_toupper str"
definition strlwr :: "string \<Rightarrow> string" where "strlwr str = map c_tolower str"

definition UCase :: "(int \<Rightarrow> bool) \<Rightarrow> AVSValue \<Rightarrow> AVSValue scr" where
  "UCase grants args = str_arg args 0 (\<lambda>s.
     alloc grants (int (length s) + 1) ''UCase: memory allocation error'' (SaveString (strupr s)))"

definition LCase :: "(int \<Rightarrow> bool) \<Rightarrow> AVSValue \<Rightarrow> AVSValue scr" where
  "LCase grants args = str_arg args 0 (\<lambda>s.
     alloc grants (int (length s) + 1) ''LCase: memory allocation error'' (SaveString (strlwr s)))"

definition RevStr :: "(int \<Rightarrow> bool) \<Rightarrow> AVSValue \<Rightarrow> AVSValue scr" where
  "RevStr grants args = str_arg args 0 (\<lambda>s.
     alloc grants (int (length s) + 1) ''RevStr: memory allocation error'' (SaveString (strrev s)))"

definition StrLen :: "AVSValue \<Rightarrow> AVSValue scr" where
  "StrLen args = str_arg args 0 (\<lambda>s. let len = int (length s) in Inr (if INT_MAX < len then VLong len else VInt len))"

section \<open>Parts of a string\<close>

definition LeftStr :: "(int \<Rightarrow> bool) \<Rightarrow> AVSValue \<Rightarrow> AVSValue scr" where
  "LeftStr grants args = long_arg args 1 (\<lambda>count.
     if count < 0 then script_error ''LeftStr: Negative character count not allowed''
     else if max_size_t - 1 < count then script_error ''LeftStr: Character count exceeds maximum allowed value''
     else alloc grants (count + 1) (''LeftStr: malloc failure ('' @ show_int (count + 1) @ '' bytes)!'')
       (str_arg args 0 (\<lambda>s. SaveString (take (nat count) s))))"

definition MidStr :: "(int \<Rightarrow> bool) \<Rightarrow> AVSValue \<Rightarrow> AVSValue scr" where
  "MidStr grants args = str_arg args 0 (\<lambda>s. long_arg args 1 (\<lambda>pos.
     let maxlen = int (length s)
     in if pos < 1 then script_error ''MidStr: Illegal character location. Positions start with 1.''
        else if max_size_t - 1 < pos - 1 then script_error ''MidStr: Offset exceeds maximum allowed value''
        else let offset = pos - 1; len = AsLong2 (arg args 2) maxlen
          in if len < 0 then script_error ''MidStr: Character count cannot be negative''
             else let (offset, len) = (if maxlen \<le> offset then (0, 0) else (offset, len))
               in if max_size_t - 1 < len then script_error ''MidStr: Character count exceeds maximum allowed value''
                  else let len = (if maxlen < (offset + len) mod 2 ^ 64 then maxlen - offset else len)
                    in alloc grants (len + 1) (''MidStr: malloc failure ('' @ show_int (len + 1) @ '' bytes)!'')
                         (SaveString (take (nat len) (drop (nat offset) s)))))"

definition RightStr :: "(int \<Rightarrow> bool) \<Rightarrow> AVSValue \<Rightarrow> AVSValue scr" where
  "RightStr grants args = long_arg args 1 (\<lambda>count.
     if count < 0 then script_error ''RightStr: Negative character count not allowed''
     else if max_size_t - 1 < count then script_error ''RightStr: Character count exceeds maximum allowed value''
     else str_arg args 0 (\<lambda>s.
       let len = int (length s); count = (if len < count then len else count); offset = len - count
       in alloc grants (count + 1) (''RightStr: memory allocation failure ('' @ show_int (count + 1) @ '' bytes)!'')
            (SaveString (take (nat count) (drop (nat offset) s)))))"

definition FillStr :: "(int \<Rightarrow> bool) \<Rightarrow> AVSValue \<Rightarrow> AVSValue scr" where
  "FillStr grants args = long_arg args 0 (\<lambda>count.
     if count \<le> 0 then script_error ''FillStr: Repeat count must be greater than zero!''
     else let str = AsString2 (arg args 1) '' ''; len_to_repeat = int (length str)
       in if len_to_repeat = 0 then Inr (VString str)
          else if (max_size_t - 1) div len_to_repeat < count
          then script_error ''FillStr: too many repeats, resulting string exceeds the maximum allowed length!''
          else alloc grants (count * len_to_repeat + 1)
            (''FillStr: memory allocation failure ('' @ show_int (count * len_to_repeat + 1) @ '' bytes)!'')
            (SaveString (if len_to_repeat = 1 then replicate (nat (count * len_to_repeat)) (hd str)
                         else concat (replicate (nat count) str))))"

section \<open>Searching and replacing\<close>

text \<open>\<^verbatim>\<open>strstr\<close>: how far into \<open>s\<close> the pattern starts.\<close>

definition strstr :: "string \<Rightarrow> string \<Rightarrow> nat option" where
  "strstr s pattern = find_in pattern s 0"

definition FindStr :: "AVSValue \<Rightarrow> AVSValue scr" where
  "FindStr args = str_arg args 0 (\<lambda>s. str_arg args 1 (\<lambda>p.
     Inr (VInt (case strstr s p of Some k \<Rightarrow> wrap32 (int k + 1) | None \<Rightarrow> 0))))"

text \<open>The two loops of \<^verbatim>\<open>ReplaceStr\<close>: counting the pattern, and copying; the copy reads the
  characters of \<open>orig\<close> while it searches in \<open>look\<close>, which is \<open>orig\<close> or its lower case.\<close>

lemma find_in_le: "find_in p s i = Some k \<Longrightarrow> i \<le> k \<and> k + length p \<le> i + length s"
proof (induction p s i rule: find_in.induct)
  case (1 p s i)
  then show ?case
    by (subst (asm) (2) find_in.simps) (fastforce split: if_splits list.splits dest: arg_cong [where f = length])
qed

lemma strstr_le: "strstr s p = Some k \<Longrightarrow> k + length p \<le> length s"
  using find_in_le [of p s 0 k] by (simp add: strstr_def)

lemma strstr_rest: "strstr s p = Some k \<Longrightarrow> p \<noteq> [] \<Longrightarrow> length s - (k + length p) < length s"
  using strstr_le [of s p k] by (cases p) auto

function count_pattern :: "string \<Rightarrow> string \<Rightarrow> nat" where
  "count_pattern pattern s =
     (if pattern = [] then 0
      else case strstr s pattern of None \<Rightarrow> 0 | Some k \<Rightarrow> Suc (count_pattern pattern (drop (k + length pattern) s)))"
  by pat_completeness auto
termination
  by (relation "measure (\<lambda>(p, s). length s)") (auto intro: strstr_rest)

function copy_replacing :: "string \<Rightarrow> string \<Rightarrow> string \<Rightarrow> string \<Rightarrow> string" where
  "copy_replacing pattern replacement look orig =
     (if pattern = [] then orig
      else case strstr look pattern of
        None \<Rightarrow> orig
      | Some k \<Rightarrow> take k orig @ replacement
          @ copy_replacing pattern replacement (drop (k + length pattern) look) (drop (k + length pattern) orig))"
  by pat_completeness auto
termination
  by (relation "measure (\<lambda>(p, r, s, t). length s)") (auto intro: strstr_rest)

declare count_pattern.simps [simp del] copy_replacing.simps [simp del]

text \<open>The size of the result is computed modulo \<open>2 ^ 64\<close>; one byte more is the terminator.\<close>

definition ReplaceStr :: "(int \<Rightarrow> bool) \<Rightarrow> AVSValue \<Rightarrow> AVSValue scr" where
  "ReplaceStr grants args = str_arg args 0 (\<lambda>original. str_arg args 1 (\<lambda>pattern. str_arg args 2 (\<lambda>replacement.
     let case_insensitive = AsBool2 (arg args 3) False;
         replace_len = int (length replacement); pattern_len = int (length pattern); orig_len = int (length original)
     in if pattern_len = 0 then Inr (VString original)
        else
          let look = (if case_insensitive then strlwr original else original);
              pat = (if case_insensitive then strlwr pattern else pattern);
              retlen = (orig_len + int (count_pattern pat look) * (replace_len - pattern_len)) mod 2 ^ 64;
              result = copy_replacing pat replacement look original;
              build = alloc grants (retlen + 1) ''ReplaceStr: malloc failure!''
                (if int (length result) \<le> retlen then SaveString result else Inl Crash)
          in if case_insensitive
             then alloc grants (orig_len + 1) ''ReplaceStr: malloc failure!''
               (alloc grants (pattern_len + 1) ''ReplaceStr: malloc failure!'' build)
             else build)))"

section \<open>Trimming\<close>

text \<open>Space, no-break space and tab.\<close>

definition trim_blank :: "char \<Rightarrow> bool" where
  "trim_blank ch \<longleftrightarrow> cc ch = 32 \<or> cc ch = 160 \<or> cc ch = 9"

definition TrimLeft :: "AVSValue \<Rightarrow> AVSValue scr" where
  "TrimLeft args = str_arg args 0 (\<lambda>original.
     let s = dropWhile trim_blank original in if length s = length original then Inr (arg args 0) else SaveString s)"

text \<open>\<open>while (len > 0 && blank (*--s)) len--\<close>\<close>

fun trim_len :: "string \<Rightarrow> nat \<Rightarrow> nat" where
  "trim_len s 0 = 0"
| "trim_len s (Suc n) = (if trim_blank (s ! n) then trim_len s n else Suc n)"

definition TrimRight :: "(int \<Rightarrow> bool) \<Rightarrow> AVSValue \<Rightarrow> AVSValue scr" where
  "TrimRight grants args = str_arg args 0 (\<lambda>original.
     let orig_len = length original; len = trim_len original orig_len
     in if orig_len = 0 then Inr (arg args 0)
        else if orig_len = len then Inr (arg args 0)
        else if len = 0 then SaveString []
        else alloc grants (int len + 1) ''TrimRight: malloc failure!'' (SaveString (take len original)))"

definition TrimAll :: "(int \<Rightarrow> bool) \<Rightarrow> AVSValue \<Rightarrow> AVSValue scr" where
  "TrimAll grants args = str_arg args 0 (\<lambda>s.
     if s = [] then Inr (arg args 0)
     else let original = dropWhile trim_blank s; orig_len = length original; len = trim_len original orig_len
       in if orig_len = 0 then SaveString []
          else if orig_len = len then SaveString original
          else if len = 0 then SaveString []
          else alloc grants (int len + 1) ''TrimAll: malloc failure!'' (SaveString (take len original)))"

section \<open>Characters\<close>

definition AVSChr :: "AVSValue \<Rightarrow> AVSValue scr" where
  "AVSChr args = int_arg args 0 (\<lambda>i. SaveString [char_of (nat (i mod 256))])"

definition AVSOrd :: "AVSValue \<Rightarrow> AVSValue scr" where
  "AVSOrd args = str_arg args 0 (\<lambda>s. Inr (VInt (int (cc (peek s)))))"


section \<open>What they compute\<close>

lemma length_strrev_swap: "length (strrev_swap i s) = length s"
  by (simp add: strrev_swap_def)

lemma fold_strrev_swap:
  "k \<le> length s div 2 \<Longrightarrow> length (fold strrev_swap [0..<k] s) = length s \<and>
    (\<forall>j < length s. fold strrev_swap [0..<k] s ! j = (if j < k \<or> length s - k \<le> j then s ! (length s - 1 - j) else s ! j))"
proof (induction k)
  case (Suc k)
  let ?t = "fold strrev_swap [0..<k] s"
  have IH: "length ?t = length s" "\<And>j. j < length s \<Longrightarrow> ?t ! j = (if j < k \<or> length s - k \<le> j then s ! (length s - 1 - j) else s ! j)"
    using Suc by auto
  have k: "k < length s - k - 1" "length s - k - 1 < length s" using Suc.prems by linarith+
  have "strrev_swap k ?t ! j = (if j < Suc k \<or> length s - Suc k \<le> j then s ! (length s - 1 - j) else s ! j)"
    if "j < length s" for j
  proof -
    consider "j = k" | "j = length s - k - 1" | "j \<noteq> k" "j \<noteq> length s - k - 1" by blast
    then show ?thesis
    proof cases
      case 1
      then show ?thesis using k IH by (simp add: strrev_swap_def)
    next
      case 2
      have "\<not> length s - k \<le> k" "length s - 1 - (length s - k - 1) = k" using k by linarith+
      with 2 show ?thesis using k IH by (simp add: strrev_swap_def)
    next
      case 3
      then have "(j < Suc k \<or> length s - Suc k \<le> j) = (j < k \<or> length s - k \<le> j)" using that by linarith
      with 3 show ?thesis using that IH by (simp add: strrev_swap_def)
    qed
  qed
  then show ?case using IH(1) by (simp add: length_strrev_swap)
qed simp

lemma strrev_rev: "strrev s = rev s"
proof (rule nth_equalityI)
  note f = fold_strrev_swap [of "length s div 2" s]
  show "length (strrev s) = length (rev s)" using f by (simp add: strrev_def)
  fix j assume "j < length (strrev s)"
  then have j: "j < length s" using f by (simp add: strrev_def)
  have "s ! (length s - 1 - j) = s ! j" if "\<not> (j < length s div 2 \<or> length s - length s div 2 \<le> j)"
  proof -
    have "length s - 1 - j = j" using that j by linarith
    then show ?thesis by simp
  qed
  then show "strrev s ! j = rev s ! j" using f j by (auto simp: strrev_def rev_nth)
qed

lemma cstr_prefix: "NUL \<notin> set s \<Longrightarrow> cstr (take n (drop m s)) = take n (drop m s)"
  by (rule cstr_id) (meson in_set_dropD in_set_takeD)

lemma copy_replacing_length:
  assumes "pattern \<noteq> []" "length look = length orig"
  shows "int (length (copy_replacing pattern replacement look orig)) =
    int (length orig) + int (count_pattern pattern look) * (int (length replacement) - int (length pattern))"
  using assms
proof (induction pattern replacement look orig rule: copy_replacing.induct)
  case (1 pattern replacement look orig)
  show ?case
  proof (cases "strstr look pattern")
    case None
    then show ?thesis by (simp add: copy_replacing.simps [of pattern] count_pattern.simps [of pattern])
  next
    case (Some k)
    have "k + length pattern \<le> length orig" using strstr_le [OF Some] 1 by simp
    with 1 Some show ?thesis
      by (simp add: copy_replacing.simps [of pattern] count_pattern.simps [of pattern] algebra_simps)
  qed
qed

lemma count_pattern_le: "count_pattern pattern s \<le> length s"
proof (induction pattern s rule: count_pattern.induct)
  case (1 pattern s)
  show ?case
  proof (cases "pattern = [] \<or> strstr s pattern = None")
    case True
    then show ?thesis by (auto simp: count_pattern.simps [of pattern])
  next
    case False
    then obtain k where k: "strstr s pattern = Some k" "pattern \<noteq> []" by auto
    with 1 strstr_rest [OF k] show ?thesis by (simp add: count_pattern.simps [of pattern])
  qed
qed

lemma strstr_unfold:
  "strstr s p = (if take (length p) s = p then Some 0 else case s of [] \<Rightarrow> None | c # s' \<Rightarrow> map_option Suc (strstr s' p))"
proof -
  have shift: "find_in p s (Suc i) = map_option Suc (find_in p s i)" for i and s :: string
  proof (induction p s i rule: find_in.induct)
    case (1 p s i)
    then show ?case by (subst (1 2) find_in.simps) (auto split: list.splits)
  qed
  show ?thesis unfolding strstr_def by (subst find_in.simps) (auto simp: shift split: list.splits)
qed

lemma copy_replacing_subst:
  "pattern \<noteq> [] \<Longrightarrow> copy_replacing pattern replacement s s = subst_all pattern replacement s"
proof (induction s rule: length_induct)
  case (1 s)
  show ?case
  proof (cases "take (length pattern) s = pattern")
    case True
    then have "length (drop (length pattern) s) < length s" using 1(2) by (cases s) auto
    with 1 True show ?thesis
      by (subst copy_replacing.simps, subst strstr_unfold, subst subst_all.simps) simp
  next
    case False
    show ?thesis
    proof (cases s)
      case Nil
      with False 1(2) show ?thesis by (subst copy_replacing.simps, subst strstr_unfold, subst subst_all.simps) simp
    next
      case (Cons c s')
      have "copy_replacing pattern replacement s' s' = subst_all pattern replacement s'" using 1 Cons by simp
      with False Cons 1(2) show ?thesis
        by (subst copy_replacing.simps, subst strstr_unfold, subst subst_all.simps)
          (auto simp: copy_replacing.simps [of pattern replacement s' s'] split: option.splits)
    qed
  qed
qed

text \<open>
  C39: \<^verbatim>\<open>ReplaceStr\<close> gives the replacement of all occurrences from left to right, and
  without regard to case what its copying loop makes of the lower-case texts.  In both versions the loop stays
  in the buffer of the size that was computed and allocated for it: the outcome is no crash.
\<close>

theorem ReplaceStr_replaces:
  assumes "pattern \<noteq> []" "\<And>n. grants n"
    "int (length original) * (int (length replacement) + 1) < 2 ^ 64"
  shows "ReplaceStr grants (VArray [VString original, VString pattern, VString replacement, flag]) =
    (if AsBool2 flag False
     then SaveString (copy_replacing (strlwr pattern) replacement (strlwr original) original)
     else SaveString (subst_all pattern replacement original))"
proof -
  have len: "int (length (copy_replacing p replacement look original)) =
      (int (length original) + int (count_pattern p look) * (int (length replacement) - int (length p))) mod 2 ^ 64"
    if "p \<noteq> []" "length look = length original" for p look
  proof -
    let ?r = "int (length original) + int (count_pattern p look) * (int (length replacement) - int (length p))"
    have e: "int (length (copy_replacing p replacement look original)) = ?r" using copy_replacing_length that by blast
    have "int (count_pattern p look) * (int (length replacement) - int (length p)) \<le> int (count_pattern p look) * int (length replacement)"
      by (intro mult_left_mono) auto
    also have "\<dots> \<le> int (length original) * int (length replacement)"
      using count_pattern_le [of p look] that by (intro mult_right_mono) auto
    finally have "int (count_pattern p look) * (int (length replacement) - int (length p)) \<le> int (length original) * int (length replacement)" .
    then have "0 \<le> ?r" "?r < 2 ^ 64" using e assms(3) by (simp_all add: algebra_simps)
    with e show ?thesis by simp
  qed
  have "wrap16 4 = 4" by (simp add: wrap16_def)
  then show ?thesis
    using assms(1,2) len [of pattern original] len [of "strlwr pattern" "strlwr original"] copy_replacing_subst [OF assms(1)]
    by (simp add: ReplaceStr_def scr_defs arg_def Let_def strlwr_def)
qed

theorem ReplaceStr_replaces_witness:
  "ReplaceStr (\<lambda>_. True) (VArray [VString ''a.b.c'', VString ''.'', VString ''::'', VUndefined]) = SaveString (subst_all ''.'' ''::'' ''a.b.c'')"
  using ReplaceStr_replaces [of "''.''" "\<lambda>_. True" "''a.b.c''" "''::''" VUndefined] by (simp add: AsBool2_def)

section \<open>Splitting and joining\<close>

lemma LeftStr_value:
  "0 \<le> n \<Longrightarrow> n < 2 ^ 63 \<Longrightarrow> grants (n + 1) \<Longrightarrow> NUL \<notin> set s \<Longrightarrow>
   LeftStr grants (VArray [VString s, VLong n]) = Inr (VString (take (nat n) s))"
  using cstr_prefix [of s "nat n" 0] by (simp add: LeftStr_def scr_defs arg_def wrap16_def max_size_t_def)

lemma RightStr_value:
  "0 \<le> n \<Longrightarrow> n < 2 ^ 63 \<Longrightarrow> (\<And>i. grants i) \<Longrightarrow> NUL \<notin> set s \<Longrightarrow>
   RightStr grants (VArray [VString s, VLong n]) = Inr (VString (drop (length s - nat n) s))"
  using cstr_prefix [of s "length s" "length s - nat n"] cstr_id [of s]
  by (auto simp: RightStr_def scr_defs arg_def wrap16_def max_size_t_def Let_def nat_diff_distrib)

text \<open>
  \<^verbatim>\<open>MidStr\<close> gives the characters from the position on, as many as there are of the
  number asked for, and an empty string when the position is behind the end; positions below one
  and negative numbers are errors.
\<close>

theorem MidStr_part:
  assumes "NUL \<notin> set s" "is_int64 pos" "is_int64 n" "int (length s) < 2 ^ 63" "\<And>i. grants i"
  shows "MidStr grants (VArray [VString s, VLong pos, VLong n]) =
    (if pos < 1 then script_error ''MidStr: Illegal character location. Positions start with 1.''
     else if n < 0 then script_error ''MidStr: Character count cannot be negative''
     else Inr (VString (take (nat n) (drop (nat (pos - 1)) s))))"
proof -
  have w: "wrap16 3 = 3" by (simp add: wrap16_def)
  have b: "\<not> max_size_t - 1 < pos - 1" "\<not> max_size_t - 1 < n" "0 \<le> pos - 1 \<Longrightarrow> 0 \<le> n \<Longrightarrow> (pos - 1 + n) mod 2 ^ 64 = pos - 1 + n"
    using assms(2,3) by (auto simp: is_int64_def int_limits max_size_t_def)
  show ?thesis
  proof (cases "pos < 1 \<or> n < 0")
    case True
    then show ?thesis using b by (auto simp: MidStr_def scr_defs arg_def w AsLong2_def Let_def)
  next
    case False
    let ?o = "pos - 1"
    have c: "cstr (take i (drop j s)) = take i (drop j s)" for i j using assms(1) by (rule cstr_prefix)
    show ?thesis
    proof (cases "int (length s) \<le> ?o")
      case True
      then have "drop (nat ?o) s = []" by simp
      with True False b show ?thesis using c [of 0 0] assms(5)
        by (simp add: MidStr_def scr_defs arg_def w AsLong2_def Let_def max_size_t_def)
    next
      case o: False
      have "take (nat (int (length s) - ?o)) (drop (nat ?o) s) = take (nat n) (drop (nat ?o) s)" if "int (length s) < ?o + n"
      proof -
        have "length (drop (nat ?o) s) \<le> nat (int (length s) - ?o)" "length (drop (nat ?o) s) \<le> nat n" using that False o by auto
        then show ?thesis by simp
      qed
      with o False b c assms(5) show ?thesis
        by (simp add: MidStr_def scr_defs arg_def w AsLong2_def Let_def)
    qed
  qed
qed

theorem MidStr_part_witness:
  "MidStr (\<lambda>_. True) (VArray [VString ''AviSynth'', VLong 4, VLong 3]) = Inr (VString ''Syn'')"
proof -
  have "NUL \<notin> set ''AviSynth''" by code_simp
  from MidStr_part [OF this, of 4 3 "\<lambda>_. True"] show ?thesis by (simp add: is_int64_def int_limits)
qed

text \<open>Trimming removes the blanks at both ends and nothing else.\<close>

lemma trim_len_take: "n \<le> length s \<Longrightarrow> take (trim_len s n) s = rev (dropWhile trim_blank (rev (take n s)))"
  by (induction n) (auto simp: take_Suc_conv_app_nth)

lemma trim_len_all: "take (trim_len s (length s)) s = rev (dropWhile trim_blank (rev s))"
  using trim_len_take [of "length s" s] by simp

lemma TrimAll_strips:
  assumes "NUL \<notin> set s" "\<And>i. grants i"
  shows "TrimAll grants (VArray [VString s]) = Inr (VString (rev (dropWhile trim_blank (rev (dropWhile trim_blank s)))))"
proof -
  let ?o = "dropWhile trim_blank s"
  have c: "cstr (take i ?o) = take i ?o" for i
    by (rule cstr_id) (use assms(1) in \<open>auto dest!: in_set_takeD set_dropWhileD\<close>)
  let ?n = "trim_len ?o (length ?o)" let ?r = "rev (dropWhile trim_blank (rev ?o))"
  have r: "?r = take ?n ?o" by (rule trim_len_all [symmetric])
  have a: "str_arg (VArray [VString s]) 0 f = f s" for f :: "string \<Rightarrow> AVSValue scr"
    by (simp add: scr_defs arg_def wrap16_def)
  have "TrimAll grants (VArray [VString s]) = Inr (VString (take ?n ?o))" if "s \<noteq> []"
  proof -
    consider "?o = []" | "?o \<noteq> []" "length ?o = ?n" | "?o \<noteq> []" "length ?o \<noteq> ?n" by blast
    then show ?thesis
    proof cases
      case 1
      then show ?thesis using that c [of 0] by (simp add: TrimAll_def a Let_def SaveString_def)
    next
      case 2
      then show ?thesis using that c [of "length ?o"] by (simp add: TrimAll_def a Let_def SaveString_def del: dropWhile_eq_Nil_conv)
    next
      case 3
      then show ?thesis using that c [of ?n] c [of 0] assms(2)
        by (simp add: TrimAll_def a Let_def SaveString_def alloc_def del: dropWhile_eq_Nil_conv)
    qed
  qed
  moreover have "TrimAll grants (VArray [VString []]) = Inr (VString [])" by (simp add: TrimAll_def scr_defs arg_def wrap16_def)
  ultimately show ?thesis unfolding r by (cases "s = []") auto
qed

end
