(* ===== verification/Script_Numbers.thy ===== *)
theory Script_Numbers
  imports Script_Strings Edit_Filters
begin

text \<open>
  The built-in functions on numbers of \<^verbatim>\<open>core/parser/script.cpp\<close>: rounding, conversion,
  minimum and maximum, the functions on bits, and hexadecimal notation.  A shift by a count
  outside the width of its operand takes the count modulo the width, as the shift instructions do;
  the cast of a number without an integer in range is the value the conversion instruction gives.
  The functions of the C mathematics library (\<^verbatim>\<open>Acos\<close> to \<^verbatim>\<open>Sqrt\<close>) are not modelled.
\<close>

unbundle bit_operations_syntax

definition float_arg :: "AVSValue \<Rightarrow> int \<Rightarrow> (fp \<Rightarrow> 'a scr) \<Rightarrow> 'a scr" where
  "float_arg args i f = bind_r (need (AsFloat (arg args i))) f"

section \<open>Rounding and conversion\<close>

definition Muldiv :: "AVSValue \<Rightarrow> AVSValue scr" where
  "Muldiv args = long_arg args 0 (\<lambda>a. long_arg args 1 (\<lambda>b. long_arg args 2 (\<lambda>c.
     if wrap32 c = 0 then Inl Trap else Inr (VInt (MulDiv (wrap32 a) (wrap32 b) (wrap32 c))))))"

text \<open>The integer \<^verbatim>\<open>floor\<close> and \<^verbatim>\<open>ceil\<close> give, \<open>None\<close> for infinities and NaN.\<close>

fun fp_floor :: "fp \<Rightarrow> int option" where
  "fp_floor (Fin s m e) = Some (if 0 \<le> e then with_sign s (m * 2 ^ nat e) else with_sign s m div 2 ^ nat (- e))"
| "fp_floor (Zero s) = Some 0"
| "fp_floor x = None"

definition fp_ceil :: "fp \<Rightarrow> int option" where
  "fp_ceil x = map_option uminus (fp_floor (fp_neg x))"

definition int64_of :: "int option \<Rightarrow> int" where
  "int64_of x = (case x of Some i \<Rightarrow> if is_int64 i then i else INT64_MIN | None \<Rightarrow> INT64_MIN)"

definition int32_of :: "int option \<Rightarrow> int" where
  "int32_of x = (case x of Some i \<Rightarrow> if is_int32 i then i else INT_MIN | None \<Rightarrow> INT_MIN)"

definition Floor :: "AVSValue \<Rightarrow> AVSValue scr" where
  "Floor args = float_arg args 0 (\<lambda>x. Inr (int_result (int64_of (fp_floor x))))"

definition Ceil :: "AVSValue \<Rightarrow> AVSValue scr" where
  "Ceil args = float_arg args 0 (\<lambda>x. Inr (int_result (int64_of (fp_ceil x))))"

definition Round :: "AVSValue \<Rightarrow> AVSValue scr" where
  "Round args = float_arg args 0 (\<lambda>x. Inr (int_result
     (if fp_less x (Zero False) then wrap64 (- int64_of (fp_trunc (fp_add binary64 (fp_neg x) half_fp)))
      else int64_of (fp_trunc (fp_add binary64 x half_fp)))))"

definition Abs :: "AVSValue \<Rightarrow> AVSValue scr" where
  "Abs args = long_arg args 0 (\<lambda>i. Inr (int_result (wrap64 \<bar>i\<bar>)))"

fun fp_abs :: "fp \<Rightarrow> fp" where
  "fp_abs (Fin s m e) = Fin False m e"
| "fp_abs (Zero s) = Zero False"
| "fp_abs (Inf s) = Inf False"
| "fp_abs NaN = NaN"

definition FAbs :: "AVSValue \<Rightarrow> AVSValue scr" where
  "FAbs args = float_arg args 0 (\<lambda>x. Inr (VDouble (fp_abs x)))"

definition Sign :: "AVSValue \<Rightarrow> AVSValue scr" where
  "Sign args = float_arg args 0 (\<lambda>x. Inr (VInt
     (if fp_eq x (Zero False) then 0 else if fp_less (Zero False) x then 1 else - 1)))"

definition Frac :: "AVSValue \<Rightarrow> AVSValue scr" where
  "Frac args =
     (if IsInt (arg args 0) then Inr (VFloat (Zero False))
      else float_arg args 0 (\<lambda>x.
        let result = fp_sub binary64 x (fp_of_int binary64 (int64_of (fp_trunc x)))
        in Inr (if IsFloat (arg args 0) then VFloat (fp_convert binary32 result) else VDouble result)))"

definition Int_fun :: "AVSValue \<Rightarrow> AVSValue scr" where
  "Int_fun args = (case arg args 0 of VLong i \<Rightarrow> Inr (VLong i) | VInt i \<Rightarrow> Inr (VInt i)
     | _ \<Rightarrow> float_arg args 0 (\<lambda>x. Inr (int_result (int64_of (fp_trunc x)))))"

definition IntI :: "AVSValue \<Rightarrow> AVSValue scr" where
  "IntI args = (if IsInt (arg args 0) then long_arg args 0 (\<lambda>i. Inr (VInt (wrap32 i)))
     else float_arg args 0 (\<lambda>x. Inr (VInt (int32_of (fp_trunc x)))))"

definition Long :: "AVSValue \<Rightarrow> AVSValue scr" where
  "Long args = (if IsInt (arg args 0) then long_arg args 0 (\<lambda>i. Inr (VLong i))
     else float_arg args 0 (\<lambda>x. Inr (VLong (int64_of (fp_trunc x)))))"

definition Float :: "AVSValue \<Rightarrow> AVSValue scr" where
  "Float args = (if IsInt (arg args 0) then long_arg args 0 (\<lambda>i. Inr (VDouble (fp_of_int binary64 i)))
     else if IsFloatfStrict (arg args 0) then bind_r (need (AsFloatf (arg args 0))) (\<lambda>x. Inr (VFloat x))
     else float_arg args 0 (\<lambda>x. Inr (VDouble x)))"

definition Double :: "AVSValue \<Rightarrow> AVSValue scr" where
  "Double args = float_arg args 0 (\<lambda>x. Inr (VDouble x))"

definition Floatf :: "AVSValue \<Rightarrow> AVSValue scr" where
  "Floatf args = bind_r (need (AsFloatf (arg args 0))) (\<lambda>x. Inr (VFloat x))"

section \<open>Minimum and maximum\<close>

text \<open>The elements \<open>a[0], ..., a[n - 1]\<close> of an array value.\<close>

definition array_elements :: "AVSValue \<Rightarrow> AVSValue list" where
  "array_elements a = map (operator_index a) [0..ArraySize a - 1]"

lemma array_elements_all:
  "length vs < 2 ^ 15 \<Longrightarrow> array_elements (VArray vs) = vs"
  by (rule nth_equalityI) (auto simp: array_elements_def wrap16_def nth_upto)

fun all_values :: "(AVSValue \<Rightarrow> 'a option) \<Rightarrow> AVSValue list \<Rightarrow> 'a list scr" where
  "all_values f [] = Inr []"
| "all_values f (v # vs) = bind_r (need (f v)) (\<lambda>x. bind_r (all_values f vs) (\<lambda>xs. Inr (x # xs)))"

text \<open>The loop \<open>V = pick(V, args[0][i])\<close> from the second element on.\<close>

definition fold_first :: "('a \<Rightarrow> 'a \<Rightarrow> 'a) \<Rightarrow> 'a list \<Rightarrow> 'a" where
  "fold_first pick xs = fold (\<lambda>x V. pick V x) (tl xs) (hd xs)"

definition min_max :: "string \<Rightarrow> (int \<Rightarrow> int \<Rightarrow> int) \<Rightarrow> (fp \<Rightarrow> fp \<Rightarrow> fp) \<Rightarrow> AVSValue \<Rightarrow> AVSValue scr" where
  "min_max name ipick fpick args =
    (let vs = array_elements (arg args 0)
     in if ArraySize (arg args 0) < 2 then script_error (''Too few arguments for '' @ name)
        else if list_all IsInt vs
        then bind_r (all_values AsLong vs) (\<lambda>xs. Inr (int_result (fold_first ipick xs)))
        else bind_r (all_values AsFloat vs) (\<lambda>xs. let V = fold_first fpick xs
          in Inr (if list_all IsFloatfStrict vs then VFloat (fp_convert binary32 V) else VDouble V)))"

definition AvsMin :: "AVSValue \<Rightarrow> AVSValue scr" where
  "AvsMin = min_max ''Min'' (\<lambda>v1 v2. if v1 < v2 then v1 else v2) (\<lambda>v1 v2. if fp_less v1 v2 then v1 else v2)"

definition AvsMax :: "AVSValue \<Rightarrow> AVSValue scr" where
  "AvsMax = min_max ''Max'' (\<lambda>v1 v2. if v1 > v2 then v1 else v2) (\<lambda>v1 v2. if fp_less v2 v1 then v1 else v2)"

section \<open>Bits\<close>

abbreviation w32 :: "int \<Rightarrow> 32 word" where "w32 \<equiv> word_of_int"
abbreviation w64 :: "int \<Rightarrow> 64 word" where "w64 \<equiv> word_of_int"

definition ints32 :: "(32 word \<Rightarrow> 32 word \<Rightarrow> 32 word) \<Rightarrow> AVSValue \<Rightarrow> AVSValue scr" where
  "ints32 f args = int_arg args 0 (\<lambda>a. int_arg args 1 (\<lambda>b. Inr (VInt (sint (f (w32 a) (w32 b))))))"

definition longs64 :: "(64 word \<Rightarrow> 64 word \<Rightarrow> 64 word) \<Rightarrow> AVSValue \<Rightarrow> AVSValue scr" where
  "longs64 f args = long_arg args 0 (\<lambda>a. long_arg args 1 (\<lambda>b. Inr (VLong (sint (f (w64 a) (w64 b))))))"

definition BitAnd :: "AVSValue \<Rightarrow> AVSValue scr" where "BitAnd = ints32 (AND)"
definition BitOr :: "AVSValue \<Rightarrow> AVSValue scr" where "BitOr = ints32 (OR)"
definition BitXor :: "AVSValue \<Rightarrow> AVSValue scr" where "BitXor = ints32 (XOR)"
definition BitNot :: "AVSValue \<Rightarrow> AVSValue scr" where
  "BitNot args = int_arg args 0 (\<lambda>a. Inr (VInt (sint (NOT (w32 a)))))"
definition BitAnd64 :: "AVSValue \<Rightarrow> AVSValue scr" where "BitAnd64 = longs64 (AND)"
definition BitOr64 :: "AVSValue \<Rightarrow> AVSValue scr" where "BitOr64 = longs64 (OR)"
definition BitXor64 :: "AVSValue \<Rightarrow> AVSValue scr" where "BitXor64 = longs64 (XOR)"
definition BitNot64 :: "AVSValue \<Rightarrow> AVSValue scr" where
  "BitNot64 args = long_arg args 0 (\<lambda>a. Inr (VLong (sint (NOT (w64 a)))))"

text \<open>A second operand that is an \<^verbatim>\<open>int\<close> position or count.\<close>

definition bits32 :: "(32 word \<Rightarrow> nat \<Rightarrow> 32 word) \<Rightarrow> AVSValue \<Rightarrow> AVSValue scr" where
  "bits32 f args = int_arg args 0 (\<lambda>a. int_arg args 1 (\<lambda>n. Inr (VInt (sint (f (w32 a) (nat (n mod 32)))))))"

definition bits64 :: "(64 word \<Rightarrow> nat \<Rightarrow> 64 word) \<Rightarrow> AVSValue \<Rightarrow> AVSValue scr" where
  "bits64 f args = long_arg args 0 (\<lambda>a. int_arg args 1 (\<lambda>n. Inr (VLong (sint (f (w64 a) (nat (n mod 64)))))))"

definition BitLShift :: "AVSValue \<Rightarrow> AVSValue scr" where "BitLShift = bits32 (\<lambda>w n. push_bit n w)"
definition BitRShiftL :: "AVSValue \<Rightarrow> AVSValue scr" where "BitRShiftL = bits32 (\<lambda>w n. drop_bit n w)"
definition BitRShiftA :: "AVSValue \<Rightarrow> AVSValue scr" where "BitRShiftA = bits32 (\<lambda>w n. signed_drop_bit n w)"
definition BitLShift64 :: "AVSValue \<Rightarrow> AVSValue scr" where "BitLShift64 = bits64 (\<lambda>w n. push_bit n w)"
definition BitRShift64L :: "AVSValue \<Rightarrow> AVSValue scr" where "BitRShift64L = bits64 (\<lambda>w n. drop_bit n w)"
definition BitRShift64A :: "AVSValue \<Rightarrow> AVSValue scr" where "BitRShift64A = bits64 (\<lambda>w n. signed_drop_bit n w)"

text \<open>\<open>shift\<close> has been reduced with \<open>shift &= width - 1\<close>.\<close>

definition a_rol :: "'a::len word \<Rightarrow> nat \<Rightarrow> 'a word" where
  "a_rol value shift = (if shift = 0 then value else push_bit shift value OR drop_bit (LENGTH('a) - shift) value)"

definition a_ror :: "'a::len word \<Rightarrow> nat \<Rightarrow> 'a word" where
  "a_ror value shift = (if shift = 0 then value else drop_bit shift value OR push_bit (LENGTH('a) - shift) value)"

definition a_btc :: "'a::len word \<Rightarrow> nat \<Rightarrow> 'a word" where "a_btc value b = value XOR push_bit b 1"
definition a_btr :: "'a::len word \<Rightarrow> nat \<Rightarrow> 'a word" where "a_btr value b = value AND NOT (push_bit b 1)"
definition a_bts :: "'a::len word \<Rightarrow> nat \<Rightarrow> 'a word" where "a_bts value b = value OR push_bit b 1"
definition a_bt :: "'a::len word \<Rightarrow> nat \<Rightarrow> bool" where "a_bt value b \<longleftrightarrow> value AND push_bit b 1 \<noteq> 0"

definition BitRotateL :: "AVSValue \<Rightarrow> AVSValue scr" where "BitRotateL = bits32 a_rol"
definition BitRotateR :: "AVSValue \<Rightarrow> AVSValue scr" where "BitRotateR = bits32 a_ror"
definition BitRotate64L :: "AVSValue \<Rightarrow> AVSValue scr" where "BitRotate64L = bits64 a_rol"
definition BitRotate64R :: "AVSValue \<Rightarrow> AVSValue scr" where "BitRotate64R = bits64 a_ror"
definition BitChg :: "AVSValue \<Rightarrow> AVSValue scr" where "BitChg = bits32 a_btc"
definition BitClr :: "AVSValue \<Rightarrow> AVSValue scr" where "BitClr = bits32 a_btr"
definition BitSet :: "AVSValue \<Rightarrow> AVSValue scr" where "BitSet = bits32 a_bts"
definition BitChg64 :: "AVSValue \<Rightarrow> AVSValue scr" where "BitChg64 = bits64 a_btc"
definition BitClr64 :: "AVSValue \<Rightarrow> AVSValue scr" where "BitClr64 = bits64 a_btr"
definition BitSet64 :: "AVSValue \<Rightarrow> AVSValue scr" where "BitSet64 = bits64 a_bts"

definition BitTst :: "AVSValue \<Rightarrow> AVSValue scr" where
  "BitTst args = int_arg args 0 (\<lambda>a. int_arg args 1 (\<lambda>n. Inr (VBool (a_bt (w32 a) (nat (n mod 32))))))"
definition BitTst64 :: "AVSValue \<Rightarrow> AVSValue scr" where
  "BitTst64 args = long_arg args 0 (\<lambda>a. int_arg args 1 (\<lambda>n. Inr (VBool (a_bt (w64 a) (nat (n mod 64))))))"

text \<open>The 32 bit population count in parallel fields, and \<^verbatim>\<open>std::bitset<64>(i).count()\<close>.\<close>

definition numberOfSetBits :: "32 word \<Rightarrow> int" where
  "numberOfSetBits i =
    (let i = i - (drop_bit 1 i AND 0x55555555);
         i = (i AND 0x33333333) + (drop_bit 2 i AND 0x33333333)
     in uint (drop_bit 24 (((i + drop_bit 4 i) AND 0x0F0F0F0F) * 0x01010101)))"

definition numberOfSetBits64 :: "64 word \<Rightarrow> int" where
  "numberOfSetBits64 i = int (length (filter (bit i) [0..<64]))"

definition BitSetCount :: "AVSValue \<Rightarrow> AVSValue scr" where
  "BitSetCount args =
     (if IsInt (arg args 0) then int_arg args 0 (\<lambda>i. Inr (VInt (numberOfSetBits (w32 i))))
      else bind_r (all_values AsInt (array_elements (arg args 0))) (\<lambda>is.
        Inr (VInt (fold (\<lambda>i count. wrap32 (count + numberOfSetBits (w32 i))) is 0))))"

definition BitSetCount64 :: "AVSValue \<Rightarrow> AVSValue scr" where
  "BitSetCount64 args =
     (if IsInt (arg args 0) then long_arg args 0 (\<lambda>i. Inr (VInt (numberOfSetBits64 (w64 i))))
      else bind_r (all_values AsLong (array_elements (arg args 0))) (\<lambda>is.
        Inr (VInt (fold (\<lambda>i count. wrap32 (count + numberOfSetBits64 (w64 i))) is 0))))"

section \<open>Hexadecimal notation\<close>

definition hex_char :: "nat \<Rightarrow> char" where
  "hex_char d = char_of (if d < 10 then 48 + d else 55 + d)"

fun show_hex :: "nat \<Rightarrow> string" where
  "show_hex n = (if n < 16 then [hex_char n] else show_hex (n div 16) @ [hex_char (n mod 16)])"

declare show_hex.simps [simp del]

text \<open>\<^verbatim>\<open>sprintf("%0*X", wid, n)\<close>\<close>

definition Hex :: "AVSValue \<Rightarrow> AVSValue scr" where
  "Hex args = int_arg args 0 (\<lambda>n.
     let wid = AsInt2 (arg args 1) 0; wid = (if wid < 0 then 0 else if 8 < wid then 8 else wid);
         ds = show_hex (unat (w32 n))
     in SaveString (replicate (nat wid - length ds) CHR ''0'' @ ds))"

definition digit_value :: "char \<Rightarrow> nat option" where
  "digit_value c = (if c_isdigit c then Some (cc c - 48)
     else if 97 \<le> cc c \<and> cc c \<le> 122 then Some (cc c - 87)
     else if 65 \<le> cc c \<and> cc c \<le> 90 then Some (cc c - 55) else None)"

fun read_digits :: "nat \<Rightarrow> nat \<Rightarrow> string \<Rightarrow> nat" where
  "read_digits base acc [] = acc"
| "read_digits base acc (c # s) = (case digit_value c of
     Some d \<Rightarrow> if d < base then read_digits base (acc * base + d) s else acc | None \<Rightarrow> acc)"

definition is_digit :: "nat \<Rightarrow> char \<Rightarrow> bool" where
  "is_digit base c = (case digit_value c of Some d \<Rightarrow> d < base | None \<Rightarrow> False)"

text \<open>\<^verbatim>\<open>strtoul(s, &stop, 16)\<close> with 64 bits: white space, a sign, \<^verbatim>\<open>0x\<close> before a digit, the
  digits; the largest number when they do not fit, and the negation modulo \<open>2 ^ 64\<close> after a minus.\<close>

definition strtoul16 :: "string \<Rightarrow> int" where
  "strtoul16 s =
    (let s = dropWhile c_isspace s; neg = (peek s = CHR ''-'');
         s = (if peek s = CHR ''-'' \<or> peek s = CHR ''+'' then tl s else s);
         s = (if peek s = CHR ''0'' \<and> (peekn 1 s = CHR ''x'' \<or> peekn 1 s = CHR ''X'') \<and> is_digit 16 (peekn 2 s)
              then drop 2 s else s);
         v = int (read_digits 16 0 s)
     in if 2 ^ 64 \<le> v then 2 ^ 64 - 1 else if neg then (- v) mod 2 ^ 64 else v)"

definition hex_at :: "AVSValue \<Rightarrow> (int \<Rightarrow> AVSValue) \<Rightarrow> AVSValue scr" where
  "hex_at args result = str_arg args 0 (\<lambda>str.
     let pos = wrap64 (AsLong2 (arg args 1) 1 - 1)
     in if pos < 0 \<or> int (length str) \<le> pos then Inr (VInt 0) else Inr (result (strtoul16 (drop (nat pos) str))))"

definition HexValue :: "AVSValue \<Rightarrow> AVSValue scr" where
  "HexValue args = hex_at args (\<lambda>v. VInt (wrap32 v))"

definition HexValue64 :: "AVSValue \<Rightarrow> AVSValue scr" where
  "HexValue64 args = hex_at args (\<lambda>v. VLong (wrap64 v))"

section \<open>Decimal digits\<close>

lemma read_digits_app:
  "list_all (is_digit b) s \<Longrightarrow> read_digits b acc (s @ t) = read_digits b (read_digits b acc s) t"
  by (induction s arbitrary: acc) (auto simp: is_digit_def split: option.splits)

lemma digit_value_digit: "d < 10 \<Longrightarrow> digit_value (char_of (48 + d)) = Some d \<and> c_isdigit (char_of (48 + d))"
proof -
  assume "d < 10"
  moreover have "list_all (\<lambda>d. digit_value (char_of (48 + d)) = Some d \<and> c_isdigit (char_of (48 + d))) [0..<10]" by code_simp
  ultimately show ?thesis by (auto simp: list_all_iff)
qed

lemma show_nat_digits: "list_all (\<lambda>c. is_digit 10 c \<and> c_isdigit c) (show_nat i) \<and> show_nat i \<noteq> []"
proof (induction i rule: show_nat.induct)
  case (1 n)
  then show ?case
    using digit_value_digit [of n] digit_value_digit [of "n mod 10"] by (subst (1 2) show_nat.simps) (auto simp: is_digit_def)
qed

lemma read_digits_snoc:
  "list_all (is_digit b) s \<Longrightarrow> is_digit b c \<Longrightarrow> read_digits b acc (s @ [c]) = read_digits b acc s * b + the (digit_value c)"
  by (induction s arbitrary: acc) (auto simp: is_digit_def split: option.splits)

lemma read_show_nat: "read_digits 10 0 (show_nat i) = i"
proof (induction i rule: show_nat.induct)
  case (1 n)
  show ?case
  proof (cases "n < 10")
    case True
    then show ?thesis using digit_value_digit [of n] by (simp add: show_nat.simps)
  next
    case False
    have "list_all (is_digit 10) (show_nat (n div 10))" using show_nat_digits [of "n div 10"] by (auto simp: list_all_iff)
    moreover have "is_digit 10 (char_of (48 + n mod 10))" using digit_value_digit [of "n mod 10"] by (simp add: is_digit_def)
    ultimately show ?thesis
      using 1 False digit_value_digit [of "n mod 10"] by (subst show_nat.simps) (simp add: read_digits_snoc)
  qed
qed

end
