(* ===== verification/Script_Bits.thy ===== *)
theory Script_Bits
  imports Script_Numbers
begin

text \<open>
  What the functions on numbers compute: the population count in parallel fields counts bits, the
  rotations undo each other, hexadecimal notation reads back, minimum and maximum are those of the
  numbers, and where rounding and fractions do not do what they mean to.
\<close>

section \<open>Numbers in fields of equal width\<close>

text \<open>A number cut into fields of \<open>w\<close> bits, the lowest first; the sums of neighbouring fields; and
  the mask of every other field.\<close>

fun dig :: "nat \<Rightarrow> nat list \<Rightarrow> nat" where
  "dig w [] = 0"
| "dig w (d # ds) = d + 2 ^ w * dig w ds"

fun halve :: "nat list \<Rightarrow> nat list" where
  "halve (a # b # r) = (a + b) # halve r"
| "halve ds = []"

definition low_fields :: "nat \<Rightarrow> nat \<Rightarrow> nat" where
  "low_fields w n = dig (2 * w) (replicate n (2 ^ w - 1))"

lemma and_digit:
  assumes "a < 2 ^ w" "b < 2 ^ w"
  shows "(a + 2 ^ w * x) AND (b + 2 ^ w * y) = (a AND b) + 2 ^ w * (x AND (y::nat))"
proof -
  have "take_bit w (c + 2 ^ w * z) = c" "drop_bit w (c + 2 ^ w * z) = z" if "c < 2 ^ w" for c z :: nat
    using that by (simp_all add: take_bit_eq_mod drop_bit_eq_div)
  with assms have "take_bit w ((a + 2 ^ w * x) AND (b + 2 ^ w * y)) = a AND b"
    "drop_bit w ((a + 2 ^ w * x) AND (b + 2 ^ w * y)) = x AND y"
    by simp_all
  then show ?thesis
    using bits_ident [of w "(a + 2 ^ w * x) AND (b + 2 ^ w * y)"] by (simp add: push_bit_eq_mult ac_simps)
qed

lemma and_low:
  assumes "a < 2 ^ w" "b < 2 ^ w"
  shows "(a + 2 ^ w * b + 2 ^ (2 * w) * x) AND ((2 ^ w - 1) + 2 ^ (2 * w) * y) = a + 2 ^ (2 * w) * (x AND (y::nat))"
proof -
  have s: "(2::nat) ^ (2 * w) = 2 ^ w * 2 ^ w" "(2::nat) ^ (w * 2) = 2 ^ w * 2 ^ w"
    by (simp_all add: power_add mult_2 mult.commute [of w])
  have "(a + 2 ^ w * (b + 2 ^ w * x)) AND ((2 ^ w - 1) + 2 ^ w * (0 + 2 ^ w * y)) = (a AND (2 ^ w - 1)) + 2 ^ w * ((b + 2 ^ w * x) AND (0 + 2 ^ w * y))"
    using assms by (intro and_digit) auto
  also have "(b + 2 ^ w * x) AND (0 + 2 ^ w * y) = 0 + 2 ^ w * (x AND y)"
    using assms and_digit [of b w 0 x y] by simp
  also have "a AND (2 ^ w - 1) = a" 
  proof -
    have "a AND (2 ^ w - 1) = take_bit w a" by (simp only: take_bit_eq_mask mask_eq_exp_minus_1)
    then show ?thesis using assms by (simp add: take_bit_nat_eq_self)
  qed
  finally show ?thesis by (simp add: s algebra_simps)
qed

lemma split_low: "\<exists>b x. b < 2 ^ w \<and> X = b + 2 ^ w * (x::nat) \<and> X div 2 ^ w = x"
  by (rule exI [of _ "X mod 2 ^ w"], rule exI [of _ "X div 2 ^ w"]) simp

lemma fields_split:
  assumes "even (length ds)" "\<forall>d \<in> set ds. d < 2 ^ w"
  shows "(dig w ds AND low_fields w (length ds div 2)) + (dig w ds div 2 ^ w AND low_fields w (length ds div 2)) = dig (2 * w) (halve ds)
    \<and> (dig w ds AND low_fields w (length ds div 2)) + 2 ^ w * (dig w ds div 2 ^ w AND low_fields w (length ds div 2)) = dig w ds"
  using assms
proof (induction ds rule: halve.induct)
  case (1 a b r)
  let ?M = "low_fields w (length r div 2)"
  have s: "(2::nat) ^ (2 * w) = 2 ^ w * 2 ^ w" "(2::nat) ^ (w * 2) = 2 ^ w * 2 ^ w"
    by (simp_all add: power_add mult_2 mult.commute [of w])
  obtain x y where x: "x < 2 ^ w" "dig w r = x + 2 ^ w * y" "dig w r div 2 ^ w = y" using split_low by blast
  have m: "low_fields w (length (a # b # r) div 2) = (2 ^ w - 1) + 2 ^ (2 * w) * ?M" by (simp add: low_fields_def)
  have v: "dig w (a # b # r) = a + 2 ^ w * b + 2 ^ (2 * w) * dig w r" "dig w (a # b # r) div 2 ^ w = b + 2 ^ w * x + 2 ^ (2 * w) * y"
  proof -
    show "dig w (a # b # r) = a + 2 ^ w * b + 2 ^ (2 * w) * dig w r" by (simp add: s algebra_simps)
    have "dig w (a # b # r) div 2 ^ w = b + 2 ^ w * dig w r" using 1(3) by simp
    then show "dig w (a # b # r) div 2 ^ w = b + 2 ^ w * x + 2 ^ (2 * w) * y" by (simp add: s x(2) algebra_simps)
  qed
  have "dig w (a # b # r) AND low_fields w (length (a # b # r) div 2) = a + 2 ^ (2 * w) * (dig w r AND ?M)"
    unfolding v m using 1(3) by (intro and_low) auto
  moreover have "dig w (a # b # r) div 2 ^ w AND low_fields w (length (a # b # r) div 2) = b + 2 ^ (2 * w) * (dig w r div 2 ^ w AND ?M)"
    unfolding v(2) m x(3) using 1(3) x(1) by (intro and_low) auto
  moreover define A B where "A = (dig w r AND ?M)" and "B = (dig w r div 2 ^ w AND ?M)"
  moreover have AB: "A + B = dig (2 * w) (halve r)" "A + 2 ^ w * B = dig w r" using 1 by (simp_all add: A_def B_def)
  moreover have "a + 2 ^ (2 * w) * A + (b + 2 ^ (2 * w) * B) = dig (2 * w) (halve (a # b # r))"
  proof -
    have "a + 2 ^ (2 * w) * A + (b + 2 ^ (2 * w) * B) = (a + b) + 2 ^ (2 * w) * (A + B)" by (simp add: distrib_left distrib_right)
    then show ?thesis using AB(1) by simp
  qed
  moreover have "a + 2 ^ (2 * w) * A + 2 ^ w * (b + 2 ^ (2 * w) * B) = dig w (a # b # r)"
    by (simp add: AB(2) [symmetric] s algebra_simps)
  ultimately show ?case by simp
qed (auto simp: low_fields_def)

lemma fields_add:
  assumes "even (length ds)" "\<forall>d \<in> set ds. 2 * d < 2 ^ w"
  shows "(dig w ds + dig w ds div 2 ^ w) AND low_fields w (length ds div 2) = dig (2 * w) (halve ds)"
  using assms
proof (induction ds rule: halve.induct)
  case (1 a b r)
  let ?M = "low_fields w (length r div 2)"
  have s: "(2::nat) ^ (2 * w) = 2 ^ w * 2 ^ w" "(2::nat) ^ (w * 2) = 2 ^ w * 2 ^ w"
    by (simp_all add: power_add mult_2 mult.commute [of w])
  define x where "x = (case r of [] \<Rightarrow> 0 | d # _ \<Rightarrow> d)"
  have x: "2 * x < 2 ^ w" "dig w r = x + 2 ^ w * (dig w r div 2 ^ w)"
    using 1(3) by (auto simp: x_def split: list.splits)
  have m: "low_fields w (length (a # b # r) div 2) = (2 ^ w - 1) + 2 ^ (2 * w) * ?M" by (simp add: low_fields_def)
  have "dig w (a # b # r) + dig w (a # b # r) div 2 ^ w = (a + b) + 2 ^ w * (b + x) + 2 ^ (2 * w) * (dig w r + dig w r div 2 ^ w)"
  proof -
    have "dig w (a # b # r) div 2 ^ w = b + 2 ^ w * dig w r" using 1(3) by simp
    also have "\<dots> = b + 2 ^ w * (x + 2 ^ w * (dig w r div 2 ^ w))" using x(2) by simp
    finally have v: "dig w (a # b # r) div 2 ^ w = b + 2 ^ w * (x + 2 ^ w * (dig w r div 2 ^ w))" .
    show ?thesis unfolding v by (simp add: s algebra_simps)
  qed
  then have "(dig w (a # b # r) + dig w (a # b # r) div 2 ^ w) AND low_fields w (length (a # b # r) div 2)
      = (a + b) + 2 ^ (2 * w) * ((dig w r + dig w r div 2 ^ w) AND ?M)"
    unfolding m using 1(3) x(1) by (simp only:) (intro and_low, auto)
  then show ?case using 1 by simp
qed (auto simp: low_fields_def)

lemma dig_bits: "dig 1 (map (\<lambda>k. of_bool (bit n k)) [0..<m]) = take_bit m (n::nat)"
proof -
  have "dig 1 ds = horner_sum id 2 ds" for ds by (induction ds) simp_all
  then have "dig 1 (map (\<lambda>k. of_bool (bit n k)) [0..<m]) = horner_sum id 2 (map (\<lambda>k. of_bool (bit n k)) [0..<m])" by simp
  also have "\<dots> = horner_sum of_bool 2 (map (bit n) [0..<m])" by (simp add: horner_sum_eq_sum)
  finally show ?thesis by (simp add: horner_sum_bit_eq_take_bit)
qed

lemma halve_props:
  "even (length ds) \<Longrightarrow> sum_list (halve ds) = sum_list ds" "length (halve ds) = length ds div 2"
  "even (length ds) \<Longrightarrow> \<forall>d \<in> set ds. d \<le> k \<Longrightarrow> \<forall>d \<in> set (halve ds). d \<le> 2 * k"
  by (induction ds rule: halve.induct) (auto simp: algebra_simps add_mono)


lemma dig_le: "\<forall>d \<in> set ds. d \<le> k \<Longrightarrow> dig w ds \<le> dig w (replicate (length ds) k)"
  by (induction ds) (auto intro!: add_mono mult_left_mono)

lemma bits_sum: "sum_list (map (\<lambda>k. of_bool (bit i k)) [0..<32]) = card {k. bit (i :: 32 word) k}"
proof -
  have "{k. bit i k} = {k \<in> {0..<32}. bit i k}" by (auto dest: bit_imp_le_length)
  moreover have "sum_list (map (\<lambda>k. of_bool (bit i k)) [0..<32]) = (\<Sum>k \<in> {0..<32}. of_bool (bit i k) :: nat)"
    by (simp add: interv_sum_list_conv_sum_set_nat)
  ultimately show ?thesis by (simp add: of_bool_def sum.If_cases Int_def)
qed

lemma bytes_sum:
  assumes "a \<le> 8" "b \<le> 8" "c \<le> 8" "d \<le> (8::nat)"
  shows "((a + 256 * (b + 256 * (c + 256 * d))) * 0x01010101 mod 2 ^ 32) div 2 ^ 24 = a + b + c + d"
proof -
  let ?low = "a + 256 * (a + b) + 65536 * (a + b + c) + 16777216 * (a + b + c + d)"
  have "(a + 256 * (b + 256 * (c + 256 * d))) * 0x01010101 = ?low + 2 ^ 32 * ((b + c + d) + 256 * (c + d) + 65536 * d)"
    by simp
  then have "(a + 256 * (b + 256 * (c + 256 * d))) * 0x01010101 mod 2 ^ 32 = ?low mod 2 ^ 32" by (simp only: mod_mult_self2)
  also have "\<dots> = ?low" using assms by simp
  finally have "((a + 256 * (b + 256 * (c + 256 * d))) * 0x01010101 mod 2 ^ 32) div 2 ^ 24 = ?low div 16777216" by simp
  also have "\<dots> = a + b + c + d" using assms by simp
  finally show ?thesis .
qed

lemma unat_masked: "unat (x AND (y :: 32 word)) = unat x AND unat y" "unat (drop_bit n x) = unat x div 2 ^ n"
  unfolding unat_drop_bit_eq by (simp_all add: unsigned_and_eq) (simp add: drop_bit_eq_div)

lemma unat_sum: "unat x + unat y < 2 ^ 32 \<Longrightarrow> unat (x + (y :: 32 word)) = unat x + unat y"
  by (simp add: unat_word_ariths)

lemma replicate_upt: "replicate n x = map (\<lambda>_. x) [0..<n]"
  by (simp add: map_replicate_const)

lemma masks: "low_fields 1 16 = 0x55555555" "low_fields 2 8 = 0x33333333" "low_fields 4 4 = 0x0F0F0F0F"
  by (simp_all add: low_fields_def replicate_upt upt_rec del: map_replicate_trivial)

lemma fours: "dig 4 (replicate 8 4) = 0x44444444"
  by (simp add: replicate_upt upt_rec del: map_replicate_trivial)

lemma numberOfSetBits_counts: "numberOfSetBits i = int (card {k. bit i k})"
proof -
  define bs where "bs = map (\<lambda>k. of_bool (bit (unat i) k) :: nat) [0..<32]"
  define ps where "ps = halve bs"
  define ns where "ns = halve ps"
  define es where "es = halve ns"
  have b: "dig 1 bs = unat i" "length bs = 32" "\<forall>d \<in> set bs. d \<le> 1" "sum_list bs = card {k. bit i k}"
  proof -
    have "unat i < 2 ^ 32" by (rule order_less_le_trans [OF unsigned_less]) simp
    then show "dig 1 bs = unat i" unfolding bs_def dig_bits by (simp add: take_bit_nat_eq_self)
    have "bs = map (\<lambda>k. of_bool (bit i k)) [0..<32]" by (simp add: bs_def bit_unsigned_iff)
    then show "sum_list bs = card {k. bit i k}" by (simp only: bits_sum)
  qed (auto simp: bs_def)
  have b1: "\<forall>d \<in> set bs. d < 2 ^ 1" using b(3) by auto
  have p: "length ps = 16" "\<forall>d \<in> set ps. d \<le> 2" "sum_list ps = sum_list bs"
    unfolding ps_def using b halve_props(1,2) [of bs] halve_props(3) [of bs 1] by simp_all
  have p1: "\<forall>d \<in> set ps. d < 2 ^ 2" using p(2) by auto
  have n: "length ns = 8" "\<forall>d \<in> set ns. d \<le> 4" "sum_list ns = sum_list bs"
    unfolding ns_def using p halve_props(1,2) [of ps] halve_props(3) [of ps 2] by simp_all
  have n1: "\<forall>d \<in> set ns. 2 * d < 2 ^ 4" using n(2) by force
  have e: "length es = 4" "\<forall>d \<in> set es. d \<le> 8" "sum_list es = sum_list bs"
    unfolding es_def using n halve_props(1,2) [of ns] halve_props(3) [of ns 4] by simp_all
  define i1 where "i1 = i - (drop_bit 1 i AND 0x55555555)"
  define i2 where "i2 = (i1 AND 0x33333333) + (drop_bit 2 i1 AND 0x33333333)"
  define i3 where "i3 = (i2 + drop_bit 4 i2) AND 0x0F0F0F0F"
  have f1: "(unat i AND 0x55555555) + (unat i div 2 AND 0x55555555) = dig 2 ps"
    "(unat i AND 0x55555555) + 2 * (unat i div 2 AND 0x55555555) = unat i"
    using fields_split [of bs 1] b b1 masks(1) by (auto simp: ps_def)
  have d1: "unat (drop_bit 1 i AND 0x55555555) = unat i div 2 AND 0x55555555"
    by (simp add: unat_masked)
  have le: "drop_bit 1 i AND 0x55555555 \<le> i" unfolding word_le_nat_alt d1 using f1(2) by linarith
  have u1: "unat i1 = dig 2 ps" unfolding i1_def unat_sub [OF le] d1 using f1 by linarith
  have f2: "(dig 2 ps AND 0x33333333) + (dig 2 ps div 4 AND 0x33333333) = dig 4 ns"
    using fields_split [of ps 2] p p1 masks(2) by (auto simp: ns_def)
  have "dig 4 ns \<le> dig 4 (replicate 8 4)" using dig_le [of ns 4 4] n by simp
  also have "\<dots> = 0x44444444" by (rule fours)
  finally have l4: "dig 4 ns \<le> 0x44444444" .
  have u2: "unat i2 = dig 4 ns"
    unfolding i2_def using f2 l4 by (subst unat_sum) (simp_all add: unat_masked u1)
  have u3: "unat i3 = dig 8 es"
  proof -
    have "unat (i2 + drop_bit 4 i2) = dig 4 ns + dig 4 ns div 16"
      using l4 by (subst unat_sum) (simp_all add: unat_masked u2)
    then have "unat i3 = (dig 4 ns + dig 4 ns div 16) AND 0x0F0F0F0F" by (simp add: i3_def unat_masked)
    then show ?thesis using fields_add [of ns 4] n n1 masks(3) by (simp add: es_def)
  qed
  obtain a1 a2 a3 a4 where es: "es = [a1, a2, a3, a4]"
    using e(1) by (auto simp: numeral_eq_Suc length_Suc_conv)
  have "unat (drop_bit 24 (i3 * 0x01010101)) = (dig 8 es * 0x01010101 mod 2 ^ 32) div 2 ^ 24"
    by (simp add: unat_masked unat_word_ariths u3)
  also have "\<dots> = a1 + a2 + a3 + a4" using bytes_sum [of a1 a2 a3 a4] e(2) by (simp add: es)
  also have "\<dots> = sum_list es" by (simp add: es)
  finally have "unat (drop_bit 24 (i3 * 0x01010101)) = card {k. bit i k}" using e(3) b(4) by simp
  then have "uint (drop_bit 24 (i3 * 0x01010101)) = int (card {k. bit i k})" by (metis uint_nat)
  then show ?thesis by (simp add: numberOfSetBits_def Let_def i1_def i2_def i3_def)
qed


section \<open>Rotations\<close>

lemma bit_a_rol:
  "s < LENGTH('a) \<Longrightarrow> n < LENGTH('a) \<Longrightarrow> bit (a_rol (w :: 'a::len word) s) n = bit w (if n < s then n + LENGTH('a) - s else n - s)"
  by (auto simp: a_rol_def bit_simps not_less algebra_simps dest: bit_imp_le_length)

lemma bit_a_ror:
  "s < LENGTH('a) \<Longrightarrow> n < LENGTH('a) \<Longrightarrow> bit (a_ror (w :: 'a::len word) s) n = bit w (if n + s < LENGTH('a) then n + s else n + s - LENGTH('a))"
  by (auto simp: a_ror_def bit_simps not_less algebra_simps dest: bit_imp_le_length)

lemma a_ror_rol: "s < LENGTH('a) \<Longrightarrow> a_ror (a_rol (w :: 'a::len word) s) s = w"
  by (rule bit_eqI) (auto simp: bit_a_rol bit_a_ror)

lemma a_rol_ror: "s < LENGTH('a) \<Longrightarrow> a_rol (a_ror (w :: 'a::len word) s) s = w"
  by (rule bit_eqI) (auto simp: bit_a_rol bit_a_ror)

lemma sint_w32: "is_int32 i \<Longrightarrow> sint (w32 i) = i" and sint_w64: "is_int64 i \<Longrightarrow> sint (w64 i) = i"
  by (simp_all add: is_int32_def is_int64_def int_limits signed_take_bit_int_eq_self sint_sbintrunc')

lemma BitRotate_inverse:
  "is_int32 i \<Longrightarrow> bind_r (BitRotateL (VArray [VInt i, VInt n])) (\<lambda>v. BitRotateR (VArray [v, VInt n])) = Inr (VInt i)"
  "is_int64 j \<Longrightarrow> bind_r (BitRotate64R (VArray [VLong j, VInt n])) (\<lambda>v. BitRotate64L (VArray [v, VInt n])) = Inr (VLong j)"
  by (simp_all add: BitRotateL_def BitRotateR_def BitRotate64R_def BitRotate64L_def bits32_def bits64_def arg_def scr_defs wrap16_def
      a_ror_rol a_rol_ror sint_w32 sint_w64)

section \<open>Hexadecimal notation\<close>

lemma digit_of_hex:
  assumes "d < 16"
  shows "digit_value (hex_char d) = Some d \<and> \<not> c_isspace (hex_char d) \<and> hex_char d \<noteq> NUL \<and>
    hex_char d \<notin> {CHR ''-'', CHR ''+'', CHR ''x'', CHR ''X''}"
proof -
  have "list_all (\<lambda>d. digit_value (hex_char d) = Some d \<and> \<not> c_isspace (hex_char d) \<and> hex_char d \<noteq> NUL \<and>
    hex_char d \<notin> {CHR ''-'', CHR ''+'', CHR ''x'', CHR ''X''}) [0..<16]" by code_simp
  with assms show ?thesis by (auto simp: list_all_iff)
qed

lemma hex_charE: "c \<in> hex_char ` {..<16} \<Longrightarrow> \<not> c_isspace c \<and> c \<noteq> NUL \<and> c \<notin> {CHR ''-'', CHR ''+'', CHR ''x'', CHR ''X''}"
  by (erule imageE) (use digit_of_hex in simp)

lemma show_hex_chars: "set (show_hex n) \<subseteq> hex_char ` {..<16}"
  by (induction n rule: show_hex.induct) (subst show_hex.simps, auto split: if_splits)

lemma hex_digits: "set s \<subseteq> hex_char ` {..<16} \<Longrightarrow> list_all (is_digit 16) s"
  using digit_of_hex by (fastforce simp: list_all_iff is_digit_def)

lemma read_show_hex: "read_digits 16 0 (show_hex n) = n"
proof (induction n rule: show_hex.induct)
  case (1 n)
  have d: "list_all (is_digit 16) (show_hex (n div 16))" by (rule hex_digits [OF show_hex_chars])
  show ?case
  proof (cases "n < 16")
    case True
    then show ?thesis using digit_of_hex [of n] by (simp add: show_hex.simps)
  next
    case False
    then show ?thesis
      using 1 digit_of_hex [of "n mod 16"] by (subst show_hex.simps) (simp add: read_digits_app [OF d])
  qed
qed

lemma read_zeros: "read_digits 16 0 (replicate k CHR ''0'' @ s) = read_digits 16 0 s"
proof (induction k)
  case (Suc k)
  have "digit_value CHR ''0'' = Some 0" by code_simp
  with Suc show ?case by simp
qed simp

lemma strtoul16_digits:
  assumes "set s \<subseteq> hex_char ` {..<16}" "read_digits 16 0 s < 2 ^ 64"
  shows "strtoul16 s = int (read_digits 16 0 s)"
proof -
  have c: "\<not> c_isspace c \<and> c \<notin> {CHR ''-'', CHR ''+'', CHR ''x'', CHR ''X''}" if "c \<in> set s" for c
    using assms(1) that hex_charE [of c] by blast
  have p: "peekn n s = NUL \<or> peekn n s \<in> set s" for n
    by (cases "drop n s") (auto simp: peekn_def intro: in_set_dropD [of _ n s])
  have d: "dropWhile c_isspace s = s" using c by (cases s) auto
  have "peekn 0 s \<noteq> CHR ''-''" "peekn 0 s \<noteq> CHR ''+''" "peekn 1 s \<noteq> CHR ''x''" "peekn 1 s \<noteq> CHR ''X''"
    using p [of 0] p [of 1] c by force+
  with assms(2) show ?thesis unfolding strtoul16_def Let_def d by (simp add: peekn_def)
qed

text \<open>
  What \<^verbatim>\<open>Hex\<close> writes, with any number of digits asked for, \<^verbatim>\<open>HexValue\<close> reads
  back, negative numbers included; \<^verbatim>\<open>HexValue64\<close> reads it as the unsigned number.
\<close>

theorem Hex_roundtrip:
  assumes "is_int32 n"
  shows "\<exists>s. Hex (VArray [VInt n, digits]) = Inr (VString s)
    \<and> HexValue (VArray [VString s, VUndefined]) = Inr (VInt n)
    \<and> HexValue64 (VArray [VString s, VUndefined]) = Inr (VLong (n mod 2 ^ 32))"
proof -
  define wid where "wid = (let w = AsInt2 digits 0 in if w < 0 then 0 else if 8 < w then 8 else w)"
  define s where "s = replicate (nat wid - length (show_hex (unat (w32 n)))) CHR ''0'' @ show_hex (unat (w32 n))"
  have zero: "CHR ''0'' = hex_char 0" by code_simp
  have s: "set s \<subseteq> hex_char ` {..<16}"
    using show_hex_chars [of "unat (w32 n)"] by (auto simp: s_def zero)
  have v: "read_digits 16 0 s = unat (w32 n)" by (simp add: s_def read_zeros read_show_hex)
  have u: "int (unat (w32 n)) = n mod 2 ^ 32" by (simp add: unsigned_of_int take_bit_eq_mod)
  have "int (unat (w32 n)) < 2 ^ 64" unfolding u by (rule order_less_trans [of _ "2 ^ 32"]) simp_all
  then have st: "strtoul16 s = n mod 2 ^ 32" using strtoul16_digits [OF s] v u by (simp flip: of_nat_less_iff [where 'a = int])
  have ne: "s \<noteq> []" by (subst s_def, subst (2) show_hex.simps) simp
  have c: "cstr s = s" by (rule cstr_id) (use s hex_charE in blast)
  have "Hex (VArray [VInt n, digits]) = Inr (VString s)"
    using c by (simp add: Hex_def arg_def scr_defs wrap16_def s_def wid_def Let_def)
  moreover have "wrap32 (n mod 2 ^ 32) = n" "wrap64 (n mod 2 ^ 32) = n mod 2 ^ 32"
    using assms by (auto simp: is_int32_def is_int64_def int_limits wrap32_def wrap64_def mod_simps)
  ultimately show ?thesis
    using ne st by (intro exI [of _ s])
      (simp add: HexValue_def HexValue64_def hex_at_def arg_def scr_defs wrap16_def AsLong2_def wrap64_def Let_def)
qed

theorem Hex_roundtrip_witness:
  "\<exists>s. Hex (VArray [VInt (- 255), VInt 4]) = Inr (VString s)
    \<and> HexValue (VArray [VString s, VUndefined]) = Inr (VInt (- 255))
    \<and> HexValue64 (VArray [VString s, VUndefined]) = Inr (VLong 4294967041)"
  using Hex_roundtrip [of "- 255" "VInt 4"] by (simp add: is_int32_def int_limits)

section \<open>Minimum, maximum, rounding\<close>

lemma all_values_long: "all_values AsLong (map VLong xs) = Inr xs"
  by (induction xs) (simp_all add: scr_defs)

lemma min_max_ints:
  assumes "2 \<le> length xs" "length xs < 2 ^ 15"
  shows "AvsMin (VArray [VArray (map VLong xs)]) = Inr (int_result (Min (set xs)))"
    "AvsMax (VArray [VArray (map VLong xs)]) = Inr (int_result (Max (set xs)))"
proof -
  obtain x ys where xs: "xs = x # ys" using assms(1) by (cases xs) auto
  have p: "(\<lambda>x V. if V < x then V else x) = (min :: int \<Rightarrow> int \<Rightarrow> int)" "(\<lambda>x V. if V > x then V else x) = (max :: int \<Rightarrow> int \<Rightarrow> int)"
    by (auto simp: fun_eq_iff min_def max_def)
  have a: "arg (VArray [VArray vs]) 0 = VArray vs" for vs by (simp add: arg_def wrap16_def)
  have f: "fold_first (\<lambda>v1 v2. if v1 < v2 then v1 else v2) xs = Min (set xs)" "fold_first (\<lambda>v1 v2. if v1 > v2 then v1 else v2) xs = Max (set xs)"
    using Min.set_eq_fold [of x ys] Max.set_eq_fold [of x ys] by (simp_all add: fold_first_def p xs)
  have e: "array_elements (VArray (map VLong xs)) = map VLong xs" using assms(2) by (intro array_elements_all) simp
  have n: "\<not> ArraySize (VArray (map VLong xs)) < 2" using assms by (simp add: wrap16_def)
  have i: "list_all IsInt (map VLong xs)" by (simp add: list_all_iff)
  show "AvsMin (VArray [VArray (map VLong xs)]) = Inr (int_result (Min (set xs)))"
    "AvsMax (VArray [VArray (map VLong xs)]) = Inr (int_result (Max (set xs)))"
    using n i unfolding AvsMin_def AvsMax_def min_max_def a e by (simp_all add: all_values_long f Let_def)
qed

text \<open>\<open>2 ^ -2 - 2 ^ -54 = 0.49999999999999994\<close> is below one half.\<close>

lemma Round_below_half: "Round (VArray [VDouble (Fin False 9007199254740991 (- 54))]) = Inr (VInt 1)"
  by code_simp

lemma Frac_float: "IsFloat v \<Longrightarrow> \<not> IsInt v \<Longrightarrow> \<exists>x. Frac (VArray [v]) = Inr (VFloat x)"
  by (cases v) (simp_all add: Frac_def arg_def float_arg_def scr_defs wrap16_def Let_def)

end
