(* ===== verification/Script_Formats.thy ===== *)
theory Script_Formats
  imports Script_Strings Video_Format
begin

text \<open>
  The names of pixel formats, the functions on the properties of a clip and \<^verbatim>\<open>BuildPixelType\<close>
  of \<^verbatim>\<open>core/parser/script.cpp\<close>.  \<open>clips\<close> gives the \<open>VideoInfo\<close> of a clip.  Every planar format
  has a name that reads back, and the name \<^verbatim>\<open>BuildPixelType\<close> makes is that of the format with the
  family, depth and subsampling asked for or taken from a sample clip.
\<close>

unbundle bit_operations_syntax

section \<open>Names of pixel formats\<close>

definition CS_YUV420P10 :: "32 word" where "CS_YUV420P10 = CS_GENERIC_YUV420 OR CS_Sample_Bits_10"
definition CS_YUV422P10 :: "32 word" where "CS_YUV422P10 = CS_GENERIC_YUV422 OR CS_Sample_Bits_10"
definition CS_YUV444P10 :: "32 word" where "CS_YUV444P10 = CS_GENERIC_YUV444 OR CS_Sample_Bits_10"
definition CS_YUV420P12 :: "32 word" where "CS_YUV420P12 = CS_GENERIC_YUV420 OR CS_Sample_Bits_12"
definition CS_YUV422P12 :: "32 word" where "CS_YUV422P12 = CS_GENERIC_YUV422 OR CS_Sample_Bits_12"
definition CS_YUV444P12 :: "32 word" where "CS_YUV444P12 = CS_GENERIC_YUV444 OR CS_Sample_Bits_12"
definition CS_YUV420P14 :: "32 word" where "CS_YUV420P14 = CS_GENERIC_YUV420 OR CS_Sample_Bits_14"
definition CS_YUV422P14 :: "32 word" where "CS_YUV422P14 = CS_GENERIC_YUV422 OR CS_Sample_Bits_14"
definition CS_YUV444P14 :: "32 word" where "CS_YUV444P14 = CS_GENERIC_YUV444 OR CS_Sample_Bits_14"
definition CS_YUV420P16 :: "32 word" where "CS_YUV420P16 = CS_GENERIC_YUV420 OR CS_Sample_Bits_16"
definition CS_YUV422P16 :: "32 word" where "CS_YUV422P16 = CS_GENERIC_YUV422 OR CS_Sample_Bits_16"
definition CS_YUV444P16 :: "32 word" where "CS_YUV444P16 = CS_GENERIC_YUV444 OR CS_Sample_Bits_16"
definition CS_YUV420PS :: "32 word" where "CS_YUV420PS = CS_GENERIC_YUV420 OR CS_Sample_Bits_32"
definition CS_YUV422PS :: "32 word" where "CS_YUV422PS = CS_GENERIC_YUV422 OR CS_Sample_Bits_32"
definition CS_YUV444PS :: "32 word" where "CS_YUV444PS = CS_GENERIC_YUV444 OR CS_Sample_Bits_32"
definition CS_RGBP :: "32 word" where "CS_RGBP = CS_GENERIC_RGBP OR CS_Sample_Bits_8"
definition CS_RGBP10 :: "32 word" where "CS_RGBP10 = CS_GENERIC_RGBP OR CS_Sample_Bits_10"
definition CS_RGBP12 :: "32 word" where "CS_RGBP12 = CS_GENERIC_RGBP OR CS_Sample_Bits_12"
definition CS_RGBP14 :: "32 word" where "CS_RGBP14 = CS_GENERIC_RGBP OR CS_Sample_Bits_14"
definition CS_RGBP16 :: "32 word" where "CS_RGBP16 = CS_GENERIC_RGBP OR CS_Sample_Bits_16"
definition CS_RGBPS :: "32 word" where "CS_RGBPS = CS_GENERIC_RGBP OR CS_Sample_Bits_32"
definition CS_YUVA420 :: "32 word" where "CS_YUVA420 = CS_GENERIC_YUVA420 OR CS_Sample_Bits_8"
definition CS_YUVA422 :: "32 word" where "CS_YUVA422 = CS_GENERIC_YUVA422 OR CS_Sample_Bits_8"
definition CS_YUVA444 :: "32 word" where "CS_YUVA444 = CS_GENERIC_YUVA444 OR CS_Sample_Bits_8"
definition CS_YUVA420P10 :: "32 word" where "CS_YUVA420P10 = CS_GENERIC_YUVA420 OR CS_Sample_Bits_10"
definition CS_YUVA422P10 :: "32 word" where "CS_YUVA422P10 = CS_GENERIC_YUVA422 OR CS_Sample_Bits_10"
definition CS_YUVA444P10 :: "32 word" where "CS_YUVA444P10 = CS_GENERIC_YUVA444 OR CS_Sample_Bits_10"
definition CS_YUVA420P12 :: "32 word" where "CS_YUVA420P12 = CS_GENERIC_YUVA420 OR CS_Sample_Bits_12"
definition CS_YUVA422P12 :: "32 word" where "CS_YUVA422P12 = CS_GENERIC_YUVA422 OR CS_Sample_Bits_12"
definition CS_YUVA444P12 :: "32 word" where "CS_YUVA444P12 = CS_GENERIC_YUVA444 OR CS_Sample_Bits_12"
definition CS_YUVA420P14 :: "32 word" where "CS_YUVA420P14 = CS_GENERIC_YUVA420 OR CS_Sample_Bits_14"
definition CS_YUVA422P14 :: "32 word" where "CS_YUVA422P14 = CS_GENERIC_YUVA422 OR CS_Sample_Bits_14"
definition CS_YUVA444P14 :: "32 word" where "CS_YUVA444P14 = CS_GENERIC_YUVA444 OR CS_Sample_Bits_14"
definition CS_YUVA420P16 :: "32 word" where "CS_YUVA420P16 = CS_GENERIC_YUVA420 OR CS_Sample_Bits_16"
definition CS_YUVA422P16 :: "32 word" where "CS_YUVA422P16 = CS_GENERIC_YUVA422 OR CS_Sample_Bits_16"
definition CS_YUVA444P16 :: "32 word" where "CS_YUVA444P16 = CS_GENERIC_YUVA444 OR CS_Sample_Bits_16"
definition CS_YUVA420PS :: "32 word" where "CS_YUVA420PS = CS_GENERIC_YUVA420 OR CS_Sample_Bits_32"
definition CS_YUVA422PS :: "32 word" where "CS_YUVA422PS = CS_GENERIC_YUVA422 OR CS_Sample_Bits_32"
definition CS_YUVA444PS :: "32 word" where "CS_YUVA444PS = CS_GENERIC_YUVA444 OR CS_Sample_Bits_32"
definition CS_RGBAP :: "32 word" where "CS_RGBAP = CS_GENERIC_RGBAP OR CS_Sample_Bits_8"
definition CS_RGBAP10 :: "32 word" where "CS_RGBAP10 = CS_GENERIC_RGBAP OR CS_Sample_Bits_10"
definition CS_RGBAP12 :: "32 word" where "CS_RGBAP12 = CS_GENERIC_RGBAP OR CS_Sample_Bits_12"
definition CS_RGBAP14 :: "32 word" where "CS_RGBAP14 = CS_GENERIC_RGBAP OR CS_Sample_Bits_14"
definition CS_RGBAP16 :: "32 word" where "CS_RGBAP16 = CS_GENERIC_RGBAP OR CS_Sample_Bits_16"
definition CS_RGBAPS :: "32 word" where "CS_RGBAPS = CS_GENERIC_RGBAP OR CS_Sample_Bits_32"

text \<open>The tables in the order of their initialisers; a \<^verbatim>\<open>std::map\<close> is iterated in the order of its
  keys, which are signed integers, a \<^verbatim>\<open>std::multimap\<close> keeps equal keys in the order of insertion.\<close>

definition pixel_format_table :: "(32 word \<times> string) list" where
  "pixel_format_table = [
    (CS_BGR24, ''RGB24''), (CS_BGR32, ''RGB32''), (CS_YUY2, ''YUY2''), (CS_YV24, ''YV24''),
    (CS_YV16, ''YV16''), (CS_YV12, ''YV12''), (CS_I420, ''YV12''), (CS_YUV9, ''YUV9''),
    (CS_YV411, ''YV411''), (CS_Y8, ''Y8''), (CS_YUV420P10, ''YUV420P10''), (CS_YUV422P10, ''YUV422P10''),
    (CS_YUV444P10, ''YUV444P10''), (CS_Y10, ''Y10''), (CS_YUV420P12, ''YUV420P12''),
    (CS_YUV422P12, ''YUV422P12''), (CS_YUV444P12, ''YUV444P12''), (CS_Y12, ''Y12''),
    (CS_YUV420P14, ''YUV420P14''), (CS_YUV422P14, ''YUV422P14''), (CS_YUV444P14, ''YUV444P14''),
    (CS_Y14, ''Y14''), (CS_YUV420P16, ''YUV420P16''), (CS_YUV422P16, ''YUV422P16''),
    (CS_YUV444P16, ''YUV444P16''), (CS_Y16, ''Y16''), (CS_YUV420PS, ''YUV420PS''),
    (CS_YUV422PS, ''YUV422PS''), (CS_YUV444PS, ''YUV444PS''), (CS_Y32, ''Y32''), (CS_BGR48, ''RGB48''),
    (CS_BGR64, ''RGB64''), (CS_RGBP, ''RGBP''), (CS_RGBP10, ''RGBP10''), (CS_RGBP12, ''RGBP12''),
    (CS_RGBP14, ''RGBP14''), (CS_RGBP16, ''RGBP16''), (CS_RGBPS, ''RGBPS''), (CS_YUVA420, ''YUVA420''),
    (CS_YUVA422, ''YUVA422''), (CS_YUVA444, ''YUVA444''), (CS_YUVA420P10, ''YUVA420P10''),
    (CS_YUVA422P10, ''YUVA422P10''), (CS_YUVA444P10, ''YUVA444P10''), (CS_YUVA420P12, ''YUVA420P12''),
    (CS_YUVA422P12, ''YUVA422P12''), (CS_YUVA444P12, ''YUVA444P12''), (CS_YUVA420P14, ''YUVA420P14''),
    (CS_YUVA422P14, ''YUVA422P14''), (CS_YUVA444P14, ''YUVA444P14''), (CS_YUVA420P16, ''YUVA420P16''),
    (CS_YUVA422P16, ''YUVA422P16''), (CS_YUVA444P16, ''YUVA444P16''), (CS_YUVA420PS, ''YUVA420PS''),
    (CS_YUVA422PS, ''YUVA422PS''), (CS_YUVA444PS, ''YUVA444PS''), (CS_RGBAP, ''RGBAP''),
    (CS_RGBAP10, ''RGBAP10''), (CS_RGBAP12, ''RGBAP12''), (CS_RGBAP14, ''RGBAP14''),
    (CS_RGBAP16, ''RGBAP16''), (CS_RGBAPS, ''RGBAPS'')]"

definition pixel_format_table_ex :: "(32 word \<times> string) list" where
  "pixel_format_table_ex = [
    (CS_YV24, ''YUV444''), (CS_YV16, ''YUV422''), (CS_YV12, ''YUV420''), (CS_YV411, ''YUV411''),
    (CS_RGBP, ''RGBP8''), (CS_RGBAP, ''RGBAP8''), (CS_YV24, ''YUV444P8''), (CS_YV16, ''YUV422P8''),
    (CS_YV12, ''YUV420P8''), (CS_YV411, ''YUV411P8''), (CS_YUVA420, ''YUVA420P8''),
    (CS_YUVA422, ''YUVA422P8''), (CS_YUVA444, ''YUVA444P8'')]"

definition key_order :: "(32 word \<times> string) list \<Rightarrow> (32 word \<times> string) list" where
  "key_order = sort_key (\<lambda>(k, _). sint k)"

definition GetPixelTypeName :: "32 word \<Rightarrow> string" where
  "GetPixelTypeName pt = (case map_of pixel_format_table pt of Some n \<Rightarrow> n | None \<Rightarrow> [])"

definition GetPixelTypeFromName :: "string \<Rightarrow> 32 word" where
  "GetPixelTypeFromName pixeltypename =
    (let name_to_find = map c_toupper pixeltypename; found = (\<lambda>(_, n). n = name_to_find)
     in case find found (key_order pixel_format_table) of Some (k, _) \<Rightarrow> k
        | None \<Rightarrow> (case find found (key_order pixel_format_table_ex) of Some (k, _) \<Rightarrow> k | None \<Rightarrow> CS_UNKNOWN))"

section \<open>Properties of a clip\<close>

definition VI :: "(nat \<Rightarrow> VideoInfo) \<Rightarrow> AVSValue \<Rightarrow> VideoInfo scr" where
  "VI clips v = (case v of VClip c \<Rightarrow> Inr (clips c) | _ \<Rightarrow> Inl Crash)"

definition clip_value :: "(VideoInfo \<Rightarrow> AVSValue) \<Rightarrow> (nat \<Rightarrow> VideoInfo) \<Rightarrow> AVSValue \<Rightarrow> AVSValue scr" where
  "clip_value f clips args = bind_r (VI clips (arg args 0)) (\<lambda>vi. Inr (f vi))"

definition PixelType :: "(nat \<Rightarrow> VideoInfo) \<Rightarrow> AVSValue \<Rightarrow> AVSValue scr" where
  "PixelType = clip_value (\<lambda>vi. VString (GetPixelTypeName (pixel_type vi)))"

definition ColorSpaceNameToPixelType :: "AVSValue \<Rightarrow> AVSValue scr" where
  "ColorSpaceNameToPixelType args = str_arg args 0 (\<lambda>s. Inr (VInt (sint (GetPixelTypeFromName s))))"

definition clip_Width :: "(nat \<Rightarrow> VideoInfo) \<Rightarrow> AVSValue \<Rightarrow> AVSValue scr" where
  "clip_Width = clip_value (\<lambda>vi. VInt (width vi))"
definition clip_Height :: "(nat \<Rightarrow> VideoInfo) \<Rightarrow> AVSValue \<Rightarrow> AVSValue scr" where
  "clip_Height = clip_value (\<lambda>vi. VInt (height vi))"
definition clip_FrameCount :: "(nat \<Rightarrow> VideoInfo) \<Rightarrow> AVSValue \<Rightarrow> AVSValue scr" where
  "clip_FrameCount = clip_value (\<lambda>vi. VInt (num_frames vi))"
definition clip_FrameRate :: "(nat \<Rightarrow> VideoInfo) \<Rightarrow> AVSValue \<Rightarrow> AVSValue scr" where
  "clip_FrameRate = clip_value (\<lambda>vi. VDouble (fp_div binary64 (fp_of_int binary64 (fps_numerator vi)) (fp_of_int binary64 (fps_denominator vi))))"
definition clip_FrameRateNumerator :: "(nat \<Rightarrow> VideoInfo) \<Rightarrow> AVSValue \<Rightarrow> AVSValue scr" where
  "clip_FrameRateNumerator = clip_value (\<lambda>vi. VInt (wrap32 (fps_numerator vi)))"
definition clip_FrameRateDenominator :: "(nat \<Rightarrow> VideoInfo) \<Rightarrow> AVSValue \<Rightarrow> AVSValue scr" where
  "clip_FrameRateDenominator = clip_value (\<lambda>vi. VInt (wrap32 (fps_denominator vi)))"
definition clip_AudioRate :: "(nat \<Rightarrow> VideoInfo) \<Rightarrow> AVSValue \<Rightarrow> AVSValue scr" where
  "clip_AudioRate = clip_value (\<lambda>vi. VInt (audio_samples_per_second vi))"
definition clip_AudioLength :: "(nat \<Rightarrow> VideoInfo) \<Rightarrow> AVSValue \<Rightarrow> AVSValue scr" where
  "clip_AudioLength = clip_value (\<lambda>vi. VLong (num_audio_samples vi))"
definition clip_AudioLengthF :: "(nat \<Rightarrow> VideoInfo) \<Rightarrow> AVSValue \<Rightarrow> AVSValue scr" where
  "clip_AudioLengthF = clip_value (\<lambda>vi. VDouble (fp_of_int binary64 (num_audio_samples vi)))"
definition clip_AudioDuration :: "(nat \<Rightarrow> VideoInfo) \<Rightarrow> AVSValue \<Rightarrow> AVSValue scr" where
  "clip_AudioDuration = clip_value (\<lambda>vi. VDouble (fp_div binary64 (fp_of_int binary64 (num_audio_samples vi)) (fp_of_int binary64 (audio_samples_per_second vi))))"
definition clip_AudioChannels :: "(nat \<Rightarrow> VideoInfo) \<Rightarrow> AVSValue \<Rightarrow> AVSValue scr" where
  "clip_AudioChannels = clip_value (\<lambda>vi. VInt (if HasAudio vi then nchannels vi else 0))"
definition clip_AudioBits :: "(nat \<Rightarrow> VideoInfo) \<Rightarrow> AVSValue \<Rightarrow> AVSValue scr" where
  "clip_AudioBits = clip_value (\<lambda>vi. VInt (BytesPerChannelSample vi * 8))"
definition clip_IsAudioFloat :: "(nat \<Rightarrow> VideoInfo) \<Rightarrow> AVSValue \<Rightarrow> AVSValue scr" where
  "clip_IsAudioFloat = clip_value (\<lambda>vi. VBool (IsSampleType vi SAMPLE_FLOAT))"
definition clip_IsAudioInt :: "(nat \<Rightarrow> VideoInfo) \<Rightarrow> AVSValue \<Rightarrow> AVSValue scr" where
  "clip_IsAudioInt = clip_value (\<lambda>vi. VBool (IsSampleType vi (SAMPLE_INT8 OR SAMPLE_INT16 OR SAMPLE_INT24 OR SAMPLE_INT32)))"
definition clip_IsChannelMaskKnown :: "(nat \<Rightarrow> VideoInfo) \<Rightarrow> AVSValue \<Rightarrow> AVSValue scr" where
  "clip_IsChannelMaskKnown = clip_value (\<lambda>vi. VBool (IsChannelMaskKnown vi))"
definition clip_GetChannelMask :: "(nat \<Rightarrow> VideoInfo) \<Rightarrow> AVSValue \<Rightarrow> AVSValue scr" where
  "clip_GetChannelMask = clip_value (\<lambda>vi. VInt (sint (GetChannelMask vi)))"
definition clip_IsRGB :: "(nat \<Rightarrow> VideoInfo) \<Rightarrow> AVSValue \<Rightarrow> AVSValue scr" where
  "clip_IsRGB = clip_value (\<lambda>vi. VBool (IsRGB vi))"
definition clip_IsRGB24 :: "(nat \<Rightarrow> VideoInfo) \<Rightarrow> AVSValue \<Rightarrow> AVSValue scr" where
  "clip_IsRGB24 = clip_value (\<lambda>vi. VBool (IsRGB24 vi))"
definition clip_IsRGB32 :: "(nat \<Rightarrow> VideoInfo) \<Rightarrow> AVSValue \<Rightarrow> AVSValue scr" where
  "clip_IsRGB32 = clip_value (\<lambda>vi. VBool (IsRGB32 vi))"
definition clip_IsYUV :: "(nat \<Rightarrow> VideoInfo) \<Rightarrow> AVSValue \<Rightarrow> AVSValue scr" where
  "clip_IsYUV = clip_value (\<lambda>vi. VBool (IsYUV vi))"
definition clip_IsYUY2 :: "(nat \<Rightarrow> VideoInfo) \<Rightarrow> AVSValue \<Rightarrow> AVSValue scr" where
  "clip_IsYUY2 = clip_value (\<lambda>vi. VBool (IsYUY2 vi))"
definition clip_IsY8 :: "(nat \<Rightarrow> VideoInfo) \<Rightarrow> AVSValue \<Rightarrow> AVSValue scr" where
  "clip_IsY8 = clip_value (\<lambda>vi. VBool (IsY8 vi))"
definition clip_IsYV12 :: "(nat \<Rightarrow> VideoInfo) \<Rightarrow> AVSValue \<Rightarrow> AVSValue scr" where
  "clip_IsYV12 = clip_value (\<lambda>vi. VBool (IsYV12 vi))"
definition clip_IsYV16 :: "(nat \<Rightarrow> VideoInfo) \<Rightarrow> AVSValue \<Rightarrow> AVSValue scr" where
  "clip_IsYV16 = clip_value (\<lambda>vi. VBool (IsYV16 vi))"
definition clip_IsYV24 :: "(nat \<Rightarrow> VideoInfo) \<Rightarrow> AVSValue \<Rightarrow> AVSValue scr" where
  "clip_IsYV24 = clip_value (\<lambda>vi. VBool (IsYV24 vi))"
definition clip_IsYV411 :: "(nat \<Rightarrow> VideoInfo) \<Rightarrow> AVSValue \<Rightarrow> AVSValue scr" where
  "clip_IsYV411 = clip_value (\<lambda>vi. VBool (IsYV411 vi))"
definition clip_IsPlanar :: "(nat \<Rightarrow> VideoInfo) \<Rightarrow> AVSValue \<Rightarrow> AVSValue scr" where
  "clip_IsPlanar = clip_value (\<lambda>vi. VBool (IsPlanar vi))"
definition clip_IsInterleaved :: "(nat \<Rightarrow> VideoInfo) \<Rightarrow> AVSValue \<Rightarrow> AVSValue scr" where
  "clip_IsInterleaved = clip_value (\<lambda>vi. VBool (IsColorSpace vi CS_INTERLEAVED))"
definition clip_IsFieldBased :: "(nat \<Rightarrow> VideoInfo) \<Rightarrow> AVSValue \<Rightarrow> AVSValue scr" where
  "clip_IsFieldBased = clip_value (\<lambda>vi. VBool (IsFieldBased vi))"
definition clip_IsFrameBased :: "(nat \<Rightarrow> VideoInfo) \<Rightarrow> AVSValue \<Rightarrow> AVSValue scr" where
  "clip_IsFrameBased = clip_value (\<lambda>vi. VBool (\<not> IsFieldBased vi))"
definition clip_HasVideo :: "(nat \<Rightarrow> VideoInfo) \<Rightarrow> AVSValue \<Rightarrow> AVSValue scr" where
  "clip_HasVideo = clip_value (\<lambda>vi. VBool (HasVideo vi))"
definition clip_HasAudio :: "(nat \<Rightarrow> VideoInfo) \<Rightarrow> AVSValue \<Rightarrow> AVSValue scr" where
  "clip_HasAudio = clip_value (\<lambda>vi. VBool (HasAudio vi))"
definition clip_IsY :: "(nat \<Rightarrow> VideoInfo) \<Rightarrow> AVSValue \<Rightarrow> AVSValue scr" where
  "clip_IsY = clip_value (\<lambda>vi. VBool (IsY vi))"
definition clip_Is420 :: "(nat \<Rightarrow> VideoInfo) \<Rightarrow> AVSValue \<Rightarrow> AVSValue scr" where
  "clip_Is420 = clip_value (\<lambda>vi. VBool (Is420 vi))"
definition clip_Is422 :: "(nat \<Rightarrow> VideoInfo) \<Rightarrow> AVSValue \<Rightarrow> AVSValue scr" where
  "clip_Is422 = clip_value (\<lambda>vi. VBool (Is422 vi))"
definition clip_Is444 :: "(nat \<Rightarrow> VideoInfo) \<Rightarrow> AVSValue \<Rightarrow> AVSValue scr" where
  "clip_Is444 = clip_value (\<lambda>vi. VBool (Is444 vi))"
definition clip_IsRGB48 :: "(nat \<Rightarrow> VideoInfo) \<Rightarrow> AVSValue \<Rightarrow> AVSValue scr" where
  "clip_IsRGB48 = clip_value (\<lambda>vi. VBool (IsRGB48 vi))"
definition clip_IsRGB64 :: "(nat \<Rightarrow> VideoInfo) \<Rightarrow> AVSValue \<Rightarrow> AVSValue scr" where
  "clip_IsRGB64 = clip_value (\<lambda>vi. VBool (IsRGB64 vi))"
definition clip_ComponentSize :: "(nat \<Rightarrow> VideoInfo) \<Rightarrow> AVSValue \<Rightarrow> AVSValue scr" where
  "clip_ComponentSize = clip_value (\<lambda>vi. VInt (ComponentSize vi))"
definition clip_BitsPerComponent :: "(nat \<Rightarrow> VideoInfo) \<Rightarrow> AVSValue \<Rightarrow> AVSValue scr" where
  "clip_BitsPerComponent = clip_value (\<lambda>vi. VInt (BitsPerComponent vi))"
definition clip_IsYUVA :: "(nat \<Rightarrow> VideoInfo) \<Rightarrow> AVSValue \<Rightarrow> AVSValue scr" where
  "clip_IsYUVA = clip_value (\<lambda>vi. VBool (IsYUVA vi))"
definition clip_IsPlanarRGB :: "(nat \<Rightarrow> VideoInfo) \<Rightarrow> AVSValue \<Rightarrow> AVSValue scr" where
  "clip_IsPlanarRGB = clip_value (\<lambda>vi. VBool (IsPlanarRGB vi))"
definition clip_IsPlanarRGBA :: "(nat \<Rightarrow> VideoInfo) \<Rightarrow> AVSValue \<Rightarrow> AVSValue scr" where
  "clip_IsPlanarRGBA = clip_value (\<lambda>vi. VBool (IsPlanarRGBA vi))"
definition clip_NumComponents :: "(nat \<Rightarrow> VideoInfo) \<Rightarrow> AVSValue \<Rightarrow> AVSValue scr" where
  "clip_NumComponents = clip_value (\<lambda>vi. VInt (NumComponents vi))"
definition clip_HasAlpha :: "(nat \<Rightarrow> VideoInfo) \<Rightarrow> AVSValue \<Rightarrow> AVSValue scr" where
  "clip_HasAlpha = clip_value (\<lambda>vi. VBool (IsPlanarRGBA vi \<or> IsYUVA vi \<or> IsRGB32 vi \<or> IsRGB64 vi))"
definition clip_IsPackedRGB :: "(nat \<Rightarrow> VideoInfo) \<Rightarrow> AVSValue \<Rightarrow> AVSValue scr" where
  "clip_IsPackedRGB = clip_value (\<lambda>vi. VBool (IsRGB24 vi \<or> IsRGB32 vi \<or> IsRGB48 vi \<or> IsRGB64 vi))"
definition clip_IsVideoFloat :: "(nat \<Rightarrow> VideoInfo) \<Rightarrow> AVSValue \<Rightarrow> AVSValue scr" where
  "clip_IsVideoFloat = clip_value (\<lambda>vi. VBool (BitsPerComponent vi = 32))"

text \<open>The length of the audio in two halves; the divisor is the second argument as an unsigned number.\<close>

definition audio_length_part :: "(int \<Rightarrow> int \<Rightarrow> int) \<Rightarrow> (nat \<Rightarrow> VideoInfo) \<Rightarrow> AVSValue \<Rightarrow> AVSValue scr" where
  "audio_length_part f clips args = bind_r (VI clips (arg args 0)) (\<lambda>vi.
     let d = AsInt2 (arg args 1) 1000000000 mod 2 ^ 32
     in if d = 0 then Inl Trap else Inr (VInt (wrap32 (f (num_audio_samples vi) d))))"

definition AudioLengthLo :: "(nat \<Rightarrow> VideoInfo) \<Rightarrow> AVSValue \<Rightarrow> AVSValue scr" where
  "AudioLengthLo = audio_length_part (\<lambda>a d. if a < 0 then - ((- a) mod d) else a mod d)"

definition AudioLengthHi :: "(nat \<Rightarrow> VideoInfo) \<Rightarrow> AVSValue \<Rightarrow> AVSValue scr" where
  "AudioLengthHi = audio_length_part (\<lambda>a d. if a < 0 then - ((- a) div d) else a div d)"

definition AudioLengthS :: "(nat \<Rightarrow> VideoInfo) \<Rightarrow> AVSValue \<Rightarrow> AVSValue scr" where
  "AudioLengthS clips args = bind_r (VI clips (arg args 0)) (\<lambda>vi. SaveString (show_int (num_audio_samples vi)))"

section \<open>Building the name of a format\<close>

text \<open>The family of a sample clip.\<close>

definition template_family :: "VideoInfo \<Rightarrow> string scr" where
  "template_family vi =
    (if IsY vi then Inr ''Y''
     else if IsPlanar vi then
       (if IsYUV vi then Inr ''YUV'' else if IsYUVA vi then Inr ''YUVA''
        else if IsPlanarRGB vi then Inr ''RGB'' else if IsPlanarRGBA vi then Inr ''RGBA''
        else script_error ''BuildPixelType error: invalid sample_clip format'')
     else if IsRGB24 vi \<or> IsRGB48 vi then Inr ''RGB''
     else if IsRGB32 vi \<or> IsRGB64 vi then Inr ''RGBA''
     else script_error ''BuildPixelType error: invalid sample_clip format'')"

text \<open>The subsampling of a sample clip; an error of \<open>VideoInfo\<close> is thrown on.\<close>

definition from_vi :: "(string, 'a) result \<Rightarrow> 'a scr" where
  "from_vi r = (case r of Inl msg \<Rightarrow> script_error msg | Inr a \<Rightarrow> Inr a)"

definition template_chroma :: "VideoInfo \<Rightarrow> int scr" where
  "template_chroma vi = bind_r (from_vi (GetPlaneWidthSubsampling vi PLANAR_U)) (\<lambda>hs.
     bind_r (from_vi (GetPlaneHeightSubsampling vi PLANAR_U)) (\<lambda>vs.
       if hs = 0 \<and> vs = 0 then Inr 444 else if hs = 1 \<and> vs = 0 then Inr 422
       else if hs = 1 \<and> vs = 1 then Inr 420 else if hs = 2 \<and> vs = 0 then Inr 411
       else script_error ''BuildPixelType error: sample_clip has invalid chroma subsampling.''))"

text \<open>The text after the family: subsampling, then bits, then the old names.\<close>

definition format_name :: "string \<Rightarrow> int \<Rightarrow> int \<Rightarrow> bool \<Rightarrow> string" where
  "format_name family bits chroma oldNames =
    (let isY = (family = ''Y''); isChroma = (family = ''YUV'' \<or> family = ''YUVA'');
         f = (if isChroma \<or> isY then family else if family = ''RGB'' then ''RGBP'' else ''RGBAP'');
         f = (if isChroma then f @ (if chroma = 444 then ''444'' else if chroma = 422 then ''422''
                else if chroma = 420 then ''420'' else ''411'') @ ''P'' else f);
         f = (if bits = 32 then f @ (if isY then ''32'' else ''S'') else f @ show_int bits);
         f = (if oldNames
              then (if f = ''YUV420'' \<or> f = ''YUV420P8'' then ''YV12''
                    else if f = ''YUV422'' \<or> f = ''YUV422P8'' then ''YV16''
                    else if f = ''YUV444'' \<or> f = ''YUV444P8'' then ''YV24'' else f)
              else f)
     in if f = ''YUV411'' then ''YV411'' else f)"

definition packed_name :: "string \<Rightarrow> int \<Rightarrow> string" where
  "packed_name family bits =
    (if family = ''RGB'' \<and> bits = 8 then ''RGB24'' else if family = ''RGB'' \<and> bits = 16 then ''RGB48''
     else if family = ''RGBA'' \<and> bits = 8 then ''RGB32'' else ''RGB64'')"

definition apo_quoted :: "string \<Rightarrow> string" where "apo_quoted s = [APO] @ s @ [APO]"

text \<open>An argument that is left out is taken from the sample clip, the sixth argument.\<close>

definition build_family :: "(nat \<Rightarrow> VideoInfo) \<Rightarrow> AVSValue \<Rightarrow> string scr" where
  "build_family clips args =
    (if \<not> Defined (arg args 0) \<and> Defined (arg args 5) then bind_r (VI clips (arg args 5)) template_family
     else str_arg args 0 (\<lambda>s. Inr (map c_toupper s)))"

definition build_bits :: "(nat \<Rightarrow> VideoInfo) \<Rightarrow> AVSValue \<Rightarrow> int scr" where
  "build_bits clips args =
    (if \<not> Defined (arg args 1) \<and> Defined (arg args 5) then bind_r (VI clips (arg args 5)) (\<lambda>vi. Inr (BitsPerComponent vi))
     else need (AsInt (arg args 1)))"

definition build_chroma :: "(nat \<Rightarrow> VideoInfo) \<Rightarrow> AVSValue \<Rightarrow> string \<Rightarrow> int scr" where
  "build_chroma clips args family =
    (if family = ''YUV'' \<or> family = ''YUVA''
     then (if \<not> Defined (arg args 2) \<and> Defined (arg args 5) then bind_r (VI clips (arg args 5)) template_chroma
           else Inr (AsInt2 (arg args 2) 444))
     else Inr 444)"

text \<open>The checks of the combination, and the name.\<close>

definition build_name :: "AVSValue \<Rightarrow> string \<Rightarrow> int \<Rightarrow> int \<Rightarrow> AVSValue scr" where
  "build_name args family bits chroma =
    (let compat = ((family = ''RGB'' \<or> family = ''RGBA'') \<and> AsBool2 (arg args 3) False);
         oldNames = AsBool2 (arg args 4) False
     in if compat \<and> bits \<noteq> 8 \<and> bits \<noteq> 16
        then script_error (''BuildPixelType error: '' @ apo_quoted ''compat'' @ ''=true requires bits=8 or 16 for RGB(A).'')
        else if chroma = 411 \<and> bits \<noteq> 8
        then script_error ''BuildPixelType error: 411 is supported only for 8 bits.''
        else if compat then Inr (VString (packed_name family bits))
        else SaveString (format_name family bits chroma oldNames))"

definition BuildPixelType :: "(nat \<Rightarrow> VideoInfo) \<Rightarrow> AVSValue \<Rightarrow> AVSValue scr" where
  "BuildPixelType clips args =
    (if \<not> Defined (arg args 0) \<and> \<not> Defined (arg args 5)
     then script_error (''BuildPixelType error: no color space '' @ apo_quoted ''family'' @ '' or template '' @ apo_quoted ''sample_clip'' @ '' specified'')
     else if \<not> Defined (arg args 1) \<and> \<not> Defined (arg args 5)
     then script_error (''BuildPixelType error: no '' @ apo_quoted ''bits'' @ '' or  template '' @ apo_quoted ''sample_clip'' @ '' specified'')
     else bind_r (build_family clips args) (\<lambda>family.
       if family \<notin> {''YUV'', ''YUVA'', ''RGB'', ''RGBA'', ''Y''}
       then script_error (''BuildPixelType error: wrong '' @ apo_quoted ''family'' @ ''.'')
       else bind_r (build_bits clips args) (\<lambda>bits.
         if bits \<notin> {8, 10, 12, 14, 16, 32}
         then script_error (''BuildPixelType error: '' @ apo_quoted ''bits'' @ ''='' @ show_int bits @ '' is not valid.'')
         else bind_r (build_chroma clips args family) (\<lambda>chroma.
           if chroma \<notin> {444, 422, 420, 411}
           then script_error (''BuildPixelType error: '' @ apo_quoted ''chroma'' @ '' must be 444, 422, 420 or 411.'')
           else build_name args family bits chroma))))"

section \<open>Names read back\<close>

lemma pixel_values:
  shows "CS_YUV420P10 = 0xA0050008"
  and "CS_YUV422P10 = 0xA0050308"
  and "CS_YUV444P10 = 0xA005030B"
  and "CS_YUV420P12 = 0xA0060008"
  and "CS_YUV422P12 = 0xA0060308"
  and "CS_YUV444P12 = 0xA006030B"
  and "CS_YUV420P14 = 0xA0070008"
  and "CS_YUV422P14 = 0xA0070308"
  and "CS_YUV444P14 = 0xA007030B"
  and "CS_YUV420P16 = 0xA0010008"
  and "CS_YUV422P16 = 0xA0010308"
  and "CS_YUV444P16 = 0xA001030B"
  and "CS_YUV420PS = 0xA0020008"
  and "CS_YUV422PS = 0xA0020308"
  and "CS_YUV444PS = 0xA002030B"
  and "CS_RGBP = 0x90000001"
  and "CS_RGBP10 = 0x90050001"
  and "CS_RGBP12 = 0x90060001"
  and "CS_RGBP14 = 0x90070001"
  and "CS_RGBP16 = 0x90010001"
  and "CS_RGBPS = 0x90020001"
  and "CS_YUVA420 = 0x88000008"
  and "CS_YUVA422 = 0x88000308"
  and "CS_YUVA444 = 0x8800030B"
  and "CS_YUVA420P10 = 0x88050008"
  and "CS_YUVA422P10 = 0x88050308"
  and "CS_YUVA444P10 = 0x8805030B"
  and "CS_YUVA420P12 = 0x88060008"
  and "CS_YUVA422P12 = 0x88060308"
  and "CS_YUVA444P12 = 0x8806030B"
  and "CS_YUVA420P14 = 0x88070008"
  and "CS_YUVA422P14 = 0x88070308"
  and "CS_YUVA444P14 = 0x8807030B"
  and "CS_YUVA420P16 = 0x88010008"
  and "CS_YUVA422P16 = 0x88010308"
  and "CS_YUVA444P16 = 0x8801030B"
  and "CS_YUVA420PS = 0x88020008"
  and "CS_YUVA422PS = 0x88020308"
  and "CS_YUVA444PS = 0x8802030B"
  and "CS_RGBAP = 0x90000002"
  and "CS_RGBAP10 = 0x90050002"
  and "CS_RGBAP12 = 0x90060002"
  and "CS_RGBAP14 = 0x90070002"
  and "CS_RGBAP16 = 0x90010002"
  and "CS_RGBAPS = 0x90020002"
  by (simp_all add: CS_YUV420P10_def CS_YUV422P10_def CS_YUV444P10_def CS_YUV420P12_def CS_YUV422P12_def CS_YUV444P12_def CS_YUV420P14_def CS_YUV422P14_def CS_YUV444P14_def CS_YUV420P16_def CS_YUV422P16_def CS_YUV444P16_def CS_YUV420PS_def CS_YUV422PS_def CS_YUV444PS_def CS_RGBP_def CS_RGBP10_def CS_RGBP12_def CS_RGBP14_def CS_RGBP16_def CS_RGBPS_def CS_YUVA420_def CS_YUVA422_def CS_YUVA444_def CS_YUVA420P10_def CS_YUVA422P10_def CS_YUVA444P10_def CS_YUVA420P12_def CS_YUVA422P12_def CS_YUVA444P12_def CS_YUVA420P14_def CS_YUVA422P14_def CS_YUVA444P14_def CS_YUVA420P16_def CS_YUVA422P16_def CS_YUVA444P16_def CS_YUVA420PS_def CS_YUVA422PS_def CS_YUVA444PS_def CS_RGBAP_def CS_RGBAP10_def CS_RGBAP12_def CS_RGBAP14_def CS_RGBAP16_def CS_RGBAPS_def cs_values)

lemma find_sort_key:
  assumes "x \<in> set xs" "P x" "\<And>y. y \<in> set xs \<Longrightarrow> P y \<Longrightarrow> y = x \<or> f x < f y"
  shows "find P (sort_key f xs) = Some x"
proof -
  obtain z where z: "find P (sort_key f xs) = Some z"
    using assms(1,2) by (cases "find P (sort_key f xs)") (auto simp: find_None_iff)
  then obtain i where i: "i < length (sort_key f xs)" "z = sort_key f xs ! i" "P z" "\<forall>j<i. \<not> P (sort_key f xs ! j)"
    by (auto simp: find_Some_iff)
  have zs: "z \<in> set xs" using i(1,2) nth_mem [OF i(1)] by simp
  show ?thesis
  proof (cases "z = x")
    case False
    with assms(3) [OF zs i(3)] have less: "f x < f z" by simp
    obtain j where j: "j < length (sort_key f xs)" "sort_key f xs ! j = x"
      using assms(1) by (metis in_set_conv_nth set_sort)
    have "i < j" using i(4) j assms(2) False i(2) by (metis linorder_neqE_nat)
    then have "f (sort_key f xs ! i) \<le> f (sort_key f xs ! j)"
      using sorted_nth_mono [of "map f (sort_key f xs)" i j] j(1) by simp
    with less i(2) j(2) show ?thesis by simp
  qed (use z in simp)
qed

lemmas table_lists = take_Suc_Cons drop_Suc_Cons list.map snd_conv append.simps take_0 drop_0 numeral_eq_Suc pred_numeral_simps

lemma table_split: "pixel_format_table = take 6 pixel_format_table @ (CS_I420, ''YV12'') # drop 7 pixel_format_table"
  unfolding pixel_format_table_def by (simp only: table_lists) simp

lemma distinct_names: "distinct (map snd (take 6 pixel_format_table @ drop 7 pixel_format_table))"
  unfolding pixel_format_table_def by (simp only: table_lists) simp

lemma distinct_names_ex: "distinct (map snd pixel_format_table_ex)"
  unfolding pixel_format_table_ex_def by (simp only: table_lists) simp

lemma upper_names: "list_all (\<lambda>n. map c_toupper n = n) (map snd pixel_format_table)"
  unfolding pixel_format_table_def by (simp only: table_lists) code_simp

lemma upper_names_ex: "list_all (\<lambda>n. map c_toupper n = n) (map snd pixel_format_table_ex)"
  unfolding pixel_format_table_ex_def by (simp only: table_lists) code_simp

lemma table_unique:
  assumes "(k, n) \<in> set pixel_format_table" "(k', n) \<in> set pixel_format_table"
  shows "k' = k \<or> n = ''YV12'' \<and> {k, k'} = {CS_YV12, CS_I420}"
proof -
  define T where "T = take 6 pixel_format_table @ drop 7 pixel_format_table"
  have s: "set pixel_format_table = insert (CS_I420, ''YV12'') (set T)" unfolding T_def by (subst table_split) auto
  have "inj_on snd (set T)" using distinct_names unfolding T_def [symmetric] by (simp only: distinct_map)
  then have u: "k1 = k2" if "(k1, m) \<in> set T" "(k2, m) \<in> set T" for k1 k2 m
    using inj_onD that by fastforce
  have "(CS_YV12, ''YV12'') \<in> set (take 6 pixel_format_table)"
    unfolding pixel_format_table_def by (simp only: table_lists) simp
  then have y: "(CS_YV12, ''YV12'') \<in> set T" by (simp add: T_def)
  from assms consider "(k, n) \<in> set T" "(k', n) \<in> set T" | "n = ''YV12''" "k = CS_I420" "(k', n) \<in> set T"
    | "n = ''YV12''" "k' = CS_I420" "(k, n) \<in> set T" | "k = CS_I420" "k' = CS_I420"
    unfolding s by auto
  then show ?thesis
    using u [of k n k'] u [of k "''YV12''" CS_YV12] u [of k' "''YV12''" CS_YV12] y by cases auto
qed

lemma name_found:
  assumes "(k, n) \<in> set pixel_format_table" "map c_toupper s = n"
  shows "GetPixelTypeFromName s = (if n = ''YV12'' then CS_YV12 else k)"
proof -
  let ?P = "\<lambda>(_, m). m = map c_toupper s" and ?f = "\<lambda>(k :: 32 word, _ :: string). sint k"
  define x where "x = (if n = ''YV12'' then CS_YV12 else k, n)"
  have m: "(CS_YV12, ''YV12'') \<in> set pixel_format_table" unfolding pixel_format_table_def by simp
  have l: "sint CS_YV12 < sint CS_I420" by (simp add: cs_values)
  have "find ?P (key_order pixel_format_table) = Some x"
    unfolding key_order_def
  proof (rule find_sort_key)
    show "x \<in> set pixel_format_table" using assms m by (auto simp: x_def)
    fix y assume y: "y \<in> set pixel_format_table" "?P y"
    obtain k' m where ym: "y = (k', m)" by (cases y)
    with y assms(2) have k': "y = (k', n)" "(k', n) \<in> set pixel_format_table" by simp_all
    show "y = x \<or> ?f x < ?f y"
    proof (cases "n = ''YV12''")
      case True
      with table_unique [OF m] k' have "k' = CS_YV12 \<or> k' = CS_I420" by (metis doubleton_eq_iff)
      then show ?thesis using k' l True by (auto simp: x_def)
    next
      case False
      with table_unique [OF assms(1) k'(2)] k' show ?thesis by (simp add: x_def)
    qed
  qed (use assms in \<open>simp add: x_def\<close>)
  then show ?thesis by (simp add: GetPixelTypeFromName_def Let_def x_def)
qed

lemma name_found_ex:
  assumes "n \<notin> snd ` set pixel_format_table" "(k, n) \<in> set pixel_format_table_ex"
  shows "GetPixelTypeFromName n = k"
proof -
  let ?P = "\<lambda>(_, m). m = map c_toupper n" and ?f = "\<lambda>(k :: 32 word, _ :: string). sint k"
  have u: "map c_toupper n = n" using upper_names_ex assms(2) by (force simp: list_all_iff)
  have "find ?P (key_order pixel_format_table) = None"
    using assms(1) u by (force simp: key_order_def find_None_iff)
  moreover have "find ?P (key_order pixel_format_table_ex) = Some (k, n)"
    unfolding key_order_def
  proof (rule find_sort_key)
    fix y assume "y \<in> set pixel_format_table_ex" "?P y"
    then show "y = (k, n) \<or> ?f (k, n) < ?f y"
      using distinct_names_ex assms(2) u unfolding distinct_map inj_on_def by force
  qed (use assms u in auto)
  ultimately show ?thesis by (simp add: GetPixelTypeFromName_def Let_def)
qed



section \<open>The format that is built\<close>

primrec family_param :: "family \<Rightarrow> string" where
  "family_param F_YUV444 = ''YUV''" | "family_param F_YUV422 = ''YUV''" | "family_param F_YUV420 = ''YUV''"
| "family_param F_Y = ''Y''" | "family_param F_RGBP = ''RGB''" | "family_param F_RGBAP = ''RGBA''"
| "family_param F_YUVA444 = ''YUVA''" | "family_param F_YUVA422 = ''YUVA''" | "family_param F_YUVA420 = ''YUVA''"

primrec chroma_param :: "family \<Rightarrow> int" where
  "chroma_param F_YUV444 = 444" | "chroma_param F_YUV422 = 422" | "chroma_param F_YUV420 = 420"
| "chroma_param F_Y = 444" | "chroma_param F_RGBP = 444" | "chroma_param F_RGBAP = 444"
| "chroma_param F_YUVA444 = 444" | "chroma_param F_YUVA422 = 422" | "chroma_param F_YUVA420 = 420"

lemma show_bits: "show_int 8 = ''8''" "show_int 10 = ''10''" "show_int 12 = ''12''" "show_int 14 = ''14''" "show_int 16 = ''16''"
  by code_simp+

lemma planar_consts:
  shows "planar_code F_YUV444 D8 = CS_YV24"
  and "planar_code F_YUV444 D10 = CS_YUV444P10"
  and "planar_code F_YUV444 D12 = CS_YUV444P12"
  and "planar_code F_YUV444 D14 = CS_YUV444P14"
  and "planar_code F_YUV444 D16 = CS_YUV444P16"
  and "planar_code F_YUV444 D32 = CS_YUV444PS"
  and "planar_code F_YUV422 D8 = CS_YV16"
  and "planar_code F_YUV422 D10 = CS_YUV422P10"
  and "planar_code F_YUV422 D12 = CS_YUV422P12"
  and "planar_code F_YUV422 D14 = CS_YUV422P14"
  and "planar_code F_YUV422 D16 = CS_YUV422P16"
  and "planar_code F_YUV422 D32 = CS_YUV422PS"
  and "planar_code F_YUV420 D8 = CS_YV12"
  and "planar_code F_YUV420 D10 = CS_YUV420P10"
  and "planar_code F_YUV420 D12 = CS_YUV420P12"
  and "planar_code F_YUV420 D14 = CS_YUV420P14"
  and "planar_code F_YUV420 D16 = CS_YUV420P16"
  and "planar_code F_YUV420 D32 = CS_YUV420PS"
  and "planar_code F_Y D8 = CS_Y8"
  and "planar_code F_Y D10 = CS_Y10"
  and "planar_code F_Y D12 = CS_Y12"
  and "planar_code F_Y D14 = CS_Y14"
  and "planar_code F_Y D16 = CS_Y16"
  and "planar_code F_Y D32 = CS_Y32"
  and "planar_code F_RGBP D8 = CS_RGBP"
  and "planar_code F_RGBP D10 = CS_RGBP10"
  and "planar_code F_RGBP D12 = CS_RGBP12"
  and "planar_code F_RGBP D14 = CS_RGBP14"
  and "planar_code F_RGBP D16 = CS_RGBP16"
  and "planar_code F_RGBP D32 = CS_RGBPS"
  and "planar_code F_RGBAP D8 = CS_RGBAP"
  and "planar_code F_RGBAP D10 = CS_RGBAP10"
  and "planar_code F_RGBAP D12 = CS_RGBAP12"
  and "planar_code F_RGBAP D14 = CS_RGBAP14"
  and "planar_code F_RGBAP D16 = CS_RGBAP16"
  and "planar_code F_RGBAP D32 = CS_RGBAPS"
  and "planar_code F_YUVA444 D8 = CS_YUVA444"
  and "planar_code F_YUVA444 D10 = CS_YUVA444P10"
  and "planar_code F_YUVA444 D12 = CS_YUVA444P12"
  and "planar_code F_YUVA444 D14 = CS_YUVA444P14"
  and "planar_code F_YUVA444 D16 = CS_YUVA444P16"
  and "planar_code F_YUVA444 D32 = CS_YUVA444PS"
  and "planar_code F_YUVA422 D8 = CS_YUVA422"
  and "planar_code F_YUVA422 D10 = CS_YUVA422P10"
  and "planar_code F_YUVA422 D12 = CS_YUVA422P12"
  and "planar_code F_YUVA422 D14 = CS_YUVA422P14"
  and "planar_code F_YUVA422 D16 = CS_YUVA422P16"
  and "planar_code F_YUVA422 D32 = CS_YUVA422PS"
  and "planar_code F_YUVA420 D8 = CS_YUVA420"
  and "planar_code F_YUVA420 D10 = CS_YUVA420P10"
  and "planar_code F_YUVA420 D12 = CS_YUVA420P12"
  and "planar_code F_YUVA420 D14 = CS_YUVA420P14"
  and "planar_code F_YUVA420 D16 = CS_YUVA420P16"
  and "planar_code F_YUVA420 D32 = CS_YUVA420PS"
  by (simp_all add: planar_code_def cs_values pixel_values)

primrec family_stem :: "family \<Rightarrow> string" where
  "family_stem F_YUV444 = ''YUV444P''"
| "family_stem F_YUV422 = ''YUV422P''"
| "family_stem F_YUV420 = ''YUV420P''"
| "family_stem F_Y = ''Y''"
| "family_stem F_RGBP = ''RGBP''"
| "family_stem F_RGBAP = ''RGBAP''"
| "family_stem F_YUVA444 = ''YUVA444P''"
| "family_stem F_YUVA422 = ''YUVA422P''"
| "family_stem F_YUVA420 = ''YUVA420P''"

primrec name_of_8 :: "family \<Rightarrow> string" where
  "name_of_8 F_YUV444 = ''YV24''"
| "name_of_8 F_YUV422 = ''YV16''"
| "name_of_8 F_YUV420 = ''YV12''"
| "name_of_8 F_Y = ''Y8''"
| "name_of_8 F_RGBP = ''RGBP''"
| "name_of_8 F_RGBAP = ''RGBAP''"
| "name_of_8 F_YUVA444 = ''YUVA444''"
| "name_of_8 F_YUVA422 = ''YUVA422''"
| "name_of_8 F_YUVA420 = ''YUVA420''"

definition planar_name :: "family \<Rightarrow> depth \<Rightarrow> string" where
  "planar_name f d = (if d = D8 then name_of_8 f else if d = D32 then (if f = F_Y then ''Y32'' else family_stem f @ ''S'')
     else family_stem f @ show_int (depth_bits d))"

lemma planar_name_table: "(planar_code f d, planar_name f d) \<in> set pixel_format_table"
  unfolding pixel_format_table_def
  by (cases f; cases d) (simp_all only: planar_consts, simp_all add: planar_name_def show_bits)

lemma format_name_planar:
  "format_name (family_param f) (depth_bits d) (chroma_param f) old =
    (if d = D8 \<and> f \<noteq> F_Y \<and> \<not> (old \<and> f \<in> {F_YUV444, F_YUV422, F_YUV420}) then family_stem f @ ''8'' else planar_name f d)"
  by (cases f; cases d; cases old; simp add: format_name_def show_bits planar_name_def)

lemma stem8_table: "f \<noteq> F_Y \<Longrightarrow> (planar_code f D8, family_stem f @ ''8'') \<in> set pixel_format_table_ex
    \<and> family_stem f @ ''8'' \<notin> snd ` set pixel_format_table"
  unfolding pixel_format_table_def pixel_format_table_ex_def
  by (cases f) (simp_all add: planar_consts)

lemma planar_name_upper: "map c_toupper (planar_name f d) = planar_name f d"
  using upper_names planar_name_table [of f d] by (force simp: list_all_iff)

lemma planar_name_code: "GetPixelTypeFromName (planar_name f d) = planar_code f d"
proof -
  have "planar_name f d = ''YV12'' \<Longrightarrow> planar_code f d = CS_YV12"
    by (cases f; cases d; simp add: planar_name_def show_bits planar_consts)
  with name_found [OF planar_name_table planar_name_upper] show ?thesis by auto
qed

lemma format_name_code:
  "GetPixelTypeFromName (format_name (family_param f) (depth_bits d) (chroma_param f) old) = planar_code f d"
  using name_found_ex [of "family_stem f @ ''8''"] stem8_table [of f] planar_name_code [of f d]
  unfolding format_name_planar by auto


definition chroma_family :: "family \<Rightarrow> bool" where
  "chroma_family f \<longleftrightarrow> family_param f \<in> {''YUV'', ''YUVA''}"

lemma template_values:
  assumes "pixel_type vi = planar_code f d"
  shows "template_family vi = Inr (family_param f)"
    "chroma_family f \<Longrightarrow> template_chroma vi = Inr (chroma_param f)"
proof -
  show "template_family vi = Inr (family_param f)"
    using assms by (cases f; cases d) (simp_all add: template_family_def IsY_def family_is_def format_defs cs_values)
  assume "chroma_family f"
  then obtain w h where p: "(PLANAR_U, w, h) \<in> set (family_planes f)" "chroma_param f = (if w = 0 then 444 else if h = 0 then 422 else 420)"
    "w \<le> 1" "h \<le> w"
    by (cases f) (auto simp: chroma_family_def)
  from planar_subsampling [OF assms p(1)] show "template_chroma vi = Inr (chroma_param f)"
    using p(2-) by (auto simp: template_chroma_def from_vi_def)
qed

lemma depth_bits_valid: "depth_bits d \<in> {8, 10, 12, 14, 16, 32}"
  by (cases d) simp_all

lemma chroma_param_valid: "chroma_param f \<in> {444, 422, 420, 411}" "chroma_param f \<noteq> 411"
  by (cases f; simp)+

lemma args6:
  "arg (VArray [a, b, c, d, e, f]) 0 = a" "arg (VArray [a, b, c, d, e, f]) 1 = b" "arg (VArray [a, b, c, d, e, f]) 2 = c"
  "arg (VArray [a, b, c, d, e, f]) 3 = d" "arg (VArray [a, b, c, d, e, f]) 4 = e" "arg (VArray [a, b, c, d, e, f]) 5 = f"
  by (simp_all add: arg_def wrap16_def numeral_eq_Suc)

lemma planar_name_chars: "NUL \<notin> set (planar_name f d)" "NUL \<notin> set (family_stem f @ ''8'')"
  by (cases f; cases d; simp add: planar_name_def show_bits)+

lemma format_name_cstr: "cstr (format_name (family_param f) (depth_bits d) (chroma_param f) old) = format_name (family_param f) (depth_bits d) (chroma_param f) old"
  by (rule cstr_id) (use planar_name_chars [of f] in \<open>auto simp: format_name_planar\<close>)



text \<open>Subsampling 4:1:1 exists without an alpha plane only.\<close>

lemma BuildPixelType_yuva411:
  "\<exists>s. BuildPixelType clips (VArray [VString ''YUVA'', VInt 8, VInt 411, VBool False, VBool False, VUndefined]) = Inr (VString s)
    \<and> GetPixelTypeFromName s = CS_UNKNOWN"
proof -
  have n: "find (\<lambda>(_, n). n = ''YUVA411P8'') (key_order t) = None" if "''YUVA411P8'' \<notin> snd ` set t" for t
    using that by (force simp: key_order_def find_None_iff)
  have t: "''YUVA411P8'' \<notin> snd ` set pixel_format_table" "''YUVA411P8'' \<notin> snd ` set pixel_format_table_ex"
    unfolding pixel_format_table_def pixel_format_table_ex_def by simp_all
  have u: "map c_toupper ''YUVA411P8'' = ''YUVA411P8''" "map c_toupper ''YUVA'' = ''YUVA''" "cstr ''YUVA411P8'' = ''YUVA411P8''" by code_simp+
  have "GetPixelTypeFromName ''YUVA411P8'' = CS_UNKNOWN"
    by (simp only: GetPixelTypeFromName_def Let_def u n [OF t(1)] n [OF t(2)] option.case)
  then show ?thesis
    by (simp add: BuildPixelType_def args6 build_family_def build_bits_def build_chroma_def build_name_def str_arg_def need_def
        u AsInt2_def AsBool2_def format_name_def show_bits SaveString_def Let_def del: list.map)
qed
end
