(* ===== verification/Script_Arrays.thy ===== *)
theory Script_Arrays
  imports Script_Numbers Arg_Match
begin

text \<open>
  The built-in functions on values and arrays of \<^verbatim>\<open>core/parser/script.cpp\<close>: tests of types,
  selection, and arrays with indexing by numbers, by paths of numbers and by names, insertion,
  replacement, deletion and sorting.  \<open>invoke\<close> stands for \<^verbatim>\<open>env->Invoke\<close>, \<open>sorter\<close> for
  \<^verbatim>\<open>std::sort\<close> with a comparison.  An exception of the standard library, such as that of a
  vector of negative length, is \<open>Crash\<close>.
\<close>

section \<open>Types, selection and assertions\<close>

definition type_test :: "(AVSValue \<Rightarrow> bool) \<Rightarrow> AVSValue \<Rightarrow> AVSValue scr" where
  "type_test p args = Inr (VBool (p (arg args 0)))"

definition script_IsBool :: "AVSValue \<Rightarrow> AVSValue scr" where "script_IsBool = type_test IsBool"
definition script_IsInt :: "AVSValue \<Rightarrow> AVSValue scr" where "script_IsInt = type_test IsInt"
definition script_IsLongStrict :: "AVSValue \<Rightarrow> AVSValue scr" where "script_IsLongStrict = type_test IsLongStrict"
definition script_IsFloat :: "AVSValue \<Rightarrow> AVSValue scr" where "script_IsFloat = type_test IsFloat"
definition script_IsFloatfStrict :: "AVSValue \<Rightarrow> AVSValue scr" where "script_IsFloatfStrict = type_test IsFloatfStrict"
definition script_IsString :: "AVSValue \<Rightarrow> AVSValue scr" where "script_IsString = type_test IsString"
definition script_IsClip :: "AVSValue \<Rightarrow> AVSValue scr" where "script_IsClip = type_test IsClip"
definition script_IsFunction :: "AVSValue \<Rightarrow> AVSValue scr" where "script_IsFunction = type_test IsFunction"
definition script_Defined :: "AVSValue \<Rightarrow> AVSValue scr" where "script_Defined = type_test Defined"
definition script_IsArray :: "AVSValue \<Rightarrow> AVSValue scr" where "script_IsArray = type_test IsArray"

definition TypeName :: "AVSValue \<Rightarrow> AVSValue scr" where
  "TypeName args = Inr (VString (GetAVSTypeName (arg args 0)))"

definition Default :: "AVSValue \<Rightarrow> AVSValue scr" where
  "Default args = Inr (if Defined (arg args 0) then arg args 0 else arg args 1)"

definition Func :: "AVSValue \<Rightarrow> AVSValue scr" where "Func args = Inr (arg args 0)"
definition NOP :: "AVSValue \<Rightarrow> AVSValue scr" where "NOP args = Inr (VInt 0)"
definition Undefined :: "AVSValue \<Rightarrow> AVSValue scr" where "Undefined args = Inr VUndefined"

definition Assert :: "AVSValue \<Rightarrow> AVSValue scr" where
  "Assert args = bind_r (need (AsBool (arg args 0))) (\<lambda>b.
     if b then Inr VUndefined
     else if Defined (arg args 1) then bind_r (need (AsString (arg args 1))) script_error
     else script_error ''Assert: assertion failed'')"

definition Select :: "AVSValue \<Rightarrow> AVSValue scr" where
  "Select args = long_arg args 0 (\<lambda>i.
     if ArraySize (arg args 1) \<le> i \<or> i < 0 \<or> INT_MAX < i then script_error ''Select: Index value out of range''
     else Inr (operator_index (arg args 1) i))"

text \<open>The version of the program is \<open>(AVS_MAJOR_VER, AVS_MINOR_VER, AVS_BUGFIX_VER)\<close>, of a generated header.\<close>

definition IsVersionOrGreater :: "int \<times> int \<times> int \<Rightarrow> AVSValue \<Rightarrow> AVSValue scr" where
  "IsVersionOrGreater version args =
    (case version of (AVS_MAJOR_VER, AVS_MINOR_VER, AVS_BUGFIX_VER) \<Rightarrow>
       if \<not> Defined (arg args 0) \<or> \<not> Defined (arg args 1)
       then script_error ''IsVersionOrGreater error: at least two parameters (majorVersion, minorVersion) required!''
       else let majorVersion = AsInt2 (arg args 0) 0; minorVersion = AsInt2 (arg args 1) 0; bugfixVersion = AsInt2 (arg args 2) 0
         in Inr (VBool (if majorVersion \<noteq> AVS_MAJOR_VER then majorVersion < AVS_MAJOR_VER
                        else if minorVersion \<noteq> AVS_MINOR_VER then minorVersion < AVS_MINOR_VER
                        else bugfixVersion \<le> AVS_BUGFIX_VER)))"

section \<open>Reading arrays\<close>

definition ArrayCreate :: "AVSValue \<Rightarrow> AVSValue scr" where "ArrayCreate args = Inr (arg args 0)"

definition script_ArraySize :: "AVSValue \<Rightarrow> AVSValue scr" where
  "script_ArraySize args =
    (if \<not> IsArray (arg args 0) then script_error ''ArraySize: parameter must be an array''
     else Inr (VInt (ArraySize (arg args 0))))"

text \<open>The loop that looks for a name, over the elements, and the loop over the indices; \<open>i\<close> counts them.\<close>

fun dict_get :: "string \<Rightarrow> AVSValue list \<Rightarrow> AVSValue scr" where
  "dict_get tag [] = Inr VUndefined"
| "dict_get tag (currentTagValue # rest) =
     (if \<not> IsArray currentTagValue
      then script_error ''ArrayGet: Array must contain array[string, any] elements for dictionary lookup''
      else if ArraySize currentTagValue < 2
      then script_error ''ArrayGet: Internal array must have at least two elements (tag, value)''
      else case operator_index currentTagValue 0 of
        VString t \<Rightarrow> if strlwr t = strlwr tag then Inr (operator_index currentTagValue 1) else dict_get tag rest
      | _ \<Rightarrow> dict_get tag rest)"

fun index_get :: "AVSValue \<Rightarrow> AVSValue list \<Rightarrow> int \<Rightarrow> AVSValue scr" where
  "index_get currentValue [] i = Inr currentValue"
| "index_get currentValue (ix # ixs) i =
     (if \<not> IsArray currentValue then script_error (''ArrayGet: not an array. Index='' @ show_int i)
      else bind_r (need (AsInt ix)) (\<lambda>currentIndex.
        if currentIndex < 0 \<or> ArraySize currentValue \<le> currentIndex
        then script_error (''ArrayGet: Array index out of range. Problematic index count: '' @ show_int (i + 1))
        else index_get (operator_index currentValue currentIndex) ixs (i + 1)))"

definition ArrayGet :: "AVSValue \<Rightarrow> AVSValue scr" where
  "ArrayGet args =
    (if \<not> IsArray (arg args 0) then script_error ''ArrayGet: array type required.''
     else case arg args 1 of
       VString tag \<Rightarrow> dict_get tag (array_elements (arg args 0))
     | VArray ixs \<Rightarrow> if ArraySize (VArray ixs) = 0 then script_error ''ArrayGet: no index specified''
         else index_get (arg args 0) (array_elements (VArray ixs)) 0
     | _ \<Rightarrow> script_error ''ArrayGet: Invalid array index, must be integer or string, or comma separated integers'')"

section \<open>Changing arrays\<close>

datatype array_mode = INSERT | APPEND | REPLACE | DEL

fun funcname :: "array_mode \<Rightarrow> string" where
  "funcname DEL = ''ArrayDel''" | "funcname REPLACE = ''ArraySet''" | "funcname APPEND = ''ArrayAdd''" | "funcname INSERT = ''ArrayIns''"

definition index_error :: "array_mode \<Rightarrow> int \<Rightarrow> int \<Rightarrow> 'a scr" where
  "index_error mode pos orig_size =
     script_error (funcname mode @ '': index '' @ show_int pos @ '' out of range (array size is '' @ show_int orig_size @ '')'')"

text \<open>\<open>new_size\<close>, and the position of the action with its check.\<close>

definition ins_size :: "array_mode \<Rightarrow> int \<Rightarrow> int \<Rightarrow> int" where
  "ins_size mode index_count orig_size =
    (if mode = DEL \<and> index_count = 1 then orig_size - 1
     else if mode = APPEND \<and> index_count = 0 then orig_size + 1
     else if mode = INSERT \<and> index_count = 1 then orig_size + 1 else orig_size)"

definition ins_pos :: "array_mode \<Rightarrow> AVSValue \<Rightarrow> int \<Rightarrow> int scr" where
  "ins_pos mode indexes orig_size =
    (if mode = APPEND then Inr orig_size
     else bind_r (need (AsInt (operator_index indexes 0))) (\<lambda>action_pos.
       let max_valid_pos = (if mode = INSERT \<and> ArraySize indexes = 1 then orig_size else orig_size - 1)
       in if action_pos < 0 \<or> max_valid_pos < action_pos then index_error mode action_pos orig_size else Inr action_pos))"

text \<open>The rest of the path, and the call for the inner array.\<close>

definition rest_indexes :: "AVSValue \<Rightarrow> AVSValue" where
  "rest_indexes indexes = (if ArraySize indexes \<le> 1 then VArray [] else VArray (tl (array_elements indexes)))"

definition inner_params :: "array_mode \<Rightarrow> AVSValue \<Rightarrow> AVSValue \<Rightarrow> AVSValue \<Rightarrow> AVSValue" where
  "inner_params mode args indexes inner =
    (if mode = DEL then VArray [inner, rest_indexes indexes] else VArray [inner, arg args 1, rest_indexes indexes])"

text \<open>The copying loops fill a vector of \<open>new_size\<close> undefined values.\<close>

definition copy_before :: "AVSValue \<Rightarrow> int \<Rightarrow> AVSValue list \<Rightarrow> AVSValue list" where
  "copy_before a action_pos new_val = fold (\<lambda>i nv. nv[nat i := operator_index a i]) [0..action_pos - 1] new_val"

definition copy_after :: "array_mode \<Rightarrow> AVSValue \<Rightarrow> int \<Rightarrow> int \<Rightarrow> AVSValue list \<Rightarrow> AVSValue list" where
  "copy_after mode a action_pos orig_size new_val =
    (if mode = DEL then fold (\<lambda>i nv. nv[nat (i - 1) := operator_index a i]) [action_pos + 1..orig_size - 1] new_val
     else if mode = REPLACE then fold (\<lambda>i nv. nv[nat i := operator_index a i]) [action_pos + 1..orig_size - 1] new_val
     else fold (\<lambda>i nv. nv[nat (i + 1) := operator_index a i]) [action_pos..orig_size - 1] new_val)"

definition ArrayIns :: "(string \<Rightarrow> AVSValue \<Rightarrow> AVSValue scr) \<Rightarrow> array_mode \<Rightarrow> AVSValue \<Rightarrow> AVSValue scr" where
  "ArrayIns invoke mode args =
    (let a = arg args 0; orig_size = ArraySize a; indexes = arg args (if mode = DEL then 1 else 2);
         index_count = ArraySize indexes; new_size = ins_size mode index_count orig_size
     in if \<not> IsArray a then script_error (funcname mode @ '' error: array type required.'')
        else if mode \<noteq> APPEND \<and> index_count = 0 then script_error (funcname mode @ '': no index specified'')
        else if new_size < 0 then Inl Crash
        else bind_r (ins_pos mode indexes orig_size) (\<lambda>action_pos.
          let new_val = copy_before a action_pos (replicate (nat new_size) VUndefined)
          in bind_r
            (if mode \<noteq> APPEND \<and> index_count > 1 \<or> mode = APPEND \<and> index_count \<ge> 1
             then bind_r (need (AsInt (operator_index indexes 0))) (\<lambda>current_index.
               if current_index < 0 \<or> orig_size \<le> current_index then index_error mode current_index orig_size
               else bind_r (invoke (funcname mode) (inner_params mode args indexes (operator_index a current_index))) (\<lambda>v.
                 Inr (REPLACE, new_val[nat current_index := v])))
             else if mode \<noteq> DEL then Inr (mode, new_val[nat action_pos := arg args 1])
             else Inr (mode, new_val))
            (\<lambda>(mode, new_val). Inr (VArray (copy_after mode a action_pos orig_size new_val)))))"

text \<open>\<^verbatim>\<open>Invoke\<close> finds the function itself, which is built in: \<open>n\<close> levels of it.\<close>

fun mode_of :: "string \<Rightarrow> array_mode" where
  "mode_of s = (if s = ''ArrayDel'' then DEL else if s = ''ArraySet'' then REPLACE else if s = ''ArrayAdd'' then APPEND else INSERT)"

fun array_call :: "nat \<Rightarrow> string \<Rightarrow> AVSValue \<Rightarrow> AVSValue scr" where
  "array_call 0 name args = Inl NoFuel"
| "array_call (Suc n) name args = ArrayIns (array_call n) (mode_of name) args"

section \<open>Sorting\<close>

text \<open>One step of the loop over the elements: the broadest type so far, or an error.\<close>

definition sort_type :: "char \<Rightarrow> char \<Rightarrow> char scr" where
  "sort_type finalType currentType =
    (let t = (if finalType = CHR ''i'' \<and> currentType = CHR ''l'' then currentType
              else if finalType = CHR ''f'' \<and> currentType = CHR ''d'' then currentType
              else if (finalType = CHR ''i'' \<or> finalType = CHR ''l'') \<and> (currentType = CHR ''f'' \<or> currentType = CHR ''d'') then currentType
              else finalType)
     in if t = CHR ''s'' then (if currentType \<noteq> CHR ''s'' then script_error ''ArraySort: array contains different basic types, string expected.'' else Inr t)
        else if t = CHR ''b'' then (if currentType \<noteq> CHR ''b'' then script_error ''ArraySort: array contains different basic types, bool expected.'' else Inr t)
        else if currentType \<notin> {CHR ''i'', CHR ''l'', CHR ''f'', CHR ''d''}
        then script_error ''ArraySort: array contains different basic types, number expected.'' else Inr t)"

fun sort_types :: "char \<Rightarrow> AVSValue list \<Rightarrow> char scr" where
  "sort_types t [] = Inr t"
| "sort_types t (v # vs) = bind_r (sort_type t (GetType v)) (\<lambda>t. sort_types t vs)"

text \<open>\<^verbatim>\<open>std::strcmp(s, t) < 0\<close>\<close>

fun str_less :: "string \<Rightarrow> string \<Rightarrow> bool" where
  "str_less s [] = False"
| "str_less [] (d # t) = True"
| "str_less (c # s) (d # t) = (cc c < cc d \<or> c = d \<and> str_less s t)"

definition compare_with :: "(AVSValue \<Rightarrow> 'a option) \<Rightarrow> ('a \<Rightarrow> 'a \<Rightarrow> bool) \<Rightarrow> AVSValue \<Rightarrow> AVSValue \<Rightarrow> bool" where
  "compare_with f lt x y = (case (f x, f y) of (Some a, Some b) \<Rightarrow> lt a b | _ \<Rightarrow> False)"

definition customCompareBool :: "AVSValue \<Rightarrow> AVSValue \<Rightarrow> bool" where "customCompareBool = compare_with AsBool (\<lambda>a b. \<not> a \<and> b)"
definition customCompareInt :: "AVSValue \<Rightarrow> AVSValue \<Rightarrow> bool" where "customCompareInt = compare_with AsLong (<)"
definition customCompareFloat :: "AVSValue \<Rightarrow> AVSValue \<Rightarrow> bool" where "customCompareFloat = compare_with AsFloat fp_less"
definition customCompareString :: "AVSValue \<Rightarrow> AVSValue \<Rightarrow> bool" where "customCompareString = compare_with AsString str_less"

definition ArraySort :: "((AVSValue \<Rightarrow> AVSValue \<Rightarrow> bool) \<Rightarrow> AVSValue list \<Rightarrow> AVSValue list) \<Rightarrow> AVSValue \<Rightarrow> AVSValue scr" where
  "ArraySort sorter args =
    (let a = arg args 0
     in if \<not> IsArray a then script_error ''ArraySort error: array type required.''
        else if ArraySize a = 0 then Inr (VArray [])
        else if ArraySize a < 0 then Inl Crash
        else let vs = array_elements a
          in bind_r (sort_types (GetType (operator_index a 0)) vs) (\<lambda>finalType.
            if finalType = CHR ''b'' then Inr (VArray (sorter customCompareBool vs))
            else if finalType = CHR ''i'' \<or> finalType = CHR ''l'' then Inr (VArray (sorter customCompareInt vs))
            else if finalType = CHR ''f'' \<or> finalType = CHR ''d'' then Inr (VArray (sorter customCompareFloat vs))
            else if finalType = CHR ''s'' then Inr (VArray (sorter customCompareString vs))
            else script_error ''ArraySort: unsupported data type''))"

end
