(* ===== verification/Script_Array_Spec.thy ===== *)
theory Script_Array_Spec
  imports Script_Arrays "HOL-Library.Multiset" "HOL-Library.Sublist"
begin

text \<open>
  What the array functions compute: \<^verbatim>\<open>ArrayIns\<close>, \<^verbatim>\<open>ArrayAdd\<close>, \<^verbatim>\<open>ArraySet\<close> and
  \<^verbatim>\<open>ArrayDel\<close> change the inner array at the end of a path by an operation on lists and keep
  everything else; \<^verbatim>\<open>ArrayGet\<close> finds what was stored; \<^verbatim>\<open>ArraySort\<close> sorts.
\<close>

section \<open>The copying loops\<close>

lemma upto_nat: "[int lo..int hi - 1] = map int [lo..<hi]"
proof (induction "hi - lo" arbitrary: lo)
  case (Suc n)
  then have "lo < hi" by simp
  with Suc(1) [of "Suc lo"] Suc(2) show ?case
    by (simp add: upto_rec1 upt_conv_Cons ac_simps)
qed simp

lemma fold_copy:
  "hi \<le> length vs \<Longrightarrow> hi + d \<le> length nv \<Longrightarrow>
    length (fold (\<lambda>i nv. nv[i + d := vs ! i]) [lo..<hi] nv) = length nv \<and>
    (\<forall>j < length nv. fold (\<lambda>i nv. nv[i + d := vs ! i]) [lo..<hi] nv ! j = (if lo + d \<le> j \<and> j < hi + d then vs ! (j - d) else nv ! j))"
proof (induction hi)
  case (Suc hi)
  show ?case
  proof (cases "lo \<le> hi")
    case True
    with Suc show ?thesis by (auto simp: nth_list_update less_Suc_eq)
  qed (use Suc.prems in auto)
qed auto

lemma wrap16_small: "n < 2 ^ 15 \<Longrightarrow> wrap16 (int n) = int n"
  by (simp add: wrap16_def)

lemma index_small: "length vs < 2 ^ 15 \<Longrightarrow> i < length vs \<Longrightarrow> operator_index (VArray vs) (int i) = vs ! i"
  by (simp add: wrap16_small)

lemma fold_operator_index:
  assumes "length vs < 2 ^ 15" "hi \<le> length vs"
  shows "fold (\<lambda>i nv. nv[nat (i + int d) := operator_index (VArray vs) i]) [int lo..int hi - 1] nv
    = fold (\<lambda>i nv. nv[i + d := vs ! i]) [lo..<hi] nv"
  unfolding upto_nat fold_map
  by (rule fold_cong) (use assms in \<open>simp_all add: index_small nat_int_add fun_eq_iff del: operator_index.simps\<close>)

lemma copy_before_list:
  assumes "length vs < 2 ^ 15" "k \<le> length vs" "k \<le> length nv"
  shows "copy_before (VArray vs) (int k) nv = take k vs @ drop k nv"
proof -
  let ?r = "fold (\<lambda>i nv. nv[i + 0 := vs ! i]) [0..<k] nv"
  have "copy_before (VArray vs) (int k) nv = ?r"
    using fold_operator_index [OF assms(1,2), of 0 0 nv] by (simp add: copy_before_def)
  also have "?r = take k vs @ drop k nv"
    using fold_copy [of k vs 0 nv 0] assms by (intro nth_equalityI) (auto simp: nth_append)
  finally show ?thesis .
qed

lemma copy_after_insert:
  assumes "length vs < 2 ^ 15" "k \<le> length vs" "length nv = Suc (length vs)" "mode = INSERT \<or> mode = APPEND"
  shows "copy_after mode (VArray vs) (int k) (int (length vs)) nv = take (Suc k) nv @ drop k vs"
proof -
  let ?r = "fold (\<lambda>i nv. nv[i + 1 := vs ! i]) [k..<length vs] nv"
  have "copy_after mode (VArray vs) (int k) (int (length vs)) nv = ?r"
    using fold_operator_index [OF assms(1), of "length vs" 1 k nv] assms(4) by (auto simp: copy_after_def)
  also have "?r = take (Suc k) nv @ drop k vs"
    using fold_copy [of "length vs" vs 1 nv k] assms by (intro nth_equalityI) (auto simp: nth_append)
  finally show ?thesis .
qed

lemma copy_after_replace:
  assumes "length vs < 2 ^ 15" "length nv = length vs"
  shows "copy_after REPLACE (VArray vs) (int k) (int (length vs)) nv = take (Suc k) nv @ drop (Suc k) vs"
proof -
  let ?r = "fold (\<lambda>i nv. nv[i + 0 := vs ! i]) [Suc k..<length vs] nv"
  have "copy_after REPLACE (VArray vs) (int k) (int (length vs)) nv = ?r"
    using fold_operator_index [OF assms(1), of "length vs" 0 "Suc k" nv] by (simp add: copy_after_def ac_simps)
  also have "?r = take (Suc k) nv @ drop (Suc k) vs"
    using fold_copy [of "length vs" vs 0 nv "Suc k"] assms by (intro nth_equalityI) (auto simp: nth_append)
  finally show ?thesis .
qed

lemma copy_after_delete:
  assumes "length vs < 2 ^ 15" "k < length vs" "length nv = length vs - 1"
  shows "copy_after DEL (VArray vs) (int k) (int (length vs)) nv = take k nv @ drop (Suc k) vs"
proof -
  obtain m where m: "length vs = Suc m" using assms(2) by (cases "length vs") auto
  have n: "nat (int (Suc i) - 1) = i" for i by simp
  let ?r = "fold (\<lambda>i nv. nv[i + 0 := tl vs ! i]) [k..<m] nv"
  have "copy_after DEL (VArray vs) (int k) (int (length vs)) nv = fold (\<lambda>i nv. nv[nat (i - 1) := operator_index (VArray vs) i]) (map int [Suc k..<Suc m]) nv"
    using upto_nat [of "Suc k" "Suc m"] by (simp add: copy_after_def m ac_simps)
  also have "\<dots> = fold (\<lambda>i nv. nv[nat (int (Suc i) - 1) := operator_index (VArray vs) (int (Suc i))]) [k..<m] nv"
    unfolding map_Suc_upt [symmetric] map_map fold_map by (simp add: comp_def)
  also have "\<dots> = ?r"
    unfolding n by (rule fold_cong) (use assms m in \<open>auto simp: index_small nth_tl fun_eq_iff simp del: operator_index.simps of_nat_Suc\<close>)
  also have "?r = take k nv @ drop (Suc k) vs"
    using fold_copy [of m "tl vs" 0 nv k] assms m by (intro nth_equalityI) (auto simp: nth_append nth_tl)
  finally show ?thesis .
qed


section \<open>Operations at the end of a path\<close>

text \<open>What the functions are specified to do: an operation on the array that a path leads to.\<close>

fun on_array :: "(AVSValue list \<Rightarrow> AVSValue list option) \<Rightarrow> AVSValue \<Rightarrow> int list \<Rightarrow> AVSValue option" where
  "on_array f (VArray vs) [] = map_option VArray (f vs)"
| "on_array f (VArray vs) (i # is) =
     (if 0 \<le> i \<and> nat i < length vs then map_option (\<lambda>w. VArray (vs[nat i := w])) (on_array f (vs ! nat i) is) else None)"
| "on_array f _ _ = None"

fun list_op :: "array_mode \<Rightarrow> int \<Rightarrow> AVSValue \<Rightarrow> AVSValue list \<Rightarrow> AVSValue list option" where
  "list_op INSERT i v vs = (if 0 \<le> i \<and> nat i \<le> length vs then Some (take (nat i) vs @ v # drop (nat i) vs) else None)"
| "list_op REPLACE i v vs = (if 0 \<le> i \<and> nat i < length vs then Some (vs[nat i := v]) else None)"
| "list_op DEL i v vs = (if 0 \<le> i \<and> nat i < length vs then Some (take (nat i) vs @ drop (Suc (nat i)) vs) else None)"
| "list_op APPEND i v vs = Some (vs @ [v])"

fun small_arrays :: "AVSValue \<Rightarrow> bool" where
  "small_arrays (VArray vs) = (length vs < 2 ^ 15 \<and> list_all small_arrays vs)"
| "small_arrays _ = True"

definition array_args :: "array_mode \<Rightarrow> AVSValue \<Rightarrow> AVSValue \<Rightarrow> int list \<Rightarrow> AVSValue" where
  "array_args mode a v is = VArray (if mode = DEL then [a, VArray (map VInt is)] else [a, v, VArray (map VInt is)])"

lemma arg_simps:
  "arg (VArray [a, b]) 0 = a" "arg (VArray [a, b]) 1 = b"
  "arg (VArray [a, b, c]) 0 = a" "arg (VArray [a, b, c]) 1 = b" "arg (VArray [a, b, c]) 2 = c"
  by (simp_all add: arg_def wrap16_def numeral_eq_Suc)

lemma array_args_arg:
  "arg (array_args mode a v is) 0 = a" "arg (array_args mode a v is) (if mode = DEL then 1 else 2) = VArray (map VInt is)"
  "mode \<noteq> DEL \<Longrightarrow> arg (array_args mode a v is) 1 = v"
  by (auto simp: array_args_def arg_simps)

lemma take_filled:
  assumes "k \<le> length vs" "k < m"
  shows "take (Suc k) ((take k vs @ replicate (m - k) u)[k := v]) = take k vs @ [v]"
proof -
  obtain r where "m - k = Suc r" using assms(2) by (cases "m - k") auto
  with assms show ?thesis by (simp add: list_update_append)
qed

lemmas ins_simps = ArrayIns_def array_args_def arg_simps wrap16_small wrap16_def [of 1] wrap16_def [of 0] ins_size_def ins_pos_def need_def Let_def

text \<open>One step at the end of the path.\<close>

lemma insert_here:
  assumes "length vs < 2 ^ 15"
  shows "ArrayIns invoke INSERT (array_args INSERT (VArray vs) v [i]) =
    (case list_op INSERT i v vs of Some ws \<Rightarrow> Inr (VArray ws) | None \<Rightarrow> index_error INSERT i (int (length vs)))"
proof (cases "0 \<le> i \<and> nat i \<le> length vs")
  case True
  have b: "copy_before (VArray vs) i nv = take (nat i) vs @ drop (nat i) nv" if "length nv = Suc (length vs)" for nv
    using copy_before_list [OF assms, of "nat i" nv] True that by simp
  have a: "copy_after INSERT (VArray vs) i (int (length vs)) nv = take (Suc (nat i)) nv @ drop (nat i) vs" if "length nv = Suc (length vs)" for nv
    using copy_after_insert [OF assms, of "nat i" nv INSERT] True that by simp
  have "\<not> int (length vs) < i" using True by linarith
  with True assms show ?thesis
    by (simp add: ins_simps) (simp add: a b take_filled nat_add_distrib del: replicate_Suc)
next
  case False
  then have "i < 0 \<or> int (length vs) < i" by linarith
  with False assms show ?thesis by (auto simp: ins_simps index_error_def script_error_def)
qed

lemma replace_here:
  assumes "length vs < 2 ^ 15"
  shows "ArrayIns invoke REPLACE (array_args REPLACE (VArray vs) v [i]) =
    (case list_op REPLACE i v vs of Some ws \<Rightarrow> Inr (VArray ws) | None \<Rightarrow> index_error REPLACE i (int (length vs)))"
proof (cases "0 \<le> i \<and> nat i < length vs")
  case True
  have b: "copy_before (VArray vs) i nv = take (nat i) vs @ drop (nat i) nv" if "length nv = length vs" for nv
    using copy_before_list [OF assms, of "nat i" nv] True that by simp
  have "length (take (nat i) vs @ v # replicate (length vs - Suc (nat i)) VUndefined) = length vs" using True by (cases vs) auto
  from copy_after_replace [OF assms this, of "nat i"] True
  have a: "copy_after REPLACE (VArray vs) i (int (length vs)) (take (nat i) vs @ v # replicate (length vs - Suc (nat i)) VUndefined)
    = take (nat i) vs @ v # drop (Suc (nat i)) vs" by simp
  have "\<not> int (length vs) - 1 < i" using True by linarith
  with True assms show ?thesis
    by (simp add: ins_simps) (simp add: a b upd_conv_take_nth_drop)
next
  case False
  then have "i < 0 \<or> int (length vs) - 1 < i" by linarith
  with False assms show ?thesis by (auto simp: ins_simps index_error_def script_error_def)
qed

lemma delete_here:
  assumes "length vs < 2 ^ 15" "vs \<noteq> []"
  shows "ArrayIns invoke DEL (array_args DEL (VArray vs) v [i]) =
    (case list_op DEL i v vs of Some ws \<Rightarrow> Inr (VArray ws) | None \<Rightarrow> index_error DEL i (int (length vs)))"
proof (cases "0 \<le> i \<and> nat i < length vs")
  case True
  have b: "copy_before (VArray vs) i nv = take (nat i) vs @ drop (nat i) nv" if "length nv = length vs - 1" for nv
  proof -
    have "nat i \<le> length nv" using True that by linarith
    with copy_before_list [OF assms(1) _ this] True show ?thesis by simp
  qed
  have a: "copy_after DEL (VArray vs) i (int (length vs)) nv = take (nat i) nv @ drop (Suc (nat i)) vs" if "length nv = length vs - 1" for nv
    using copy_after_delete [OF assms(1) _ that, of "nat i"] True by simp
  have "\<not> int (length vs) - 1 < i" "\<not> int (length vs) - 1 < 0" "nat (int (length vs) - 1) = length vs - 1" using True assms(2) by (auto simp: not_less)
  with True assms show ?thesis
    by (simp add: ins_simps) (simp add: a b)
next
  case False
  then have "i < 0 \<or> int (length vs) - 1 < i" by linarith
  with False assms show ?thesis by (auto simp: ins_simps index_error_def script_error_def)
qed

lemma delete_from_empty: "ArrayIns invoke DEL (array_args DEL (VArray []) v [i]) = Inl Crash"
  by (simp add: ins_simps)

lemma append_here:
  assumes "length vs < 2 ^ 15"
  shows "ArrayIns invoke APPEND (array_args APPEND (VArray vs) v []) = Inr (VArray (vs @ [v]))"
proof -
  have b: "copy_before (VArray vs) (int (length vs)) nv = vs @ drop (length vs) nv" if "length nv = Suc (length vs)" for nv
    using copy_before_list [OF assms, of "length vs" nv] that by simp
  have a: "copy_after APPEND (VArray vs) (int (length vs)) (int (length vs)) nv = take (Suc (length vs)) nv" if "length nv = Suc (length vs)" for nv
    using copy_after_insert [OF assms, of "length vs" nv APPEND] that by simp
  show ?thesis
    using assms drop_replicate [of "length vs" "Suc (length vs)" VUndefined]
    by (simp add: ins_simps) (simp add: a b nat_add_distrib list_update_append)
qed

text \<open>One step on the way.\<close>

lemma step_inside:
  assumes "length vs < 2 ^ 15" "Suc (length is) < 2 ^ 15" "mode \<noteq> APPEND \<longrightarrow> is \<noteq> []"
  shows "ArrayIns invoke mode (array_args mode (VArray vs) v (i # is)) =
    (if 0 \<le> i \<and> nat i < length vs
     then bind_r (invoke (funcname mode) (array_args mode (vs ! nat i) v is)) (\<lambda>w. Inr (VArray (vs[nat i := w])))
     else index_error mode i (int (length vs)))"
proof -
  let ?ix = "VArray (VInt i # map VInt is)" and ?n = "int (length vs)"
  have ix: "ArraySize ?ix = int (Suc (length is))" "operator_index ?ix 0 = VInt i"
    using assms(2) wrap16_small [of "Suc (length is)"] by simp_all
  have n: "ArraySize (VArray vs) = ?n" using assms(1) by (simp add: wrap16_small)
  have rest: "rest_indexes ?ix = VArray (map VInt is)"
    using assms(2) array_elements_all [of "map VInt (i # is)"] by (auto simp: rest_indexes_def ix simp del: ArraySize.simps)
  have params: "inner_params mode (array_args mode (VArray vs) v (i # is)) ?ix w = array_args mode w v is" for w
    by (auto simp: inner_params_def rest array_args_def arg_simps)
  have size: "ins_size mode (int (Suc (length is))) ?n = ?n"
    using assms(3) by (auto simp: ins_size_def)
  have need: "need (AsInt (VInt i)) = Inr i" by (simp add: need_def)
  have guard: "(mode \<noteq> APPEND \<and> int (Suc (length is)) > 1 \<or> mode = APPEND \<and> int (Suc (length is)) \<ge> 1) = True"
    using assms(3) by (cases "is") auto
  have A: "arg (array_args mode (VArray vs) v (i # is)) 0 = VArray vs"
    "arg (array_args mode (VArray vs) v (i # is)) (if mode = DEL then 1 else 2) = ?ix"
    using array_args_arg(1,2) [of mode "VArray vs" v "i # is"] by simp_all
  have pos: "ins_pos mode ?ix ?n = (if mode = APPEND then Inr ?n else if i < 0 \<or> ?n - 1 < i then index_error mode i ?n else Inr i)"
    using assms(3) unfolding ins_pos_def ix need by (cases "is") (auto simp: Let_def)
  show ?thesis
  proof (cases "0 \<le> i \<and> nat i < length vs")
    case False
    then have "i < 0 \<or> ?n \<le> i" by linarith
    with False show ?thesis
      unfolding ArrayIns_def Let_def A n ix size guard pos need
      by (auto simp: index_error_def script_error_def)
  next
    case True
    define nv where "nv = copy_before (VArray vs) (if mode = APPEND then ?n else i) (replicate (length vs) VUndefined)"
    have nv: "nv = (if mode = APPEND then vs else take (nat i) vs @ replicate (length vs - nat i) VUndefined)"
      using copy_before_list [OF assms(1), of "length vs" "replicate (length vs) VUndefined"]
        copy_before_list [OF assms(1), of "nat i" "replicate (length vs) VUndefined"] True by (auto simp: nv_def)
    have "copy_after REPLACE (VArray vs) (if mode = APPEND then ?n else i) ?n (nv[nat i := w]) = vs[nat i := w]" for w
    proof -
      let ?k = "if mode = APPEND then length vs else nat i"
      have l: "length (nv[nat i := w]) = length vs" using True by (simp add: nv)
      have "copy_after REPLACE (VArray vs) (int ?k) ?n (nv[nat i := w]) = take (Suc ?k) (nv[nat i := w]) @ drop (Suc ?k) vs"
        by (rule copy_after_replace [OF assms(1) l])
      also have "\<dots> = vs[nat i := w]"
        using True take_filled [of "nat i" vs "length vs" VUndefined w] by (auto simp: nv upd_conv_take_nth_drop)
      finally show ?thesis using True by (auto split: if_splits)
    qed
    moreover have "\<not> i < 0" "\<not> ?n \<le> i" "\<not> ?n - 1 < i" "\<not> ?n < 0" "operator_index (VArray vs) i = vs ! nat i"
      using True index_small [OF assms(1), of "nat i"] by auto
    ultimately show ?thesis
      using True unfolding ArrayIns_def Let_def A n ix size guard pos need
      by (auto simp: nv_def params bind_r_def IsArray.simps split: sum.splits simp del: operator_index.simps)
  qed
qed

lemma mode_of_funcname: "mode_of (funcname mode) = mode"
  by (cases mode) simp_all

lemma array_call_Suc: "array_call (Suc n) (funcname mode) args = ArrayIns (array_call n) mode args"
  by (cases mode) simp_all

lemma not_array: "\<not> IsArray a \<Longrightarrow> ArrayIns invoke mode (array_args mode a v is) \<noteq> Inr w \<and> on_array f a p = None"
proof -
  assume a: "\<not> IsArray a"
  have "arg (array_args mode a v is) 0 = a" by (rule array_args_arg)
  then show ?thesis using a by (cases a) (simp_all add: ArrayIns_def Let_def script_error_def)
qed

lemma array_cases: "(\<And>vs. a = VArray vs \<Longrightarrow> P) \<Longrightarrow> (\<not> IsArray a \<Longrightarrow> P) \<Longrightarrow> P"
  by (cases a) auto

lemma here_refines:
  assumes "length vs < 2 ^ 15" "mode \<noteq> APPEND"
  shows "ArrayIns invoke mode (array_args mode (VArray vs) v [i]) = Inr w \<longleftrightarrow> map_option VArray (list_op mode i v vs) = Some w"
  using assms insert_here [OF assms(1), of invoke v i] replace_here [OF assms(1), of invoke v i]
    delete_here [OF assms(1), of invoke v i] delete_from_empty [of invoke v i]
  by (cases mode; cases "vs = []") (auto simp: index_error_def script_error_def split: option.splits)

lemma path_refines:
  "small_arrays a \<Longrightarrow> length path + 2 < 2 ^ 15 \<Longrightarrow> mode \<noteq> APPEND \<Longrightarrow>
    array_call (Suc (length path)) (funcname mode) (array_args mode a v (path @ [i])) = Inr w
    \<longleftrightarrow> on_array (list_op mode i v) a path = Some w"
proof (induction path arbitrary: a w)
  case Nil
  then show ?case unfolding array_call_Suc
    by (cases a rule: array_cases) (auto simp: here_refines not_array simp del: array_call.simps list_op.simps)
next
  case (Cons p path)
  show ?case
  proof (cases a rule: array_cases)
    case (1 vs)
    have vs: "length vs < 2 ^ 15" "\<And>k. k < length vs \<Longrightarrow> small_arrays (vs ! k)" using Cons.prems(1) 1 by (auto simp: list_all_length)
    have "Suc (length (path @ [i])) < 2 ^ 15" using Cons.prems(2) by simp
    note s = step_inside [OF vs(1) this, of mode "array_call (Suc (length path))" v p]
    show ?thesis
      unfolding array_call_Suc list.size(4) add_Suc_right add_0_right 1
      using Cons.IH [OF vs(2)] Cons.prems(2,3) s
      by (auto simp: bind_r_Inr index_error_def script_error_def simp del: array_call.simps list_op.simps)
  qed (simp add: array_call_Suc not_array del: array_call.simps)
qed

lemma append_refines:
  "small_arrays a \<Longrightarrow> length path + 2 < 2 ^ 15 \<Longrightarrow>
    array_call (Suc (length path)) (funcname APPEND) (array_args APPEND a v path) = Inr w
    \<longleftrightarrow> on_array (list_op APPEND i v) a path = Some w"
proof (induction path arbitrary: a w)
  case Nil
  then show ?case unfolding array_call_Suc list.size(3)
    by (cases a rule: array_cases) (auto simp: append_here not_array simp del: array_call.simps)
next
  case (Cons p path)
  show ?case
  proof (cases a rule: array_cases)
    case (1 vs)
    have vs: "length vs < 2 ^ 15" "\<And>k. k < length vs \<Longrightarrow> small_arrays (vs ! k)" using Cons.prems(1) 1 by (auto simp: list_all_length)
    have "Suc (length path) < 2 ^ 15" using Cons.prems(2) by simp
    note s = step_inside [OF vs(1) this, of APPEND "array_call (Suc (length path))" v p]
    show ?thesis
      unfolding array_call_Suc list.size(4) add_Suc_right add_0_right 1
      using Cons.IH [OF vs(2)] Cons.prems(2) s
      by (auto simp: bind_r_Inr index_error_def script_error_def simp del: array_call.simps list_op.simps)
  qed (simp add: array_call_Suc [of _ APPEND, simplified funcname.simps] not_array del: array_call.simps)
qed

text \<open>
  C7: \<^verbatim>\<open>ArrayIns\<close>, \<^verbatim>\<open>ArraySet\<close> and \<^verbatim>\<open>ArrayDel\<close> with a path of indices, and
  \<^verbatim>\<open>ArrayAdd\<close> with a path to an inner array, succeed exactly when the path exists and the last
  index is in range, and then give the array in which the operation on lists has been done at the
  end of the path.
\<close>

theorem array_functions_refine:
  assumes "small_arrays a" "length path + 2 < 2 ^ 15" "mode = APPEND \<longrightarrow> is = path" "mode \<noteq> APPEND \<longrightarrow> is = path @ [i]"
  shows "array_call (Suc (length path)) (funcname mode) (array_args mode a v is) = Inr w
    \<longleftrightarrow> on_array (list_op mode i v) a path = Some w"
  using path_refines [OF assms(1,2)] append_refines [OF assms(1,2)] assms(3,4) by (cases "mode = APPEND") simp_all

theorem array_functions_refine_witness:
  "array_call (Suc (length [1 :: int])) (funcname REPLACE) (array_args REPLACE (VArray [VInt 1, VArray [VInt 2, VInt 3]]) (VInt 9) ([1] @ [0]))
    = Inr (VArray [VInt 1, VArray [VInt 9, VInt 3]])"
proof (rule iffD2 [OF array_functions_refine])
  show "on_array (list_op REPLACE 0 (VInt 9)) (VArray [VInt 1, VArray [VInt 2, VInt 3]]) [1] = Some (VArray [VInt 1, VArray [VInt 9, VInt 3]])"
    by code_simp
qed simp_all

section \<open>Reading\<close>

fun at_path :: "AVSValue \<Rightarrow> int list \<Rightarrow> AVSValue option" where
  "at_path a [] = Some a"
| "at_path (VArray vs) (i # is) = (if 0 \<le> i \<and> nat i < length vs then at_path (vs ! nat i) is else None)"
| "at_path _ _ = None"

lemma index_get_path:
  "small_arrays a \<Longrightarrow> index_get a (map VInt p) k = Inr w \<longleftrightarrow> at_path a p = Some w"
proof (induction p arbitrary: a k)
  case (Cons i p)
  show ?case
  proof (cases a rule: array_cases)
    case (1 vs)
    have vs: "length vs < 2 ^ 15" "\<And>k. k < length vs \<Longrightarrow> small_arrays (vs ! k)" using Cons.prems 1 by (auto simp: list_all_length)
    show ?thesis
    proof (cases "0 \<le> i \<and> nat i < length vs")
      case True
      then have "operator_index (VArray vs) i = vs ! nat i" "\<not> ArraySize (VArray vs) \<le> i"
        using index_small [OF vs(1), of "nat i"] vs(1) by (auto simp: wrap16_small)
      with True Cons.IH [OF vs(2), of "nat i" "k + 1"] show ?thesis
        by (simp add: 1 need_def del: operator_index.simps ArraySize.simps)
    next
      case False
      then have "i < 0 \<or> ArraySize (VArray vs) \<le> i" using vs(1) by (auto simp: wrap16_small)
      with False show ?thesis by (auto simp: 1 need_def script_error_def simp del: operator_index.simps ArraySize.simps)
    qed
  qed (cases a; simp add: script_error_def)
qed auto

lemma ArrayGet_path:
  assumes "small_arrays a" "length p < 2 ^ 15"
  shows "ArrayGet (VArray [a, VArray (map VInt p)]) = Inr w \<longleftrightarrow> IsArray a \<and> p \<noteq> [] \<and> at_path a p = Some w"
proof -
  have "array_elements (VArray (map VInt p)) = map VInt p" using assms(2) by (intro array_elements_all) simp
  then show ?thesis
    using assms index_get_path [OF assms(1), of p 0 w]
    by (auto simp: ArrayGet_def arg_simps wrap16_small script_error_def)
qed

lemma on_array_Cons:
  assumes "on_array f a (p # path) = Some w"
  obtains vs z where "a = VArray vs" "0 \<le> p" "nat p < length vs" "on_array f (vs ! nat p) path = Some z" "w = VArray (vs[nat p := z])"
  using assms by (cases a rule: array_cases) (auto simp: not_array split: if_splits)

lemma on_array_set_Nil:
  assumes "on_array (list_op REPLACE i v) a [] = Some w"
  obtains vs where "a = VArray vs" "0 \<le> i" "nat i < length vs" "w = VArray (vs[nat i := v])"
  using assms by (cases a rule: array_cases) (auto simp: not_array split: if_splits)

lemma at_path_set:
  "on_array (list_op REPLACE i v) a path = Some w \<Longrightarrow> at_path w (path @ [i]) = Some v"
proof (induction path arbitrary: a w)
  case Nil
  then show ?case by (rule on_array_set_Nil) simp
next
  case (Cons p path)
  from Cons.prems show ?case by (rule on_array_Cons) (simp add: Cons.IH)
qed

lemma at_path_other:
  "on_array (list_op REPLACE i v) a path = Some w \<Longrightarrow> q \<parallel> path @ [i] \<Longrightarrow> at_path w q = at_path a q"
proof (induction path arbitrary: a w q)
  case Nil
  obtain k ks where q: "q = k # ks" "k \<noteq> i" using Nil.prems(2) by (cases q) auto
  from Nil.prems(1) show ?case by (rule on_array_set_Nil) (use q in \<open>auto simp: nth_list_update\<close>)
next
  case (Cons p path)
  obtain k ks where q: "q = k # ks" "k = p \<Longrightarrow> ks \<parallel> path @ [i]" using Cons.prems(2) by (cases q) (auto simp: parallel_def)
  from Cons.prems(1) obtain vs z where w: "a = VArray vs" "0 \<le> p" "nat p < length vs"
    "on_array (list_op REPLACE i v) (vs ! nat p) path = Some z" "w = VArray (vs[nat p := z])"
    by (rule on_array_Cons)
  show ?case
  proof (cases "k = p")
    case True
    then show ?thesis using Cons.IH [OF w(4) q(2)] w by (simp add: q(1))
  next
    case False
    then have "0 \<le> k \<Longrightarrow> nat p \<noteq> nat k" using w(2) by simp
    then show ?thesis using w by (simp add: q(1))
  qed
qed

lemma small_set:
  "small_arrays a \<Longrightarrow> small_arrays v \<Longrightarrow> on_array (list_op REPLACE i v) a path = Some w \<Longrightarrow> small_arrays w"
proof (induction path arbitrary: a w)
  case Nil
  from Nil(3) show ?case by (rule on_array_set_Nil) (use Nil(1,2) in \<open>auto simp: list_all_length nth_list_update\<close>)
next
  case (Cons p path)
  from Cons.prems(3) show ?case
    by (rule on_array_Cons) (use Cons.prems(1,2) Cons.IH in \<open>auto simp: list_all_length nth_list_update\<close>)
qed

text \<open>
  C27: after \<^verbatim>\<open>ArraySet\<close> of a value at a path, \<^verbatim>\<open>ArrayGet\<close> gives the value at that path
  and what it gave before at every path that leads elsewhere.
\<close>

theorem array_set_get:
  assumes "array_call (Suc (length path)) ''ArraySet'' (VArray [a, v, VArray (map VInt (path @ [i]))]) = Inr w"
    and "small_arrays a" "small_arrays v" "length path + 2 < 2 ^ 15"
  shows "ArrayGet (VArray [w, VArray (map VInt (path @ [i]))]) = Inr v \<and>
    (q \<parallel> path @ [i] \<and> length q < 2 ^ 15 \<longrightarrow>
      (ArrayGet (VArray [w, VArray (map VInt q)]) = Inr u \<longleftrightarrow> ArrayGet (VArray [a, VArray (map VInt q)]) = Inr u))"
proof -
  have w: "on_array (list_op REPLACE i v) a path = Some w"
    using path_refines [OF assms(2,4), of REPLACE v i w] assms(1) by (simp add: array_args_def del: array_call.simps)
  have s: "small_arrays w" by (rule small_set [OF assms(2,3) w])
  have A: "IsArray a" "IsArray w" using w by (cases path; cases a; auto split: if_splits)+
  have "ArrayGet (VArray [w, VArray (map VInt (path @ [i]))]) = Inr v"
    using ArrayGet_path [OF s, of "path @ [i]"] at_path_set [OF w] A assms(4) by simp
  moreover have "ArrayGet (VArray [w, VArray (map VInt q)]) = Inr u \<longleftrightarrow> ArrayGet (VArray [a, VArray (map VInt q)]) = Inr u"
    if "q \<parallel> path @ [i]" "length q < 2 ^ 15"
    using ArrayGet_path [OF s, of q u] ArrayGet_path [OF assms(2), of q u] at_path_other [OF w that(1)] A that(2) by simp
  ultimately show ?thesis by blast
qed

theorem array_set_get_witness:
  "ArrayGet (VArray [VArray [VInt 1, VArray [VInt 9, VInt 3]], VArray [VInt 1, VInt 0]]) = Inr (VInt 9) \<and>
   ArrayGet (VArray [VArray [VInt 1, VArray [VInt 9, VInt 3]], VArray [VInt 1, VInt 1]]) = Inr (VInt 3)"
proof -
  have "array_call (Suc (length [1 :: int])) ''ArraySet'' (VArray [VArray [VInt 1, VArray [VInt 2, VInt 3]], VInt 9, VArray (map VInt ([1] @ [0]))])
    = Inr (VArray [VInt 1, VArray [VInt 9, VInt 3]])"
    by code_simp
  moreover have "ArrayGet (VArray [VArray [VInt 1, VArray [VInt 2, VInt 3]], VArray (map VInt [1, 1])]) = Inr (VInt 3)" by code_simp
  ultimately show ?thesis
    using array_set_get [of "[1]" "VArray [VInt 1, VArray [VInt 2, VInt 3]]" "VInt 9" 0 "VArray [VInt 1, VArray [VInt 9, VInt 3]]" "[1, 1]" "VInt 3"]
    by (simp add: parallel_def del: array_call.simps)
qed

section \<open>Sorting\<close>

text \<open>What \<^verbatim>\<open>std::sort\<close> is documented to do: for a strict weak ordering of the elements, a
  permutation in which no element is less than one before it.\<close>

definition strict_weak :: "('a \<Rightarrow> 'a \<Rightarrow> bool) \<Rightarrow> 'a set \<Rightarrow> bool" where
  "strict_weak lt A \<longleftrightarrow> (\<forall>x \<in> A. \<not> lt x x) \<and> (\<forall>x \<in> A. \<forall>y \<in> A. \<forall>z \<in> A. lt x y \<longrightarrow> lt y z \<longrightarrow> lt x z)
    \<and> (\<forall>x \<in> A. \<forall>y \<in> A. \<forall>z \<in> A. \<not> lt x y \<longrightarrow> \<not> lt y z \<longrightarrow> \<not> lt x z)"

definition sorts :: "((AVSValue \<Rightarrow> AVSValue \<Rightarrow> bool) \<Rightarrow> AVSValue list \<Rightarrow> AVSValue list) \<Rightarrow> bool" where
  "sorts sorter \<longleftrightarrow> (\<forall>lt xs. strict_weak lt (set xs) \<longrightarrow>
     mset (sorter lt xs) = mset xs \<and> sorted_wrt (\<lambda>x y. \<not> lt y x) (sorter lt xs))"

lemma strict_weak_mono: "strict_weak lt B \<Longrightarrow> A \<subseteq> B \<Longrightarrow> strict_weak lt A"
  unfolding strict_weak_def by (meson subsetD)

lemma strict_weakI:
  assumes "\<And>x. x \<in> A \<Longrightarrow> \<not> lt x x" "\<And>x y z. x \<in> A \<Longrightarrow> y \<in> A \<Longrightarrow> z \<in> A \<Longrightarrow> lt x y \<Longrightarrow> lt y z \<Longrightarrow> lt x z"
    "\<And>x y z. x \<in> A \<Longrightarrow> y \<in> A \<Longrightarrow> z \<in> A \<Longrightarrow> \<not> lt x y \<Longrightarrow> \<not> lt y z \<Longrightarrow> \<not> lt x z"
  shows "strict_weak lt A"
  unfolding strict_weak_def by (intro conjI ballI impI; (rule assms; assumption)?)

lemma strict_weakD:
  assumes "strict_weak lt A"
  shows "x \<in> A \<Longrightarrow> \<not> lt x x" "x \<in> A \<Longrightarrow> y \<in> A \<Longrightarrow> z \<in> A \<Longrightarrow> lt x y \<Longrightarrow> lt y z \<Longrightarrow> lt x z"
    "x \<in> A \<Longrightarrow> y \<in> A \<Longrightarrow> z \<in> A \<Longrightarrow> \<not> lt x y \<Longrightarrow> \<not> lt y z \<Longrightarrow> \<not> lt x z"
  using assms unfolding strict_weak_def by blast+

lemma strict_weak_image:
  assumes "\<And>x. x \<in> A \<Longrightarrow> f x = Some (g x)" "strict_weak lt (g ` A)"
  shows "strict_weak (compare_with f lt) A"
proof -
  have c: "compare_with f lt x y = lt (g x) (g y)" if "x \<in> A" "y \<in> A" for x y
    using that by (simp add: compare_with_def assms(1))
  note d = strict_weakD [OF assms(2)]
  show ?thesis
  proof (rule strict_weakI)
    show "\<not> compare_with f lt x x" if "x \<in> A" for x using c d(1) that by blast
    show "compare_with f lt x z" if "x \<in> A" "y \<in> A" "z \<in> A" "compare_with f lt x y" "compare_with f lt y z" for x y z
      using d(2) [of "g x" "g y" "g z"] that by (simp only: c) blast
    show "\<not> compare_with f lt x z" if "x \<in> A" "y \<in> A" "z \<in> A" "\<not> compare_with f lt x y" "\<not> compare_with f lt y z" for x y z
      using d(3) [of "g x" "g y" "g z"] that by (simp only: c) blast
  qed
qed

lemma str_less_irrefl: "\<not> str_less s s"
  by (induction s) auto

lemma str_less_trans: "str_less s t \<Longrightarrow> str_less t u \<Longrightarrow> str_less s u"
proof (induction s t arbitrary: u rule: str_less.induct)
  case (2 d t)
  then show ?case by (cases u) auto
next
  case (3 c s d t)
  then show ?case by (cases u) auto
qed auto

lemma str_less_total: "str_less s t \<or> s = t \<or> str_less t s"
proof (induction s t rule: str_less.induct)
  case (1 s)
  then show ?case by (cases s) auto
next
  case (3 c s d t)
  have "cc c = cc d \<Longrightarrow> c = d" by (simp add: cc_def)
  with 3 show ?case by auto
qed simp

lemma strict_weak_str: "strict_weak str_less A"
  by (rule strict_weakI) (use str_less_irrefl str_less_trans str_less_total in blast)+

lemma strict_weak_int: "strict_weak ((<) :: int \<Rightarrow> int \<Rightarrow> bool) A"
  by (rule strict_weakI) auto

lemma sort_type_int: "IsInt v \<Longrightarrow> t = CHR ''i'' \<or> t = CHR ''l'' \<Longrightarrow> sort_type t (GetType v) = Inr (if GetType v = CHR ''l'' then CHR ''l'' else t)"
  by (cases v) (elim disjE; simp add: sort_type_def)+

lemma sort_types_int: "list_all IsInt vs \<Longrightarrow> t = CHR ''i'' \<or> t = CHR ''l'' \<Longrightarrow> \<exists>t'. (t' = CHR ''i'' \<or> t' = CHR ''l'') \<and> sort_types t vs = Inr t'"
proof (induction vs arbitrary: t)
  case (Cons v vs)
  then show ?case using Cons.IH [of "if GetType v = CHR ''l'' then CHR ''l'' else t"] by (simp add: sort_type_int)
qed simp

lemma sort_types_string: "list_all IsString vs \<Longrightarrow> sort_types CHR ''s'' vs = Inr CHR ''s''"
proof (induction vs)
  case (Cons v vs)
  then show ?case by (cases v) (auto simp: sort_type_def)
qed simp


text \<open>An insertion sort does what is asked of the library.\<close>

fun insert_by :: "('a \<Rightarrow> 'a \<Rightarrow> bool) \<Rightarrow> 'a \<Rightarrow> 'a list \<Rightarrow> 'a list" where
  "insert_by lt x [] = [x]"
| "insert_by lt x (y # ys) = (if lt y x then y # insert_by lt x ys else x # y # ys)"

definition insertion_sort :: "('a \<Rightarrow> 'a \<Rightarrow> bool) \<Rightarrow> 'a list \<Rightarrow> 'a list" where
  "insertion_sort lt xs = foldr (insert_by lt) xs []"

lemma mset_insert_by: "mset (insert_by lt x ys) = add_mset x (mset ys)"
  by (induction ys) auto

lemma set_insert_by: "set (insert_by lt x ys) = insert x (set ys)"
  using mset_insert_by [of lt x ys] by (metis set_mset_add_mset_insert set_mset_mset)

lemma sorted_insert_by:
  "strict_weak lt (insert x (set ys)) \<Longrightarrow> sorted_wrt (\<lambda>x y. \<not> lt y x) ys \<Longrightarrow> sorted_wrt (\<lambda>x y. \<not> lt y x) (insert_by lt x ys)"
proof (induction ys)
  case (Cons y ys)
  have w: "strict_weak lt (insert x (set ys))" using Cons.prems(1) by (rule strict_weak_mono) auto
  have t: "\<not> lt a c" if "\<not> lt a b" "\<not> lt b c" "{a, b, c} \<subseteq> insert x (set (y # ys))" for a b c
    using strict_weakD(3) [OF Cons.prems(1), of a b c] that by blast
  have "\<not> lt x y" if "lt y x" using strict_weakD(1) [OF Cons.prems(1), of x] strict_weakD(2) [OF Cons.prems(1), of x y x] that by auto
  moreover have "\<not> lt z x" if "\<not> lt y x" "z \<in> set ys" for z
    using t [of z y x] that Cons.prems(2) by auto
  ultimately show ?case using Cons w by (auto simp: set_insert_by)
qed simp

lemma insertion_sort_sorts: "sorts insertion_sort"
proof -
  have m: "mset (insertion_sort lt xs) = mset xs" for lt and xs :: "'a list"
    by (induction xs) (simp_all add: insertion_sort_def mset_insert_by)
  then have e: "set (insertion_sort lt xs) = set xs" for lt and xs :: "'a list" by (metis set_mset_mset)
  have "sorted_wrt (\<lambda>x y. \<not> lt y x) (insertion_sort lt xs)" if "strict_weak lt (set xs)" for lt and xs :: "'a list"
    using that
  proof (induction xs)
    case (Cons x xs)
    have "strict_weak lt (set xs)" using Cons.prems by (rule strict_weak_mono) auto
    with Cons sorted_insert_by [of lt x "insertion_sort lt xs"] e [of lt xs] show ?case by (simp add: insertion_sort_def)
  qed (simp add: insertion_sort_def)
  with m show ?thesis unfolding sorts_def by blast
qed


end
