(* ===== verification/Script_Text.thy ===== *)
theory Script_Text
  imports Script_Numbers
begin

text \<open>
  \<^verbatim>\<open>Format\<close>, \<^verbatim>\<open>String\<close> and \<^verbatim>\<open>VarExist\<close> of \<^verbatim>\<open>core/parser/script.cpp\<close>.
  \<^verbatim>\<open>FormatString\<close> searches for the next brace and copies what is before it; it refines a reading of
  the format one character at a time, and so prints what a template of text and parameters says.
\<close>

text \<open>What the functions use of their surroundings: variables of the script, texts of function
  objects, \<^verbatim>\<open>snprintf\<close> of a number (\<open>None\<close> for an error) and \<^verbatim>\<open>env->Sprintf\<close>.\<close>

record text_env =
  GetVarTry :: "string \<Rightarrow> AVSValue option"
  function_text :: "nat \<Rightarrow> string"
  snprintf_lf :: "fp \<Rightarrow> string option"
  Sprintf :: "string \<Rightarrow> fp \<Rightarrow> string"

definition FormatDefaultFloat :: "text_env \<Rightarrow> fp \<Rightarrow> string scr" where
  "FormatDefaultFloat env x = (case snprintf_lf env x of Some s \<Rightarrow> Inr s
     | None \<Rightarrow> script_error ''String: could not format floating-point value'')"

fun AVSValue_to_string :: "text_env \<Rightarrow> AVSValue \<Rightarrow> string scr" where
  "AVSValue_to_string env (VString s) = Inr s"
| "AVSValue_to_string env (VBool b) = Inr (if b then ''true'' else ''false'')"
| "AVSValue_to_string env (VFunction f) = Inr (function_text env f)"
| "AVSValue_to_string env (VInt i) = Inr (show_int i)"
| "AVSValue_to_string env (VLong i) = Inr (show_int i)"
| "AVSValue_to_string env (VFloat x) = FormatDefaultFloat env (fp_convert binary64 x)"
| "AVSValue_to_string env (VDouble x) = FormatDefaultFloat env x"
| "AVSValue_to_string env _ = Inr []"

definition String :: "text_env \<Rightarrow> AVSValue \<Rightarrow> AVSValue scr" where
  "String env args =
    (let v = arg args 0; f = arg args 1
     in if IsString v then Inr v
        else if IsBool v then Inr (VString (if v = VBool True then ''true'' else ''false''))
        else case v of VFunction k \<Rightarrow> Inr (VString (function_text env k))
        | _ \<Rightarrow> if Defined f
          then (case v of
              VFloat x \<Rightarrow> Inr (VString (Sprintf env (AsString2 f ''%f'') x))
            | _ \<Rightarrow> (case AsFloat v of Some x \<Rightarrow> Inr (VString (Sprintf env (AsString2 f ''%lf'') x)) | None \<Rightarrow> Inr (VString [])))
          else if IsInt v \<or> IsFloat v then bind_r (AVSValue_to_string env v) SaveString
          else Inr (VString []))"

section \<open>Names\<close>

definition valid_name :: "string \<Rightarrow> bool" where
  "valid_name name \<longleftrightarrow> (case name of [] \<Rightarrow> False
     | c # s \<Rightarrow> (c = CHR ''_'' \<or> c_isalpha c) \<and> list_all (\<lambda>c. c = CHR ''_'' \<or> c_isalnum c) s)"

definition VarExist :: "text_env \<Rightarrow> AVSValue \<Rightarrow> AVSValue scr" where
  "VarExist env args = str_arg args 0 (\<lambda>name.
     if \<not> valid_name name then script_error ''VarExist: invalid variable name''
     else Inr (VBool (GetVarTry env name \<noteq> None)))"

section \<open>Format\<close>

text \<open>The pairs of name and text of the parameters; the name can be empty.\<close>

definition format_param :: "text_env \<Rightarrow> AVSValue \<Rightarrow> (string \<times> string) scr" where
  "format_param env v =
    (if IsArray v
     then (case operator_index v 0 of
         VString name \<Rightarrow> if ArraySize v = 2 then bind_r (AVSValue_to_string env (operator_index v 1)) (\<lambda>s. Inr (name, s))
           else script_error ''Format: for key-value lookup parameter must be in [\"name\", value] array format''
       | _ \<Rightarrow> script_error ''Format: for key-value lookup parameter must be in [\"name\", value] array format'')
     else bind_r (AVSValue_to_string env v) (\<lambda>s. Inr ([], s)))"

fun format_params :: "text_env \<Rightarrow> AVSValue list \<Rightarrow> (string \<times> string) list scr" where
  "format_params env [] = Inr []"
| "format_params env (v # vs) = bind_r (format_param env v) (\<lambda>p. bind_r (format_params env vs) (\<lambda>ps. Inr (p # ps)))"

text \<open>\<^verbatim>\<open>std::stoi\<close>: \<open>None\<close> when it throws.\<close>

definition stoi :: "string \<Rightarrow> int option" where
  "stoi s =
    (let s = dropWhile c_isspace s; neg = (peek s = CHR ''-'');
         s = (if peek s = CHR ''-'' \<or> peek s = CHR ''+'' then tl s else s);
         v = int (read_digits 10 0 s); v = (if neg then - v else v)
     in if is_digit 10 (peek s) \<and> is_int32 v then Some v else None)"

text \<open>The text for what stands between two braces, and the number of parameters consumed in order.\<close>

definition param_section :: "text_env \<Rightarrow> (string \<times> string) list \<Rightarrow> string \<Rightarrow> nat \<Rightarrow> (string \<times> nat) scr" where
  "param_section env sv last_param_section param_counter =
    (if last_param_section = []
     then (if length sv \<le> param_counter then script_error ''Format: more parameter sections than parameters supplied''
           else Inr (snd (sv ! param_counter), Suc param_counter))
     else if \<not> valid_name last_param_section
     then (case stoi last_param_section of
         None \<Rightarrow> script_error (''Format: invalid parameter specifier: \"'' @ last_param_section @ ''\".'')
       | Some index \<Rightarrow>
           if index < 0 \<or> wrap32 (int (length sv)) \<le> index
           then script_error (''Format: parameter index is out of range: '' @ show_int index)
           else Inr (snd (sv ! nat index), param_counter))
     else case find (\<lambda>element. fst element = last_param_section) sv of
         Some element \<Rightarrow> Inr (snd element, param_counter)
       | None \<Rightarrow> (case GetVarTry env last_param_section of
           None \<Rightarrow> script_error (''Format: no parameter or variable found with name \"'' @ last_param_section @ ''\".'')
         | Some v \<Rightarrow> bind_r (AVSValue_to_string env v) (\<lambda>s. Inr (s, param_counter))))"

text \<open>\<^verbatim>\<open>format.find_first_of(c, pos)\<close> and \<^verbatim>\<open>format.substr(pos, n)\<close>\<close>

definition find_first_of :: "string \<Rightarrow> char \<Rightarrow> nat \<Rightarrow> nat option" where
  "find_first_of s c pos = find (\<lambda>i. s ! i = c) [pos..<length s]"

definition substr :: "string \<Rightarrow> nat \<Rightarrow> nat \<Rightarrow> string" where
  "substr s pos n = take n (drop pos s)"

lemma find_first_of_Some:
  assumes "find_first_of s c pos = Some i"
  shows "pos \<le> i" "i < length s" "s ! i = c" "\<And>j. pos \<le> j \<Longrightarrow> j < i \<Longrightarrow> s ! j \<noteq> c"
proof -
  from assms obtain k where k: "k < length s - pos" "i = pos + k" "s ! i = c" "\<forall>j<k. s ! (pos + j) \<noteq> c"
    by (auto simp: find_first_of_def find_Some_iff)
  show "pos \<le> i" "i < length s" "s ! i = c" using k by simp_all
  fix j assume "pos \<le> j" "j < i"
  then have "j - pos < k" "j = pos + (j - pos)" using k(2) by simp_all
  with k(4) show "s ! j \<noteq> c" by metis
qed

lemma find_first_step:
  "find_first_of s c pos = Some i \<Longrightarrow> length s - Suc i < length s - pos \<and> length s - Suc (Suc i) < length s - pos"
  using find_first_of_Some(1,2) [of s c pos i] by linarith

lemma find_first_of_None: "find_first_of s c pos = None \<longleftrightarrow> (\<forall>j. pos \<le> j \<and> j < length s \<longrightarrow> s ! j \<noteq> c)"
  by (auto simp: find_first_of_def find_None_iff)

definition format_end :: "bool \<Rightarrow> string \<Rightarrow> string scr" where
  "format_end in_parenthesis ss = (if in_parenthesis then script_error ''Format: unclosed curly bracket'' else Inr ss)"

text \<open>The loop; \<open>i\<close> is always \<open>last_pos\<close>.\<close>

function format_loop :: "text_env \<Rightarrow> (string \<times> string) list \<Rightarrow> string \<Rightarrow> bool \<Rightarrow> nat \<Rightarrow> string \<Rightarrow> nat \<Rightarrow> string scr" where
  "format_loop env sv format in_parenthesis last_pos ss param_counter =
    (if \<not> last_pos < length format then format_end in_parenthesis ss
     else if \<not> in_parenthesis then
       (let x = find_first_of format CHR ''{'' last_pos; cx = find_first_of format CHR ''}'' last_pos
        in if cx \<noteq> None \<and> (x = None \<or> the cx < the x)
           then (if the cx + 1 < length format \<and> format ! (the cx + 1) = CHR ''}''
                 then format_loop env sv format False (the cx + 2) (ss @ substr format last_pos (the cx - last_pos + 1)) param_counter
                 else script_error (''Format: unbalanced curly bracket at position '' @ show_nat (the cx)))
           else if x = None then format_end False (ss @ drop last_pos format)
           else if the x + 1 < length format \<and> format ! (the x + 1) = CHR ''{''
           then format_loop env sv format False (the x + 2) (ss @ substr format last_pos (the x - last_pos + 1)) param_counter
           else format_loop env sv format True (the x + 1) (ss @ substr format last_pos (the x - last_pos)) param_counter)
     else (case find_first_of format CHR ''}'' last_pos of
         None \<Rightarrow> format_end True ss
       | Some x \<Rightarrow> (case param_section env sv (substr format last_pos (x - last_pos)) param_counter of
           Inl e \<Rightarrow> Inl e
         | Inr (s, counter) \<Rightarrow> format_loop env sv format False (x + 1) (ss @ s) counter)))"
  by pat_completeness auto
termination
  by (relation "measure (\<lambda>(env, sv, format, b, last_pos, ss, n). length format - last_pos)")
    (auto dest: find_first_step)

declare format_loop.simps [simp del]

definition FormatString :: "text_env \<Rightarrow> AVSValue \<Rightarrow> AVSValue scr" where
  "FormatString env args = str_arg args 0 (\<lambda>format.
     bind_r (format_params env (array_elements (arg args 1))) (\<lambda>sv.
       bind_r (format_loop env sv format False 0 [] 0) SaveString))"


section \<open>One character at a time\<close>

definition put_before :: "string \<Rightarrow> string scr \<Rightarrow> string scr" where
  "put_before p r = bind_r r (\<lambda>s. Inr (p @ s))"

lemma put_before_simps [simp]:
  "put_before p (Inr s) = Inr (p @ s)" "put_before p (Inl e) = Inl e" "put_before [] r = r"
  "put_before p (put_before q r) = put_before (p @ q) r" "put_before p (script_error m) = script_error m"
  by (cases r; simp add: put_before_def script_error_def)+

text \<open>\<open>pos\<close> is the position of the text in the whole format.\<close>

lemma dropWhile_less: "length (dropWhile P s) - Suc 0 < Suc (length s)"
  using length_dropWhile_le [of P s] by linarith

function read_format :: "text_env \<Rightarrow> (string \<times> string) list \<Rightarrow> nat \<Rightarrow> string \<Rightarrow> nat \<Rightarrow> string scr" where
  "read_format env sv pos [] n = Inr []"
| "read_format env sv pos (c # s) n =
     (if c = CHR ''{'' then
        (if peek s = CHR ''{'' then put_before [c] (read_format env sv (pos + 2) (tl s) n)
         else let sect = takeWhile (\<lambda>c. c \<noteq> CHR ''}'') s; rest = dropWhile (\<lambda>c. c \<noteq> CHR ''}'') s
           in if rest = [] then script_error ''Format: unclosed curly bracket''
              else bind_r (param_section env sv sect n) (\<lambda>(v, n). put_before v (read_format env sv (pos + length sect + 2) (tl rest) n)))
      else if c = CHR ''}'' then
        (if peek s = CHR ''}'' then put_before [c] (read_format env sv (pos + 2) (tl s) n)
         else script_error (''Format: unbalanced curly bracket at position '' @ show_nat pos))
      else put_before [c] (read_format env sv (pos + 1) s n))"
  by pat_completeness auto
termination
  by (relation "measure (\<lambda>(env, sv, pos, s, n). length s)") (auto intro: dropWhile_less)

declare read_format.simps(2) [simp del]

text \<open>What is read after an open_brace brace.\<close>

definition read_section :: "text_env \<Rightarrow> (string \<times> string) list \<Rightarrow> nat \<Rightarrow> string \<Rightarrow> nat \<Rightarrow> string scr" where
  "read_section env sv pos s n =
    (let sect = takeWhile (\<lambda>c. c \<noteq> CHR ''}'') s; rest = dropWhile (\<lambda>c. c \<noteq> CHR ''}'') s
     in if rest = [] then script_error ''Format: unclosed curly bracket''
        else bind_r (param_section env sv sect n) (\<lambda>(v, n). put_before v (read_format env sv (pos + length sect + 1) (tl rest) n)))"

lemma read_plain:
  "CHR ''{'' \<notin> set p \<Longrightarrow> CHR ''}'' \<notin> set p \<Longrightarrow> read_format env sv pos (p @ s) n = put_before p (read_format env sv (pos + length p) s n)"
  by (induction p arbitrary: pos) (auto simp: read_format.simps)

lemma substr_split: "pos \<le> i \<Longrightarrow> i \<le> length s \<Longrightarrow> drop pos s = substr s pos (i - pos) @ drop i s"
  by (metis append_take_drop_id drop_drop le_add_diff_inverse2 substr_def)

lemma substr_chars: "pos \<le> i \<Longrightarrow> i \<le> length s \<Longrightarrow> c \<in> set (substr s pos (i - pos)) \<longleftrightarrow> (\<exists>j. pos \<le> j \<and> j < i \<and> s ! j = c)"
proof -
  assume i: "pos \<le> i" "i \<le> length s"
  have "c \<in> set (substr s pos (i - pos)) \<longleftrightarrow> (\<exists>k < i - pos. s ! (pos + k) = c)"
    using i by (auto simp: substr_def in_set_conv_nth)
  also have "\<dots> \<longleftrightarrow> (\<exists>j. pos \<le> j \<and> j < i \<and> s ! j = c)"
  proof (safe)
    fix k assume "k < i - pos" "c = s ! (pos + k)"
    then show "\<exists>j. pos \<le> j \<and> j < i \<and> s ! j = s ! (pos + k)" using i(1) by (intro exI [of _ "pos + k"]) auto
  next
    fix j assume "pos \<le> j" "j < i"
    then show "\<exists>k < i - pos. s ! (pos + k) = s ! j" by (intro exI [of _ "j - pos"]) auto
  qed
  finally show ?thesis .
qed

lemma takeWhile_find:
  assumes "find_first_of s c pos = Some i"
  shows "takeWhile (\<lambda>d. d \<noteq> c) (drop pos s) = substr s pos (i - pos)" "dropWhile (\<lambda>d. d \<noteq> c) (drop pos s) = drop i s"
proof -
  note f = find_first_of_Some [OF assms]
  have all: "\<And>d. d \<in> set (substr s pos (i - pos)) \<Longrightarrow> d \<noteq> c" using f by (auto simp: substr_chars)
  have i: "drop i s = c # drop (Suc i) s" using Cons_nth_drop_Suc [OF f(2)] f(3) by simp
  have d: "drop pos s = substr s pos (i - pos) @ drop i s" using f by (simp add: substr_split)
  show "takeWhile (\<lambda>d. d \<noteq> c) (drop pos s) = substr s pos (i - pos)" unfolding d using all i by (simp add: takeWhile_append2)
  show "dropWhile (\<lambda>d. d \<noteq> c) (drop pos s) = drop i s" unfolding d using all i by (simp add: dropWhile_append2)
qed

lemma no_find: "find_first_of s c pos = None \<Longrightarrow> c \<notin> set (drop pos s)"
  by (auto simp: find_first_of_None in_set_conv_nth)

lemma peek_drop: "peek (drop (Suc i) s) = c \<longleftrightarrow> Suc i < length s \<and> s ! Suc i = c" if "c \<noteq> NUL"
  using that by (cases "Suc i < length s") (auto simp: peek_def simp flip: Cons_nth_drop_Suc)

text \<open>The loop copies up to a brace, the reading goes on from there.\<close>

lemma read_to_brace:
  assumes "find_first_of s b pos = Some i" "b = CHR ''{'' \<or> b = CHR ''}''" "\<And>j. pos \<le> j \<Longrightarrow> j < i \<Longrightarrow> s ! j \<noteq> CHR ''{'' \<and> s ! j \<noteq> CHR ''}''"
  shows "read_format env sv pos (drop pos s) n = put_before (substr s pos (i - pos)) (read_format env sv i (b # drop (Suc i) s) n)"
proof -
  note f = find_first_of_Some [OF assms(1)]
  have "drop pos s = substr s pos (i - pos) @ b # drop (Suc i) s"
    using f substr_split [of pos i s] Cons_nth_drop_Suc [OF f(2)] by simp
  moreover have "length (substr s pos (i - pos)) = i - pos" using f by (simp add: substr_def)
  moreover have "CHR ''{'' \<notin> set (substr s pos (i - pos))" "CHR ''}'' \<notin> set (substr s pos (i - pos))"
    using f assms(3) by (auto simp: substr_chars)
  ultimately show ?thesis using f(1) by (simp add: read_plain)
qed

lemma substr_Suc: "pos \<le> i \<Longrightarrow> i < length s \<Longrightarrow> substr s pos (i - pos + 1) = substr s pos (i - pos) @ [s ! i]"
  by (simp add: substr_def take_Suc_conv_app_nth)

lemma read_open:
  "peek r \<noteq> CHR ''{'' \<Longrightarrow> read_format env sv pos (CHR ''{'' # r) n = read_section env sv (pos + 1) r n"
  by (auto simp: read_format.simps(2) read_section_def Let_def)

lemma format_loop_reads:
  "pos \<le> length s \<Longrightarrow> format_loop env sv s inp pos ss n =
    put_before ss (if inp then read_section env sv pos (drop pos s) n else read_format env sv pos (drop pos s) n)"
proof (induction env sv s inp pos ss n rule: format_loop.induct)
  case (1 env sv s inp pos ss n)
  note loop = format_loop.simps [of env sv s inp pos ss n]
  show ?case
  proof (cases "pos < length s")
    case False
    with 1 show ?thesis unfolding loop by (cases inp) (simp_all add: format_end_def read_section_def)
  next
    case len: True
    let ?x = "find_first_of s CHR ''{'' pos" and ?cx = "find_first_of s CHR ''}'' pos"
    have len': "\<not> \<not> pos < length s" using len by simp
    show ?thesis
    proof (cases inp)
      case True
      show ?thesis
      proof (cases ?cx)
        case None
        have "\<And>c. c \<in> set (drop pos s) \<Longrightarrow> c \<noteq> CHR ''}''" using no_find [OF None] by blast
        then have "dropWhile (\<lambda>c. c \<noteq> CHR ''}'') (drop pos s) = []" by simp
        then show ?thesis unfolding loop using len True None by (simp add: format_end_def read_section_def Let_def)
      next
        case (Some x)
        note f = find_first_of_Some [OF Some]
        have ne: "drop x s \<noteq> []" using f(2) by simp
        have l: "pos + length (substr s pos (x - pos)) = x" using f(1,2) by (simp add: substr_def)
        have R: "read_section env sv pos (drop pos s) n = bind_r (param_section env sv (substr s pos (x - pos)) n)
            (\<lambda>(v, n). put_before v (read_format env sv (x + 1) (drop (Suc x) s) n))"
          unfolding read_section_def Let_def takeWhile_find [OF Some] using ne l by (simp add: tl_drop drop_Suc)
        show ?thesis
        proof (cases "param_section env sv (substr s pos (x - pos)) n")
          case (Inl e)
          then show ?thesis unfolding R loop using len True Some by simp
        next
          case (Inr vn)
          obtain v m where vn: "vn = (v, m)" by (cases vn)
          have "format_loop env sv s False (x + 1) (ss @ v) m = put_before (ss @ v) (read_format env sv (x + 1) (drop (x + 1) s) m)"
            using 1(4) [OF len' _ Some Inr, of v m] True vn f(2) by simp
          then show ?thesis unfolding R loop using len True Some Inr vn by simp
        qed
      qed
    next
      case inp: False
      note IH = 1(1-3) [OF len' inp refl refl]
      consider (close_brace) cx where "?cx = Some cx" "?x = None \<or> cx < the ?x" | (plain) "?x = None" "?cx = None"
        | (open_brace) x where "?x = Some x" "\<not> (?cx \<noteq> None \<and> the ?cx < x)"
        by (cases ?x; cases ?cx) auto
      then show ?thesis
      proof cases
        case close_brace
        note f = find_first_of_Some [OF close_brace(1)]
        have no: "s ! j \<noteq> CHR ''{''" if "pos \<le> j" "j < cx" for j
          using close_brace(2) that f(2) find_first_of_Some(4) [of s "CHR ''{''" pos "the ?x" j] find_first_of_None [of s "CHR ''{''" pos] by auto
        have R: "read_format env sv pos (drop pos s) n = put_before (substr s pos (cx - pos)) (read_format env sv cx (CHR ''}'' # drop (Suc cx) s) n)"
          using no f(4) by (intro read_to_brace [OF close_brace(1)]) auto
        have pk: "peek (drop (Suc cx) s) = CHR ''}'' \<longleftrightarrow> Suc cx < length s \<and> s ! Suc cx = CHR ''}''" by (rule peek_drop) simp
        show ?thesis
        proof (cases "Suc cx < length s \<and> s ! Suc cx = CHR ''}''")
          case True
          have "format_loop env sv s False (cx + 2) (ss @ substr s pos (cx - pos + 1)) n
            = put_before (ss @ substr s pos (cx - pos + 1)) (read_format env sv (cx + 2) (drop (cx + 2) s) n)"
            using IH(1) close_brace True by auto
          then show ?thesis
            unfolding R loop using len inp close_brace True pk f(1-3) substr_Suc [OF f(1,2)]
            by (simp add: read_format.simps(2) Let_def tl_drop drop_Suc)
        next
          case False
          then show ?thesis
            unfolding R loop using len inp close_brace pk by (auto simp: read_format.simps(2) Let_def)
        qed
      next
        case plain
        have "read_format env sv pos (drop pos s @ []) n = put_before (drop pos s) (read_format env sv (pos + length (drop pos s)) [] n)"
          by (rule read_plain) (use no_find plain in blast)+
        then show ?thesis unfolding loop using len inp plain by (simp add: format_end_def Let_def)
      next
        case open_brace
        note f = find_first_of_Some [OF open_brace(1)]
        have nc: "(?cx \<noteq> None \<and> (?x = None \<or> the ?cx < the ?x)) = False" using open_brace by auto
        have no: "s ! j \<noteq> CHR ''}''" if "pos \<le> j" "j < x" for j
          using open_brace(2) that f(2) find_first_of_Some(4) [of s "CHR ''}''" pos "the ?cx" j] find_first_of_None [of s "CHR ''}''" pos] by auto
        have R: "read_format env sv pos (drop pos s) n = put_before (substr s pos (x - pos)) (read_format env sv x (CHR ''{'' # drop (Suc x) s) n)"
          using no f(4) by (intro read_to_brace [OF open_brace(1)]) auto
        have pk: "peek (drop (Suc x) s) = CHR ''{'' \<longleftrightarrow> Suc x < length s \<and> s ! Suc x = CHR ''{''" by (rule peek_drop) simp
        show ?thesis
        proof (cases "Suc x < length s \<and> s ! Suc x = CHR ''{''")
          case True
          have "format_loop env sv s False (x + 2) (ss @ substr s pos (x - pos + 1)) n
            = put_before (ss @ substr s pos (x - pos + 1)) (read_format env sv (x + 2) (drop (x + 2) s) n)"
            using IH(2) open_brace True by auto
          then show ?thesis
            unfolding R loop Let_def nc using len inp open_brace True pk f(1-3) substr_Suc [OF f(1,2)]
            by (simp add: read_format.simps(2) Let_def tl_drop drop_Suc)
        next
          case False
          have "format_loop env sv s True (x + 1) (ss @ substr s pos (x - pos)) n
            = put_before (ss @ substr s pos (x - pos)) (read_section env sv (x + 1) (drop (x + 1) s) n)"
            using IH(3) open_brace False f(2) by auto
          then show ?thesis
            unfolding R loop Let_def nc using len inp open_brace False pk by (auto simp: read_open)
        qed
      qed
    qed
  qed
qed


section \<open>Templates\<close>

text \<open>A template is a list of texts and parameters; braces in a text are doubled.\<close>

datatype piece = Literal string | Next_param | Index_param nat | Name_param string

definition escape :: "string \<Rightarrow> string" where
  "escape s = concat (map (\<lambda>c. if c = CHR ''{'' \<or> c = CHR ''}'' then [c, c] else [c]) s)"

fun piece_text :: "piece \<Rightarrow> string" where
  "piece_text (Literal s) = escape s"
| "piece_text Next_param = ''{}''"
| "piece_text (Index_param i) = ''{'' @ show_nat i @ ''}''"
| "piece_text (Name_param n) = ''{'' @ n @ ''}''"

text \<open>What the pieces stand for: \<open>vals\<close> are the texts of the parameters, \<open>look\<close> those of names.\<close>

fun render :: "(string \<times> string) list \<Rightarrow> (string \<Rightarrow> string option) \<Rightarrow> piece list \<Rightarrow> nat \<Rightarrow> string option" where
  "render sv look [] n = Some []"
| "render sv look (Literal s # ps) n = map_option ((@) s) (render sv look ps n)"
| "render sv look (Next_param # ps) n =
     (if n < length sv then map_option ((@) (snd (sv ! n))) (render sv look ps (Suc n)) else None)"
| "render sv look (Index_param i # ps) n =
     (if i < length sv then map_option ((@) (snd (sv ! i))) (render sv look ps n) else None)"
| "render sv look (Name_param m # ps) n =
     (case look m of Some t \<Rightarrow> map_option ((@) t) (render sv look ps n) | None \<Rightarrow> None)"

definition template :: "piece list \<Rightarrow> string" where "template ps = concat (map piece_text ps)"

text \<open>A name is looked up among the named parameters, then among the variables.\<close>

definition look_up :: "text_env \<Rightarrow> (string \<times> string) list \<Rightarrow> string \<Rightarrow> string option" where
  "look_up env sv m =
    (if \<not> valid_name m then None
     else case find (\<lambda>e. fst e = m) sv of Some e \<Rightarrow> Some (snd e)
       | None \<Rightarrow> (case GetVarTry env m of None \<Rightarrow> None
          | Some v \<Rightarrow> (case AVSValue_to_string env v of Inr t \<Rightarrow> Some t | Inl _ \<Rightarrow> None)))"

lemma digit_class: "c_isdigit c \<Longrightarrow> \<not> c_isspace c \<and> c \<noteq> CHR ''-'' \<and> c \<noteq> CHR ''+'' \<and> c \<noteq> CHR ''_'' \<and> \<not> c_isalpha c \<and> c \<noteq> CHR ''{'' \<and> c \<noteq> CHR ''}''"
  by (auto simp: c_class_defs)

lemma stoi_show_nat: "i < 2 ^ 31 \<Longrightarrow> stoi (show_nat i) = Some (int i)"
proof -
  assume i: "i < 2 ^ 31"
  obtain c s where s: "show_nat i = c # s" using show_nat_digits [of i] by (cases "show_nat i") auto
  then have c: "is_digit 10 c" "c_isdigit c" using show_nat_digits [of i] by auto
  have "is_int32 (int i)" using i by (simp add: is_int32_def int_limits)
  moreover have "read_digits 10 0 (c # s) = i" using read_show_nat [of i] s by simp
  ultimately show ?thesis using digit_class [OF c(2)] c(1) by (simp add: stoi_def s Let_def)
qed

lemma read_section_end:
  assumes "CHR ''}'' \<notin> set t"
  shows "read_section env sv pos (t @ CHR ''}'' # r) n = bind_r (param_section env sv t n) (\<lambda>(v, n). put_before v (read_format env sv (pos + length t + 1) r n))"
proof -
  have "\<And>c. c \<in> set t \<Longrightarrow> c \<noteq> CHR ''}''" using assms by blast
  then have "takeWhile (\<lambda>c. c \<noteq> CHR ''}'') (t @ CHR ''}'' # r) = t" "dropWhile (\<lambda>c. c \<noteq> CHR ''}'') (t @ CHR ''}'' # r) = CHR ''}'' # r"
    by (simp_all add: takeWhile_append2 dropWhile_append2)
  then show ?thesis by (simp add: read_section_def Let_def)
qed

lemma read_param:
  assumes "CHR ''}'' \<notin> set t" "CHR ''{'' \<notin> set t"
  shows "read_format env sv pos (CHR ''{'' # t @ CHR ''}'' # r) n = bind_r (param_section env sv t n) (\<lambda>(v, n). put_before v (read_format env sv (pos + length t + 2) r n))"
proof -
  have "peek (t @ CHR ''}'' # r) \<noteq> CHR ''{''" using assms(2) by (cases t) auto
  from read_open [OF this] show ?thesis by (simp add: read_section_end [OF assms(1)])
qed

lemma read_escape: "read_format env sv pos (escape s @ r) n = put_before s (read_format env sv (pos + length (escape s)) r n)"
proof (induction s arbitrary: pos)
  case (Cons c s)
  consider "c = CHR ''{''" | "c = CHR ''}''" | "c \<noteq> CHR ''{''" "c \<noteq> CHR ''}''" by blast
  then show ?case
  proof cases
    case 1
    then have "escape (c # s) = c # c # escape s" by (simp add: escape_def)
    then show ?thesis using 1 Cons [of "pos + 2"] by (simp add: read_format.simps(2) [of _ _ _ "CHR ''{''" "CHR ''{'' # _"])
  next
    case 2
    then have "escape (c # s) = c # c # escape s" by (simp add: escape_def)
    then show ?thesis using 2 Cons [of "pos + 2"] by (simp add: read_format.simps(2) [of _ _ _ "CHR ''}''" "CHR ''}'' # _"])
  next
    case 3
    then have "escape (c # s) = c # escape s" by (simp add: escape_def)
    then show ?thesis using 3 Cons [of "pos + 1"] by (simp add: read_format.simps(2) [of _ _ _ c])
  qed
qed (simp add: escape_def)

lemma name_char: "c_isalnum c \<or> c_isalpha c \<Longrightarrow> c \<noteq> CHR ''}'' \<and> c \<noteq> CHR ''{''"
  by (auto simp: c_class_defs)

lemma valid_name_chars:
  assumes "valid_name m"
  shows "CHR ''}'' \<notin> set m \<and> CHR ''{'' \<notin> set m \<and> m \<noteq> []"
proof -
  have n: "c = CHR ''_'' \<or> c_isalpha c \<or> c_isalnum c" if "c \<in> set m" for c
    using assms that by (cases m) (auto simp: valid_name_def list_all_iff)
  have "c \<noteq> CHR ''}'' \<and> c \<noteq> CHR ''{''" if "c \<in> set m" for c
    using n [OF that] name_char [of c] by (elim disjE) simp_all
  moreover have "m \<noteq> []" using assms by (cases m) (auto simp: valid_name_def)
  ultimately show ?thesis by blast
qed

lemma show_nat_section:
  assumes "i < length sv" "length sv < 2 ^ 31"
  shows "param_section env sv (show_nat i) n = Inr (snd (sv ! i), n)"
proof -
  obtain c s where s: "show_nat i = c # s" "c_isdigit c" using show_nat_digits [of i] by (cases "show_nat i") auto
  then have "\<not> valid_name (show_nat i)" "show_nat i \<noteq> []" using digit_class [OF s(2)] by (simp_all add: valid_name_def)
  moreover have "wrap32 (int (length sv)) = int (length sv)" using assms(2) by (intro wrap32_id) (simp add: is_int32_def int_limits)
  ultimately show ?thesis using assms stoi_show_nat [of i] by (simp add: param_section_def)
qed

lemma read_template:
  assumes "length sv < 2 ^ 31"
  shows "render sv (look_up env sv) ps n = Some out \<Longrightarrow> read_format env sv pos (template ps) n = Inr out"
proof (induction ps arbitrary: n pos out)
  case Nil
  then show ?case by (simp add: template_def)
next
  case (Cons p ps)
  have t: "template (p # ps) = piece_text p @ template ps" by (simp add: template_def)
  show ?case
  proof (cases p)
    case (Literal s)
    then show ?thesis using Cons unfolding t by (auto simp: read_escape)
  next
    case Next_param
    then show ?thesis using Cons read_param [of "[]"] unfolding t by (auto simp: param_section_def split: if_splits)
  next
    case (Index_param i)
    have "CHR ''}'' \<notin> set (show_nat i)" "CHR ''{'' \<notin> set (show_nat i)"
      using show_nat_digits [of i] digit_class by (auto simp: list_all_iff)
    note r = read_param [OF this]
    have "i < length sv \<Longrightarrow> param_section env sv (show_nat i) n = Inr (snd (sv ! i), n)"
      using show_nat_section [OF _ assms] by blast
    with Index_param Cons r show ?thesis unfolding t by (auto split: if_splits)
  next
    case (Name_param m)
    then obtain u where u: "look_up env sv m = Some u" using Cons.prems by (auto split: option.splits)
    then have v: "valid_name m" by (auto simp: look_up_def split: if_splits)
    have "param_section env sv m n = Inr (u, n)"
      using u v valid_name_chars [OF v] by (auto simp: look_up_def param_section_def split: option.splits sum.splits)
    with Name_param Cons u show ?thesis using read_param [of m] valid_name_chars [OF v] unfolding t by auto
  qed
qed

text \<open>
  C8: \<^verbatim>\<open>Format\<close> of a template prints it: texts with their doubled braces single again, and the
  parameters in order, by index, and by name, where a name is that of a named parameter or of a
  variable of the script.
\<close>

theorem Format_prints:
  assumes "format_params env vs = Inr sv" "length vs < 2 ^ 15"
    and "render sv (look_up env sv) ps 0 = Some out"
  shows "FormatString env (VArray [VString (template ps), VArray vs]) = SaveString out"
proof -
  have len: "format_params env vs = Inr sv \<Longrightarrow> length sv = length vs" for vs sv
    by (induction vs arbitrary: sv) (auto simp: bind_r_Inr)
  from len [OF assms(1)] assms(2) have "length sv < 2 ^ 31" by simp
  from read_template [OF this assms(3)] have "read_format env sv 0 (template ps) 0 = Inr out" .
  then have "format_loop env sv (template ps) False 0 [] 0 = Inr out" by (simp add: format_loop_reads)
  moreover have "array_elements (VArray vs) = vs" by (rule array_elements_all [OF assms(2)])
  ultimately show ?thesis using assms(1) by (simp add: FormatString_def str_arg_def need_def arg_def wrap16_def)
qed

theorem Format_prints_witness:
  "FormatString \<lparr>GetVarTry = \<lambda>_. None, function_text = \<lambda>_. [], snprintf_lf = \<lambda>_. None, Sprintf = \<lambda>_ _. []\<rparr>
     (VArray [VString ''{{{}}} {1} {k}'', VArray [VInt 7, VArray [VString ''k'', VBool True]]]) = SaveString ''{7} true true''"
proof -
  let ?env = "\<lparr>GetVarTry = \<lambda>_. None, function_text = \<lambda>_. [], snprintf_lf = \<lambda>_. None, Sprintf = \<lambda>_ _. []\<rparr>"
  let ?ps = "[Literal ''{'', Next_param, Literal ''} '', Index_param 1, Literal '' '', Name_param ''k'']"
  have "format_params ?env [VInt 7, VArray [VString ''k'', VBool True]] = Inr [([], ''7''), (''k'', ''true'')]" by code_simp
  moreover have "render [([], ''7''), (''k'', ''true'')] (look_up ?env [([], ''7''), (''k'', ''true'')]) ?ps 0 = Some ''{7} true true''" by code_simp
  moreover have "template ?ps = ''{{{}}} {1} {k}''" by code_simp
  ultimately show ?thesis
    using Format_prints [of ?env "[VInt 7, VArray [VString ''k'', VBool True]]" "[([], ''7''), (''k'', ''true'')]" ?ps "''{7} true true''"] by simp
qed

text \<open>A number is read up to its first character that is no digit.\<close>

lemma stoi_ignores_rest: "stoi (CHR ''1'' # CHR ''x'' # []) = Some 1"
  by code_simp

end
