(* ===== verification/Cond_Reader.thy ===== *)
theory Cond_Reader
  imports Script_Numbers
begin

text \<open>
  \<^verbatim>\<open>ConditionalReader\<close> of \<^verbatim>\<open>filters/conditional/conditional_reader.cpp\<close>: a text file gives
  every frame a value, by lines for a default, an offset, ranges, interpolated ranges and single
  frames.  The text of the file and the number of frames are arguments, \<open>scan_float\<close> is
  \<^verbatim>\<open>sscanf\<close> of a 32 bit number.  Memory for a line is granted.
\<close>

section \<open>Lines and words\<close>

text \<open>\<^verbatim>\<open>readline\<close> until it returns a null pointer: lines without the line feed, one carriage return
  at the end removed; nothing after the last line feed is no line.\<close>

definition strip_cr :: "string \<Rightarrow> string" where
  "strip_cr s = (if s \<noteq> [] \<and> List.last s = char_of (13::nat) then butlast s else s)"

function file_lines :: "string \<Rightarrow> string list" where
  "file_lines [] = []"
| "file_lines (c # s) =
     (let l = takeWhile (\<lambda>c. c \<noteq> char_of (10::nat)) (c # s); rest = dropWhile (\<lambda>c. c \<noteq> char_of (10::nat)) (c # s)
      in cstr (strip_cr l) # file_lines (tl rest))"
  by pat_completeness auto
termination
proof (relation "measure length")
  fix c and s :: string and l rest
  assume "l = takeWhile (\<lambda>c. c \<noteq> char_of (10::nat)) (c # s)" "rest = dropWhile (\<lambda>c. c \<noteq> char_of (10::nat)) (c # s)"
  moreover have "length (dropWhile P (c # s)) \<le> Suc (length s)" for P using length_dropWhile_le [of P "c # s"] by simp
  ultimately have "length rest \<le> Suc (length s)" by blast
  then show "(tl rest, c # s) \<in> measure length" by (cases rest) simp_all
qed simp

definition skipspaces :: "string \<Rightarrow> string" where "skipspaces s = dropWhile c_isspace s"
definition findspace :: "string \<Rightarrow> string" where "findspace s = dropWhile (\<lambda>c. \<not> c_isspace c) s"
definition word_of :: "string \<Rightarrow> string" where "word_of s = takeWhile (\<lambda>c. \<not> c_isspace c) s"

definition iscomment :: "string \<Rightarrow> bool" where
  "iscomment s = (peek (skipspaces s) \<in> {CHR ''#'', CHR '';'', CHR ''%''})"

text \<open>\<^verbatim>\<open>sscanf\<close> with \<^verbatim>\<open>%d\<close>, the digits read into 64 bits, and with \<^verbatim>\<open>%ns\<close>; the result and the
  rest of the text.\<close>

definition scan_int :: "string \<Rightarrow> (int \<times> string) option" where
  "scan_int s =
    (let s = skipspaces s; neg = (peek s = CHR ''-'');
         s = (if peek s = CHR ''-'' \<or> peek s = CHR ''+'' then tl s else s);
         v = int (read_digits 10 0 s); v = (if neg then - v else v);
         v = (if INT64_MAX < v then INT64_MAX else if v < INT64_MIN then INT64_MIN else v)
     in if c_isdigit (peek s) then Some (wrap32 v, dropWhile c_isdigit s) else None)"

definition scan_word :: "nat \<Rightarrow> string \<Rightarrow> (string \<times> string) option" where
  "scan_word n s = (let s = skipspaces s; w = take n (word_of s) in if w = [] then None else Some (w, drop (length w) s))"

definition same_text :: "string \<Rightarrow> string \<Rightarrow> bool" where "same_text a b \<longleftrightarrow> strlwr a = strlwr b"

section \<open>The state of the filter\<close>

datatype cond_mode = MODE_UNKNOWN | MODE_INT | MODE_FLOAT | MODE_BOOL | MODE_STRING

text \<open>The array of the mode holds one value for each frame.\<close>

record reader =
  cmode :: cond_mode
  roffset :: int
  frame_vals :: "AVSValue list"

definition ThrowLine :: "string \<Rightarrow> int \<Rightarrow> string \<Rightarrow> 'a scr" where
  "ThrowLine before k after = script_error (''ConditionalReader: '' @ before @ '' line '' @ show_int k @ after)"

definition ConvertType :: "(string \<Rightarrow> fp option) \<Rightarrow> cond_mode \<Rightarrow> string \<Rightarrow> int \<Rightarrow> AVSValue scr" where
  "ConvertType scan_float m content k = (case m of
     MODE_UNKNOWN \<Rightarrow> script_error (''ConditionalReader: Type has not been defined. Line '' @ show_int k)
   | MODE_INT \<Rightarrow> (case scan_int content of Some (i, _) \<Rightarrow> Inr (VInt i)
       | None \<Rightarrow> ThrowLine ''Could not find an expected integer at'' k ''!'')
   | MODE_FLOAT \<Rightarrow> (case scan_float content of Some x \<Rightarrow> Inr (VFloat x)
       | None \<Rightarrow> ThrowLine ''Could not find an expected float at'' k ''!'')
   | MODE_BOOL \<Rightarrow> (let bval = (case scan_word 7 content of Some (w, _) \<Rightarrow> w | None \<Rightarrow> [])
       in if same_text bval ''true'' \<or> same_text bval ''t'' \<or> same_text bval ''yes'' \<or> bval = ''1'' then Inr (VBool True)
          else if same_text bval ''false'' \<or> same_text bval ''f'' \<or> same_text bval ''no'' \<or> bval = ''0'' then Inr (VBool False)
          else ThrowLine ''Boolean value was not true or false in'' k [])
   | MODE_STRING \<Rightarrow> Inr (VString content))"

text \<open>The value an array of the mode stores of \<open>v\<close>; an undefined value is the zero of the type in a range.\<close>

definition store_value :: "cond_mode \<Rightarrow> AVSValue \<Rightarrow> AVSValue scr" where
  "store_value m v = (case m of
     MODE_INT \<Rightarrow> bind_r (need (AsInt v)) (\<lambda>i. Inr (VInt i))
   | MODE_FLOAT \<Rightarrow> bind_r (need (AsFloatf v)) (\<lambda>x. Inr (VFloat x))
   | MODE_BOOL \<Rightarrow> bind_r (need (AsBool v)) (\<lambda>b. Inr (VBool b))
   | MODE_STRING \<Rightarrow> Inr (VString (AsString2 v []))
   | MODE_UNKNOWN \<Rightarrow> Inr VUndefined)"

definition zero_value :: "cond_mode \<Rightarrow> AVSValue" where
  "zero_value m = (case m of MODE_INT \<Rightarrow> VInt 0 | MODE_FLOAT \<Rightarrow> VFloat (Zero False) | MODE_BOOL \<Rightarrow> VBool False
     | MODE_STRING \<Rightarrow> VString [] | MODE_UNKNOWN \<Rightarrow> VUndefined)"

definition SetRange :: "int \<Rightarrow> int \<Rightarrow> int \<Rightarrow> AVSValue \<Rightarrow> reader \<Rightarrow> reader scr" where
  "SetRange nframes start_frame stop_frame v r =
    (let first_frame = max (wrap32 (start_frame + roffset r)) 0; stop = min (wrap32 (stop_frame + roffset r)) (nframes - 1)
     in bind_r (if Defined v then store_value (cmode r) v else Inr (zero_value (cmode r))) (\<lambda>p.
       Inr (r\<lparr>frame_vals := (if cmode r = MODE_UNKNOWN then frame_vals r
                else fold (\<lambda>i vs. vs[nat i := p]) [first_frame..stop] (frame_vals r))\<rparr>)))"

definition SetFrame :: "int \<Rightarrow> int \<Rightarrow> AVSValue \<Rightarrow> reader \<Rightarrow> reader scr" where
  "SetFrame nframes framenumber v r =
    (let i = wrap32 (framenumber + roffset r)
     in if i < 0 \<or> nframes - 1 < i then Inr r
        else bind_r (store_value (cmode r) v) (\<lambda>p.
          Inr (r\<lparr>frame_vals := (if cmode r = MODE_UNKNOWN then frame_vals r else (frame_vals r)[nat i := p])\<rparr>)))"

definition GetFrameValue :: "int \<Rightarrow> reader \<Rightarrow> int \<Rightarrow> AVSValue" where
  "GetFrameValue nframes r framenumber =
    (if cmode r = MODE_UNKNOWN then VInt 0 else frame_vals r ! nat (clamp framenumber 0 (nframes - 1)))"

section \<open>The lines of the file\<close>

definition type_mode :: "string \<Rightarrow> cond_mode option" where
  "type_mode t = (if same_text t ''int'' then Some MODE_INT else if same_text t ''float'' then Some MODE_FLOAT
     else if same_text t ''bool'' then Some MODE_BOOL else if same_text t ''string'' then Some MODE_STRING else None)"

text \<open>A line before the type is known; \<open>junk\<close> is what the new array holds.\<close>

definition line_untyped :: "int \<Rightarrow> AVSValue list \<Rightarrow> int \<Rightarrow> string \<Rightarrow> reader \<Rightarrow> reader scr" where
  "line_untyped nframes junk lines ptr r =
    (let keyword = word_of ptr; rest = findspace ptr
     in if rest = [] \<or> \<not> same_text keyword ''type'' then Inr r
        else case type_mode (word_of (skipspaces (tl rest))) of
          None \<Rightarrow> ThrowLine (''Unknown '' @ [APO] @ ''Type'' @ [APO] @ '' specified in'') lines []
        | Some m \<Rightarrow> SetRange nframes 0 (nframes - 1) VUndefined (r\<lparr>cmode := m, frame_vals := junk\<rparr>))"

text \<open>The loop that interpolates.\<close>

definition interpolated :: "cond_mode \<Rightarrow> fp \<Rightarrow> fp \<Rightarrow> int \<Rightarrow> AVSValue" where
  "interpolated m first_value diff i =
    (let n = fp_add binary64 (fp_mul binary64 (fp_of_int binary64 i) diff) first_value
     in if m = MODE_FLOAT then VDouble n else VInt (int32_of (fp_trunc (fp_add binary64 n half_fp))))"

fun interpolate_loop :: "int \<Rightarrow> (int \<Rightarrow> AVSValue) \<Rightarrow> int \<Rightarrow> int list \<Rightarrow> reader \<Rightarrow> reader scr" where
  "interpolate_loop nframes f start [] r = Inr r"
| "interpolate_loop nframes f start (i # is) r =
     bind_r (SetFrame nframes (wrap32 (i + start)) (f i) r) (interpolate_loop nframes f start is)"

definition line_range :: "(string \<Rightarrow> fp option) \<Rightarrow> int \<Rightarrow> int \<Rightarrow> string \<Rightarrow> reader \<Rightarrow> reader scr" where
  "line_range scan_float nframes lines text r =
    (let t1 = skipspaces text; t2 = skipspaces (findspace t1); t3 = findspace t2
     in case (scan_int t1, scan_int t2) of
       (Some (start, _), Some (stop, _)) \<Rightarrow>
         if t3 = [] then ThrowLine ''Could not read Range in'' lines []
         else if stop < start then ThrowLine ''The Range start frame is after the end frame in'' lines []
         else bind_r (ConvertType scan_float (cmode r) (tl t3) lines) (\<lambda>v. SetRange nframes start stop v r)
     | _ \<Rightarrow> ThrowLine ''Could not read Range in'' lines [])"

definition line_interpolate :: "(string \<Rightarrow> fp option) \<Rightarrow> int \<Rightarrow> int \<Rightarrow> string \<Rightarrow> reader \<Rightarrow> reader scr" where
  "line_interpolate scan_float nframes lines text r =
    (if cmode r = MODE_BOOL then ThrowLine ''Cannot Interpolate booleans in'' lines []
     else if cmode r = MODE_STRING then ThrowLine ''Cannot Interpolate strings in'' lines []
     else case scan_int text of None \<Rightarrow> ThrowLine ''Could not read Interpolation range in'' lines [] | Some (start, t1) \<Rightarrow>
       (case scan_int t1 of None \<Rightarrow> ThrowLine ''Could not read Interpolation range in'' lines [] | Some (stop, t2) \<Rightarrow>
       (case scan_word 63 t2 of None \<Rightarrow> ThrowLine ''Could not read Interpolation range in'' lines [] | Some (start_value, t3) \<Rightarrow>
       (case scan_word 63 t3 of None \<Rightarrow> ThrowLine ''Could not read Interpolation range in'' lines [] | Some (stop_value, t4) \<Rightarrow>
         if stop < start then ThrowLine ''The Interpolation start frame is after the end frame in'' lines []
         else bind_r (ConvertType scan_float (cmode r) start_value lines) (\<lambda>set_start.
           bind_r (ConvertType scan_float (cmode r) stop_value lines) (\<lambda>set_stop.
             let range = wrap32 (stop - start)
             in if range = 0 then ThrowLine ''Interpolation range must span at least two frames in'' lines []
                else bind_r (need (AsFloat set_start)) (\<lambda>a. bind_r (need (AsFloat set_stop)) (\<lambda>b.
                  let diff = fp_div binary64 (fp_sub binary64 b a) (fp_of_int binary64 range)
                  in interpolate_loop nframes (interpolated (cmode r) a diff) start [0..range] r))))))))"

definition line_typed :: "(string \<Rightarrow> fp option) \<Rightarrow> int \<Rightarrow> int \<Rightarrow> string \<Rightarrow> reader \<Rightarrow> reader scr" where
  "line_typed scan_float nframes lines keyword_text r =
    (let keyword = word_of keyword_text; rest = findspace keyword_text; text = (if rest = [] then [] else tl rest)
     in if same_text keyword ''default''
        then bind_r (ConvertType scan_float (cmode r) text lines) (\<lambda>def. SetRange nframes 0 (nframes - 1) def r)
        else if same_text keyword ''offset''
        then (case scan_int text of Some (n, _) \<Rightarrow> Inr (r\<lparr>roffset := n\<rparr>) | None \<Rightarrow> ThrowLine ''Could not read Offset in'' lines [])
        else if peek keyword = CHR ''R'' \<or> peek keyword = CHR ''r'' then line_range scan_float nframes lines text r
        else if peek keyword = CHR ''I'' \<or> peek keyword = CHR ''i'' then line_interpolate scan_float nframes lines (skipspaces text) r
        else case scan_int keyword of
          Some (cframe, _) \<Rightarrow>
            if text \<noteq> [] \<or> cmode r = MODE_STRING
            then bind_r (ConvertType scan_float (cmode r) text lines) (\<lambda>v. SetFrame nframes cframe v r)
            else ThrowLine ''Do not understand'' lines []
        | None \<Rightarrow> ThrowLine ''Do not understand'' lines [])"

fun read_lines :: "(string \<Rightarrow> fp option) \<Rightarrow> int \<Rightarrow> AVSValue list \<Rightarrow> int \<Rightarrow> string list \<Rightarrow> reader \<Rightarrow> reader scr" where
  "read_lines scan_float nframes junk lines [] r = Inr r"
| "read_lines scan_float nframes junk lines (l # rest) r =
     (let lines = lines + 1; ptr = skipspaces l
      in bind_r (if iscomment ptr \<or> ptr = [] then Inr r
                 else if cmode r = MODE_UNKNOWN then line_untyped nframes junk lines ptr r
                 else line_typed scan_float nframes lines ptr r)
           (read_lines scan_float nframes junk lines rest))"

text \<open>The constructor; \<open>None\<close> is a file that cannot be opened.\<close>

definition ConditionalReader :: "(string \<Rightarrow> fp option) \<Rightarrow> int \<Rightarrow> AVSValue list \<Rightarrow> string \<Rightarrow> string option \<Rightarrow> reader scr" where
  "ConditionalReader scan_float nframes junk filename content = (case content of
     None \<Rightarrow> script_error (''ConditionalReader: Could not open file '' @ [APO] @ filename @ [APO] @ ''.'')
   | Some text \<Rightarrow> bind_r (read_lines scan_float nframes junk 0 (file_lines text) \<lparr>cmode = MODE_UNKNOWN, roffset = 0, frame_vals = []\<rparr>) (\<lambda>r.
       if cmode r = MODE_UNKNOWN then script_error ''ConditionalReader: Type was not defined!'' else Inr r))"

section \<open>Ranges and frames\<close>

lemma bind_Inr: "bind_r (Inr x) f = f x"
  by (simp add: bind_r_def)

lemma need_Some: "need (Some x) = Inr x"
  by (simp add: need_def)

lemma fold_update_length: "length (fold (\<lambda>i vs. vs[nat i := p]) is vs) = length vs"
  by (induction "is" arbitrary: vs) simp_all

lemma fold_update_nth:
  "k < length vs \<Longrightarrow> \<forall>i\<in>set is. 0 \<le> i \<Longrightarrow>
   fold (\<lambda>i vs. vs[nat i := p]) is vs ! k = (if int k \<in> set is then p else vs ! k)"
  by (induction "is" arbitrary: vs) (auto simp: nth_list_update)

text \<open>The values of a mode, and the states the reader reaches once the type is known.\<close>

fun stored_value :: "cond_mode \<Rightarrow> AVSValue \<Rightarrow> bool" where
  "stored_value MODE_INT v = (case v of VInt _ \<Rightarrow> True | _ \<Rightarrow> False)"
| "stored_value MODE_FLOAT v = (case v of VFloat _ \<Rightarrow> True | _ \<Rightarrow> False)"
| "stored_value MODE_BOOL v = (case v of VBool _ \<Rightarrow> True | _ \<Rightarrow> False)"
| "stored_value MODE_STRING v = (case v of VString _ \<Rightarrow> True | _ \<Rightarrow> False)"
| "stored_value MODE_UNKNOWN v = False"

definition reader_ok :: "int \<Rightarrow> reader \<Rightarrow> bool" where
  "reader_ok n r \<longleftrightarrow> (if cmode r = MODE_UNKNOWN then roffset r = 0 else int (length (frame_vals r)) = n \<and> (\<forall>v\<in>set (frame_vals r). stored_value (cmode r) v))"

lemma bind_InrE: assumes "bind_r x f = Inr y" obtains a where "x = Inr a" "f a = Inr y"
  using assms by (cases x) (auto simp: bind_r_def)

lemma need_InrE: assumes "need x = Inr y" obtains "x = Some y"
  using assms by (cases x) (auto simp: need_def script_error_def)

lemma store_value_stored: "store_value m v = Inr p \<Longrightarrow> m \<noteq> MODE_UNKNOWN \<Longrightarrow> stored_value m p"
  by (cases m) (auto simp: store_value_def elim!: bind_InrE)

lemma zero_value_stored: "m \<noteq> MODE_UNKNOWN \<Longrightarrow> stored_value m (zero_value m)"
  by (cases m) (auto simp: zero_value_def)

lemma SetRange_cases:
  assumes "SetRange n a b v r = Inr r'" and "cmode r \<noteq> MODE_UNKNOWN"
  obtains p where "stored_value (cmode r) p"
    "r' = r\<lparr>frame_vals := fold (\<lambda>i vs. vs[nat i := p]) [max (wrap32 (a + roffset r)) 0..min (wrap32 (b + roffset r)) (n - 1)] (frame_vals r)\<rparr>"
proof -
  obtain p where "(if Defined v then store_value (cmode r) v else Inr (zero_value (cmode r))) = Inr p"
    "r' = r\<lparr>frame_vals := fold (\<lambda>i vs. vs[nat i := p]) [max (wrap32 (a + roffset r)) 0..min (wrap32 (b + roffset r)) (n - 1)] (frame_vals r)\<rparr>"
    using assms by (auto simp: SetRange_def Let_def elim!: bind_InrE)
  moreover have "stored_value (cmode r) p"
    using calculation(1) assms(2) store_value_stored zero_value_stored by (auto split: if_splits)
  ultimately show thesis using that by blast
qed

lemma SetRange_ok: assumes "SetRange n a b v r = Inr r'" and "reader_ok n r" and "cmode r \<noteq> MODE_UNKNOWN" shows "reader_ok n r'"
proof -
  obtain p where p: "stored_value (cmode r) p"
    "r' = r\<lparr>frame_vals := fold (\<lambda>i vs. vs[nat i := p]) [max (wrap32 (a + roffset r)) 0..min (wrap32 (b + roffset r)) (n - 1)] (frame_vals r)\<rparr>"
    using SetRange_cases [OF assms(1,3)] by blast
  have old: "stored_value (cmode r) (frame_vals r ! i)" if "i < length (frame_vals r)" for i
    using that assms(2,3) by (auto simp: reader_ok_def)
  have "stored_value (cmode r) v" if "v \<in> set (frame_vals r')" for v
    using that p by (auto simp: in_set_conv_nth fold_update_length fold_update_nth old)
  then show ?thesis using p assms(2,3) by (auto simp: reader_ok_def fold_update_length)
qed

lemma SetRange_all:
  assumes "SetRange n 0 (n - 1) v r = Inr r'" "cmode r \<noteq> MODE_UNKNOWN" "int (length (frame_vals r)) = n" "roffset r = 0" "n \<le> INT_MAX"
  shows "reader_ok n r'"
proof -
  obtain p where p: "stored_value (cmode r) p"
    "r' = r\<lparr>frame_vals := fold (\<lambda>i vs. vs[nat i := p]) [max (wrap32 (0 + roffset r)) 0..min (wrap32 (n - 1 + roffset r)) (n - 1)] (frame_vals r)\<rparr>"
    using SetRange_cases [OF assms(1,2)] by blast
  have w: "wrap32 0 = 0" "wrap32 (n - 1) = n - 1" using assms(3,5) by (auto simp: is_int32_def int_limits intro!: wrap32_id)
  have "stored_value (cmode r) v" if "v \<in> set (frame_vals r')" for v
    using that p assms(2,3,4) w by (auto simp: in_set_conv_nth fold_update_length fold_update_nth)
  then show ?thesis using p assms(2,3) by (auto simp: reader_ok_def fold_update_length)
qed

lemma SetFrame_ok: assumes "SetFrame n k v r = Inr r'" and "reader_ok n r" shows "reader_ok n r'"
  using assms store_value_stored [of "cmode r" v]
  by (auto simp: SetFrame_def Let_def reader_ok_def split: if_splits elim!: bind_InrE dest!: set_update_subset_insert [THEN subsetD])

lemma interpolate_ok: "interpolate_loop n f a is r = Inr r' \<Longrightarrow> reader_ok n r \<Longrightarrow> reader_ok n r'"
  by (induction "is" arbitrary: r) (auto elim!: bind_InrE intro: SetFrame_ok)

lemma line_untyped_ok:
  assumes "line_untyped n junk k ptr r = Inr r'" "reader_ok n r" "cmode r = MODE_UNKNOWN" "int (length junk) = n" "n \<le> INT_MAX"
  shows "reader_ok n r'"
proof -
  have m: "type_mode w = Some m \<Longrightarrow> m \<noteq> MODE_UNKNOWN" for w m by (auto simp: type_mode_def split: if_splits)
  show ?thesis
    using assms m unfolding line_untyped_def Let_def ThrowLine_def script_error_def
    by (auto simp: reader_ok_def [of _ r] reader_ok_def [of _ r'] split: if_splits option.splits dest!: SetRange_all)
qed

lemma line_range_ok:
  "line_range sf n k txt r = Inr r' \<Longrightarrow> reader_ok n r \<Longrightarrow> cmode r \<noteq> MODE_UNKNOWN \<Longrightarrow> reader_ok n r'"
  unfolding line_range_def Let_def ThrowLine_def script_error_def
  by (auto split: if_splits option.splits elim!: bind_InrE) (erule (2) SetRange_ok)

lemma line_interpolate_ok:
  "line_interpolate sf n k txt r = Inr r' \<Longrightarrow> reader_ok n r \<Longrightarrow> reader_ok n r'"
  unfolding line_interpolate_def Let_def ThrowLine_def script_error_def
  by (auto split: if_splits option.splits elim!: bind_InrE) (erule (1) interpolate_ok)

lemma line_typed_ok:
  assumes "line_typed sf n k txt r = Inr r'" "reader_ok n r" "cmode r \<noteq> MODE_UNKNOWN"
  shows "reader_ok n r'"
proof -
  have off: "reader_ok n (r\<lparr>roffset := d\<rparr>)" for d using assms(2,3) by (simp add: reader_ok_def)
  show ?thesis
    using assms off unfolding line_typed_def Let_def
    by (auto simp: ThrowLine_def script_error_def split: if_splits option.splits
      elim!: bind_InrE dest: SetRange_ok SetFrame_ok line_range_ok line_interpolate_ok)
qed

lemma read_lines_ok:
  "read_lines sf n junk k ls r = Inr r' \<Longrightarrow> reader_ok n r \<Longrightarrow> int (length junk) = n \<Longrightarrow> n \<le> INT_MAX \<Longrightarrow> reader_ok n r'"
proof (induction ls arbitrary: k r)
  case (Cons l ls)
  then obtain r1 where r1: "read_lines sf n junk (k + 1) ls r1 = Inr r'"
    and "(if iscomment (skipspaces l) \<or> skipspaces l = [] then Inr r
          else if cmode r = MODE_UNKNOWN then line_untyped n junk (k + 1) (skipspaces l) r
          else line_typed sf n (k + 1) (skipspaces l) r) = Inr r1"
    by (auto simp: Let_def elim!: bind_InrE)
  then have "reader_ok n r1"
    using Cons.prems(2-) line_untyped_ok line_typed_ok by (auto split: if_splits)
  then show ?case using Cons.IH r1 Cons.prems by blast
qed simp

text \<open>C38: When \<^verbatim>\<open>ConditionalReader\<close> is made, whatever the text of the file and whatever
  the new array held, the type was declared, the array holds a value of that type for every frame
  of the clip, so that every frame number, also one beyond the clip, reads a value of that
  type.\<close>

theorem reader_values_typed:
  assumes "ConditionalReader scan_float n junk filename content = Inr r" and "int (length junk) = n" and "0 < n" and "n \<le> INT_MAX"
  shows "int (length (frame_vals r)) = n \<and> (\<forall>v\<in>set (frame_vals r). stored_value (cmode r) v)
    \<and> cmode r \<noteq> MODE_UNKNOWN \<and> stored_value (cmode r) (GetFrameValue n r k)"
proof -
  obtain str where c: "content = Some str" and m: "cmode r \<noteq> MODE_UNKNOWN"
    and "read_lines scan_float n junk 0 (file_lines str) \<lparr>cmode = MODE_UNKNOWN, roffset = 0, frame_vals = []\<rparr> = Inr r"
    using assms(1) by (auto simp: ConditionalReader_def script_error_def elim!: bind_InrE split: option.splits if_splits)
  then have "reader_ok n r"
    using read_lines_ok assms(2,4) by (auto simp: reader_ok_def split: if_splits)
  with m have ok: "int (length (frame_vals r)) = n" "\<And>i. i < length (frame_vals r) \<Longrightarrow> stored_value (cmode r) (frame_vals r ! i)"
    "\<forall>v\<in>set (frame_vals r). stored_value (cmode r) v"
    by (auto simp: reader_ok_def)
  have "nat (clamp k 0 (n - 1)) < length (frame_vals r)" using assms(3) ok(1) by (auto simp: clamp_def nat_less_iff)
  then show ?thesis using ok m by (simp add: GetFrameValue_def)
qed

section \<open>Entries and their meaning\<close>

text \<open>A file of integers as a list of entries, how each is written on a line, and the value of a frame after
  them: the last entry that covers the frame decides, with the offset in force at the entry.\<close>

datatype cond_entry = EDefault int | EOffset int | ERange int int int | EFrame int int

fun entry_line :: "cond_entry \<Rightarrow> string" where
  "entry_line (EDefault v) = ''Default '' @ show_int v"
| "entry_line (EOffset d) = ''Offset '' @ show_int d"
| "entry_line (ERange a b v) = ''Range '' @ show_int a @ '' '' @ show_int b @ '' '' @ show_int v"
| "entry_line (EFrame k v) = show_int k @ '' '' @ show_int v"

definition entry_file :: "cond_entry list \<Rightarrow> string" where
  "entry_file es = concat (map (\<lambda>l. l @ [char_of (10::nat)]) (''Type int'' # map entry_line es))"

fun entry_ok :: "cond_entry \<Rightarrow> bool" where
  "entry_ok (EDefault v) = is_int32 v"
| "entry_ok (EOffset d) = (\<bar>d\<bar> < 2 ^ 30)"
| "entry_ok (ERange a b v) = (\<bar>a\<bar> < 2 ^ 30 \<and> \<bar>b\<bar> < 2 ^ 30 \<and> a \<le> b \<and> is_int32 v)"
| "entry_ok (EFrame k v) = (\<bar>k\<bar> < 2 ^ 30 \<and> is_int32 v)"

fun covers :: "int \<Rightarrow> int \<Rightarrow> int \<Rightarrow> cond_entry \<Rightarrow> int option" where
  "covers n off f (EDefault v) = (if off \<le> f \<and> f < n + off then Some v else None)"
| "covers n off f (EOffset d) = None"
| "covers n off f (ERange a b v) = (if a + off \<le> f \<and> f \<le> b + off then Some v else None)"
| "covers n off f (EFrame k v) = (if f = k + off then Some v else None)"

fun offset_after :: "int \<Rightarrow> cond_entry \<Rightarrow> int" where
  "offset_after off (EOffset d) = d"
| "offset_after off _ = off"

fun frame_meaning :: "int \<Rightarrow> int \<Rightarrow> int \<Rightarrow> int \<Rightarrow> cond_entry list \<Rightarrow> int" where
  "frame_meaning n off f v [] = v"
| "frame_meaning n off f v (e # es) =
     frame_meaning n (offset_after off e) f (case covers n off f e of Some u \<Rightarrow> u | None \<Rightarrow> v) es"

definition entry_effect :: "int \<Rightarrow> cond_entry \<Rightarrow> reader \<Rightarrow> reader" where
  "entry_effect n e r = r\<lparr>roffset := offset_after (roffset r) e, frame_vals := map (\<lambda>i. case covers n (roffset r) (int i) e of
     Some u \<Rightarrow> VInt u | None \<Rightarrow> frame_vals r ! i) [0..<length (frame_vals r)]\<rparr>"

text \<open>The characters of a number.\<close>

definition number_char :: "char \<Rightarrow> bool" where "number_char c \<longleftrightarrow> c_isdigit c \<or> c = CHR ''-''"

lemma show_int_chars: "list_all number_char (show_int v) \<and> show_int v \<noteq> []"
  using show_nat_digits [of "nat (- v)"] show_nat_digits [of "nat v"]
  by (auto simp: show_int_def number_char_def list_all_iff)

lemma number_char_facts:
  assumes "number_char c"
  shows "\<not> c_isspace c" "c \<noteq> NUL" "c \<noteq> char_of (10::nat)" "c \<noteq> char_of (13::nat)" "c \<notin> {CHR ''#'', CHR '';'', CHR ''%''}" "\<not> c_isalpha c" "c_tolower c = c"
proof -
  have "char_of (10::nat) \<noteq> CHR ''-''" "char_of (13::nat) \<noteq> CHR ''-''" by code_simp+
  then show "\<not> c_isspace c" "c \<noteq> NUL" "c \<noteq> char_of (10::nat)" "c \<noteq> char_of (13::nat)" "c \<notin> {CHR ''#'', CHR '';'', CHR ''%''}" "\<not> c_isalpha c" "c_tolower c = c"
    using assms by (auto simp: number_char_def c_class_defs c_tolower_def)
qed

lemma skipspaces_start: "s \<noteq> [] \<Longrightarrow> \<not> c_isspace (hd s) \<Longrightarrow> skipspaces s = s"
  by (cases s) (simp_all add: skipspaces_def)

lemma word_split:
  assumes "list_all (\<lambda>c. \<not> c_isspace c) w" and "s = [] \<or> c_isspace (hd s)"
  shows "word_of (w @ s) = w \<and> findspace (w @ s) = s"
  using assms by (cases s) (auto simp: word_of_def findspace_def list_all_iff takeWhile_append2 dropWhile_append2)

lemma scan_show_int:
  assumes "is_int32 v" and "s = [] \<or> \<not> c_isdigit (hd s)" and "s = [] \<or> hd s = CHR '' ''"
  shows "scan_int (show_int v @ s) = Some (v, s)"
proof -
  obtain c ds where d: "show_nat (nat \<bar>v\<bar>) = c # ds" using show_nat_digits [of "nat \<bar>v\<bar>"] by (cases "show_nat (nat \<bar>v\<bar>)") auto
  have dig: "list_all c_isdigit (c # ds)" "list_all (is_digit 10) (c # ds)" using show_nat_digits [of "nat \<bar>v\<bar>"] d by (auto simp: list_all_iff)
  have stop: "read_digits 10 m s = m" for m
    using assms(3) by (cases s) (auto simp: digit_value_def c_class_defs)
  have rd: "read_digits 10 0 ((c # ds) @ s) = nat \<bar>v\<bar>"
    using read_digits_app [OF dig(2)] read_show_nat [of "nat \<bar>v\<bar>"] d stop by simp
  have dw: "dropWhile c_isdigit ((c # ds) @ s) = s"
    using dig(1) assms(2) by (cases s) (auto simp: dropWhile_append2 list_all_iff)
  have c: "c_isdigit c" "c \<noteq> CHR ''-''" "c \<noteq> CHR ''+''" "\<not> c_isspace c" using dig(1) by (auto simp: c_class_defs)
  have sp: "skipspaces (show_int v @ s) = show_int v @ s" using show_int_chars [of v] number_char_facts
    by (intro skipspaces_start) (cases "show_int v"; auto)+
  have lim: "\<not> INT64_MAX < v" "\<not> v < INT64_MIN" "wrap32 v = v" using assms(1) by (auto simp: is_int32_def int_limits)
  show ?thesis
  proof (cases "v < 0")
    case True
    then have "show_int v @ s = CHR ''-'' # (c # ds) @ s" using d by (simp add: show_int_def)
    then show ?thesis using True c rd dw lim sp unfolding scan_int_def Let_def by simp
  next
    case False
    then have "show_int v @ s = (c # ds) @ s" using d by (simp add: show_int_def)
    then show ?thesis using False c rd dw lim sp unfolding scan_int_def Let_def by simp
  qed
qed

text \<open>One entry.\<close>

definition int_reader :: "int \<Rightarrow> reader \<Rightarrow> bool" where
  "int_reader n r \<longleftrightarrow> cmode r = MODE_INT \<and> \<bar>roffset r\<bar> < 2 ^ 30 \<and> int (length (frame_vals r)) = n \<and> n \<le> 2 ^ 30"

lemma SetRange_int:
  assumes "int_reader n r" "\<bar>a\<bar> \<le> 2 ^ 30" "\<bar>b\<bar> \<le> 2 ^ 30"
  shows "SetRange n a b (VInt v) r = Inr (r\<lparr>frame_vals := map (\<lambda>i. if a + roffset r \<le> int i \<and> int i \<le> b + roffset r then VInt v
    else frame_vals r ! i) [0..<length (frame_vals r)]\<rparr>)"
proof -
  have w: "wrap32 (a + roffset r) = a + roffset r" "wrap32 (b + roffset r) = b + roffset r"
    using assms by (auto simp: int_reader_def is_int32_def int_limits intro!: wrap32_id)
  have "fold (\<lambda>i vs. vs[nat i := VInt v]) [max (a + roffset r) 0..min (b + roffset r) (n - 1)] (frame_vals r) =
    map (\<lambda>i. if a + roffset r \<le> int i \<and> int i \<le> b + roffset r then VInt v else frame_vals r ! i) [0..<length (frame_vals r)]"
    using assms(1) by (intro nth_equalityI) (auto simp: fold_update_length fold_update_nth int_reader_def)
  then show ?thesis using assms(1) w by (simp add: SetRange_def Let_def store_value_def int_reader_def bind_Inr need_Some)
qed

lemma SetFrame_int:
  assumes "int_reader n r" "\<bar>k\<bar> < 2 ^ 30"
  shows "SetFrame n k (VInt v) r = Inr (r\<lparr>frame_vals := map (\<lambda>i. if int i = k + roffset r then VInt v
    else frame_vals r ! i) [0..<length (frame_vals r)]\<rparr>)"
proof -
  have w: "wrap32 (k + roffset r) = k + roffset r"
    using assms by (auto simp: int_reader_def is_int32_def int_limits intro!: wrap32_id)
  show ?thesis
  proof (cases "k + roffset r < 0 \<or> n - 1 < k + roffset r")
    case True
    then have "map (\<lambda>i. if int i = k + roffset r then VInt v else frame_vals r ! i) [0..<length (frame_vals r)] = frame_vals r"
      using assms(1) by (intro nth_equalityI) (auto simp: int_reader_def)
    then show ?thesis using True w by (simp add: SetFrame_def)
  next
    case False
    then have "(frame_vals r)[nat (k + roffset r) := VInt v] = map (\<lambda>i. if int i = k + roffset r then VInt v else frame_vals r ! i) [0..<length (frame_vals r)]"
      using assms(1) by (intro nth_equalityI) (auto simp: int_reader_def nth_list_update)
    then show ?thesis using False w assms(1) by (simp add: SetFrame_def store_value_def int_reader_def bind_Inr need_Some)
  qed
qed

lemma entry_effect_int: "int_reader n r \<Longrightarrow> entry_ok e \<Longrightarrow> int_reader n (entry_effect n e r)"
  by (cases e) (auto simp: int_reader_def entry_effect_def)

lemma number_text:
  assumes "s = [] \<or> c_isspace (hd s)"
  shows "word_of (show_int v @ s) = show_int v" "findspace (show_int v @ s) = s" "skipspaces (show_int v @ s) = show_int v @ s"
proof -
  have n: "list_all (\<lambda>c. \<not> c_isspace c) (show_int v)" using show_int_chars [of v] number_char_facts by (auto simp: list_all_iff)
  then show "word_of (show_int v @ s) = show_int v" "findspace (show_int v @ s) = s" using word_split [OF n assms] by simp_all
  show "skipspaces (show_int v @ s) = show_int v @ s"
    using n show_int_chars [of v] by (intro skipspaces_start) (auto simp: hd_append list_all_iff)
qed

lemmas number_end = number_text [of "[]", simplified] scan_show_int [where s = "[]", simplified]

lemma space_char: "c_isspace CHR '' ''" "\<not> c_isdigit CHR '' ''" by (simp_all add: c_class_defs)

lemmas number_space = number_text [of "CHR '' '' # s" for s, simplified list.sel space_char simp_thms]
  scan_show_int [where s = "CHR '' '' # s" for s, simplified list.sel space_char simp_thms]

lemma skip_space: "skipspaces (CHR '' '' # show_int v @ s) = show_int v @ s"
proof -
  have "skipspaces (CHR '' '' # t) = skipspaces t" for t by (simp add: skipspaces_def space_char)
  moreover have "\<not> c_isspace (hd (show_int v @ s))"
    using show_int_chars [of v] number_char_facts by (cases "show_int v") auto
  ultimately show ?thesis using show_int_chars [of v] by (simp add: skipspaces_start)
qed

lemma ConvertType_int: "is_int32 v \<Longrightarrow> ConvertType sf MODE_INT (show_int v) k = Inr (VInt v)"
  by (simp add: ConvertType_def number_end)

lemma keyword_split:
  "word_of (''Default '' @ s) = ''Default'' \<and> findspace (''Default '' @ s) = CHR '' '' # s"
  "word_of (''Offset '' @ s) = ''Offset'' \<and> findspace (''Offset '' @ s) = CHR '' '' # s"
  "word_of (''Range '' @ s) = ''Range'' \<and> findspace (''Range '' @ s) = CHR '' '' # s"
  "word_of (''Type '' @ s) = ''Type'' \<and> findspace (''Type '' @ s) = CHR '' '' # s"
  by (simp_all add: word_of_def findspace_def c_class_defs)

lemma keyword_same:
  "same_text ''Default'' ''default''" "\<not> same_text ''Offset'' ''default''" "same_text ''Offset'' ''offset''"
  "\<not> same_text ''Range'' ''default''" "\<not> same_text ''Range'' ''offset''" "same_text ''Type'' ''type''"
  "\<not> same_text ''int'' ''float''" "same_text ''int'' ''int''"
  by code_simp+

lemma number_not_keyword: "\<not> same_text (show_int v) ''default''" "\<not> same_text (show_int v) ''offset''"
  "peek (show_int v) \<notin> {CHR ''R'', CHR ''r'', CHR ''I'', CHR ''i''}"
proof -
  obtain c s where s: "show_int v = c # s" "number_char c" using show_int_chars [of v] by (cases "show_int v") auto
  have t: "c_tolower c = c" "\<not> c_isalpha c" using number_char_facts [OF s(2)] by auto
  have l: "strlwr (show_int v) = c # strlwr s" using s t by (simp add: strlwr_def)
  have a: "c \<notin> {CHR ''d'', CHR ''o'', CHR ''R'', CHR ''r'', CHR ''I'', CHR ''i''}" using t(2) by (auto simp: c_class_defs)
  have "strlwr ''default'' = ''default''" "strlwr ''offset'' = ''offset''" by code_simp+
  then show "\<not> same_text (show_int v) ''default''" "\<not> same_text (show_int v) ''offset''" "peek (show_int v) \<notin> {CHR ''R'', CHR ''r'', CHR ''I'', CHR ''i''}"
    using l a s(1) by (auto simp: same_text_def)
qed

lemma line_default:
  assumes "int_reader n r" "is_int32 v"
  shows "line_typed sf n k (entry_line (EDefault v)) r = Inr (entry_effect n (EDefault v) r)"
proof -
  have n: "\<bar>n - 1\<bar> \<le> 2 ^ 30" and m: "cmode r = MODE_INT" using assms(1) by (auto simp: int_reader_def)
  have "line_typed sf n k (entry_line (EDefault v)) r = SetRange n 0 (n - 1) (VInt v) r"
    using m by (simp add: line_typed_def keyword_split keyword_same Let_def ConvertType_int assms(2) bind_Inr del: append_Cons append_Nil)
  also have "\<dots> = Inr (entry_effect n (EDefault v) r)"
    using SetRange_int [OF assms(1) _ n] by (auto simp: entry_effect_def intro!: reader.equality map_cong)
  finally show ?thesis .
qed

lemma line_offset:
  assumes "int_reader n r" "\<bar>d\<bar> < 2 ^ 30"
  shows "line_typed sf n k (entry_line (EOffset d)) r = Inr (entry_effect n (EOffset d) r)"
proof -
  have "is_int32 d" using assms(2) by (auto simp: is_int32_def int_limits)
  then show ?thesis
    by (simp add: line_typed_def keyword_split keyword_same Let_def number_end entry_effect_def map_nth del: append_Cons append_Nil)
qed

lemma line_range_entry:
  assumes "int_reader n r" "entry_ok (ERange a b v)"
  shows "line_typed sf n k (entry_line (ERange a b v)) r = Inr (entry_effect n (ERange a b v) r)"
proof -
  have i: "is_int32 a" "is_int32 b" "is_int32 v" "\<not> b < a" "\<bar>a\<bar> \<le> 2 ^ 30" "\<bar>b\<bar> \<le> 2 ^ 30" and m: "cmode r = MODE_INT"
    using assms by (auto simp: int_reader_def is_int32_def int_limits)
  let ?t = "show_int a @ CHR '' '' # show_int b @ CHR '' '' # show_int v"
  have kw: "word_of (entry_line (ERange a b v)) = ''Range''" "findspace (entry_line (ERange a b v)) = CHR '' '' # ?t"
    using keyword_split(3) [of ?t] by simp_all
  have "line_typed sf n k (entry_line (ERange a b v)) r = line_range sf n k ?t r"
    by (simp add: line_typed_def kw keyword_same Let_def del: entry_line.simps)
  also have "\<dots> = SetRange n a b (VInt v) r"
    using i m by (simp add: line_range_def Let_def number_space skip_space ConvertType_int bind_Inr)
  also have "\<dots> = Inr (entry_effect n (ERange a b v) r)"
    using SetRange_int [OF assms(1) i(5,6)] by (auto simp: entry_effect_def intro!: reader.equality map_cong)
  finally show ?thesis .
qed

lemma line_frame:
  assumes "int_reader n r" "entry_ok (EFrame f v)"
  shows "line_typed sf n k (entry_line (EFrame f v)) r = Inr (entry_effect n (EFrame f v) r)"
proof -
  have i: "is_int32 f" "is_int32 v" "\<bar>f\<bar> < 2 ^ 30" and m: "cmode r = MODE_INT"
    using assms by (auto simp: int_reader_def is_int32_def int_limits)
  have "line_typed sf n k (entry_line (EFrame f v)) r = SetFrame n f (VInt v) r"
    using i m number_not_keyword [of f] show_int_chars [of v]
    by (simp add: line_typed_def Let_def number_space number_end ConvertType_int bind_Inr)
  also have "\<dots> = Inr (entry_effect n (EFrame f v) r)"
    using SetFrame_int [OF assms(1) i(3)] by (auto simp: entry_effect_def intro!: reader.equality map_cong)
  finally show ?thesis .
qed

lemma line_entry:
  "int_reader n r \<Longrightarrow> entry_ok e \<Longrightarrow> line_typed sf n k (entry_line e) r = Inr (entry_effect n e r)"
  using line_default line_offset line_range_entry line_frame by (cases e) auto

text \<open>The line of an entry is no comment and starts with no space.\<close>

lemma entry_start: "skipspaces (entry_line e) = entry_line e \<and> entry_line e \<noteq> [] \<and> \<not> iscomment (entry_line e)"
proof -
  have n: "\<exists>c t. show_int v @ s = c # t \<and> number_char c" for v s using show_int_chars [of v] by (cases "show_int v") auto
  have "\<exists>c t. entry_line e = c # t \<and> (c_isalpha c \<or> number_char c)"
  proof (cases e)
    case (EFrame k v)
    then show ?thesis using n [of k "CHR '' '' # show_int v"] by auto
  qed (auto simp: c_class_defs)
  then obtain c s where e: "entry_line e = c # s" "c_isalpha c \<or> number_char c" by blast
  then have "\<not> c_isspace c" "c \<notin> {CHR ''#'', CHR '';'', CHR ''%''}"
    using number_char_facts [of c] by (auto simp: c_isalpha_def c_isspace_def cc_def)
  then show ?thesis using e by (simp add: iscomment_def skipspaces_start)
qed

lemma read_entries:
  "int_reader n r \<Longrightarrow> list_all entry_ok es \<Longrightarrow>
   read_lines sf n junk k (map entry_line es) r = Inr (fold (entry_effect n) es r)"
proof (induction es arbitrary: k r)
  case (Cons e es)
  have "cmode r \<noteq> MODE_UNKNOWN" using Cons.prems(1) by (simp add: int_reader_def)
  then show ?case
    using Cons entry_start [of e] line_entry [of n r e sf "k + 1"] entry_effect_int [of n r e] by (simp add: Let_def bind_Inr)
qed simp

lemma fold_entries:
  "frame_vals r = map (\<lambda>i. VInt (g i)) [0..<m] \<Longrightarrow>
   fold (entry_effect n) es r = r\<lparr>roffset := fold (\<lambda>e d. offset_after d e) es (roffset r),
     frame_vals := map (\<lambda>i. VInt (frame_meaning n (roffset r) (int i) (g i) es)) [0..<m]\<rparr>"
proof (induction es arbitrary: r g)
  case (Cons e es)
  let ?g = "\<lambda>i. case covers n (roffset r) (int i) e of Some u \<Rightarrow> u | None \<Rightarrow> g i"
  have "frame_vals (entry_effect n e r) = map (\<lambda>i. VInt (?g i)) [0..<m]"
    using Cons.prems by (auto simp: entry_effect_def split: option.splits)
  then show ?case using Cons.IH [of "entry_effect n e r" ?g] by (simp add: entry_effect_def)
qed simp

text \<open>The lines of a file.\<close>

lemma file_lines_line:
  assumes "list_all (\<lambda>c. c \<noteq> NUL \<and> c \<noteq> char_of (10::nat) \<and> c \<noteq> char_of (13::nat)) l"
  shows "file_lines (l @ char_of (10::nat) # s) = l # file_lines s"
proof -
  obtain c t where c: "l @ char_of (10::nat) # s = c # t" by (cases l) auto
  have a: "\<forall>c\<in>set l. c \<noteq> char_of (10::nat)" and z: "NUL \<notin> set l" and r: "char_of (13::nat) \<notin> set l"
    using assms by (auto simp: list_all_iff)
  have "takeWhile (\<lambda>c. c \<noteq> char_of (10::nat)) (c # t) = l" "dropWhile (\<lambda>c. c \<noteq> char_of (10::nat)) (c # t) = char_of (10::nat) # s"
    using a unfolding c [symmetric] by (simp_all add: takeWhile_append2 dropWhile_append2)
  moreover have "strip_cr l = l" using r last_in_set [of l] unfolding strip_cr_def by metis
  ultimately show ?thesis unfolding c file_lines.simps Let_def using z by (simp add: cstr_id del: takeWhile.simps dropWhile.simps)
qed

lemma entry_line_chars: "list_all (\<lambda>c. c \<noteq> NUL \<and> c \<noteq> char_of (10::nat) \<and> c \<noteq> char_of (13::nat)) (entry_line e)"
proof -
  have n: "list_all (\<lambda>c. c \<noteq> NUL \<and> c \<noteq> char_of (10::nat) \<and> c \<noteq> char_of (13::nat)) (show_int v)" for v
    using show_int_chars [of v] number_char_facts by (auto simp: list_all_iff)
  have ends: "char_of (10::nat) = CHR 0x0A" "char_of (13::nat) = CHR 0x0D" by code_simp+
  show ?thesis using n [unfolded ends] unfolding ends by (cases e) simp_all
qed

lemma file_lines_list:
  "\<forall>l\<in>set ls. list_all (\<lambda>c. c \<noteq> NUL \<and> c \<noteq> char_of (10::nat) \<and> c \<noteq> char_of (13::nat)) l \<Longrightarrow>
   file_lines (concat (map (\<lambda>l. l @ [char_of (10::nat)]) ls)) = ls"
  by (induction ls) (simp_all add: file_lines_line)

lemma file_lines_entries: "file_lines (entry_file es) = ''Type int'' # map entry_line es"
proof -
  have "list_all (\<lambda>c. c \<noteq> NUL \<and> c \<noteq> char_of (10::nat) \<and> c \<noteq> char_of (13::nat)) ''Type int''" by code_simp
  then have "\<forall>l\<in>set (''Type int'' # map entry_line es). list_all (\<lambda>c. c \<noteq> NUL \<and> c \<noteq> char_of (10::nat) \<and> c \<noteq> char_of (13::nat)) l"
    using entry_line_chars by auto
  then show ?thesis unfolding entry_file_def by (rule file_lines_list)
qed

text \<open>The declaration of the type fills the array with zeros.\<close>

lemma type_line:
  assumes "int (length junk) = n" "n \<le> 2 ^ 30"
  shows "line_untyped n junk k ''Type int'' \<lparr>cmode = MODE_UNKNOWN, roffset = 0, frame_vals = []\<rparr> =
    Inr \<lparr>cmode = MODE_INT, roffset = 0, frame_vals = map (\<lambda>i. VInt 0) [0..<nat n]\<rparr>"
proof -
  have kw: "word_of ''Type int'' = ''Type''" "findspace ''Type int'' = '' int''" "word_of (skipspaces ''int'') = ''int''" by code_simp+
  have ty: "type_mode ''int'' = Some MODE_INT" by code_simp
  have w: "wrap32 0 = 0" "wrap32 (n - 1) = n - 1" using assms by (auto simp: is_int32_def int_limits intro!: wrap32_id)
  have "fold (\<lambda>i vs. vs[nat i := VInt 0]) [0..n - 1] junk = map (\<lambda>i. VInt 0) [0..<nat n]"
    using assms(1) by (intro nth_equalityI) (auto simp: fold_update_length fold_update_nth)
  then show ?thesis using w by (simp add: line_untyped_def Let_def kw keyword_same ty SetRange_def zero_value_def bind_Inr)
qed



text \<open>Interpolating from \<open>-10\<close> to \<open>-10\<close> over two frames stores \<open>-9\<close> in both: adding a half and
  cutting off rounds a negative number upwards.\<close>

lemma interpolate_negative:
  "ConditionalReader (\<lambda>s. None) 2 [VUndefined, VUndefined] ''f''
     (Some (''Type int'' @ char_of (10::nat) # ''Interpolate 0 1 -10 -10'')) =
   Inr \<lparr>cmode = MODE_INT, roffset = 0, frame_vals = [VInt (- 9), VInt (- 9)]\<rparr>"
  by code_simp

theorem reader_values_typed_witness:
  "int (length [VInt (- 9), VInt (- 9)]) = 2 \<and> stored_value MODE_INT
     (GetFrameValue 2 \<lparr>cmode = MODE_INT, roffset = 0, frame_vals = [VInt (- 9), VInt (- 9)]\<rparr> 7)"
  using reader_values_typed [OF interpolate_negative, of 7] by (simp add: int_limits)

end
